(* ===== verification/Prelude.thy ===== *)
theory Prelude
  imports Main "HOL-Library.Char_ord" "HOL-Library.List_Lexorder" "HOL-Library.Monad_Syntax"
begin

text \<open>
  The shared vocabulary of the development: Rust's \<open>str\<close> as a list of bytes (a HOL
  \<open>char\<close> is one byte of the UTF-8 encoding, so \<open>length\<close> is \<open>str::len\<close>), the ASCII
  character classes, the \<open>str\<close> methods the modelled code calls (\<open>split\<close>,
  \<open>split_once\<close>, \<open>rsplit_once\<close>, \<open>strip_prefix\<close>, \<open>find\<close>, \<open>join\<close>), the \<open>?\<close> operator on
  \<open>Result\<close>, and the sorted duplicate-free list that a \<open>BTreeSet<String>\<close> iterates over.
\<close>

section \<open>Hint collections\<close>

named_theorems text_simps \<open>characteristic equations of the string methods\<close>
named_theorems ascii_simps \<open>definitions of the ASCII character classes\<close>

section \<open>Results\<close>

text \<open>\<open>Result<T, E>\<close> is \<open>'e + 'a\<close> with \<open>Inl\<close> the error; \<open>res_bind\<close> is the \<open>?\<close> operator.\<close>

definition res_bind :: "'e + 'a \<Rightarrow> ('a \<Rightarrow> 'e + 'b) \<Rightarrow> 'e + 'b" where
  "res_bind r f = (case r of Inl e \<Rightarrow> Inl e | Inr x \<Rightarrow> f x)"

definition is_ok :: "'e + 'a \<Rightarrow> bool" where
  "is_ok r = (case r of Inl _ \<Rightarrow> False | Inr _ \<Rightarrow> True)"

definition ok_or :: "'a option \<Rightarrow> 'e \<Rightarrow> 'e + 'a" where
  "ok_or v e = (case v of None \<Rightarrow> Inl e | Some x \<Rightarrow> Inr x)"

definition map_err :: "('e \<Rightarrow> 'f) \<Rightarrow> 'e + 'a \<Rightarrow> 'f + 'a" where
  "map_err f r = (case r of Inl e \<Rightarrow> Inl (f e) | Inr x \<Rightarrow> Inr x)"

lemma res_bind_simps [simp]:
  "res_bind (Inl e) f = Inl e"
  "res_bind (Inr x) f = f x"
  by (simp_all add: res_bind_def)

lemma res_bind_Inr_iff [simp]:
  "res_bind r f = Inr y \<longleftrightarrow> (\<exists>x. r = Inr x \<and> f x = Inr y)"
  by (cases r) simp_all

lemma is_ok_simps [simp]: "is_ok (Inl e) = False" "is_ok (Inr x) = True"
  by (simp_all add: is_ok_def)

lemma is_ok_iff: "is_ok r \<longleftrightarrow> (\<exists>x. r = Inr x)"
  by (cases r) simp_all

lemma ok_or_simps [simp]: "ok_or None e = Inl e" "ok_or (Some x) e = Inr x"
  by (simp_all add: ok_or_def)

lemma map_err_simps [simp]: "map_err f (Inl e) = Inl (f e)" "map_err f (Inr x) = Inr x"
  by (simp_all add: map_err_def)

lemma map_err_Inr_iff [simp]: "map_err f r = Inr y \<longleftrightarrow> r = Inr y"
  by (cases r) simp_all

text \<open>\<open>iter().map(f).collect::<Result<Vec<_>, _>>()\<close>: the first error, or all the values.\<close>

fun collect_results :: "('a \<Rightarrow> 'e + 'b) \<Rightarrow> 'a list \<Rightarrow> 'e + 'b list" where
  "collect_results f [] = Inr []"
| "collect_results f (x # xs) =
     (case f x of Inl e \<Rightarrow> Inl e
      | Inr y \<Rightarrow> (case collect_results f xs of Inl e \<Rightarrow> Inl e | Inr ys \<Rightarrow> Inr (y # ys)))"

lemma collect_results_Inr_iff:
  "collect_results f xs = Inr ys \<longleftrightarrow> list_all2 (\<lambda>x y. f x = Inr y) xs ys"
proof (induction xs arbitrary: ys)
  case Nil
  then show ?case by (cases ys) auto
next
  case (Cons x xs)
  show ?case by (cases ys) (auto simp: Cons.IH[symmetric] split: sum.splits)
qed

lemma collect_results_cong [fundef_cong]:
  "xs = ys \<Longrightarrow> (\<And>x. x \<in> set ys \<Longrightarrow> f x = g x) \<Longrightarrow> collect_results f xs = collect_results g ys"
proof (induction xs arbitrary: ys)
  case Nil
  then show ?case by simp
next
  case (Cons x xs)
  then show ?case by (auto split: sum.splits)
qed

section \<open>ASCII classes\<close>

type_synonym str = string

abbreviation byte :: "char \<Rightarrow> nat" where "byte c \<equiv> of_char c"

definition is_ascii :: "char \<Rightarrow> bool" where
  [ascii_simps]: "is_ascii c \<longleftrightarrow> byte c < 128"
definition is_lower :: "char \<Rightarrow> bool" where
  [ascii_simps]: "is_lower c \<longleftrightarrow> 97 \<le> byte c \<and> byte c \<le> 122"
definition is_upper :: "char \<Rightarrow> bool" where
  [ascii_simps]: "is_upper c \<longleftrightarrow> 65 \<le> byte c \<and> byte c \<le> 90"
definition is_digit :: "char \<Rightarrow> bool" where
  [ascii_simps]: "is_digit c \<longleftrightarrow> 48 \<le> byte c \<and> byte c \<le> 57"
definition is_alpha :: "char \<Rightarrow> bool" where
  [ascii_simps]: "is_alpha c \<longleftrightarrow> is_lower c \<or> is_upper c"
definition is_alnum :: "char \<Rightarrow> bool" where
  [ascii_simps]: "is_alnum c \<longleftrightarrow> is_alpha c \<or> is_digit c"
definition is_hexdigit :: "char \<Rightarrow> bool" where
  [ascii_simps]: "is_hexdigit c \<longleftrightarrow> is_digit c \<or> (97 \<le> byte c \<and> byte c \<le> 102) \<or> (65 \<le> byte c \<and> byte c \<le> 70)"

definition to_lower :: "char \<Rightarrow> char" where
  "to_lower c = (if is_upper c then char_of (byte c + 32) else c)"
definition to_upper :: "char \<Rightarrow> char" where
  "to_upper c = (if is_lower c then char_of (byte c - 32) else c)"

definition ascii_lowercase :: "str \<Rightarrow> str" where
  "ascii_lowercase s = map to_lower s"
definition ascii_uppercase :: "str \<Rightarrow> str" where
  "ascii_uppercase s = map to_upper s"

lemma byte_eq_iff: "c = d \<longleftrightarrow> byte c = (byte d :: nat)"
  by (metis char_of_char)

lemma byte_less_256 [simp]: "byte c < 256"
  using of_char_mod_256 [of c] by (metis mod_less_divisor zero_less_numeral)

lemma is_alnum_is_ascii: "is_alnum c \<Longrightarrow> is_ascii c"
  by (auto simp: ascii_simps)

section \<open>String methods\<close>

text \<open>\<open>str::split\<close> on one ASCII character: never empty, pieces free of the separator.\<close>

fun split_on :: "char \<Rightarrow> str \<Rightarrow> str list" where
  "split_on d [] = [[]]"
| "split_on d (c # cs) =
     (if c = d then [] # split_on d cs
      else (case split_on d cs of [] \<Rightarrow> [[c]] | w # ws \<Rightarrow> (c # w) # ws))"

fun join_with :: "str \<Rightarrow> str list \<Rightarrow> str" where
  "join_with sep [] = []"
| "join_with sep [w] = w"
| "join_with sep (w # ws) = w @ sep @ join_with sep ws"

fun split_once :: "char \<Rightarrow> str \<Rightarrow> (str \<times> str) option" where
  "split_once d [] = None"
| "split_once d (c # cs) =
     (if c = d then Some ([], cs)
      else map_option (\<lambda>(a, b). (c # a, b)) (split_once d cs))"

definition rsplit_once :: "char \<Rightarrow> str \<Rightarrow> (str \<times> str) option" where
  "rsplit_once d s = map_option (\<lambda>(a, b). (rev b, rev a)) (split_once d (rev s))"

fun strip_prefix :: "str \<Rightarrow> str \<Rightarrow> str option" where
  "strip_prefix [] s = Some s"
| "strip_prefix (p # ps) [] = None"
| "strip_prefix (p # ps) (c # cs) = (if p = c then strip_prefix ps cs else None)"

definition strip_suffix :: "str \<Rightarrow> str \<Rightarrow> str option" where
  "strip_suffix p s = map_option rev (strip_prefix (rev p) (rev s))"

definition starts_with :: "str \<Rightarrow> str \<Rightarrow> bool" where
  "starts_with p s \<longleftrightarrow> strip_prefix p s \<noteq> None"

definition ends_with :: "str \<Rightarrow> str \<Rightarrow> bool" where
  "ends_with p s \<longleftrightarrow> strip_suffix p s \<noteq> None"

text \<open>\<open>str::contains\<close> on a pattern string.\<close>

fun contains_str :: "str \<Rightarrow> str \<Rightarrow> bool" where
  "contains_str p [] = (p = [])"
| "contains_str p (c # cs) = (starts_with p (c # cs) \<or> contains_str p cs)"

text \<open>\<open>str::find\<close> on one character: the byte index of the first occurrence.\<close>

fun find_char :: "char \<Rightarrow> str \<Rightarrow> nat option" where
  "find_char d [] = None"
| "find_char d (c # cs) = (if c = d then Some 0 else map_option Suc (find_char d cs))"

text \<open>The decimal rendering of a number, as \<open>format!("{n}")\<close> writes it.\<close>

fun nat_str :: "nat \<Rightarrow> str" where
  "nat_str n = (if n < 10 then [char_of (48 + n)] else nat_str (n div 10) @ [char_of (48 + n mod 10)])"

declare nat_str.simps [simp del]

section \<open>Facts about the string methods\<close>

lemma split_on_not_Nil [simp]: "split_on d s \<noteq> []"
  by (cases s) (auto split: list.splits)

lemma split_on_no_sep: "d \<notin> set s \<Longrightarrow> split_on d s = [s]"
  by (induction s) auto

lemma split_on_app:
  "d \<notin> set w \<Longrightarrow> split_on d (w @ d # s) = w # split_on d s"
  by (induction w) auto

lemma join_with_Cons: "ws \<noteq> [] \<Longrightarrow> join_with sep (w # ws) = w @ sep @ join_with sep ws"
  by (cases ws) auto

lemma join_split_on [simp]: "join_with [d] (split_on d s) = s"
proof (induction s)
  case Nil
  then show ?case by simp
next
  case (Cons c cs)
  obtain w ws where ws: "split_on d cs = w # ws"
    using split_on_not_Nil by (cases "split_on d cs") auto
  show ?case
  proof (cases "c = d")
    case True
    with Cons ws show ?thesis by (simp add: join_with_Cons)
  next
    case False
    have "join_with [d] ((c # w) # ws) = c # join_with [d] (w # ws)"
      by (cases ws) auto
    with Cons ws False show ?thesis by simp
  qed
qed

lemma split_on_join:
  "ws \<noteq> [] \<Longrightarrow> (\<And>w. w \<in> set ws \<Longrightarrow> d \<notin> set w) \<Longrightarrow> split_on d (join_with [d] ws) = ws"
proof (induction ws)
  case Nil
  then show ?case by simp
next
  case (Cons w ws)
  show ?case
  proof (cases "ws = []")
    case True
    with Cons.prems show ?thesis by (simp add: split_on_no_sep)
  next
    case False
    with Cons show ?thesis by (simp add: join_with_Cons split_on_app)
  qed
qed

lemma split_on_pieces: "w \<in> set (split_on d s) \<Longrightarrow> d \<notin> set w"
proof (induction s arbitrary: w)
  case Nil
  then show ?case by simp
next
  case (Cons c cs)
  obtain v vs where vs: "split_on d cs = v # vs"
    using split_on_not_Nil by (cases "split_on d cs") auto
  then have "d \<notin> set v" and "\<And>u. u \<in> set vs \<Longrightarrow> d \<notin> set u"
    using Cons.IH by auto
  with Cons.prems vs show ?case by (auto split: if_splits)
qed

lemma set_split_on: "w \<in> set (split_on d s) \<Longrightarrow> set w \<subseteq> set s"
proof (induction s arbitrary: w)
  case Nil
  then show ?case by simp
next
  case (Cons c cs)
  then show ?case by (fastforce split: list.splits if_splits)
qed

lemma set_join_with:
  "set (join_with sep ws) \<subseteq> (\<Union>w\<in>set ws. set w) \<union> set sep"
  by (induction sep ws rule: join_with.induct) auto

lemma join_with_free:
  "(\<And>w. w \<in> set ws \<Longrightarrow> c \<notin> set w) \<Longrightarrow> c \<notin> set sep \<Longrightarrow> c \<notin> set (join_with sep ws)"
  using set_join_with [of sep ws] by blast

lemma set_via_split_on: "set s \<subseteq> (\<Union>w\<in>set (split_on d s). set w) \<union> {d}"
  using set_join_with [of "[d]" "split_on d s"] by simp

lemma split_once_Some:
  "split_once d s = Some (a, b) \<longleftrightarrow> s = a @ d # b \<and> d \<notin> set a"
proof (induction s arbitrary: a)
  case Nil
  then show ?case by simp
next
  case (Cons c cs)
  show ?case by (cases a) (auto simp: Cons.IH)
qed

lemma split_once_None: "split_once d s = None \<longleftrightarrow> d \<notin> set s"
  by (induction s) auto

lemma split_once_app [simp]: "d \<notin> set a \<Longrightarrow> split_once d (a @ d # b) = Some (a, b)"
  by (simp add: split_once_Some)

lemma rsplit_once_Some:
  "rsplit_once d s = Some (a, b) \<longleftrightarrow> s = a @ d # b \<and> d \<notin> set b"
proof -
  have "rsplit_once d s = Some (a, b) \<longleftrightarrow> split_once d (rev s) = Some (rev b, rev a)"
    unfolding rsplit_once_def by (cases "split_once d (rev s)") auto
  also have "\<dots> \<longleftrightarrow> rev s = rev b @ d # rev a \<and> d \<notin> set b"
    by (simp add: split_once_Some)
  also have "rev s = rev b @ d # rev a \<longleftrightarrow> s = a @ d # b"
    by (metis append.assoc append_Cons append_Nil rev.simps(2) rev_append rev_rev_ident)
  finally show ?thesis .
qed

lemma split_once_hd_split_on:
  "split_on d s = (case split_once d s of None \<Rightarrow> [s] | Some (a, b) \<Rightarrow> a # split_on d b)"
  by (auto split: option.splits simp: split_once_None split_on_no_sep split_once_Some split_on_app)

lemma strip_prefix_Some [text_simps]: "strip_prefix p s = Some r \<longleftrightarrow> s = p @ r"
  by (induction p s rule: strip_prefix.induct) auto

lemma strip_prefix_append [simp]: "strip_prefix p (p @ r) = Some r"
  by (simp add: strip_prefix_Some)

lemma strip_suffix_Some [text_simps]: "strip_suffix p s = Some r \<longleftrightarrow> s = r @ p"
proof -
  have "strip_suffix p s = Some r \<longleftrightarrow> strip_prefix (rev p) (rev s) = Some (rev r)"
    unfolding strip_suffix_def by (cases "strip_prefix (rev p) (rev s)") auto
  then show ?thesis
    by (simp add: strip_prefix_Some) (metis rev_append rev_rev_ident)
qed

lemma starts_with_iff [text_simps]: "starts_with p s \<longleftrightarrow> (\<exists>r. s = p @ r)"
  unfolding starts_with_def by (metis not_Some_eq strip_prefix_Some)

lemma ends_with_iff [text_simps]: "ends_with p s \<longleftrightarrow> (\<exists>r. s = r @ p)"
  unfolding ends_with_def by (metis not_Some_eq strip_suffix_Some)

lemma starts_with_append [simp]: "starts_with p (p @ r)"
  by (simp add: starts_with_iff)

lemma contains_str_iff: "contains_str p s \<longleftrightarrow> (\<exists>a b. s = a @ p @ b)"
proof (induction s)
  case Nil
  then show ?case by simp
next
  case (Cons c cs)
  have "contains_str p (c # cs) \<longleftrightarrow> (\<exists>r. c # cs = p @ r) \<or> (\<exists>a b. cs = a @ p @ b)"
    using Cons by (simp add: starts_with_iff)
  also have "\<dots> \<longleftrightarrow> (\<exists>a b. c # cs = a @ p @ b)"
    by (metis (no_types, opaque_lifting) append_Cons append_Nil list.inject neq_Nil_conv)
  finally show ?case .
qed

lemma find_char_None [simp]: "find_char d s = None \<longleftrightarrow> d \<notin> set s"
  by (induction s) auto

lemma find_char_Some:
  "find_char d s = Some i \<longleftrightarrow> (\<exists>a b. s = a @ d # b \<and> d \<notin> set a \<and> length a = i)"
proof (induction s arbitrary: i)
  case Nil
  then show ?case by simp
next
  case (Cons c cs)
  show ?case
  proof (cases "c = d")
    case True
    then show ?thesis by (auto simp: Cons_eq_append_conv)
  next
    case False
    have "(\<exists>a b. c # cs = a @ d # b \<and> d \<notin> set a \<and> length a = i) \<longleftrightarrow>
          (\<exists>j. i = Suc j \<and> (\<exists>a b. cs = a @ d # b \<and> d \<notin> set a \<and> length a = j))"
      (is "?L \<longleftrightarrow> ?R")
    proof
      assume ?L
      then obtain a b where ab: "c # cs = a @ d # b" "d \<notin> set a" "length a = i" by blast
      with False obtain a' where "a = c # a'" by (cases a) auto
      with ab show ?R by auto
    next
      assume ?R
      then obtain a b j where "i = Suc j" "cs = a @ d # b" "d \<notin> set a" "length a = j" by blast
      with False have "c # cs = (c # a) @ d # b \<and> d \<notin> set (c # a) \<and> length (c # a) = i" by simp
      then show ?L by blast
    qed
    with False Cons.IH show ?thesis by auto
  qed
qed

lemma find_char_app [simp]: "d \<notin> set a \<Longrightarrow> find_char d (a @ d # b) = Some (length a)"
  by (auto simp: find_char_Some)

section \<open>Sorted duplicate-free lists\<close>

text \<open>
  Collecting into a \<open>BTreeSet<String>\<close> and back: byte-lexicographic order, no duplicates.
\<close>

definition dedupe_sorted :: "str list \<Rightarrow> str list" where
  "dedupe_sorted values = sort (remdups values)"

lemma set_dedupe_sorted [simp]: "set (dedupe_sorted xs) = set xs"
  by (simp add: dedupe_sorted_def)

lemma sorted_dedupe_sorted [simp]: "sorted (dedupe_sorted xs)"
  by (simp add: dedupe_sorted_def)

lemma distinct_dedupe_sorted [simp]: "distinct (dedupe_sorted xs)"
  by (simp add: dedupe_sorted_def)

lemma dedupe_sorted_id: "sorted xs \<Longrightarrow> distinct xs \<Longrightarrow> dedupe_sorted xs = xs"
  by (simp add: dedupe_sorted_def distinct_remdups_id sorted_sort_id)

lemma dedupe_sorted_idem [simp]: "dedupe_sorted (dedupe_sorted xs) = dedupe_sorted xs"
  by (simp add: dedupe_sorted_id)

lemma dedupe_sorted_eq_iff: "dedupe_sorted xs = dedupe_sorted ys \<longleftrightarrow> set xs = set ys"
proof
  assume "set xs = set ys"
  then show "dedupe_sorted xs = dedupe_sorted ys"
    by (intro sorted_distinct_set_unique) simp_all
qed (metis set_dedupe_sorted)

lemma dedupe_sorted_Nil_iff [simp]: "dedupe_sorted xs = [] \<longleftrightarrow> xs = []"
  by (metis set_dedupe_sorted set_empty)

section \<open>Step functions and simulation\<close>

text \<open>
  A component with state is a step function from a state and an input to a state and an output;
  \<open>run\<close> collects the outputs of a sequence of inputs.
\<close>

fun run :: "('s \<Rightarrow> 'i \<Rightarrow> 's \<times> 'o) \<Rightarrow> 's \<Rightarrow> 'i list \<Rightarrow> 's \<times> 'o list" where
  "run step s [] = (s, [])"
| "run step s (i # is) =
     (case step s i of (s1, out) \<Rightarrow> (case run step s1 is of (s2, outs) \<Rightarrow> (s2, out # outs)))"

text \<open>
  The interface of a refinement: \<open>cstep\<close> implements \<open>astep\<close> under the relation \<open>rel\<close> for the
  inputs that \<open>ok\<close> admits.
\<close>

locale simulation =
  fixes cstep :: "'c \<Rightarrow> 'i \<Rightarrow> 'c \<times> 'o"
    and astep :: "'a \<Rightarrow> 'i \<Rightarrow> 'a \<times> 'o"
    and rel :: "'c \<Rightarrow> 'a \<Rightarrow> bool"
    and ok :: "'a \<Rightarrow> 'i \<Rightarrow> bool"
  assumes step_rel: "rel c a \<Longrightarrow> ok a i \<Longrightarrow> rel (fst (cstep c i)) (fst (astep a i))"
    and step_out: "rel c a \<Longrightarrow> ok a i \<Longrightarrow> snd (cstep c i) = snd (astep a i)"
begin

fun guarded :: "'a \<Rightarrow> 'i list \<Rightarrow> bool" where
  "guarded a [] = True"
| "guarded a (i # is) = (ok a i \<and> guarded (fst (astep a i)) is)"

lemma run_simulates:
  "rel c a \<Longrightarrow> guarded a is \<Longrightarrow>
   rel (fst (run cstep c is)) (fst (run astep a is)) \<and> snd (run cstep c is) = snd (run astep a is)"
proof (induction "is" arbitrary: c a)
  case Nil
  then show ?case by simp
next
  case (Cons i "is")
  obtain c1 out where c: "cstep c i = (c1, out)" by (cases "cstep c i")
  obtain a1 out' where a: "astep a i = (a1, out')" by (cases "astep a i")
  have "rel c1 a1" "out = out'"
    using step_rel [OF Cons.prems(1), of i] step_out [OF Cons.prems(1), of i] Cons.prems(2) c a by auto
  then show ?case
    using Cons.IH [of c1 a1] Cons.prems(2) c a by (simp add: case_prod_beta)
qed

end

end
