(* ===== verification/Ident.thy ===== *)
theory Ident
  imports Prelude
begin

text \<open>
  AT Protocol identifiers, from \<^verbatim>\<open>crates/common/src/ident.rs\<close>: the syntax validators
  \<open>is_valid_did\<close>, \<open>validate_label\<close> and \<open>validate_handle_structure\<close>, and the parsed types
  \<open>Did\<close> and \<open>Handle\<close> that can only be built through them. A \<open>&'static str\<close> error is its
  message. The derived \<open>Ord\<close> of both types is the \<open>linorder\<close> instance.
\<close>

section \<open>DIDs\<close>

definition max_did_len :: nat where "max_did_len = 2048"
definition max_handle_len :: nat where "max_handle_len = 253"
definition max_label_len :: nat where "max_label_len = 63"

lemmas ident_limits = max_did_len_def max_handle_len_def max_label_len_def

definition did_plain_byte :: "char \<Rightarrow> bool" where
  "did_plain_byte c \<longleftrightarrow> is_alnum c \<or> c = CHR ''.'' \<or> c = CHR ''-'' \<or> c = CHR ''_'' \<or> c = CHR '':''"

text \<open>The \<open>while let Some(byte) = bytes.next()\<close> loop of \<open>is_valid_did\<close>.\<close>

fun did_bytes_ok :: "str \<Rightarrow> bool" where
  "did_bytes_ok [] = True"
| "did_bytes_ok (c # cs) =
     (if did_plain_byte c then did_bytes_ok cs
      else if c = CHR ''%'' then
        (case cs of
           high # low # rest \<Rightarrow>
             (if \<not> is_hexdigit high \<or> \<not> is_hexdigit low then False else did_bytes_ok rest)
         | _ \<Rightarrow> False)
      else False)"

definition is_valid_did :: "str \<Rightarrow> bool" where
  "is_valid_did did =
     (if length did > max_did_len then False
      else (case strip_prefix ''did:'' did of
        None \<Rightarrow> False
      | Some rest \<Rightarrow>
          (case split_once CHR '':'' rest of
            None \<Rightarrow> False
          | Some (meth, msid) \<Rightarrow>
              (if meth = [] \<or> \<not> list_all is_lower meth \<or> msid = [] \<or> ends_with '':'' msid
               then False else did_bytes_ok msid))))"

section \<open>Handles\<close>

text \<open>\<open>validate_label\<close>: one DNS label.\<close>

definition validate_label :: "str \<Rightarrow> str + unit" where
  "validate_label label =
     (if label = [] then Inl ''handle labels must not be empty''
      else if length label > max_label_len
        then Inl ''handle label exceeds maximum DNS label length of 63 characters''
      else if starts_with ''-'' label \<or> ends_with ''-'' label
        then Inl ''handle labels cannot start or end with a hyphen''
      else if \<not> list_all (\<lambda>c. is_alnum c \<or> c = CHR ''-'') label
        then Inl ''handle labels may only contain letters, digits, and hyphens''
      else Inr ())"

text \<open>The loop \<open>for label in &labels { validate_label(label)?; }\<close>.\<close>

fun validate_labels :: "str list \<Rightarrow> str + unit" where
  "validate_labels [] = Inr ()"
| "validate_labels (l # ls) = res_bind (validate_label l) (\<lambda>_. validate_labels ls)"

definition leading_digit :: "str \<Rightarrow> bool" where
  "leading_digit s = (case s of [] \<Rightarrow> False | c # _ \<Rightarrow> is_digit c)"

definition validate_handle_structure :: "str \<Rightarrow> str + str" where
  "validate_handle_structure handle =
     (if handle = [] then Inl ''handle must not be empty''
      else if length handle > max_handle_len then Inl ''handle must be at most 253 characters''
      else let labels = split_on CHR ''.'' handle in
        if length labels < 2
          then Inl ''handle must be a domain name with at least two parts (e.g. alice.example.com)''
        else res_bind (validate_labels labels) (\<lambda>_.
          if leading_digit (last labels)
            then Inl ''handle's final label must not start with a digit''
          else Inr (hd labels)))"

section \<open>The parsed types\<close>

datatype invalid_identifier = InvalidIdentifier str

datatype did = Did (did_str: str)

definition did_parse :: "str \<Rightarrow> invalid_identifier + did" where
  "did_parse s = (if is_valid_did s then Inr (Did s)
                  else Inl (InvalidIdentifier ''invalid DID syntax''))"

datatype handle = Handle (handle_value: str) (handle_dot: nat)

definition handle_parse :: "str \<Rightarrow> invalid_identifier + handle" where
  "handle_parse s =
     res_bind (map_err InvalidIdentifier (validate_handle_structure s))
       (\<lambda>first. Inr (Handle s (length first)))"

text \<open>\<open>name\<close> and \<open>domain\<close> slice the stored string at the stored offset.\<close>

definition handle_name :: "handle \<Rightarrow> str" where
  "handle_name h = take (handle_dot h) (handle_value h)"

definition handle_domain :: "handle \<Rightarrow> str" where
  "handle_domain h = drop (handle_dot h + 1) (handle_value h)"

text \<open>\<open>#[derive(PartialOrd, Ord)]\<close>: the fields in order of declaration.\<close>

definition did_le :: "did \<Rightarrow> did \<Rightarrow> bool" where
  "did_le a b \<longleftrightarrow> did_str a \<le> did_str b"

definition did_lt :: "did \<Rightarrow> did \<Rightarrow> bool" where
  "did_lt a b \<longleftrightarrow> did_str a < did_str b"

definition handle_le :: "handle \<Rightarrow> handle \<Rightarrow> bool" where
  "handle_le a b \<longleftrightarrow>
     handle_value a < handle_value b \<or> (handle_value a = handle_value b \<and> handle_dot a \<le> handle_dot b)"

definition handle_lt :: "handle \<Rightarrow> handle \<Rightarrow> bool" where
  "handle_lt a b \<longleftrightarrow>
     handle_value a < handle_value b \<or> (handle_value a = handle_value b \<and> handle_dot a < handle_dot b)"

instantiation did :: linorder
begin

definition less_eq_did :: "did \<Rightarrow> did \<Rightarrow> bool" where "less_eq_did = did_le"
definition less_did :: "did \<Rightarrow> did \<Rightarrow> bool" where "less_did = did_lt"

instance
  by standard (auto simp: less_eq_did_def less_did_def did_le_def did_lt_def did.expand)

end

instantiation handle :: linorder
begin

definition less_eq_handle :: "handle \<Rightarrow> handle \<Rightarrow> bool" where "less_eq_handle = handle_le"
definition less_handle :: "handle \<Rightarrow> handle \<Rightarrow> bool" where "less_handle = handle_lt"

instance
  by standard (auto simp: less_eq_handle_def less_handle_def handle_le_def handle_lt_def intro: handle.expand)

end

section \<open>What the validators accept\<close>

lemma validate_label_ok_iff:
  "validate_label l = Inr () \<longleftrightarrow>
     l \<noteq> [] \<and> length l \<le> 63 \<and> hd l \<noteq> CHR ''-'' \<and> last l \<noteq> CHR ''-'' \<and>
     (\<forall>c\<in>set l. is_alnum c \<or> c = CHR ''-'')"
proof (cases "l = []")
  case True
  then show ?thesis by (simp add: validate_label_def)
next
  case False
  have s: "starts_with ''-'' l \<longleftrightarrow> hd l = CHR ''-''"
    using False by (cases l) (auto simp: starts_with_iff)
  have "ends_with ''-'' l \<longleftrightarrow> last l = CHR ''-''"
    using False by (metis append_butlast_last_id ends_with_iff last_snoc)
  with s False show ?thesis
    by (auto simp: validate_label_def list_all_iff ident_limits)
qed

lemma validate_labels_ok_iff:
  "validate_labels ls = Inr () \<longleftrightarrow> (\<forall>l\<in>set ls. validate_label l = Inr ())"
  by (induction ls) auto

definition valid_label :: "str \<Rightarrow> bool" where
  "valid_label l \<longleftrightarrow> l \<noteq> [] \<and> length l \<le> 63 \<and> hd l \<noteq> CHR ''-'' \<and> last l \<noteq> CHR ''-'' \<and>
     (\<forall>c\<in>set l. is_alnum c \<or> c = CHR ''-'')"

lemma dot_not_in_label: "valid_label l \<Longrightarrow> CHR ''.'' \<notin> set l"
  by (auto simp: valid_label_def ascii_simps)

lemma validate_handle_structure_ok_iff:
  "validate_handle_structure h = Inr n \<longleftrightarrow>
     h \<noteq> [] \<and> length h \<le> 253 \<and> 2 \<le> length (split_on CHR ''.'' h) \<and>
     (\<forall>l\<in>set (split_on CHR ''.'' h). valid_label l) \<and>
     \<not> leading_digit (last (split_on CHR ''.'' h)) \<and> n = hd (split_on CHR ''.'' h)"
  by (auto simp: validate_handle_structure_def Let_def ident_limits
      validate_labels_ok_iff validate_label_ok_iff valid_label_def)

lemma is_valid_did_iff:
  "is_valid_did d \<longleftrightarrow>
     (\<exists>meth msid. d = ''did:'' @ meth @ '':'' @ msid \<and> length d \<le> 2048 \<and>
        meth \<noteq> [] \<and> (\<forall>c\<in>set meth. is_lower c) \<and>
        msid \<noteq> [] \<and> last msid \<noteq> CHR '':'' \<and> did_bytes_ok msid)"
  (is "_ \<longleftrightarrow> (\<exists>meth msid. ?P meth msid)")
proof
  assume v: "is_valid_did d"
  then obtain rest where r: "strip_prefix ''did:'' d = Some rest"
    by (auto simp: is_valid_did_def split: if_splits option.splits)
  with v obtain meth msid where m: "split_once CHR '':'' rest = Some (meth, msid)"
    by (auto simp: is_valid_did_def split: if_splits option.splits)
  have "msid \<noteq> [] \<Longrightarrow> ends_with '':'' msid \<longleftrightarrow> last msid = CHR '':''"
    by (metis append_butlast_last_id ends_with_iff last_snoc)
  with v r m have "?P meth msid"
    by (auto simp: is_valid_did_def ident_limits list_all_iff strip_prefix_Some split_once_Some
        split: if_splits)
  then show "\<exists>meth msid. ?P meth msid" by blast
next
  assume "\<exists>meth msid. ?P meth msid"
  then obtain meth msid where p: "?P meth msid" by blast
  have "CHR '':'' \<notin> set meth" using p by (auto simp: ascii_simps)
  moreover have "\<not> ends_with '':'' msid"
    using p by (metis ends_with_iff last_snoc)
  moreover have "strip_prefix ''did:'' d = Some (meth @ '':'' @ msid)"
    using p by (simp add: strip_prefix_Some)
  ultimately show "is_valid_did d"
    using p by (auto simp: is_valid_did_def ident_limits list_all_iff)
qed

lemma did_bytes_ok_chars:
  "did_bytes_ok s \<Longrightarrow> c \<in> set s \<Longrightarrow> did_plain_byte c \<or> c = CHR ''%'' \<or> is_hexdigit c"
  by (induction s rule: did_bytes_ok.induct) (auto split: if_splits list.splits)

lemma is_valid_did_chars:
  assumes "is_valid_did d" "c \<in> set d"
  shows "is_alnum c \<or> c \<in> {CHR ''.'', CHR ''-'', CHR ''_'', CHR '':'', CHR ''%''}"
proof -
  obtain meth msid where d: "d = ''did:'' @ meth @ '':'' @ msid" "\<forall>c\<in>set meth. is_lower c"
      "did_bytes_ok msid"
    using assms(1) by (auto simp: is_valid_did_iff)
  have hex: "is_hexdigit x \<Longrightarrow> is_alnum x" for x by (auto simp: ascii_simps)
  have low: "is_lower x \<Longrightarrow> is_alnum x" for x by (auto simp: ascii_simps)
  from assms(2) d(1) consider "c \<in> set ''did:''" | "c \<in> set meth" | "c = CHR '':''" | "c \<in> set msid"
    by auto
  then show ?thesis
  proof cases
    case 1
    have "\<forall>c\<in>set ''did:''. is_alnum c \<or> c = CHR '':''" by code_simp
    with 1 show ?thesis by blast
  next
    case 2
    with d(2) low show ?thesis by blast
  next
    case 3
    then show ?thesis by simp
  next
    case 4
    with did_bytes_ok_chars [OF d(3)] have "did_plain_byte c \<or> c = CHR ''%'' \<or> is_hexdigit c" by blast
    with hex [of c] show ?thesis unfolding did_plain_byte_def by blast
  qed
qed

lemma did_parse_str: "did_parse s = Inr d \<longleftrightarrow> d = Did s \<and> is_valid_did s"
  by (auto simp: did_parse_def)

section \<open>Properties\<close>

text \<open>
  \<open>Handle::parse\<close> keeps the string it was given and its two projections cut it exactly at
  the first dot: \<open>name\<close> is the first DNS label, \<open>domain\<close> everything after it, and both are
  non-empty, so the slices \<open>value[..dot]\<close> and \<open>value[dot + 1..]\<close> never fall outside the string.
\<close>
theorem handle_parse_name_domain:
  assumes "handle_parse s = Inr h"
  shows "handle_value h = s \<and> handle_name h @ ''.'' @ handle_domain h = s
    \<and> CHR ''.'' \<notin> set (handle_name h) \<and> valid_label (handle_name h)
    \<and> handle_domain h \<noteq> [] \<and> handle_dot h + 1 < length s"
proof -
  let ?ls = "split_on CHR ''.'' s"
  from assms have ok: "validate_handle_structure s = Inr (hd ?ls)" and h: "h = Handle s (length (hd ?ls))"
    by (auto simp: handle_parse_def validate_handle_structure_ok_iff)
  from ok have all: "\<forall>l\<in>set ?ls. valid_label l" and two: "2 \<le> length ?ls"
    by (auto simp: validate_handle_structure_ok_iff)
  obtain n rest where ls: "?ls = n # rest" by (cases ?ls) auto
  with two have ne: "rest \<noteq> []" by auto
  have s: "s = n @ ''.'' @ join_with ''.'' rest"
    using join_split_on [of "CHR ''.''" s] ls ne by (simp add: join_with_Cons)
  have "last rest \<noteq> []" using all ls ne by (auto simp: valid_label_def)
  moreover have "join_with ''.'' rest = [] \<Longrightarrow> last rest = []"
    using ne by (induction "''.''" rest rule: join_with.induct) (auto split: if_splits)
  ultimately have dne: "join_with ''.'' rest \<noteq> []" by blast
  have name: "handle_name h = n" and dom: "handle_domain h = join_with ''.'' rest"
    using h ls s by (auto simp: handle_name_def handle_domain_def)
  have vl: "valid_label n" using all ls by auto
  have "length s = length n + 1 + length (join_with ''.'' rest)"
    by (subst s) simp
  then have "handle_dot h + 1 < length s" using h ls dne by simp
  with name dom dne vl s h dot_not_in_label [OF vl] show ?thesis by simp
qed

theorem handle_parse_name_domain_witness:
  "\<exists>h. handle_parse ''alice.example.com'' = Inr h \<and> handle_name h @ ''.'' @ handle_domain h = ''alice.example.com''"
proof -
  have p: "handle_parse ''alice.example.com'' = Inr (Handle ''alice.example.com'' 5)"
    by code_simp
  show ?thesis using p handle_parse_name_domain [OF p] by blast
qed

end
