(* ===== verification/Api_Error.thy ===== *)
theory Api_Error
  imports Prelude
begin

text \<open>
  The error vocabulary of \<open>crates/common/src/error.rs\<close>: \<open>ErrorCode\<close>, its name on the XRPC
  boundary, its name in the provisioning envelope (the serde serialization), its HTTP status,
  and \<open>ApiError\<close> with its builders.
\<close>

datatype error_code =
    InvalidClaim
  | Unauthorized
  | TokenExpired
  | Forbidden
  | NotFound
  | WeakPassword
  | RateLimited
  | ExportInProgress
  | ServiceUnavailable
  | InternalError
  | MethodNotImplemented
  | AccountExists
  | HandleTaken
  | InvalidHandle
  | ClaimCodeRedeemed
  | DidAlreadyExists
  | DidNotFound
  | DidDeactivated
  | PlcDirectoryError
  | DnsError
  | HandleNotFound
  | AuthenticationRequired
  | InvalidToken
  | InsufficientScope
  | ExpiredToken
  | PayloadTooLarge
  | Conflict
  | InvalidSwap
  | InvalidRequest
  | HandleResolutionFailed
  | BlockNotFound
  | SpaceNotFound
  | FutureRev
  | RepoNotFound
  | RecordNotFound
  | BlobNotFound
  | RecordAlreadyExists
  | SpaceDeleted
  | UserNotAuthorized
  | AppNotAuthorized
  | InvalidDelegationToken
  | InvalidClientAttestation
  | NotSpaceOwner
  | SpaceAlreadyExists
  | UnsupportedPolicy
  | UnsupportedAppAccess
  | ServiceNotResolvable

primrec xrpc_name :: "error_code \<Rightarrow> str" where
  "xrpc_name InvalidClaim = ''InvalidClaim''"
| "xrpc_name Unauthorized = ''AuthenticationRequired''"
| "xrpc_name TokenExpired = ''ExpiredToken''"
| "xrpc_name Forbidden = ''Forbidden''"
| "xrpc_name NotFound = ''NotFound''"
| "xrpc_name WeakPassword = ''InvalidPassword''"
| "xrpc_name RateLimited = ''RateLimitExceeded''"
| "xrpc_name ExportInProgress = ''ExportInProgress''"
| "xrpc_name ServiceUnavailable = ''ServiceUnavailable''"
| "xrpc_name InternalError = ''InternalServerError''"
| "xrpc_name MethodNotImplemented = ''MethodNotImplemented''"
| "xrpc_name AccountExists = ''AccountExists''"
| "xrpc_name HandleTaken = ''HandleNotAvailable''"
| "xrpc_name InvalidHandle = ''InvalidHandle''"
| "xrpc_name ClaimCodeRedeemed = ''ClaimCodeRedeemed''"
| "xrpc_name DidAlreadyExists = ''DidAlreadyExists''"
| "xrpc_name DidNotFound = ''DidNotFound''"
| "xrpc_name DidDeactivated = ''DidDeactivated''"
| "xrpc_name PlcDirectoryError = ''PlcDirectoryError''"
| "xrpc_name DnsError = ''DnsError''"
| "xrpc_name HandleNotFound = ''HandleNotFound''"
| "xrpc_name AuthenticationRequired = ''AuthMissing''"
| "xrpc_name InvalidToken = ''InvalidToken''"
| "xrpc_name InsufficientScope = ''InsufficientScope''"
| "xrpc_name ExpiredToken = ''ExpiredToken''"
| "xrpc_name PayloadTooLarge = ''PayloadTooLarge''"
| "xrpc_name Conflict = ''Conflict''"
| "xrpc_name InvalidSwap = ''InvalidSwap''"
| "xrpc_name InvalidRequest = ''InvalidRequest''"
| "xrpc_name HandleResolutionFailed = ''HandleResolutionFailed''"
| "xrpc_name BlockNotFound = ''BlockNotFound''"
| "xrpc_name SpaceNotFound = ''SpaceNotFound''"
| "xrpc_name FutureRev = ''FutureRev''"
| "xrpc_name RepoNotFound = ''RepoNotFound''"
| "xrpc_name RecordNotFound = ''RecordNotFound''"
| "xrpc_name BlobNotFound = ''BlobNotFound''"
| "xrpc_name RecordAlreadyExists = ''RecordAlreadyExists''"
| "xrpc_name SpaceDeleted = ''SpaceDeleted''"
| "xrpc_name UserNotAuthorized = ''UserNotAuthorized''"
| "xrpc_name AppNotAuthorized = ''AppNotAuthorized''"
| "xrpc_name InvalidDelegationToken = ''InvalidDelegationToken''"
| "xrpc_name InvalidClientAttestation = ''InvalidClientAttestation''"
| "xrpc_name NotSpaceOwner = ''NotSpaceOwner''"
| "xrpc_name SpaceAlreadyExists = ''SpaceAlreadyExists''"
| "xrpc_name UnsupportedPolicy = ''UnsupportedPolicy''"
| "xrpc_name UnsupportedAppAccess = ''UnsupportedAppAccess''"
| "xrpc_name ServiceNotResolvable = ''ServiceNotResolvable''"

text \<open>
  The serde name: \<open>rename_all = SCREAMING_SNAKE_CASE\<close>, with the per-variant renames.
\<close>

primrec code_wire_name :: "error_code \<Rightarrow> str" where
  "code_wire_name InvalidClaim = ''INVALID_CLAIM''"
| "code_wire_name Unauthorized = ''UNAUTHORIZED''"
| "code_wire_name TokenExpired = ''TOKEN_EXPIRED''"
| "code_wire_name Forbidden = ''FORBIDDEN''"
| "code_wire_name NotFound = ''NOT_FOUND''"
| "code_wire_name WeakPassword = ''WEAK_PASSWORD''"
| "code_wire_name RateLimited = ''RATE_LIMITED''"
| "code_wire_name ExportInProgress = ''EXPORT_IN_PROGRESS''"
| "code_wire_name ServiceUnavailable = ''SERVICE_UNAVAILABLE''"
| "code_wire_name InternalError = ''INTERNAL_ERROR''"
| "code_wire_name MethodNotImplemented = ''MethodNotImplemented''"
| "code_wire_name AccountExists = ''ACCOUNT_EXISTS''"
| "code_wire_name HandleTaken = ''HANDLE_TAKEN''"
| "code_wire_name InvalidHandle = ''INVALID_HANDLE''"
| "code_wire_name ClaimCodeRedeemed = ''CLAIM_CODE_REDEEMED''"
| "code_wire_name DidAlreadyExists = ''DID_ALREADY_EXISTS''"
| "code_wire_name DidNotFound = ''DidNotFound''"
| "code_wire_name DidDeactivated = ''DidDeactivated''"
| "code_wire_name PlcDirectoryError = ''PLC_DIRECTORY_ERROR''"
| "code_wire_name DnsError = ''DNS_ERROR''"
| "code_wire_name HandleNotFound = ''HANDLE_NOT_FOUND''"
| "code_wire_name AuthenticationRequired = ''AUTHENTICATION_REQUIRED''"
| "code_wire_name InvalidToken = ''INVALID_TOKEN''"
| "code_wire_name InsufficientScope = ''InsufficientScope''"
| "code_wire_name ExpiredToken = ''ExpiredToken''"
| "code_wire_name PayloadTooLarge = ''PAYLOAD_TOO_LARGE''"
| "code_wire_name Conflict = ''CONFLICT''"
| "code_wire_name InvalidSwap = ''InvalidSwap''"
| "code_wire_name InvalidRequest = ''InvalidRequest''"
| "code_wire_name HandleResolutionFailed = ''HANDLE_RESOLUTION_FAILED''"
| "code_wire_name BlockNotFound = ''BlockNotFound''"
| "code_wire_name SpaceNotFound = ''SpaceNotFound''"
| "code_wire_name FutureRev = ''FutureRev''"
| "code_wire_name RepoNotFound = ''RepoNotFound''"
| "code_wire_name RecordNotFound = ''RecordNotFound''"
| "code_wire_name BlobNotFound = ''BlobNotFound''"
| "code_wire_name RecordAlreadyExists = ''RecordAlreadyExists''"
| "code_wire_name SpaceDeleted = ''SpaceDeleted''"
| "code_wire_name UserNotAuthorized = ''UserNotAuthorized''"
| "code_wire_name AppNotAuthorized = ''AppNotAuthorized''"
| "code_wire_name InvalidDelegationToken = ''InvalidDelegationToken''"
| "code_wire_name InvalidClientAttestation = ''InvalidClientAttestation''"
| "code_wire_name NotSpaceOwner = ''NotSpaceOwner''"
| "code_wire_name SpaceAlreadyExists = ''SpaceAlreadyExists''"
| "code_wire_name UnsupportedPolicy = ''UnsupportedPolicy''"
| "code_wire_name UnsupportedAppAccess = ''UnsupportedAppAccess''"
| "code_wire_name ServiceNotResolvable = ''ServiceNotResolvable''"

primrec code_status :: "error_code \<Rightarrow> nat" where
  "code_status InvalidClaim = 400"
| "code_status Unauthorized = 401"
| "code_status TokenExpired = 401"
| "code_status Forbidden = 403"
| "code_status NotFound = 404"
| "code_status WeakPassword = 422"
| "code_status RateLimited = 429"
| "code_status ExportInProgress = 503"
| "code_status ServiceUnavailable = 503"
| "code_status InternalError = 500"
| "code_status MethodNotImplemented = 501"
| "code_status AccountExists = 409"
| "code_status HandleTaken = 409"
| "code_status InvalidHandle = 400"
| "code_status ClaimCodeRedeemed = 409"
| "code_status DidAlreadyExists = 409"
| "code_status DidNotFound = 404"
| "code_status DidDeactivated = 410"
| "code_status PlcDirectoryError = 502"
| "code_status DnsError = 502"
| "code_status HandleNotFound = 404"
| "code_status AuthenticationRequired = 401"
| "code_status InvalidToken = 401"
| "code_status InsufficientScope = 403"
| "code_status ExpiredToken = 400"
| "code_status PayloadTooLarge = 413"
| "code_status Conflict = 409"
| "code_status InvalidSwap = 409"
| "code_status InvalidRequest = 400"
| "code_status HandleResolutionFailed = 400"
| "code_status BlockNotFound = 400"
| "code_status SpaceNotFound = 400"
| "code_status FutureRev = 400"
| "code_status RepoNotFound = 400"
| "code_status RecordNotFound = 400"
| "code_status BlobNotFound = 400"
| "code_status RecordAlreadyExists = 400"
| "code_status SpaceDeleted = 400"
| "code_status UserNotAuthorized = 403"
| "code_status AppNotAuthorized = 403"
| "code_status InvalidDelegationToken = 401"
| "code_status InvalidClientAttestation = 400"
| "code_status NotSpaceOwner = 400"
| "code_status SpaceAlreadyExists = 400"
| "code_status UnsupportedPolicy = 400"
| "code_status UnsupportedAppAccess = 400"
| "code_status ServiceNotResolvable = 400"

text \<open>\<open>ApiError\<close>; the JSON \<open>details\<close> are kept in the type \<open>'d\<close> of the caller's JSON values.\<close>

record 'd api_error =
  err_code :: error_code
  err_message :: str
  err_details :: "'d option"
  err_headers :: "(str \<times> str) list"

definition api_error_new :: "error_code \<Rightarrow> str \<Rightarrow> 'd api_error" where
  "api_error_new code message =
     \<lparr> err_code = code, err_message = message, err_details = None, err_headers = [] \<rparr>"

definition api_error_with_code :: "'d api_error \<Rightarrow> error_code \<Rightarrow> 'd api_error" where
  "api_error_with_code e code = e\<lparr> err_code := code \<rparr>"

definition api_error_with_details :: "'d api_error \<Rightarrow> 'd \<Rightarrow> 'd api_error" where
  "api_error_with_details e details = e\<lparr> err_details := Some details \<rparr>"

definition api_error_with_header :: "'d api_error \<Rightarrow> str \<Rightarrow> str \<Rightarrow> 'd api_error" where
  "api_error_with_header e name value = e\<lparr> err_headers := err_headers e @ [(name, value)] \<rparr>"

definition api_error_status :: "'d api_error \<Rightarrow> nat" where
  "api_error_status e = code_status (err_code e)"

definition api_error_internal_as :: "str \<Rightarrow> 'd api_error" where
  "api_error_internal_as message = api_error_new InternalError message"

definition api_error_internal :: "str \<Rightarrow> 'd api_error" where
  "api_error_internal ctxt = api_error_internal_as ctxt"

section \<open>The vocabulary is unambiguous\<close>

definition all_codes :: "error_code list" where
  "all_codes =
     [InvalidClaim,
      Unauthorized,
      TokenExpired,
      Forbidden,
      NotFound,
      WeakPassword,
      RateLimited,
      ExportInProgress,
      ServiceUnavailable,
      InternalError,
      MethodNotImplemented,
      AccountExists,
      HandleTaken,
      InvalidHandle,
      ClaimCodeRedeemed,
      DidAlreadyExists,
      DidNotFound,
      DidDeactivated,
      PlcDirectoryError,
      DnsError,
      HandleNotFound,
      AuthenticationRequired,
      InvalidToken,
      InsufficientScope,
      ExpiredToken,
      PayloadTooLarge,
      Conflict,
      InvalidSwap,
      InvalidRequest,
      HandleResolutionFailed,
      BlockNotFound,
      SpaceNotFound,
      FutureRev,
      RepoNotFound,
      RecordNotFound,
      BlobNotFound,
      RecordAlreadyExists,
      SpaceDeleted,
      UserNotAuthorized,
      AppNotAuthorized,
      InvalidDelegationToken,
      InvalidClientAttestation,
      NotSpaceOwner,
      SpaceAlreadyExists,
      UnsupportedPolicy,
      UnsupportedAppAccess,
      ServiceNotResolvable]"

lemma all_codes_complete: "c \<in> set all_codes"
  by (cases c) (simp_all add: all_codes_def)

lemma names_distinct:
  "distinct (map xrpc_name (filter (\<lambda>c. c \<noteq> ExpiredToken) all_codes))"
  "distinct (map code_wire_name all_codes)"
  by (code_simp, code_simp)

lemma map_distinct_inj: "distinct (map f xs) \<Longrightarrow> x \<in> set xs \<Longrightarrow> y \<in> set xs \<Longrightarrow> f x = f y \<Longrightarrow> x = y"
  by (metis distinct_map inj_onD)

lemma xrpc_name_eq:
  assumes "xrpc_name a = xrpc_name b"
  shows "a = b \<or> {a, b} = {TokenExpired, ExpiredToken}"
proof -
  have inj: "x = y" if "x \<noteq> ExpiredToken" "y \<noteq> ExpiredToken" "xrpc_name x = xrpc_name y" for x y
    using map_distinct_inj [OF names_distinct(1), of x y] that all_codes_complete by simp
  have te: "xrpc_name ExpiredToken = xrpc_name TokenExpired" by simp
  show ?thesis
  proof (cases "a = ExpiredToken \<or> b = ExpiredToken")
    case False
    then show ?thesis using inj assms by blast
  next
    case True
    then show ?thesis
      using inj [of a TokenExpired] inj [of b TokenExpired] assms te by (cases "a = b") auto
  qed
qed

text \<open>
  Error names identify codes. On the provisioning surface the serialized name determines
  the code; on the XRPC surface two different codes share a name only when they are
  \<open>TokenExpired\<close> and \<open>ExpiredToken\<close> (an expired access token, status 401, and an expired reset
  token, status 400), and a code answers 401 exactly for the five authentication failures,
  so the client that refreshes on a 401 named \<open>ExpiredToken\<close> reacts to \<open>TokenExpired\<close> only.
\<close>

theorem error_names_identify_codes:
  "(code_wire_name a = code_wire_name b \<longleftrightarrow> a = b) \<and>
   (xrpc_name a = xrpc_name b \<longleftrightarrow> a = b \<or> {a, b} = {TokenExpired, ExpiredToken}) \<and>
   (code_status a = 401 \<longleftrightarrow>
      a \<in> {Unauthorized, TokenExpired, AuthenticationRequired, InvalidToken, InvalidDelegationToken}) \<and>
   (xrpc_name a = ''ExpiredToken'' \<and> code_status a = 401 \<longleftrightarrow> a = TokenExpired)"
proof (intro conjI)
  show "code_wire_name a = code_wire_name b \<longleftrightarrow> a = b"
    using map_distinct_inj [OF names_distinct(2), of a b] all_codes_complete by auto
  show "xrpc_name a = xrpc_name b \<longleftrightarrow> a = b \<or> {a, b} = {TokenExpired, ExpiredToken}"
    using xrpc_name_eq [of a b] by (auto simp: doubleton_eq_iff)
  show "code_status a = 401 \<longleftrightarrow>
      a \<in> {Unauthorized, TokenExpired, AuthenticationRequired, InvalidToken, InvalidDelegationToken}"
    by (cases a) simp_all
  show "xrpc_name a = ''ExpiredToken'' \<and> code_status a = 401 \<longleftrightarrow> a = TokenExpired"
    using xrpc_name_eq [of a TokenExpired] by (auto simp: doubleton_eq_iff)
qed

end
