(* ===== verification/Record_Syntax.thy ===== *)
theory Record_Syntax
  imports Ident "HOL-Library.Word"
begin

unbundle bit_operations_syntax

text \<open>
  Record keys, collection NSIDs and timestamp identifiers, from
  \<^verbatim>\<open>crates/repo-engine/src/records.rs\<close> (\<open>validate_collection\<close>, \<open>validate_record_path\<close>, the
  TID codec and \<open>next_record_rev\<close>), with the two validators that were ported a second time,
  \<open>is_nsid\<close> / \<open>is_record_key\<close> of \<^verbatim>\<open>crates/custos-core/src/auth/oauth_scopes.rs\<close> and
  \<open>is_valid_record_key\<close> / \<open>is_valid_tid\<close> of \<^verbatim>\<open>crates/custos-core/src/lexicon/formats.rs\<close>.
  A \<open>u64\<close> is a \<open>64 word\<close>, so shifts drop what the code's shifts drop.
\<close>

section \<open>Errors\<close>

datatype record_error =
    Repo str
  | NotFound
  | InvalidPath str
  | InvalidRecord str
  | AlreadyExists str

section \<open>Collections and record keys\<close>

text \<open>One turn of the loop over the segments of \<open>validate_collection\<close>; \<open>i\<close> is the index.\<close>

definition nsid_segment_ok :: "nat \<Rightarrow> nat \<Rightarrow> str \<Rightarrow> bool" where
  "nsid_segment_ok last_ix i seg =
     (if seg = [] \<or> length seg > 63 then False
      else if \<not> list_all (\<lambda>c. is_alnum c \<or> c = CHR ''-'') seg then False
      else if hd seg = CHR ''-'' \<or> last seg = CHR ''-'' then False
      else if i = 0 \<and> is_digit (hd seg) then False
      else if i = last_ix \<and> (\<not> is_alpha (hd seg) \<or> list_ex (\<lambda>c. c = CHR ''-'') seg) then False
      else True)"

fun nsid_segments_ok :: "nat \<Rightarrow> nat \<Rightarrow> str list \<Rightarrow> bool" where
  "nsid_segments_ok last_ix i [] = True"
| "nsid_segments_ok last_ix i (seg # segs) =
     (if \<not> nsid_segment_ok last_ix i seg then False else nsid_segments_ok last_ix (Suc i) segs)"

definition validate_collection :: "str \<Rightarrow> record_error + unit" where
  "validate_collection collection =
     (let invalid = Inl (InvalidPath (''collection is not a valid NSID: '' @ collection)) in
      if collection = [] \<or> length collection > 317 then invalid
      else let segments = split_on CHR ''.'' collection in
        if length segments < 3 then invalid
        else if \<not> nsid_segments_ok (length segments - 1) 0 segments then invalid
        else Inr ())"

definition rkey_char :: "char \<Rightarrow> bool" where
  "rkey_char c \<longleftrightarrow> is_alnum c \<or> c \<in> {CHR ''.'', CHR ''-'', CHR ''_'', CHR '':'', CHR ''~''}"

definition validate_record_path :: "str \<Rightarrow> str \<Rightarrow> record_error + unit" where
  "validate_record_path collection rkey =
     res_bind (validate_collection collection) (\<lambda>_.
       if rkey = [] \<or> length rkey > 512 \<or> rkey = ''.'' \<or> rkey = ''..''
         then Inl (InvalidPath (''invalid record key: '' @ rkey))
       else if \<not> list_all rkey_char rkey
         then Inl (InvalidPath (''record key has invalid characters: '' @ rkey))
       else Inr ())"

text \<open>The second port, in the OAuth scope grammar.\<close>

definition is_nsid :: "str \<Rightarrow> bool" where
  "is_nsid v =
     (if length v > 253 + 1 + 63 then False
      else if \<not> list_all (\<lambda>b. is_alnum b \<or> b = CHR ''.'' \<or> b = CHR ''-'') v then False
      else let segments = split_on CHR ''.'' v in
        if length segments < 3 then False
        else if \<not> list_all (\<lambda>l. \<not> (l = [] \<or> length l > 63) \<and>
                                \<not> (starts_with ''-'' l \<or> ends_with ''-'' l)) segments then False
        else if leading_digit (segments ! 0) then False
        else let name = segments ! (length segments - 1) in
          if leading_digit name \<or> CHR ''-'' \<in> set name then False else True)"

definition is_record_key :: "str \<Rightarrow> bool" where
  "is_record_key v \<longleftrightarrow> 1 \<le> length v \<and> length v \<le> 512 \<and> v \<noteq> ''.'' \<and> v \<noteq> ''..'' \<and>
     list_all (\<lambda>b. is_alnum b \<or> b \<in> {CHR ''.'', CHR ''_'', CHR ''~'', CHR '':'', CHR ''-''}) v"

text \<open>The third, in the lexicon formats.\<close>

definition is_valid_record_key :: "str \<Rightarrow> bool" where
  "is_valid_record_key v =
     (if v = [] \<or> length v > 512 \<or> v = ''.'' \<or> v = ''..'' then False
      else list_all (\<lambda>b. is_alnum b \<or> b \<in> {CHR ''.'', CHR ''_'', CHR ''~'', CHR '':'', CHR ''-''}) v)"

section \<open>Timestamp identifiers\<close>

definition base32_sortable :: str where
  "base32_sortable = ''234567abcdefghijklmnopqrstuvwxyz''"

text \<open>
  \<open>encode_tid\<close>: the loop \<open>for i in (0..13).rev()\<close> fills the array from its end, here a list
  grown at its front.
\<close>

fun encode_tid_loop :: "nat \<Rightarrow> 64 word \<Rightarrow> str \<Rightarrow> str" where
  "encode_tid_loop 0 v chars = chars"
| "encode_tid_loop (Suc n) v chars =
     encode_tid_loop n (drop_bit 5 v) (base32_sortable ! unat (v AND 0x1F) # chars)"

definition encode_tid :: "64 word \<Rightarrow> str" where
  "encode_tid v = encode_tid_loop 13 v []"

fun position_of :: "'a \<Rightarrow> 'a list \<Rightarrow> nat option" where
  "position_of x [] = None"
| "position_of x (y # ys) = (if y = x then Some 0 else map_option Suc (position_of x ys))"

definition tid_index :: "char \<Rightarrow> nat" where
  "tid_index b = (case position_of b base32_sortable of None \<Rightarrow> 0 | Some i \<Rightarrow> i)"

definition decode_tid :: "str \<Rightarrow> 64 word" where
  "decode_tid tid = foldl (\<lambda>v b. push_bit 5 v OR word_of_nat (tid_index b)) 0 tid"

definition tid_micros :: "str \<Rightarrow> 64 word" where
  "tid_micros tid = drop_bit 10 (decode_tid tid)"

text \<open>\<open>now_tid_int\<close>: the clock reading and the random number are its two inputs.\<close>

definition now_tid_int :: "64 word \<Rightarrow> 32 word \<Rightarrow> 64 word" where
  "now_tid_int micros rng = push_bit 10 micros OR ucast (rng AND 0x3FF)"

definition saturating_add_u64 :: "64 word \<Rightarrow> 64 word \<Rightarrow> 64 word" where
  "saturating_add_u64 a b = (if unat a + unat b < 2 ^ 64 then a + b else - 1)"

definition tid_first_chars :: str where
  "tid_first_chars = ''234567abcdefghij''"

definition is_valid_tid :: "str \<Rightarrow> bool" where
  "is_valid_tid value =
     (if length value \<noteq> 13 then False
      else hd value \<in> set tid_first_chars \<and> list_all (\<lambda>c. c \<in> set base32_sortable) value)"

text \<open>
  \<open>next_commit_rev\<close>: \<open>tid_new\<close> stands for \<open>atrium_api\<close>'s \<open>Tid::new\<close>, a dependency that is
  not in the repository; it returns the string or an error message. \<open>now\<close> is the value of
  \<open>now_tid_int()\<close>.
\<close>

definition next_commit_rev :: "(str \<Rightarrow> str + str) \<Rightarrow> 64 word \<Rightarrow> str \<Rightarrow> record_error + str" where
  "next_commit_rev tid_new now prev_rev =
     (let nxt = max now (saturating_add_u64 (decode_tid prev_rev) 1) in
      map_err (\<lambda>e. Repo (''construct monotonic commit rev: '' @ e)) (tid_new (encode_tid nxt)))"

definition next_record_rev :: "(str \<Rightarrow> str + str) \<Rightarrow> 64 word \<Rightarrow> str \<Rightarrow> record_error + str" where
  "next_record_rev tid_new now prev_rev =
     res_bind (next_commit_rev tid_new now prev_rev) (\<lambda>t. Inr t)"

section \<open>The three ports of the grammar\<close>

text \<open>What an NSID is, stated once: the reference grammar both Rust ports follow.\<close>

definition valid_nsid :: "str \<Rightarrow> bool" where
  "valid_nsid v \<longleftrightarrow> length v \<le> 317 \<and> 3 \<le> length (split_on CHR ''.'' v) \<and>
     (\<forall>l\<in>set (split_on CHR ''.'' v). valid_label l) \<and>
     \<not> is_digit (hd (hd (split_on CHR ''.'' v))) \<and>
     is_alpha (hd (last (split_on CHR ''.'' v))) \<and>
     CHR ''-'' \<notin> set (last (split_on CHR ''.'' v))"

lemma label_ends: "l \<noteq> [] \<Longrightarrow> starts_with ''-'' l \<longleftrightarrow> hd l = CHR ''-''"
  "l \<noteq> [] \<Longrightarrow> ends_with ''-'' l \<longleftrightarrow> last l = CHR ''-''"
   apply (cases l; auto simp: starts_with_iff)
  by (metis append_butlast_last_id ends_with_iff last_snoc)

lemma valid_label_split:
  "valid_label l \<longleftrightarrow> (\<forall>c\<in>set l. is_alnum c \<or> c = CHR ''-'') \<and> \<not> (l = [] \<or> length l > 63) \<and>
     \<not> (starts_with ''-'' l \<or> ends_with ''-'' l)"
  by (cases "l = []") (auto simp: valid_label_def label_ends)

lemma nsid_segments_ok_iff:
  "nsid_segments_ok n i segs \<longleftrightarrow> (\<forall>k<length segs. nsid_segment_ok n (i + k) (segs ! k))"
proof (induction segs arbitrary: i)
  case Nil
  then show ?case by simp
next
  case (Cons s segs)
  then show ?case by (auto simp: All_less_Suc2)
qed

lemma nsid_segment_ok_iff:
  "nsid_segment_ok n i seg \<longleftrightarrow> valid_label seg \<and> (i = 0 \<longrightarrow> \<not> is_digit (hd seg)) \<and>
     (i = n \<longrightarrow> is_alpha (hd seg) \<and> CHR ''-'' \<notin> set seg)"
  by (auto simp: nsid_segment_ok_def valid_label_def list_all_iff list_ex_iff)

lemma nsid_segments_all:
  assumes "2 \<le> length segs"
  shows "nsid_segments_ok (length segs - 1) 0 segs \<longleftrightarrow>
    (\<forall>l\<in>set segs. valid_label l) \<and> \<not> is_digit (hd (hd segs)) \<and>
    is_alpha (hd (last segs)) \<and> CHR ''-'' \<notin> set (last segs)"
proof -
  have "segs \<noteq> []" and hd: "hd segs = segs ! 0" and la: "last segs = segs ! (length segs - 1)"
    using assms by (cases "segs = []"; simp add: hd_conv_nth last_conv_nth)+
  then have b: "length segs - 1 < length segs" "0 < length segs" by simp_all
  have "nsid_segments_ok (length segs - 1) 0 segs \<longleftrightarrow>
      (\<forall>k<length segs. valid_label (segs ! k)) \<and> \<not> is_digit (hd (segs ! 0)) \<and>
      is_alpha (hd (segs ! (length segs - 1))) \<and> CHR ''-'' \<notin> set (segs ! (length segs - 1))"
    unfolding nsid_segments_ok_iff nsid_segment_ok_iff add_0 using b by blast
  then show ?thesis unfolding hd la all_set_conv_all_nth .
qed

lemma validate_collection_ok_iff: "validate_collection v = Inr () \<longleftrightarrow> valid_nsid v"
proof (cases "3 \<le> length (split_on CHR ''.'' v)")
  case True
  then have ne: "v \<noteq> []" by auto
  have "nsid_segments_ok (length (split_on CHR ''.'' v) - 1) 0 (split_on CHR ''.'' v) \<longleftrightarrow>
    (\<forall>l\<in>set (split_on CHR ''.'' v). valid_label l) \<and>
     \<not> is_digit (hd (hd (split_on CHR ''.'' v))) \<and>
     is_alpha (hd (last (split_on CHR ''.'' v))) \<and>
     CHR ''-'' \<notin> set (last (split_on CHR ''.'' v))"
    using True by (intro nsid_segments_all) simp
  with True ne show ?thesis
    by (auto simp: validate_collection_def valid_nsid_def Let_def)
next
  case False
  then show ?thesis by (auto simp: validate_collection_def valid_nsid_def Let_def)
qed

lemma valid_nsid_chars: "valid_nsid v \<Longrightarrow> c \<in> set v \<Longrightarrow> is_alnum c \<or> c = CHR ''.'' \<or> c = CHR ''-''"
  using set_via_split_on [of v "CHR ''.''"] by (auto simp: valid_nsid_def valid_label_def)

lemma valid_nsid_not_Nil: "valid_nsid v \<Longrightarrow> v \<noteq> []"
  by (auto simp: valid_nsid_def)

lemma valid_nsid_last_digit:
  assumes "valid_label l" and "CHR ''-'' \<notin> set l"
  shows "leading_digit l \<longleftrightarrow> \<not> is_alpha (hd l)"
proof -
  obtain c cs where l: "l = c # cs" using assms(1) by (cases l) (auto simp: valid_label_def)
  with assms have "is_alnum c" by (auto simp: valid_label_def)
  with l show ?thesis by (auto simp: leading_digit_def ascii_simps)
qed

lemma leading_digit_hd: "valid_label l \<Longrightarrow> leading_digit l \<longleftrightarrow> is_digit (hd l)"
  by (cases l) (auto simp: valid_label_def leading_digit_def)

lemma is_nsid_iff: "is_nsid v \<longleftrightarrow> valid_nsid v"
proof (cases "3 \<le> length (split_on CHR ''.'' v)")
  case False
  then show ?thesis by (auto simp: is_nsid_def valid_nsid_def Let_def)
next
  case True
  let ?ls = "split_on CHR ''.'' v"
  have hd: "?ls ! 0 = hd ?ls" and la: "?ls ! (length ?ls - 1) = last ?ls"
    by (simp_all add: hd_conv_nth last_conv_nth)
  have in_hd: "hd ?ls \<in> set ?ls" and in_la: "last ?ls \<in> set ?ls" by simp_all
  have chars: "list_all (\<lambda>b. is_alnum b \<or> b = CHR ''.'' \<or> b = CHR ''-'') v \<longleftrightarrow>
      (\<forall>l\<in>set ?ls. \<forall>c\<in>set l. is_alnum c \<or> c = CHR ''-'')" (is "?A \<longleftrightarrow> ?B")
  proof
    assume ?A
    then show ?B
      using set_split_on split_on_pieces unfolding list_all_iff by blast
  next
    assume ?B
    then show ?A
      using set_via_split_on [of v "CHR ''.''"] unfolding list_all_iff by fastforce
  qed
  have lab: "(\<forall>l\<in>set ?ls. valid_label l) \<longleftrightarrow> ?B \<and> list_all (\<lambda>l. \<not> (l = [] \<or> length l > 63) \<and>
                                \<not> (starts_with ''-'' l \<or> ends_with ''-'' l)) ?ls"
    unfolding list_all_iff valid_label_split by blast
  show ?thesis
  proof (cases "\<forall>l\<in>set ?ls. valid_label l")
    case False
    with lab chars show ?thesis by (auto simp: is_nsid_def valid_nsid_def Let_def)
  next
    case all: True
    then have "valid_label (hd ?ls)" and vl: "valid_label (last ?ls)" using in_hd in_la by blast+
    with all lab chars True show ?thesis
      using leading_digit_hd [of "hd ?ls"] valid_nsid_last_digit [OF vl]
      unfolding is_nsid_def valid_nsid_def Let_def hd la by auto
  qed
qed

section \<open>The TID codec\<close>

fun tid_digits :: "nat \<Rightarrow> nat \<Rightarrow> nat list" where
  "tid_digits 0 x = []"
| "tid_digits (Suc n) x = tid_digits n (x div 32) @ [x mod 32]"

definition digits_val :: "nat list \<Rightarrow> nat" where
  "digits_val ds = foldl (\<lambda>a d. a * 32 + d) 0 ds"

lemma length_tid_digits [simp]: "length (tid_digits n x) = n"
  by (induction n arbitrary: x) auto

lemma digits_val_snoc [simp]: "digits_val (ds @ [d]) = digits_val ds * 32 + d"
  by (simp add: digits_val_def)

lemma digits_val_Nil [simp]: "digits_val [] = 0"
  by (simp add: digits_val_def)

lemma digits_val_append: "digits_val (xs @ ys) = digits_val xs * 32 ^ length ys + digits_val ys"
  by (induction ys rule: rev_induct) (auto simp: append_assoc[symmetric] algebra_simps simp del: append_assoc)

lemma digits_val_Cons: "digits_val (d # ds) = d * 32 ^ length ds + digits_val ds"
  using digits_val_append [of "[d]" ds] digits_val_snoc [of "[]" d] by simp

lemma digits_val_bound: "\<forall>d\<in>set ds. d < 32 \<Longrightarrow> digits_val ds < 32 ^ length ds"
  by (induction ds rule: rev_induct) auto

lemma tid_digits_less: "d \<in> set (tid_digits n x) \<Longrightarrow> d < 32"
  by (induction n arbitrary: x) auto

lemma digits_val_tid_digits: "digits_val (tid_digits n x) = x mod 32 ^ n"
proof (induction n arbitrary: x)
  case 0
  then show ?case by simp
next
  case (Suc n)
  have "(x div 32) mod 32 ^ n * 32 + x mod 32 = x mod 32 ^ Suc n"
    by (simp add: mod_mult2_eq)
  with Suc show ?case by simp
qed

lemma tid_digits_val: "\<forall>d\<in>set ds. d < 32 \<Longrightarrow> tid_digits (length ds) (digits_val ds) = ds"
  by (induction ds rule: rev_induct) auto

lemma length_base32 [simp]: "length base32_sortable = 32"
  by (simp add: base32_sortable_def)

lemma base32_increasing: "sorted_wrt (<) base32_sortable"
  unfolding base32_sortable_def by code_simp

lemma base32_nth_less: "i < j \<Longrightarrow> j < 32 \<Longrightarrow> base32_sortable ! i < base32_sortable ! j"
  using sorted_wrt_nth_less [OF base32_increasing] by simp

lemma base32_nth_less_iff:
  "i < 32 \<Longrightarrow> j < 32 \<Longrightarrow> base32_sortable ! i < base32_sortable ! j \<longleftrightarrow> i < j"
  by (metis base32_nth_less linorder_less_linear order_less_asym)

lemma position_of_Some: "position_of x xs = Some i \<Longrightarrow> i < length xs \<and> xs ! i = x"
  by (induction xs arbitrary: i) (auto split: if_splits)

lemma position_of_None: "position_of x xs = None \<longleftrightarrow> x \<notin> set xs"
  by (induction xs) auto

lemma position_of_nth: "distinct xs \<Longrightarrow> i < length xs \<Longrightarrow> position_of (xs ! i) xs = Some i"
  by (metis nth_eq_iff_index_eq nth_mem option.exhaust position_of_None position_of_Some)

lemma tid_index_less [simp]: "tid_index b < 32"
  using position_of_Some [of b base32_sortable]
  by (auto simp: tid_index_def split: option.splits)

lemma tid_index_nth: "i < 32 \<Longrightarrow> tid_index (base32_sortable ! i) = i"
proof -
  have "distinct base32_sortable"
    unfolding base32_sortable_def by code_simp
  then show "i < 32 \<Longrightarrow> tid_index (base32_sortable ! i) = i"
    by (simp add: tid_index_def position_of_nth)
qed

lemma base32_tid_index: "c \<in> set base32_sortable \<Longrightarrow> base32_sortable ! tid_index c = c"
  using position_of_Some [of c base32_sortable] position_of_None [of c base32_sortable]
  by (auto simp: tid_index_def split: option.splits)

lemma unat_low5: "unat (v AND 0x1F :: 64 word) = unat v mod 32"
proof -
  have "v AND 0x1F = take_bit 5 v" by (simp add: take_bit_eq_mask mask_eq_exp_minus_1)
  then have "unat (v AND 0x1F) = unat (take_bit 5 v)" by (rule arg_cong)
  also have "\<dots> = unat v mod 32" by (simp add: take_bit_eq_mod unat_mod)
  finally show ?thesis .
qed

lemma unat_shift5: "unat (drop_bit 5 v :: 64 word) = unat v div 32"
  by (simp add: drop_bit_eq_div unat_div)

lemma encode_tid_loop_eq:
  "encode_tid_loop n v cs = map ((!) base32_sortable) (tid_digits n (unat v)) @ cs"
  by (induction n arbitrary: v cs) (auto simp: unat_low5 unat_shift5)

lemma encode_tid_eq: "encode_tid v = map ((!) base32_sortable) (tid_digits 13 (unat v))"
  by (simp add: encode_tid_def encode_tid_loop_eq)

lemma shift_or_word:
  assumes "d < 32"
  shows "push_bit 5 v OR word_of_nat d = (word_of_nat (unat v * 32 + d) :: 64 word)"
proof -
  have "push_bit 5 v OR word_of_nat d = push_bit 5 v + (word_of_nat d :: 64 word)"
  proof (rule disjunctive_add [symmetric])
    fix n
    show "\<not> bit (push_bit 5 v) n \<or> \<not> bit (word_of_nat d :: 64 word) n"
    proof (cases "n < 5")
      case True
      then show ?thesis by (simp add: bit_push_bit_iff)
    next
      case False
      then have "(2::nat) ^ 5 \<le> 2 ^ n" by (intro power_increasing) auto
      with assms have "d < 2 ^ n" by simp
      then have "\<not> bit d n" by (simp add: bit_iff_odd)
      then show ?thesis by (simp add: bit_of_nat_iff)
    qed
  qed
  also have "\<dots> = word_of_nat (unat v * 32 + d)"
    by (simp add: push_bit_eq_mult mult.commute)
  finally show ?thesis .
qed

lemma decode_tid_eq: "decode_tid t = word_of_nat (digits_val (map tid_index t))"
proof (induction t rule: rev_induct)
  case Nil
  then show ?case by (simp add: decode_tid_def)
next
  case (snoc c t)
  have "decode_tid (t @ [c]) = push_bit 5 (decode_tid t) OR word_of_nat (tid_index c)"
    by (simp add: decode_tid_def)
  also have "\<dots> = word_of_nat (unat (decode_tid t) * 32 + tid_index c)"
    by (simp add: shift_or_word)
  also have "\<dots> = word_of_nat (digits_val (map tid_index t) * 32 + tid_index c)"
    using snoc by simp
  finally show ?case by simp
qed

lemma first_chars: "set tid_first_chars = (!) base32_sortable ` {..<16}"
  unfolding base32_sortable_def tid_first_chars_def by code_simp

lemma is_valid_tid_iff:
  "is_valid_tid t \<longleftrightarrow> length t = 13 \<and> set t \<subseteq> set base32_sortable \<and> tid_index (hd t) < 16"
proof (cases "length t = 13 \<and> set t \<subseteq> set base32_sortable")
  case True
  then have "t \<noteq> []" by auto
  with True have mem: "hd t \<in> set base32_sortable" by (cases t) auto
  have "hd t \<in> (!) base32_sortable ` {..<16} \<longleftrightarrow> tid_index (hd t) < 16"
    using base32_tid_index [OF mem] tid_index_nth by force
  with True show ?thesis
    by (auto simp: is_valid_tid_def first_chars list_all_iff)
next
  case False
  then show ?thesis by (auto simp: is_valid_tid_def list_all_iff)
qed

lemma word_of_nat_of_unat: "word_of_nat (unat v) = (v :: 64 word)"
  by simp

lemma unat_u64_max: "unat (- 1 :: 64 word) = 2 ^ 64 - 1"
  by (simp add: unsigned_minus_1_eq_mask mask_eq_exp_minus_1)

lemma encode_tid_valid: "is_valid_tid (encode_tid v)"
proof -
  let ?ds = "tid_digits 13 (unat v)"
  have all: "\<forall>d\<in>set ?ds. d < 32" using tid_digits_less by blast
  obtain d ds where ds: "?ds = d # ds" "length ds = 12"
    by (cases ?ds) (use length_tid_digits [of 13 "unat v"] in auto)
  have "digits_val ?ds = unat v"
  proof -
    have "unat v < 32 ^ 13" using unsigned_less [of v, where 'a = nat] by simp
    then show ?thesis by (simp only: digits_val_tid_digits mod_less)
  qed
  then have "d * 32 ^ 12 + digits_val ds = unat v" using ds by (simp add: digits_val_Cons)
  moreover have "unat v < 16 * 32 ^ 12" using unsigned_less [of v, where 'a = nat] by simp
  ultimately have "d * 32 ^ 12 < 16 * 32 ^ 12" by linarith
  then have "d < 16" by simp
  moreover have "set (encode_tid v) \<subseteq> set base32_sortable"
    using all by (auto simp: encode_tid_eq)
  moreover have "hd (encode_tid v) = base32_sortable ! d" using ds by (simp add: encode_tid_eq)
  ultimately show ?thesis
    by (simp add: is_valid_tid_iff tid_index_nth) (simp add: encode_tid_eq)
qed

lemma decode_encode_tid [simp]: "decode_tid (encode_tid v) = v"
proof -
  have "map tid_index (encode_tid v) = tid_digits 13 (unat v)"
    unfolding encode_tid_eq map_map
    by (rule map_idI) (use tid_digits_less tid_index_nth in auto)
  moreover have "unat v mod 32 ^ 13 = unat v"
    using unsigned_less [of v, where 'a = nat] by simp
  ultimately show ?thesis by (simp only: decode_tid_eq digits_val_tid_digits word_of_nat_of_unat)
qed

lemma tid_val_less:
  assumes "is_valid_tid t"
  shows "digits_val (map tid_index t) < 2 ^ 64"
proof -
  obtain c cs where t: "t = c # cs" "length cs = 12"
    using assms by (cases t) (auto simp: is_valid_tid_iff)
  with assms have "tid_index c < 16" by (auto simp: is_valid_tid_iff)
  moreover have "digits_val (map tid_index cs) < 32 ^ 12"
    using digits_val_bound [of "map tid_index cs"] t by simp
  moreover have "digits_val (map tid_index t) = tid_index c * 32 ^ 12 + digits_val (map tid_index cs)"
    using t by (simp add: digits_val_Cons)
  ultimately have "digits_val (map tid_index t) < 16 * 32 ^ 12" by simp
  then show ?thesis by simp
qed

lemma unat_decode_tid: "is_valid_tid t \<Longrightarrow> unat (decode_tid t) = digits_val (map tid_index t)"
  using tid_val_less [of t] by (simp add: decode_tid_eq unat_of_nat)

lemma encode_decode_tid:
  assumes "is_valid_tid t"
  shows "encode_tid (decode_tid t) = t"
proof -
  have len: "length t = 13" and sub: "set t \<subseteq> set base32_sortable"
    using assms by (auto simp: is_valid_tid_iff)
  have "tid_digits 13 (digits_val (map tid_index t)) = map tid_index t"
    using tid_digits_val [of "map tid_index t"] len by simp
  then have "encode_tid (decode_tid t) = map (\<lambda>c. base32_sortable ! tid_index c) t"
    using assms by (simp add: encode_tid_eq unat_decode_tid)
  also have "\<dots> = t" using sub by (intro map_idI) (auto intro: base32_tid_index)
  finally show ?thesis .
qed

lemma tid_less_iff:
  assumes "length s = length t" "set s \<subseteq> set base32_sortable" "set t \<subseteq> set base32_sortable"
  shows "s < t \<longleftrightarrow> digits_val (map tid_index s) < digits_val (map tid_index t)"
  using assms
proof (induction s t rule: list_induct2)
  case Nil
  then show ?case by simp
next
  case (Cons c s d t)
  have c: "base32_sortable ! tid_index c = c" and d: "base32_sortable ! tid_index d = d"
    using Cons.prems by (auto intro: base32_tid_index)
  have bs: "digits_val (map tid_index s) < 32 ^ length t" and bt: "digits_val (map tid_index t) < 32 ^ length t"
    using digits_val_bound [of "map tid_index s"] digits_val_bound [of "map tid_index t"] Cons.hyps by auto
  have cd: "c < d \<longleftrightarrow> tid_index c < tid_index d"
    using base32_nth_less_iff [of "tid_index c" "tid_index d"] c d by simp
  have eq: "c = d \<longleftrightarrow> tid_index c = tid_index d" using c d by metis
  consider "tid_index c < tid_index d" | "tid_index c = tid_index d" | "tid_index d < tid_index c"
    by linarith
  then show ?case
  proof cases
    case 1
    have "(tid_index c + 1) * 32 ^ length t \<le> tid_index d * 32 ^ length t"
      using 1 by (intro mult_le_mono1) simp
    with bs have "tid_index c * 32 ^ length t + digits_val (map tid_index s) < tid_index d * 32 ^ length t"
      by simp
    with 1 cd Cons.hyps show ?thesis by (simp add: digits_val_Cons)
  next
    case 2
    with eq Cons show ?thesis by (simp add: digits_val_Cons)
  next
    case 3
    have "(tid_index d + 1) * 32 ^ length t \<le> tid_index c * 32 ^ length t"
      using 3 by (intro mult_le_mono1) simp
    with bt have "tid_index d * 32 ^ length t + digits_val (map tid_index t) < tid_index c * 32 ^ length t"
      by simp
    with 3 cd eq Cons.hyps show ?thesis by (simp add: digits_val_Cons)
  qed
qed

lemma valid_tid_less_iff:
  assumes "is_valid_tid s" "is_valid_tid t"
  shows "s < t \<longleftrightarrow> decode_tid s < decode_tid t"
proof -
  have "s < t \<longleftrightarrow> digits_val (map tid_index s) < digits_val (map tid_index t)"
    using assms by (intro tid_less_iff) (auto simp: is_valid_tid_iff)
  then show ?thesis using assms by (simp add: word_less_nat_alt unat_decode_tid)
qed

lemma nsid_and_rkey_agree:
  "(is_nsid v \<longleftrightarrow> validate_collection v = Inr ())
   \<and> (is_record_key k \<longleftrightarrow> is_valid_record_key k)
   \<and> (validate_record_path v k = Inr () \<longleftrightarrow> is_nsid v \<and> is_record_key k)"
proof (intro conjI)
  show nsid: "is_nsid v \<longleftrightarrow> validate_collection v = Inr ()"
    by (simp add: is_nsid_iff validate_collection_ok_iff)
  show "is_record_key k \<longleftrightarrow> is_valid_record_key k"
    by (cases k) (auto simp: is_record_key_def is_valid_record_key_def)
  show "validate_record_path v k = Inr () \<longleftrightarrow> is_nsid v \<and> is_record_key k"
    unfolding nsid
    by (cases k) (auto simp: validate_record_path_def is_record_key_def rkey_char_def list_all_iff)
qed

section \<open>Properties\<close>

text \<open>
  C18: the TID codec is an order isomorphism between \<open>u64\<close> and the valid TIDs: encoding is
  always a valid TID, decoding inverts it in both directions, and comparing TIDs as strings is
  comparing the integers, which is what makes a revision string time-ordered.
\<close>
theorem tid_codec_order_iso:
  "is_valid_tid (encode_tid v) \<and> decode_tid (encode_tid v) = v
   \<and> (\<forall>t. is_valid_tid t \<longrightarrow> encode_tid (decode_tid t) = t)
   \<and> (encode_tid v < encode_tid w \<longleftrightarrow> v < w)"
  using valid_tid_less_iff [OF encode_tid_valid encode_tid_valid]
  by (simp add: encode_tid_valid encode_decode_tid)

theorem tid_codec_order_iso_witness:
  "encode_tid (decode_tid ''3jzfcijpj2z2a'') = ''3jzfcijpj2z2a''"
proof -
  have "is_valid_tid ''3jzfcijpj2z2a''" by code_simp
  then show ?thesis using tid_codec_order_iso [of 0 0] by blast
qed

text \<open>
  The revision of a new commit is strictly above the previous one in the order relays
  compare revisions by, whatever the clock reads, as long as the previous revision is a valid
  TID below the largest one and \<open>Tid::new\<close> accepts every valid TID unchanged.
\<close>
theorem next_record_rev_strictly_increases:
  assumes tid_new: "\<And>t. is_valid_tid t \<Longrightarrow> tid_new t = Inr t"
    and prev: "is_valid_tid prev" and room: "decode_tid prev \<noteq> - 1"
  shows "\<exists>t. next_record_rev tid_new now prev = Inr t \<and> is_valid_tid t \<and> prev < t
    \<and> now \<le> decode_tid t"
proof -
  let ?n = "max now (saturating_add_u64 (decode_tid prev) 1)"
  have "unat (decode_tid prev) \<noteq> 2 ^ 64 - 1"
    using room by (metis unat_u64_max word_unat_eq_iff)
  with unsigned_less [of "decode_tid prev", where 'a = nat] have "unat (decode_tid prev) + 1 < 2 ^ 64"
    by simp
  then have "saturating_add_u64 (decode_tid prev) 1 = decode_tid prev + 1"
      and "decode_tid prev < decode_tid prev + 1"
    by (simp_all add: saturating_add_u64_def word_less_nat_alt unat_word_ariths)
  then have "decode_tid prev < ?n" by (simp add: less_max_iff_disj)
  then have "prev < encode_tid ?n"
    using prev by (simp add: valid_tid_less_iff encode_tid_valid)
  moreover have "next_record_rev tid_new now prev = Inr (encode_tid ?n)"
    by (simp add: next_record_rev_def next_commit_rev_def Let_def tid_new encode_tid_valid)
  ultimately show ?thesis by (auto simp: encode_tid_valid)
qed

theorem next_record_rev_strictly_increases_witness:
  "\<exists>t. next_record_rev Inr 7 ''3jzfcijpj2z2a'' = Inr t \<and> ''3jzfcijpj2z2a'' < t"
proof -
  have v: "is_valid_tid ''3jzfcijpj2z2a''" by code_simp
  have r: "decode_tid ''3jzfcijpj2z2a'' \<noteq> - 1" by code_simp
  show ?thesis using next_record_rev_strictly_increases [of Inr, OF _ v r, of 7] by blast
qed

text \<open>
  At the largest TID the guard saturates and the revision stops increasing: the next
  revision is the previous one again, however often it is asked for.
\<close>
theorem next_record_rev_saturates:
  "next_record_rev Inr now ''jzzzzzzzzzzzz'' = Inr ''jzzzzzzzzzzzz''"
proof -
  have d: "decode_tid ''jzzzzzzzzzzzz'' = - 1" by code_simp
  have e: "encode_tid (- 1) = ''jzzzzzzzzzzzz''" by code_simp
  have s: "saturating_add_u64 (- 1) 1 = - 1" by (simp add: saturating_add_u64_def unat_u64_max)
  have "max now (- 1 :: 64 word) = - 1" by (simp add: max_def word_order.extremum_unique)
  then show ?thesis by (simp add: next_record_rev_def next_commit_rev_def Let_def d s e)
qed

text \<open>
  The three ports of the NSID and record-key grammar agree: the OAuth scope parser, the
  lexicon formats and the repository accept exactly the same collections and record keys, so a
  collection a grant can name is a collection a write can use.
\<close>
theorem nsid_and_rkey_validators_agree:
  "(is_nsid v \<longleftrightarrow> validate_collection v = Inr ())
   \<and> (is_record_key k \<longleftrightarrow> is_valid_record_key k)
   \<and> (validate_record_path v k = Inr () \<longleftrightarrow> is_nsid v \<and> is_record_key k)"
  by (rule nsid_and_rkey_agree)

end
