(* ===== verification/Uri_Syntax.thy ===== *)
theory Uri_Syntax
  imports Record_Syntax
begin

text \<open>
  The two AT-URI families: public repository URIs, from
  \<^verbatim>\<open>crates/repo-engine/src/at_uri.rs\<close> (with its own DID and handle validators), and
  permissioned-space references, from \<^verbatim>\<open>crates/custos-core/src/space_uri.rs\<close>.
\<close>

section \<open>Public AT-URIs\<close>

record at_uri =
  au_authority :: str
  au_collection :: "str option"
  au_rkey :: "str option"
  au_fragment :: "str option"

datatype at_uri_error = AtUriError str

text \<open>\<open>validate_did\<close>: \<open>splitn(3, ':')\<close> is two nested \<open>split_once\<close>.\<close>

definition at_uri_validate_did :: "str \<Rightarrow> at_uri_error + unit" where
  "at_uri_validate_did did =
     (let bad = Inl (AtUriError ''invalid DID authority'') in
      if length did > 2048 then bad
      else (case split_once CHR '':'' did of
        None \<Rightarrow> bad
      | Some (p0, r0) \<Rightarrow>
          if p0 \<noteq> ''did'' then bad
          else (case split_once CHR '':'' r0 of
            None \<Rightarrow> bad
          | Some (meth, identifier) \<Rightarrow>
              if meth = [] \<or> \<not> list_all is_lower meth \<or> identifier = [] \<or>
                 ends_with '':'' identifier \<or>
                 \<not> list_all (\<lambda>b. is_alnum b \<or>
                     b \<in> {CHR ''.'', CHR ''-'', CHR ''_'', CHR '':'', CHR ''%''}) identifier
              then bad else Inr ())))"

definition at_uri_label_ok :: "str \<Rightarrow> bool" where
  "at_uri_label_ok label \<longleftrightarrow>
     \<not> (label = [] \<or> length label > 63 \<or> starts_with ''-'' label \<or> ends_with ''-'' label \<or>
        \<not> list_all (\<lambda>b. is_alnum b \<or> b = CHR ''-'') label)"

definition leading_alpha :: "str \<Rightarrow> bool" where
  "leading_alpha s = (case s of [] \<Rightarrow> False | c # _ \<Rightarrow> is_alpha c)"

definition at_uri_validate_handle :: "str \<Rightarrow> at_uri_error + unit" where
  "at_uri_validate_handle handle =
     (let bad = Inl (AtUriError ''invalid handle authority'') in
      if handle = [] \<or> length handle > 253 then bad
      else let labels = split_on CHR ''.'' handle in
        if length labels < 2 then bad
        else if \<not> list_all at_uri_label_ok labels then bad
        else if \<not> leading_alpha (last labels) then bad
        else Inr ())"

definition validate_authority :: "str \<Rightarrow> at_uri_error + unit" where
  "validate_authority authority =
     (if starts_with ''did:'' authority then at_uri_validate_did authority
      else at_uri_validate_handle authority)"

text \<open>The tail of \<open>AtUri::parse\<close>, from \<open>rest.split('/')\<close> on.\<close>

fun at_uri_parts :: "str list \<Rightarrow> at_uri_error + at_uri" where
  "at_uri_parts [] = Inl (AtUriError ''missing authority'')"
| "at_uri_parts (authority # tail) =
     res_bind (validate_authority authority) (\<lambda>_.
       (case tail of
          [] \<Rightarrow> Inr \<lparr>au_authority = authority, au_collection = None, au_rkey = None, au_fragment = None\<rparr>
        | [collection] \<Rightarrow>
            res_bind (map_err (\<lambda>_. AtUriError ''invalid collection NSID'') (validate_collection collection))
              (\<lambda>_. Inr \<lparr>au_authority = authority, au_collection = Some collection, au_rkey = None, au_fragment = None\<rparr>)
        | [collection, rkey] \<Rightarrow>
            res_bind (map_err (\<lambda>_. AtUriError ''invalid collection or record key'') (validate_record_path collection rkey))
              (\<lambda>_. Inr \<lparr>au_authority = authority, au_collection = Some collection, au_rkey = Some rkey, au_fragment = None\<rparr>)
        | _ \<Rightarrow> Inl (AtUriError ''too many path segments'')))"

definition at_uri_parse :: "str \<Rightarrow> at_uri_error + at_uri" where
  "at_uri_parse value =
     (if length value > 8192 then Inl (AtUriError ''URI exceeds 8192 bytes'')
      else (case strip_prefix ''at://'' value of
        None \<Rightarrow> Inl (AtUriError ''scheme must be `at://`'')
      | Some rest \<Rightarrow>
          if CHR ''#'' \<in> set rest then Inl (AtUriError ''fragments are not part of AT-URI syntax'')
          else at_uri_parts (split_on CHR ''/'' rest)))"

section \<open>Space references\<close>

record space_ref =
  sr_uri :: str
  sr_authority :: str
  sr_space_type :: str
  sr_skey :: str

definition space_ref_string :: "str \<Rightarrow> str \<Rightarrow> str \<Rightarrow> str" where
  "space_ref_string authority space_type skey =
     ''at://'' @ authority @ ''/space/'' @ space_type @ ''/'' @ skey"

definition record_uri :: "space_ref \<Rightarrow> str \<Rightarrow> str \<Rightarrow> str \<Rightarrow> str" where
  "record_uri self author collection rkey =
     sr_uri self @ ''/'' @ author @ ''/'' @ collection @ ''/'' @ rkey"

definition split_space_uri :: "str \<Rightarrow> (space_ref \<times> unit option) option" where
  "split_space_uri value =
     (case strip_prefix ''at://'' value of
        None \<Rightarrow> None
      | Some rest \<Rightarrow>
          if CHR ''?'' \<in> set rest \<or> CHR ''#'' \<in> set rest then None
          else (case split_on CHR ''/'' rest of
            authority # marker # space_type # skey # tail \<Rightarrow>
              if marker \<noteq> ''space'' then None
              else if \<not> is_valid_did authority \<or> \<not> is_ok (validate_collection space_type)
                   \<or> \<not> is_valid_record_key skey then None
              else (case (case tail of
                      [] \<Rightarrow> Some None
                    | [author, collection, rkey] \<Rightarrow>
                        if \<not> is_valid_did author \<or> \<not> is_ok (validate_collection collection)
                           \<or> \<not> is_valid_record_key rkey then None
                        else Some (Some ())
                    | _ \<Rightarrow> None) of
                  None \<Rightarrow> None
                | Some record_tail \<Rightarrow>
                    Some (\<lparr>sr_uri = space_ref_string authority space_type skey,
                           sr_authority = authority, sr_space_type = space_type, sr_skey = skey\<rparr>,
                          record_tail))
          | _ \<Rightarrow> None))"

definition parse_space_ref :: "str \<Rightarrow> space_ref option" where
  "parse_space_ref value =
     (case split_space_uri value of
        None \<Rightarrow> None
      | Some (space, record_tail) \<Rightarrow> if record_tail = None then Some space else None)"

definition is_valid_space_ref :: "str \<Rightarrow> bool" where
  "is_valid_space_ref value \<longleftrightarrow> parse_space_ref value \<noteq> None"

definition is_space_at_uri :: "str \<Rightarrow> bool" where
  "is_space_at_uri value \<longleftrightarrow> split_space_uri value \<noteq> None"

section \<open>The validators of the two crates\<close>

lemma at_uri_label_ok_iff: "at_uri_label_ok l \<longleftrightarrow> valid_label l"
  by (cases "l = []") (auto simp: at_uri_label_ok_def valid_label_split list_all_iff)

lemma at_uri_validate_handle_ok_iff:
  "at_uri_validate_handle h = Inr () \<longleftrightarrow>
     h \<noteq> [] \<and> length h \<le> 253 \<and> 2 \<le> length (split_on CHR ''.'' h) \<and>
     (\<forall>l\<in>set (split_on CHR ''.'' h). valid_label l) \<and> leading_alpha (last (split_on CHR ''.'' h))"
  by (auto simp: at_uri_validate_handle_def Let_def at_uri_label_ok_iff list_all_iff)

lemma leading_alpha_iff_not_digit:
  assumes "valid_label l"
  shows "leading_alpha l \<longleftrightarrow> \<not> leading_digit l"
proof -
  obtain c cs where l: "l = c # cs" "c \<noteq> CHR ''-''"
    using assms by (cases l) (auto simp: valid_label_def)
  then have "is_alnum c" using assms by (auto simp: valid_label_def)
  with l show ?thesis by (auto simp: leading_alpha_def leading_digit_def ascii_simps)
qed

lemma handle_validators_same:
  "at_uri_validate_handle h = Inr () \<longleftrightarrow> is_ok (validate_handle_structure h)"
proof -
  have "(\<forall>l\<in>set (split_on CHR ''.'' h). valid_label l) \<Longrightarrow> valid_label (last (split_on CHR ''.'' h))"
    by simp
  then show ?thesis
    unfolding at_uri_validate_handle_ok_iff is_ok_iff validate_handle_structure_ok_iff
    using leading_alpha_iff_not_digit by blast
qed

text \<open>Both DID validators cut at the same colon; they differ only in the percent escapes.\<close>

lemma at_uri_validate_did_ok_iff:
  "at_uri_validate_did d = Inr () \<longleftrightarrow>
     (\<exists>meth msid. d = ''did:'' @ meth @ '':'' @ msid \<and> length d \<le> 2048 \<and>
        meth \<noteq> [] \<and> (\<forall>c\<in>set meth. is_lower c) \<and> msid \<noteq> [] \<and> last msid \<noteq> CHR '':'' \<and>
        (\<forall>b\<in>set msid. is_alnum b \<or> b \<in> {CHR ''.'', CHR ''-'', CHR ''_'', CHR '':'', CHR ''%''}))"
  (is "_ \<longleftrightarrow> (\<exists>meth msid. ?P meth msid)")
proof
  assume v: "at_uri_validate_did d = Inr ()"
  then obtain r where r: "split_once CHR '':'' d = Some (''did'', r)"
    by (auto simp: at_uri_validate_did_def Let_def split: if_splits option.splits)
  with v obtain meth msid where m: "split_once CHR '':'' r = Some (meth, msid)"
    by (auto simp: at_uri_validate_did_def Let_def split: if_splits option.splits)
  have e: "msid \<noteq> [] \<Longrightarrow> ends_with '':'' msid \<longleftrightarrow> last msid = CHR '':''"
    by (metis append_butlast_last_id ends_with_iff last_snoc)
  have "d = ''did:'' @ meth @ '':'' @ msid"
    using r m by (auto simp: split_once_Some)
  with v r m e have "?P meth msid"
    by (auto simp: at_uri_validate_did_def Let_def list_all_iff split: if_splits)
  then show "\<exists>meth msid. ?P meth msid" by blast
next
  assume "\<exists>meth msid. ?P meth msid"
  then obtain meth msid where p: "?P meth msid" by blast
  have "CHR '':'' \<notin> set meth" using p by (auto simp: ascii_simps)
  then have m: "split_once CHR '':'' (meth @ CHR '':'' # msid) = Some (meth, msid)" by simp
  have d: "split_once CHR '':'' d = Some (''did'', meth @ CHR '':'' # msid)"
    using p by simp
  have "\<not> ends_with '':'' msid" using p by (metis ends_with_iff last_snoc)
  with p m d show "at_uri_validate_did d = Inr ()"
    by (auto simp: at_uri_validate_did_def Let_def list_all_iff)
qed

lemma is_valid_did_at_uri: "is_valid_did d \<Longrightarrow> at_uri_validate_did d = Inr ()"
proof -
  assume v: "is_valid_did d"
  then obtain meth msid where d: "d = ''did:'' @ meth @ '':'' @ msid \<and> length d \<le> 2048 \<and>
        meth \<noteq> [] \<and> (\<forall>c\<in>set meth. is_lower c) \<and>
        msid \<noteq> [] \<and> last msid \<noteq> CHR '':'' \<and> did_bytes_ok msid"
    unfolding is_valid_did_iff by blast
  then have "set msid \<subseteq> set d" by auto
  with is_valid_did_chars [OF v] have
    "\<forall>b\<in>set msid. is_alnum b \<or> b \<in> {CHR ''.'', CHR ''-'', CHR ''_'', CHR '':'', CHR ''%''}"
    by blast
  with d show ?thesis unfolding at_uri_validate_did_ok_iff by blast
qed

lemma authority_chars:
  assumes "validate_authority a = Inr ()" "c \<in> set a"
  shows "c \<noteq> CHR ''/'' \<and> c \<noteq> CHR ''#'' \<and> c \<noteq> CHR ''?''"
proof (cases "starts_with ''did:'' a")
  case True
  with assms(1) have "at_uri_validate_did a = Inr ()" by (simp add: validate_authority_def)
  then obtain meth msid where a: "a = ''did:'' @ meth @ '':'' @ msid" "\<forall>c\<in>set meth. is_lower c"
    "\<forall>b\<in>set msid. is_alnum b \<or> b \<in> {CHR ''.'', CHR ''-'', CHR ''_'', CHR '':'', CHR ''%''}"
    unfolding at_uri_validate_did_ok_iff by blast
  have "c \<in> set ''did:'' \<or> c \<in> set meth \<or> c = CHR '':'' \<or> c \<in> set msid"
    using assms(2) unfolding a(1) by (simp, blast)
  then consider "c \<in> set ''did:''" | "is_lower c"
      | "is_alnum c \<or> c \<in> {CHR ''.'', CHR ''-'', CHR ''_'', CHR '':'', CHR ''%''}"
    using a(2,3) by blast
  then show ?thesis
  proof cases
    case 1
    have "\<forall>c\<in>set ''did:''. c \<noteq> CHR ''/'' \<and> c \<noteq> CHR ''#'' \<and> c \<noteq> CHR ''?''" by simp
    with 1 show ?thesis by blast
  qed (auto simp: ascii_simps)
next
  case False
  with assms(1) have "\<forall>l\<in>set (split_on CHR ''.'' a). valid_label l"
    by (simp add: validate_authority_def at_uri_validate_handle_ok_iff)
  then have "c = CHR ''.'' \<or> is_alnum c \<or> c = CHR ''-''"
    using set_via_split_on [of a "CHR ''.''"] assms(2) by (auto simp: valid_label_def)
  then show ?thesis by (auto simp: ascii_simps)
qed

lemma nsid_path_chars:
  assumes "valid_nsid v" "c \<in> set v"
  shows "c \<noteq> CHR ''/'' \<and> c \<noteq> CHR ''#'' \<and> c \<noteq> CHR ''?''"
  using valid_nsid_chars [OF assms] by (auto simp: ascii_simps)

lemma rkey_path_chars:
  assumes "is_record_key v" "c \<in> set v"
  shows "c \<noteq> CHR ''/'' \<and> c \<noteq> CHR ''#'' \<and> c \<noteq> CHR ''?''"
proof -
  have "is_alnum c \<or> c \<in> {CHR ''.'', CHR ''_'', CHR ''~'', CHR '':'', CHR ''-''}"
    using assms by (auto simp: is_record_key_def list_all_iff)
  then show ?thesis by (auto simp: ascii_simps)
qed

lemma did_path_chars:
  assumes "is_valid_did v" "c \<in> set v"
  shows "c \<noteq> CHR ''/'' \<and> c \<noteq> CHR ''#'' \<and> c \<noteq> CHR ''?''"
  using is_valid_did_chars [OF assms] by (auto simp: ascii_simps)

section \<open>The inverse of the parsers\<close>

definition at_uri_path :: "at_uri \<Rightarrow> str list" where
  "at_uri_path u = au_authority u # (case au_collection u of None \<Rightarrow> [] | Some c \<Rightarrow>
     c # (case au_rkey u of None \<Rightarrow> [] | Some r \<Rightarrow> [r]))"

definition at_uri_string :: "at_uri \<Rightarrow> str" where
  "at_uri_string u = ''at://'' @ join_with ''/'' (at_uri_path u)"

definition wf_at_uri :: "at_uri \<Rightarrow> bool" where
  "wf_at_uri u \<longleftrightarrow> validate_authority (au_authority u) = Inr () \<and> au_fragment u = None \<and>
     (case au_collection u of
        None \<Rightarrow> au_rkey u = None
      | Some c \<Rightarrow> (case au_rkey u of
            None \<Rightarrow> validate_collection c = Inr ()
          | Some r \<Rightarrow> validate_record_path c r = Inr ()))"

lemma record_path_chars:
  assumes "validate_record_path c r = Inr ()"
  shows "CHR ''/'' \<notin> set c \<and> CHR ''#'' \<notin> set c \<and> CHR ''/'' \<notin> set r \<and> CHR ''#'' \<notin> set r"
proof -
  have "valid_nsid c" "is_record_key r"
    using assms nsid_and_rkey_agree by (auto simp: is_nsid_iff)
  then show ?thesis using nsid_path_chars rkey_path_chars by blast
qed

lemma collection_chars:
  "validate_collection c = Inr () \<Longrightarrow> CHR ''/'' \<notin> set c \<and> CHR ''#'' \<notin> set c"
  using nsid_path_chars by (auto simp: validate_collection_ok_iff)

lemma authority_no_sep:
  "validate_authority a = Inr () \<Longrightarrow> CHR ''/'' \<notin> set a \<and> CHR ''#'' \<notin> set a"
  using authority_chars by blast

lemma at_uri_parts_ok: "at_uri_parts ws = Inr u \<longleftrightarrow> wf_at_uri u \<and> ws = at_uri_path u"
proof
  assume "at_uri_parts ws = Inr u"
  then show "wf_at_uri u \<and> ws = at_uri_path u"
    by (cases ws) (auto simp: wf_at_uri_def at_uri_path_def split: list.splits)
next
  assume "wf_at_uri u \<and> ws = at_uri_path u"
  then show "at_uri_parts ws = Inr u"
    by (cases u) (auto simp: wf_at_uri_def at_uri_path_def split: option.splits)
qed

lemma at_uri_path_free:
  assumes "wf_at_uri u" "w \<in> set (at_uri_path u)"
  shows "CHR ''/'' \<notin> set w \<and> CHR ''#'' \<notin> set w"
  using assms authority_no_sep [of "au_authority u"] collection_chars [of w]
    record_path_chars [of "the (au_collection u)" "the (au_rkey u)"]
  by (auto simp: wf_at_uri_def at_uri_path_def split: option.splits)

section \<open>Properties\<close>

text \<open>
  \<open>AtUri::parse\<close> accepts exactly the strings of at most 8192 bytes that are the canonical
  spelling of a well-formed \<open>(authority, collection, rkey)\<close>, and it returns those parts: parsing
  inverts printing and printing inverts parsing.
\<close>
theorem at_uri_parse_iff:
  "at_uri_parse v = Inr u \<longleftrightarrow> v = at_uri_string u \<and> wf_at_uri u \<and> length v \<le> 8192"
proof
  assume ok: "at_uri_parse v = Inr u"
  then obtain rest where rest: "v = ''at://'' @ rest" "length v \<le> 8192"
      and parts: "at_uri_parts (split_on CHR ''/'' rest) = Inr u"
    by (auto simp: at_uri_parse_def strip_prefix_Some split: if_splits option.splits)
  from parts have w: "wf_at_uri u" and sp: "split_on CHR ''/'' rest = at_uri_path u"
    by (auto simp: at_uri_parts_ok)
  have "rest = join_with ''/'' (at_uri_path u)"
    using join_split_on [of "CHR ''/''" rest] by (simp add: sp)
  with rest w show "v = at_uri_string u \<and> wf_at_uri u \<and> length v \<le> 8192"
    by (simp add: at_uri_string_def)
next
  assume rhs: "v = at_uri_string u \<and> wf_at_uri u \<and> length v \<le> 8192"
  let ?p = "join_with ''/'' (at_uri_path u)"
  have "split_on CHR ''/'' ?p = at_uri_path u"
    using rhs at_uri_path_free by (intro split_on_join) (auto simp: at_uri_path_def)
  then have "at_uri_parts (split_on CHR ''/'' ?p) = Inr u"
    using rhs by (simp add: at_uri_parts_ok)
  moreover have "CHR ''#'' \<notin> set ?p"
    using rhs at_uri_path_free by (intro join_with_free) auto
  moreover have "strip_prefix ''at://'' v = Some ?p"
    using rhs unfolding at_uri_string_def by (simp only: strip_prefix_Some)
  ultimately show "at_uri_parse v = Inr u" using rhs by (auto simp: at_uri_parse_def)
qed

text \<open>
  The two handle validators of the code base (\<open>repo-engine\<close>'s for the authority of an
  AT-URI, \<open>common\<close>'s for accounts) accept the same handles, although one asks for a leading
  letter in the last label and the other only refuses a leading digit. The DID validators are
  not equivalent: every DID \<open>common\<close> accepts is an AT-URI authority, and \<open>did:web:a%zz\<close> is an
  AT-URI authority that is not a DID.
\<close>
theorem handle_and_did_validators_compared:
  "(at_uri_validate_handle h = Inr () \<longleftrightarrow> is_ok (validate_handle_structure h))
   \<and> (is_valid_did d \<longrightarrow> at_uri_validate_did d = Inr ())
   \<and> at_uri_validate_did ''did:web:a%zz'' = Inr () \<and> \<not> is_valid_did ''did:web:a%zz''"
proof (intro conjI impI)
  show "at_uri_validate_did ''did:web:a%zz'' = Inr ()" by code_simp
  show "\<not> is_valid_did ''did:web:a%zz''" by code_simp
qed (simp_all add: handle_validators_same is_valid_did_at_uri)

theorem handle_and_did_validators_compared_witness:
  "is_valid_did ''did:plc:abc'' \<and> at_uri_validate_did ''did:plc:abc'' = Inr ()"
proof -
  have d: "is_valid_did ''did:plc:abc''" by code_simp
  with handle_and_did_validators_compared [of "''x''" "''did:plc:abc''"] show ?thesis by blast
qed

text \<open>
  A space reference is a faithful key: a string that parses as one is the canonical URI of
  the parts it yields, the parts determine the string and the string the parts, so one space
  never has two keys in the \<open>spaces\<close> table.
\<close>
theorem parse_space_ref_canonical:
  "parse_space_ref v = Some r \<longleftrightarrow>
     v = sr_uri r \<and> sr_uri r = space_ref_string (sr_authority r) (sr_space_type r) (sr_skey r) \<and>
     is_valid_did (sr_authority r) \<and> validate_collection (sr_space_type r) = Inr () \<and>
     is_valid_record_key (sr_skey r)"
  (is "_ \<longleftrightarrow> ?R")
proof
  assume "parse_space_ref v = Some r"
  then have sp: "split_space_uri v = Some (r, None)"
    by (auto simp: parse_space_ref_def split: option.splits if_splits)
  then obtain rest where rest: "strip_prefix ''at://'' v = Some rest"
    by (auto simp: split_space_uri_def split: option.splits)
  with sp obtain a m t k tail where ls: "split_on CHR ''/'' rest = a # m # t # k # tail"
    by (auto simp: split_space_uri_def split: option.splits if_splits list.splits)
  from sp rest ls have "tail = []" "m = ''space''"
    by (auto simp: split_space_uri_def split: option.splits if_splits list.splits)
  with ls have "rest = join_with ''/'' [a, ''space'', t, k]"
    using join_split_on [of "CHR ''/''" rest] by simp
  with sp rest ls \<open>tail = []\<close> show ?R
    by (auto simp: split_space_uri_def strip_prefix_Some space_ref_string_def is_ok_iff
        split: option.splits if_splits)
next
  assume r: ?R
  let ?ws = "[sr_authority r, ''space'', sr_space_type r, sr_skey r]"
  have key: "is_record_key (sr_skey r)" using r nsid_and_rkey_agree by blast
  have nsid: "valid_nsid (sr_space_type r)" using r by (simp add: validate_collection_ok_iff)
  have free: "w \<in> set ?ws \<Longrightarrow> c \<in> set w \<Longrightarrow> c \<noteq> CHR ''/'' \<and> c \<noteq> CHR ''#'' \<and> c \<noteq> CHR ''?''" for w c
    using did_path_chars [of "sr_authority r"] rkey_path_chars [OF key] nsid_path_chars [OF nsid] r
    by auto
  have v: "v = ''at://'' @ join_with ''/'' ?ws"
    using r by (simp add: space_ref_string_def)
  have sp: "split_on CHR ''/'' (join_with ''/'' ?ws) = ?ws"
    using free by (intro split_on_join) auto
  have no: "CHR ''#'' \<notin> set (join_with ''/'' ?ws) \<and> CHR ''?'' \<notin> set (join_with ''/'' ?ws)"
    using free by (intro conjI join_with_free) auto
  have "strip_prefix ''at://'' v = Some (join_with ''/'' ?ws)"
    using v by (simp only: strip_prefix_Some)
  then show "parse_space_ref v = Some r"
    using sp no r by (simp add: parse_space_ref_def split_space_uri_def)
qed

text \<open>
  The two URI families are disjoint: no string that addresses permissioned space data is
  also a public repository URI, because the marker segment \<open>space\<close> is not an NSID.
\<close>
theorem space_and_public_uris_disjoint:
  "is_space_at_uri v \<Longrightarrow> \<not> is_ok (at_uri_parse v)"
proof
  assume space: "is_space_at_uri v" and "is_ok (at_uri_parse v)"
  from space obtain rest a t k tail where
    v: "strip_prefix ''at://'' v = Some rest" and ls: "split_on CHR ''/'' rest = a # ''space'' # t # k # tail"
    by (auto simp: is_space_at_uri_def split_space_uri_def split: option.splits if_splits list.splits)
  with \<open>is_ok (at_uri_parse v)\<close> show False
    by (auto simp: at_uri_parse_def is_ok_iff split: if_splits list.splits)
qed

theorem space_and_public_uris_disjoint_witness:
  "\<not> is_ok (at_uri_parse ''at://did:plc:abc/space/com.example.forum/main'')"
proof -
  have "is_space_at_uri ''at://did:plc:abc/space/com.example.forum/main''" by code_simp
  then show ?thesis by (rule space_and_public_uris_disjoint)
qed

end
