(* ===== verification/Scope_Syntax.thy ===== *)
theory Scope_Syntax
  imports Prelude
begin

text \<open>
  The structural layer of the OAuth scope grammar of
  \<open>crates/custos-core/src/auth/oauth_scopes.rs\<close>: UTF-8 validity and \<open>String::from_utf8_lossy\<close>,
  \<open>percent_decode\<close> and \<open>encode_component\<close>, \<open>ScopeSyntax::parse\<close> with its accessors,
  \<open>format_scope\<close>, and \<open>str::split_whitespace\<close>. The lemmas show that the percent codec and
  \<open>format_scope\<close>/\<open>parse\<close> are inverse to each other on valid strings.
\<close>

section \<open>UTF-8\<close>

definition cont_byte :: "char \<Rightarrow> bool" where
  "cont_byte c \<longleftrightarrow> 128 \<le> byte c \<and> byte c \<le> 191"

definition in_bytes :: "nat \<Rightarrow> nat \<Rightarrow> char \<Rightarrow> bool" where
  "in_bytes lo hi c \<longleftrightarrow> lo \<le> byte c \<and> byte c \<le> hi"

text \<open>
  The validity of the second byte, given the first: the table of \<open>core::str::Utf8Chunks\<close>.
\<close>

definition second3_ok :: "char \<Rightarrow> char \<Rightarrow> bool" where
  "second3_ok b c \<longleftrightarrow>
     (byte b = 224 \<and> in_bytes 160 191 c) \<or>
     (in_bytes 225 236 b \<and> in_bytes 128 191 c) \<or>
     (byte b = 237 \<and> in_bytes 128 159 c) \<or>
     (in_bytes 238 239 b \<and> in_bytes 128 191 c)"

definition second4_ok :: "char \<Rightarrow> char \<Rightarrow> bool" where
  "second4_ok b c \<longleftrightarrow>
     (byte b = 240 \<and> in_bytes 144 191 c) \<or>
     (in_bytes 241 243 b \<and> in_bytes 128 191 c) \<or>
     (byte b = 244 \<and> in_bytes 128 143 c)"

text \<open>
  The chunk that starts with \<open>b\<close>: how many bytes of the rest it takes, and whether it is a
  well-formed character (else it is one maximal invalid sequence).
\<close>

definition utf8_chunk :: "char \<Rightarrow> str \<Rightarrow> nat \<times> bool" where
  "utf8_chunk b rest =
     (if byte b < 128 then (0, True)
      else if in_bytes 194 223 b then
        (case rest of c # _ \<Rightarrow> if cont_byte c then (1, True) else (0, False) | [] \<Rightarrow> (0, False))
      else if in_bytes 224 239 b then
        (case rest of
           c # r \<Rightarrow>
             if second3_ok b c then
               (case r of d # _ \<Rightarrow> if cont_byte d then (2, True) else (1, False) | [] \<Rightarrow> (1, False))
             else (0, False)
         | [] \<Rightarrow> (0, False))
      else if in_bytes 240 244 b then
        (case rest of
           c # r \<Rightarrow>
             if second4_ok b c then
               (case r of
                  d # q \<Rightarrow>
                    if cont_byte d then
                      (case q of e # _ \<Rightarrow> if cont_byte e then (3, True) else (2, False) | [] \<Rightarrow> (2, False))
                    else (1, False)
                | [] \<Rightarrow> (1, False))
             else (0, False)
         | [] \<Rightarrow> (0, False))
      else (0, False))"

definition replacement_char :: str where
  "replacement_char = [CHR 0xEF, CHR 0xBF, CHR 0xBD]"

function from_utf8_lossy :: "str \<Rightarrow> str" where
  "from_utf8_lossy [] = []"
| "from_utf8_lossy (b # rest) =
     (if snd (utf8_chunk b rest) then b # take (fst (utf8_chunk b rest)) rest else replacement_char) @
     from_utf8_lossy (drop (fst (utf8_chunk b rest)) rest)"
  by pat_completeness auto
termination by (relation "measure length") auto

function valid_utf8 :: "str \<Rightarrow> bool" where
  "valid_utf8 [] = True"
| "valid_utf8 (b # rest) =
     (snd (utf8_chunk b rest) \<and> valid_utf8 (drop (fst (utf8_chunk b rest)) rest))"
  by pat_completeness auto
termination by (relation "measure length") auto

section \<open>Percent coding\<close>

definition hex_digit :: "char \<Rightarrow> nat option" where
  "hex_digit c =
     (if is_digit c then Some (byte c - 48)
      else if in_bytes 97 102 c then Some (byte c - 87)
      else if in_bytes 65 70 c then Some (byte c - 55)
      else None)"

fun percent_decode_bytes :: "str \<Rightarrow> str" where
  "percent_decode_bytes (c # h # l # rest) =
     (if c = CHR ''%'' then
        (case (hex_digit h, hex_digit l) of
           (Some hi, Some lo) \<Rightarrow> char_of (hi * 16 + lo) # percent_decode_bytes rest
         | _ \<Rightarrow> c # percent_decode_bytes (h # l # rest))
      else c # percent_decode_bytes (h # l # rest))"
| "percent_decode_bytes (c # rest) = c # percent_decode_bytes rest"
| "percent_decode_bytes [] = []"

definition percent_decode :: "str \<Rightarrow> str" where
  "percent_decode input = from_utf8_lossy (percent_decode_bytes input)"

definition keep_byte :: "char \<Rightarrow> bool" where
  "keep_byte b \<longleftrightarrow> is_alnum b \<or> b \<in> set ''-_.~!*'' \<or> b = char_of (39 :: nat) \<or> b \<in> set ''():/+,@''"

definition upper_hex :: "nat \<Rightarrow> char" where
  "upper_hex n = (if n < 10 then char_of (48 + n) else char_of (55 + n))"

fun encode_component :: "str \<Rightarrow> str" where
  "encode_component [] = []"
| "encode_component (b # bs) =
     (if keep_byte b then [b] else [CHR ''%'', upper_hex (byte b div 16), upper_hex (byte b mod 16)]) @
     encode_component bs"

section \<open>Scope syntax\<close>

record scope_syntax =
  sc_prefix :: str
  sc_positional :: "str option"
  sc_params :: "(str \<times> str) list"

definition parse_query :: "str \<Rightarrow> (str \<times> str) list" where
  "parse_query query =
     map (\<lambda>seg. case split_once (CHR ''='') seg of
                  Some (k, v) \<Rightarrow> (percent_decode k, percent_decode v)
                | None \<Rightarrow> (percent_decode seg, []))
       (filter (\<lambda>seg. seg \<noteq> []) (split_on (CHR ''&'') query))"

definition scope_parse :: "str \<Rightarrow> scope_syntax" where
  "scope_parse token =
     (let colon = find_char (CHR '':'') token;
          question = find_char (CHR ''?'') token;
          prefix_end = (case (colon, question) of
                          (Some c, Some q) \<Rightarrow> Some (min c q)
                        | (Some c, None) \<Rightarrow> Some c
                        | (None, Some q) \<Rightarrow> Some q
                        | (None, None) \<Rightarrow> None)
      in case prefix_end of
           None \<Rightarrow> \<lparr> sc_prefix = token, sc_positional = None, sc_params = [] \<rparr>
         | Some p \<Rightarrow>
             \<lparr> sc_prefix = take p token,
               sc_positional =
                 (case (colon, question) of
                    (Some c, Some q) \<Rightarrow>
                      if c < q then Some (percent_decode (take (q - (c + 1)) (drop (c + 1) token)))
                      else None
                  | (Some c, None) \<Rightarrow> Some (percent_decode (drop (c + 1) token))
                  | _ \<Rightarrow> None),
               sc_params =
                 (case question of
                    Some q \<Rightarrow> if q + 1 < length token then parse_query (drop (q + 1) token) else []
                  | None \<Rightarrow> []) \<rparr>)"

definition sc_keys :: "scope_syntax \<Rightarrow> str list" where
  "sc_keys syntax = dedupe_sorted (map fst (sc_params syntax))"

definition get_multi :: "scope_syntax \<Rightarrow> str \<Rightarrow> str list" where
  "get_multi syntax key = map snd (filter (\<lambda>(k, _). k = key) (sc_params syntax))"

definition get_single :: "scope_syntax \<Rightarrow> str \<Rightarrow> str option option" where
  "get_single syntax key =
     (case get_multi syntax key of [] \<Rightarrow> None | [v] \<Rightarrow> Some (Some v) | _ \<Rightarrow> Some None)"

definition format_params :: "(str \<times> str) list \<Rightarrow> str" where
  "format_params params = join_with ''&'' (map (\<lambda>(k, v). k @ ''='' @ encode_component v) params)"

definition format_scope :: "str \<Rightarrow> str option \<Rightarrow> (str \<times> str) list \<Rightarrow> str" where
  "format_scope prefix positional params =
     prefix @
     (case positional of None \<Rightarrow> [] | Some pos \<Rightarrow> CHR '':'' # encode_component pos) @
     (if params = [] then [] else CHR ''?'' # format_params params)"

definition keys_allowed :: "scope_syntax \<Rightarrow> str list \<Rightarrow> bool" where
  "keys_allowed syntax allowed = list_all (\<lambda>k. k \<in> set allowed) (sc_keys syntax)"

definition collect_positional_multi :: "scope_syntax \<Rightarrow> str \<Rightarrow> str list option" where
  "collect_positional_multi syntax name =
     (let named = get_multi syntax name
      in case sc_positional syntax of
           Some pos \<Rightarrow> if named \<noteq> [] then None else Some [pos]
         | None \<Rightarrow> if named = [] then None else Some named)"

definition collect_positional_single :: "scope_syntax \<Rightarrow> str \<Rightarrow> str option" where
  "collect_positional_single syntax name =
     (case sc_positional syntax of
        Some pos \<Rightarrow> if list_ex (\<lambda>(k, _). k = name) (sc_params syntax) then None else Some pos
      | None \<Rightarrow> (case get_single syntax name of Some (Some v) \<Rightarrow> Some v | _ \<Rightarrow> None))"

section \<open>Whitespace splitting\<close>

text \<open>
  The length in bytes of the Unicode \<open>White_Space\<close> character at the head of the string, 0 if
  there is none.
\<close>

definition ws_len :: "str \<Rightarrow> nat" where
  "ws_len s =
     (case s of
        [] \<Rightarrow> 0
      | a # s1 \<Rightarrow>
          if in_bytes 9 13 a \<or> byte a = 32 then 1
          else (case s1 of
                  [] \<Rightarrow> 0
                | b # s2 \<Rightarrow>
                    if byte a = 194 \<and> (byte b = 133 \<or> byte b = 160) then 2
                    else (case s2 of
                            [] \<Rightarrow> 0
                          | c # _ \<Rightarrow>
                              if (byte a = 225 \<and> byte b = 154 \<and> byte c = 128) \<or>
                                 (byte a = 226 \<and> byte b = 128 \<and>
                                    (in_bytes 128 138 c \<or> byte c = 168 \<or> byte c = 169 \<or> byte c = 175)) \<or>
                                 (byte a = 226 \<and> byte b = 129 \<and> byte c = 159) \<or>
                                 (byte a = 227 \<and> byte b = 128 \<and> byte c = 128)
                              then 3 else 0)))"

function split_ws :: "str \<Rightarrow> str \<Rightarrow> str list" where
  "split_ws acc [] = [acc]"
| "split_ws acc (c # s) =
     (if ws_len (c # s) = 0 then split_ws (acc @ [c]) s
      else acc # split_ws [] (drop (ws_len (c # s) - 1) s))"
  by pat_completeness auto
termination by (relation "measure (\<lambda>(acc, s). length s)") auto

definition split_whitespace :: "str \<Rightarrow> str list" where
  "split_whitespace s = filter (\<lambda>t. t \<noteq> []) (split_ws [] s)"

section \<open>Facts about UTF-8\<close>

lemma utf8_chunk_take:
  "snd (utf8_chunk b rest) \<Longrightarrow>
   utf8_chunk b (take (fst (utf8_chunk b rest)) rest @ x) = utf8_chunk b rest"
  unfolding utf8_chunk_def by (auto split: if_splits list.splits simp: numeral_2_eq_2 numeral_3_eq_3)

lemma utf8_chunk_le: "fst (utf8_chunk b rest) \<le> length rest"
  unfolding utf8_chunk_def by (auto split: list.splits)

lemma from_utf8_lossy_id: "valid_utf8 s \<Longrightarrow> from_utf8_lossy s = s"
  by (induction s rule: valid_utf8.induct) auto

lemma replacement_char_valid: "valid_utf8 (replacement_char @ s) = valid_utf8 s"
proof -
  have "utf8_chunk (CHR 0xEF) (CHR 0xBF # CHR 0xBD # s) = (2, True)"
    by (simp add: utf8_chunk_def in_bytes_def second3_ok_def cont_byte_def)
  then show ?thesis by (simp add: replacement_char_def)
qed

lemma valid_utf8_chunk:
  assumes "snd (utf8_chunk b rest)"
  shows "valid_utf8 (b # take (fst (utf8_chunk b rest)) rest @ s) = valid_utf8 s"
  using utf8_chunk_take [OF assms, of s] utf8_chunk_le [of b rest] assms by simp

lemma valid_from_utf8_lossy [simp]: "valid_utf8 (from_utf8_lossy s)"
  by (induction s rule: from_utf8_lossy.induct)
    (auto simp: replacement_char_valid valid_utf8_chunk simp del: valid_utf8.simps(2))

lemma valid_utf8_ascii_Cons [simp]: "is_ascii c \<Longrightarrow> valid_utf8 (c # s) = valid_utf8 s"
  by (simp add: utf8_chunk_def is_ascii_def)

lemma ascii_valid_utf8: "list_all is_ascii s \<Longrightarrow> valid_utf8 s"
  by (induction s) (simp_all del: valid_utf8.simps(2))

lemma valid_percent_decode [simp]: "valid_utf8 (percent_decode s)"
  by (simp add: percent_decode_def)

section \<open>Facts about the percent codec\<close>

lemma hex_digit_upper_hex: "n < 16 \<Longrightarrow> hex_digit (upper_hex n) = Some n"
  by (auto simp: hex_digit_def upper_hex_def is_digit_def in_bytes_def)

lemma percent_not_kept [simp]: "\<not> keep_byte (CHR ''%'')"
  by code_simp

lemma keep_byte_not_percent: "keep_byte b \<Longrightarrow> b \<noteq> CHR ''%''"
  by auto

lemma percent_decode_bytes_other:
  "c \<noteq> CHR ''%'' \<Longrightarrow> percent_decode_bytes (c # s) = c # percent_decode_bytes s"
  by (cases "c # s" rule: percent_decode_bytes.cases) auto

lemma percent_decode_bytes_encode:
  "percent_decode_bytes (encode_component v @ s) = v @ percent_decode_bytes s"
proof (induction v)
  case Nil
  then show ?case by simp
next
  case (Cons b v)
  have "byte b div 16 < 16" "byte b mod 16 < 16"
    using byte_less_256 [of b] by (auto simp: less_mult_imp_div_less)
  then have "char_of (byte b div 16 * 16 + byte b mod 16) = b"
    by simp
  then show ?case
    using Cons \<open>byte b div 16 < 16\<close> \<open>byte b mod 16 < 16\<close>
    by (auto simp: percent_decode_bytes_other hex_digit_upper_hex keep_byte_not_percent)
qed

lemma percent_decode_encode: "valid_utf8 v \<Longrightarrow> percent_decode (encode_component v) = v"
  using percent_decode_bytes_encode [of v "[]"] by (simp add: percent_decode_def from_utf8_lossy_id)

lemma percent_decode_bytes_free: "CHR ''%'' \<notin> set s \<Longrightarrow> percent_decode_bytes s = s"
  by (induction s) (auto simp: percent_decode_bytes_other)

lemma upper_hex_keep: "n < 16 \<Longrightarrow> keep_byte (upper_hex n)"
  by (auto simp: keep_byte_def upper_hex_def ascii_simps)

lemma encode_component_chars: "c \<in> set (encode_component v) \<Longrightarrow> keep_byte c \<or> c = CHR ''%''"
proof (induction v)
  case (Cons b v)
  have "byte b div 16 < 16" "byte b mod 16 < 16"
    using byte_less_256 [of b] by (auto simp: less_mult_imp_div_less)
  with Cons show ?case by (auto simp: upper_hex_keep split: if_splits)
qed simp

text \<open>The characters of an encoded component: printable ASCII, none of the separators.\<close>

definition separator_char :: "char \<Rightarrow> bool" where
  "separator_char c \<longleftrightarrow> c \<in> set ''?&=# ''"

lemma separator_char_byte: "separator_char c \<longleftrightarrow> byte c = (32::nat) \<or> byte c = (35::nat) \<or> byte c = (38::nat) \<or> byte c = (61::nat) \<or> byte c = (63::nat)"
  unfolding separator_char_def by (auto simp: byte_eq_iff)

lemma keep_byte_range: "keep_byte c \<Longrightarrow> in_bytes 33 126 c \<and> \<not> separator_char c"
proof -
  have lit: "\<forall>c\<in>set ''-_.~!*''. in_bytes 33 126 c \<and> \<not> separator_char c"
    "\<forall>c\<in>set ''():/+,@''. in_bytes 33 126 c \<and> \<not> separator_char c"
    by code_simp+
  have alnum: "is_alnum c \<Longrightarrow> in_bytes 33 126 c \<and> \<not> separator_char c"
    by (auto simp: ascii_simps in_bytes_def separator_char_byte)
  have "in_bytes 33 126 (char_of (39::nat)) \<and> \<not> separator_char (char_of (39::nat))"
    by (simp add: in_bytes_def separator_char_byte)
  then show "keep_byte c \<Longrightarrow> in_bytes 33 126 c \<and> \<not> separator_char c"
    unfolding keep_byte_def using lit alnum by blast
qed

lemma encode_component_range:
  assumes "c \<in> set (encode_component v)"
  shows "in_bytes 33 126 c" "\<not> separator_char c"
proof -
  have "in_bytes 33 126 (CHR ''%'') \<and> \<not> separator_char (CHR ''%'')" by code_simp
  then show "in_bytes 33 126 c" "\<not> separator_char c"
    using encode_component_chars [OF assms] keep_byte_range by auto
qed

lemma encode_component_no_sep:
  "CHR ''?'' \<notin> set (encode_component v)" "CHR ''&'' \<notin> set (encode_component v)"
  "CHR ''='' \<notin> set (encode_component v)" "CHR '' '' \<notin> set (encode_component v)"
  using encode_component_range(2) [of _ v] by (auto simp: separator_char_def)

section \<open>Parsing back a formatted scope\<close>

text \<open>Every prefix and every parameter name of the grammar is a lower-case ASCII word.\<close>

definition plain_word :: "str \<Rightarrow> bool" where
  "plain_word k \<longleftrightarrow> k \<noteq> [] \<and> list_all is_lower k"

definition valid_params :: "(str \<times> str) list \<Rightarrow> bool" where
  "valid_params ps = list_all (\<lambda>(k, v). plain_word k \<and> valid_utf8 v) ps"

lemma plain_word_range: "plain_word k \<Longrightarrow> c \<in> set k \<Longrightarrow> in_bytes 97 122 c"
  by (auto simp: plain_word_def list_all_iff is_lower_def in_bytes_def)

lemma in_bytes_literals:
  "\<not> in_bytes 97 122 (CHR ''%'')" "\<not> in_bytes 97 122 (CHR ''='')" "\<not> in_bytes 97 122 (CHR ''&'')"
  "\<not> in_bytes 97 122 (CHR '':'')" "\<not> in_bytes 97 122 (CHR ''?'')"
  by (simp_all add: in_bytes_def)

lemma plain_word_free:
  assumes "plain_word k"
  shows "CHR ''%'' \<notin> set k" "CHR ''='' \<notin> set k" "CHR ''&'' \<notin> set k" "CHR '':'' \<notin> set k" "CHR ''?'' \<notin> set k"
  using plain_word_range [OF assms] in_bytes_literals by blast+

lemma plain_word_decode: "plain_word k \<Longrightarrow> percent_decode k = k"
proof -
  assume k: "plain_word k"
  have "list_all is_ascii k"
    using plain_word_range [OF k] by (fastforce simp: list_all_iff in_bytes_def is_ascii_def)
  with k show ?thesis
    by (simp add: percent_decode_def percent_decode_bytes_free plain_word_free ascii_valid_utf8
        from_utf8_lossy_id)
qed

lemma parse_query_format:
  assumes "ps \<noteq> []" "valid_params ps"
  shows "parse_query (format_params ps) = ps"
proof -
  let ?seg = "\<lambda>(k, v). k @ ''='' @ encode_component v"
  have free: "CHR ''&'' \<notin> set w" if w: "w \<in> set (map ?seg ps)" for w
  proof -
    obtain k v where kv: "(k, v) \<in> set ps" "w = k @ ''='' @ encode_component v" using w by auto
    then have "plain_word k" using assms(2) by (auto simp: valid_params_def list_all_iff)
    with kv(2) show ?thesis using encode_component_no_sep [of v] plain_word_free [of k] by simp
  qed
  have split: "split_on (CHR ''&'') (format_params ps) = map ?seg ps"
    unfolding format_params_def using assms(1) free by (intro split_on_join) auto
  have fil: "filter (\<lambda>seg. seg \<noteq> []) (map ?seg ps) = map ?seg ps"
    by (rule filter_True) auto
  have parsed: "(case split_once (CHR ''='') (?seg x) of
            Some (k, v) \<Rightarrow> (percent_decode k, percent_decode v)
          | None \<Rightarrow> (percent_decode (?seg x), [])) = x" if x: "x \<in> set ps" for x
  proof -
    obtain k v where kv: "x = (k, v)" by (cases x)
    then have "plain_word k" "valid_utf8 v" using assms(2) x by (auto simp: valid_params_def list_all_iff)
    with kv show ?thesis
      using plain_word_free [of k] by (simp add: plain_word_decode percent_decode_encode)
  qed
  show ?thesis
    unfolding parse_query_def split fil map_map o_def using parsed by (rule map_idI)
qed

definition wf_syntax :: "scope_syntax \<Rightarrow> bool" where
  "wf_syntax x \<longleftrightarrow> plain_word (sc_prefix x) \<and> valid_params (sc_params x) \<and>
     pred_option valid_utf8 (sc_positional x)"

lemma take_drop_prefix: "take (length p) (p @ r) = p" "drop (length p) (p @ r) = r"
  by simp_all

lemma format_params_not_Nil: "ps \<noteq> [] \<Longrightarrow> format_params ps \<noteq> []"
proof (cases ps)
  case (Cons x xs)
  then show ?thesis by (cases xs; cases x) (auto simp: format_params_def)
qed simp

lemma scope_parse_format:
  assumes "plain_word p" "valid_params ps" "pred_option valid_utf8 pos"
  shows "scope_parse (format_scope p pos ps) = \<lparr> sc_prefix = p, sc_positional = pos, sc_params = ps \<rparr>"
proof (cases pos)
  case None
  show ?thesis
  proof (cases "ps = []")
    case True
    have "find_char (CHR '':'') p = None" "find_char (CHR ''?'') p = None"
      using plain_word_free [OF assms(1)] by auto
    note cq = this
    have t: "format_scope p pos ps = p" using True None by (simp add: format_scope_def)
    show ?thesis unfolding t scope_parse_def cq using True None by simp
  next
    case False
    let ?t = "p @ CHR ''?'' # format_params ps"
    have q: "find_char (CHR ''?'') ?t = Some (length p)"
      using plain_word_free [OF assms(1)] by simp
    have c: "find_char (CHR '':'') ?t = None \<or> (\<exists>i. find_char (CHR '':'') ?t = Some i \<and> length p < i)"
    proof (cases "find_char (CHR '':'') ?t")
      case (Some i)
      then obtain a b where ab: "?t = a @ CHR '':'' # b" "length a = i" by (auto simp: find_char_Some)
      have "\<not> i < length p"
      proof
        assume i: "i < length p"
        have "?t ! i = CHR '':''" using ab by (metis nth_append_length)
        then have "CHR '':'' \<in> set p" using i by (simp add: nth_append) (metis i nth_mem)
        then show False using plain_word_free [OF assms(1)] by simp
      qed
      moreover have "i \<noteq> length p"
      proof
        assume "i = length p"
        then have "?t ! length p = CHR '':''" using ab by (metis nth_append_length)
        then show False by simp
      qed
      ultimately show ?thesis using Some by auto
    qed simp
    have ne: "format_params ps \<noteq> []" using False by (rule format_params_not_Nil)
    have pq: "parse_query (format_params ps) = ps" using False assms(2) by (rule parse_query_format)
    have t: "format_scope p pos ps = ?t" using None False by (simp add: format_scope_def)
    from c show ?thesis
    proof
      assume c: "find_char (CHR '':'') ?t = None"
      show ?thesis unfolding t scope_parse_def q c using None ne pq by simp
    next
      assume "\<exists>i. find_char (CHR '':'') ?t = Some i \<and> length p < i"
      then obtain i where c: "find_char (CHR '':'') ?t = Some i" and i: "length p < i" by blast
      show ?thesis unfolding t scope_parse_def q c using None ne pq i by simp
    qed
  qed
next
  case (Some w)
  have w: "valid_utf8 w" using assms(3) Some by simp
  let ?t = "p @ CHR '':'' # encode_component w @ (if ps = [] then [] else CHR ''?'' # format_params ps)"
  have t: "format_scope p pos ps = ?t" using Some by (simp add: format_scope_def)
  have c: "find_char (CHR '':'') ?t = Some (length p)"
    using plain_word_free [OF assms(1)] by simp
  show ?thesis
  proof (cases "ps = []")
    case True
    have q: "find_char (CHR ''?'') ?t = None"
      using True plain_word_free [OF assms(1)] encode_component_no_sep [of w] by simp
    show ?thesis
      unfolding t scope_parse_def c q using True Some by (simp add: percent_decode_encode w)
  next
    case False
    have t': "?t = (p @ CHR '':'' # encode_component w) @ CHR ''?'' # format_params ps"
      using False by simp
    have q: "find_char (CHR ''?'') ?t = Some (length p + 1 + length (encode_component w))"
      unfolding t' using plain_word_free [OF assms(1)] encode_component_no_sep [of w]
      by (subst find_char_app) auto
    have pq: "parse_query (format_params ps) = ps" using False assms(2) by (rule parse_query_format)
    have ne: "format_params ps \<noteq> []" using False by (rule format_params_not_Nil)
    show ?thesis
      unfolding t scope_parse_def c q using False Some ne pq
      by (simp add: percent_decode_encode w)
  qed
qed

section \<open>Facts about whitespace splitting\<close>

definition printable :: "str \<Rightarrow> bool" where
  "printable t = list_all (in_bytes 33 126) t"

lemma printable_simps [simp]:
  "printable []" "printable (c # t) \<longleftrightarrow> in_bytes 33 126 c \<and> printable t"
  "printable (s @ t) \<longleftrightarrow> printable s \<and> printable t"
  by (simp_all add: printable_def)

lemma ws_len_printable: "in_bytes 33 126 c \<Longrightarrow> ws_len (c # s) = 0"
  by (auto simp: ws_len_def in_bytes_def split: list.splits)

lemma ws_len_space: "ws_len (CHR '' '' # s) = 1"
  by (simp add: ws_len_def)

lemma ws_len_append_space: "s \<noteq> [] \<Longrightarrow> ws_len (s @ CHR '' '' # t) = ws_len s"
  by (auto simp: ws_len_def in_bytes_def split: list.splits)

lemma ws_len_le: "ws_len s \<le> length s"
  by (auto simp: ws_len_def split: list.splits)

lemma split_ws_printable:
  "printable w \<Longrightarrow> split_ws acc (w @ s) = split_ws (acc @ w) s"
  by (induction w arbitrary: acc) (auto simp: ws_len_printable)

lemma split_ws_append:
  "split_ws acc (s @ CHR '' '' # t) = split_ws acc s @ split_ws [] t"
proof (induction acc s rule: split_ws.induct)
  case (1 acc)
  then show ?case by (simp add: ws_len_space)
next
  case (2 acc c s)
  have "ws_len (c # s @ CHR '' '' # t) = ws_len (c # s)"
    using ws_len_append_space [of "c # s" t] by simp
  moreover have "ws_len (c # s) - 1 \<le> length s"
    using ws_len_le [of "c # s"] by simp
  ultimately show ?case using 2 by auto
qed

lemma split_whitespace_append:
  "split_whitespace (s @ '' '' @ t) = split_whitespace s @ split_whitespace t"
  by (simp add: split_whitespace_def split_ws_append)

lemma split_whitespace_word: "printable t \<Longrightarrow> t \<noteq> [] \<Longrightarrow> split_whitespace t = [t]"
  using split_ws_printable [of t "[]" "[]"] by (simp add: split_whitespace_def)

lemma split_whitespace_join:
  "(\<And>t. t \<in> set ts \<Longrightarrow> printable t \<and> t \<noteq> []) \<Longrightarrow> split_whitespace (join_with '' '' ts) = ts"
proof (induction ts)
  case Nil
  then show ?case by (simp add: split_whitespace_def)
next
  case (Cons t ts)
  then have t: "printable t" "t \<noteq> []" by auto
  show ?case
  proof (cases "ts = []")
    case True
    with t show ?thesis by (simp add: split_whitespace_word)
  next
    case False
    with Cons t show ?thesis
      by (simp add: join_with_Cons split_whitespace_append [simplified] split_whitespace_word)
  qed
qed

lemma encode_component_printable [simp]: "printable (encode_component v)"
  using encode_component_range(1) [of _ v] by (auto simp: printable_def list_all_iff)

lemma plain_word_printable: "plain_word k \<Longrightarrow> printable k"
  using plain_word_range [of k] by (fastforce simp: printable_def list_all_iff in_bytes_def)

lemma join_with_printable:
  "(\<And>t. t \<in> set ts \<Longrightarrow> printable t) \<Longrightarrow> printable sep \<Longrightarrow> printable (join_with sep ts)"
  by (induction sep ts rule: join_with.induct) auto

lemma in_bytes_separators:
  "in_bytes 33 126 (CHR '':'')" "in_bytes 33 126 (CHR ''?'')" "in_bytes 33 126 (CHR ''='')"
  "in_bytes 33 126 (CHR ''&'')"
  by (simp_all add: in_bytes_def)

lemma format_params_printable: "valid_params ps \<Longrightarrow> printable (format_params ps)"
  unfolding format_params_def
  by (rule join_with_printable)
    (fastforce simp: valid_params_def list_all_iff in_bytes_separators intro: plain_word_printable)+

lemma format_scope_printable:
  "plain_word p \<Longrightarrow> valid_params ps \<Longrightarrow> printable (format_scope p pos ps)"
  by (auto simp: format_scope_def plain_word_printable format_params_printable in_bytes_separators
      split: option.splits)

lemma format_scope_not_Nil: "plain_word p \<Longrightarrow> format_scope p pos ps \<noteq> []"
  by (simp add: format_scope_def plain_word_def)

lemma printable_no_space: "printable t \<Longrightarrow> CHR '' '' \<notin> set t"
  by (auto simp: printable_def list_all_iff in_bytes_def)

lemma scope_parse_valid:
  "list_all (\<lambda>(k, v). valid_utf8 v) (sc_params (scope_parse t))"
  "pred_option valid_utf8 (sc_positional (scope_parse t))"
  by (auto simp: scope_parse_def parse_query_def Let_def list_all_iff split: option.splits)

end
