(* ===== verification/Scopes.thy ===== *)
theory Scopes
  imports Scope_Syntax Record_Syntax Api_Error
begin

text \<open>
  The OAuth scope language of \<open>crates/custos-core/src/auth/oauth_scopes.rs\<close>: canonical
  normalization of each resource type (\<open>normalize_repo\<close> ... \<open>normalize_include\<close>,
  \<open>normalize_token\<close>, \<open>normalize_scope_request\<close>), and the enforcement side (\<open>allows_*\<close>,
  \<open>require_*\<close>). The locale \<open>token_wise\<close> is the contract every \<open>allows_*\<close> keeps: a scope
  string grants what one of its whitespace-separated tokens grants.
\<close>

section \<open>Constants\<close>

definition static_scopes :: "str list" where
  "static_scopes = [''atproto'', ''transition:email'', ''transition:generic'', ''transition:chat.bsky'']"

definition atproto_base_scope :: str where "atproto_base_scope = ''atproto''"

definition repo_actions :: "str list" where "repo_actions = [''create'', ''update'', ''delete'']"
definition account_attrs :: "str list" where "account_attrs = [''email'', ''repo'', ''status'']"
definition account_actions :: "str list" where "account_actions = [''read'', ''manage'']"
definition identity_attrs :: "str list" where "identity_attrs = [''handle'', ''*'']"

definition space_actions :: "str list" where
  "space_actions = [''read_self'', ''read'', ''create'', ''update'', ''delete'']"
definition space_default_actions :: "str list" where
  "space_default_actions = [''read'', ''create'', ''update'', ''delete'']"
definition space_manage_ops :: "str list" where
  "space_manage_ops = [''create'', ''update'', ''delete'']"

definition scope_prefix_summary :: "str list" where
  "scope_prefix_summary =
     [''repo:*'', ''rpc:*'', ''blob:*/*'', ''account:*'', ''identity:*'', ''space:*'', ''include:*'']"

definition supported_scopes :: "str list" where
  "supported_scopes = static_scopes @ scope_prefix_summary"

definition resource_group_label :: "str \<Rightarrow> str" where
  "resource_group_label token =
     (let p = hd (split_on (CHR '':'') token)
      in if p = ''repo'' then ''Repository writes''
         else if p = ''rpc'' then ''Cross-service requests''
         else if p = ''blob'' then ''File uploads''
         else if p = ''account'' then ''Account settings''
         else if p = ''identity'' then ''Identity''
         else if p = ''space'' then ''Spaces''
         else if p = ''transition'' then ''Legacy full access''
         else if p = ''include'' then ''Permission set''
         else ''Other'')"

section \<open>Validators\<close>

definition did_plc_prefix :: str where "did_plc_prefix = ''did:plc:''"
definition did_web_prefix :: str where "did_web_prefix = ''did:web:''"

definition is_did_plc :: "str \<Rightarrow> bool" where
  "is_did_plc v \<longleftrightarrow>
     length v = 32 \<and> starts_with did_plc_prefix v \<and>
     list_all (\<lambda>c. is_lower c \<or> in_bytes 50 55 c) (drop (length did_plc_prefix) v)"

definition is_atproto_did_web :: "str \<Rightarrow> bool" where
  "is_atproto_did_web v =
     (case strip_prefix did_web_prefix v of
        None \<Rightarrow> False
      | Some rest \<Rightarrow>
          if rest = [] \<or> starts_with '':'' rest then False
          else if CHR '':'' \<in> set rest then False
          else if (contains_str ''%3A'' rest \<or> contains_str ''%3a'' rest) \<and>
                  \<not> (rest = ''localhost'' \<or> starts_with ''localhost%3a'' (ascii_lowercase rest)) then False
          else list_all (\<lambda>b. is_alnum b \<or> b \<in> set ''.-_%'') rest)"

definition is_atproto_did :: "str \<Rightarrow> bool" where
  "is_atproto_did v \<longleftrightarrow> is_did_plc v \<or> is_atproto_did_web v"

definition is_atproto_audience :: "str \<Rightarrow> bool" where
  "is_atproto_audience v =
     (case split_once (CHR ''#'') v of
        Some (did, fragment) \<Rightarrow> fragment \<noteq> [] \<and> CHR ''#'' \<notin> set fragment \<and> is_atproto_did did
      | None \<Rightarrow> is_atproto_did v)"

definition is_type_slash_subtype :: "str \<Rightarrow> bool" where
  "is_type_slash_subtype v =
     (case find_char (CHR ''/'') v of
        None \<Rightarrow> False
      | Some idx \<Rightarrow>
          if idx = 0 then False
          else idx \<noteq> length v - 1 \<and> CHR ''/'' \<notin> set (drop (idx + 1) v) \<and> CHR '' '' \<notin> set v)"

definition is_accept :: "str \<Rightarrow> bool" where
  "is_accept v =
     (if v = ''*/*'' then True
      else if \<not> is_type_slash_subtype v then False
      else CHR ''*'' \<notin> set v \<or> ends_with ''/*'' v)"

definition is_collection_param :: "str \<Rightarrow> bool" where
  "is_collection_param v \<longleftrightarrow> v = ''*'' \<or> is_nsid v"

definition is_lxm_param :: "str \<Rightarrow> bool" where
  "is_lxm_param v \<longleftrightarrow> v = ''*'' \<or> is_nsid v"

definition is_space_type_param :: "str \<Rightarrow> bool" where
  "is_space_type_param v \<longleftrightarrow> v = ''*'' \<or> is_nsid v"

definition is_space_authority_param :: "str \<Rightarrow> bool" where
  "is_space_authority_param v \<longleftrightarrow> v = ''*'' \<or> v = ''self'' \<or> is_atproto_did v"

definition is_space_skey_param :: "str \<Rightarrow> bool" where
  "is_space_skey_param v \<longleftrightarrow> v = ''*'' \<or> is_record_key v"

section \<open>Normalization, per resource type\<close>

text \<open>One value goes in the positional argument, several in repeated parameters.\<close>

definition positional_of :: "str list \<Rightarrow> str option" where
  "positional_of vs = (if length vs = 1 then Some (vs ! 0) else None)"

definition named_of :: "str \<Rightarrow> str list \<Rightarrow> (str \<times> str) list" where
  "named_of name vs = (if length vs = 1 then [] else map (Pair name) vs)"

definition star_or_sorted :: "str list \<Rightarrow> str list" where
  "star_or_sorted vs = (if list_ex (\<lambda>c. c = ''*'') vs then [''*''] else dedupe_sorted vs)"

text \<open>
  The \<open>action\<close> argument: the default when it is absent, else the named values in the order of
  the full list.
\<close>

definition action_set :: "str list \<Rightarrow> str list \<Rightarrow> str list \<Rightarrow> str list" where
  "action_set dflt all v = (if v = [] then dflt else filter (\<lambda>a. a \<in> set v) all)"

definition normalize_repo :: "scope_syntax \<Rightarrow> str option" where
  "normalize_repo syntax =
     (if \<not> keys_allowed syntax [''collection'', ''action''] then None
      else case collect_positional_multi syntax ''collection'' of
        None \<Rightarrow> None
      | Some collection0 \<Rightarrow>
          if collection0 = [] \<or> \<not> list_all is_collection_param collection0 then None
          else
            let collection = star_or_sorted collection0;
                v = get_multi syntax ''action''
            in if v \<noteq> [] \<and> \<not> list_all (\<lambda>a. a \<in> set repo_actions) v then None
               else
                 let action = action_set repo_actions repo_actions v
                 in Some (format_scope ''repo'' (positional_of collection)
                      (named_of ''collection'' collection @
                       (if length action \<noteq> length repo_actions then map (Pair ''action'') action else []))))"

definition normalize_rpc :: "scope_syntax \<Rightarrow> str option" where
  "normalize_rpc syntax =
     (if \<not> keys_allowed syntax [''lxm'', ''aud''] then None
      else case collect_positional_multi syntax ''lxm'' of
        None \<Rightarrow> None
      | Some lxm0 \<Rightarrow>
          if lxm0 = [] \<or> \<not> list_all is_lxm_param lxm0 then None
          else
            let lxm = star_or_sorted lxm0
            in case get_single syntax ''aud'' of
                 Some (Some aud) \<Rightarrow>
                   if \<not> (aud = ''*'' \<or> is_atproto_audience aud) then None
                   else if aud = ''*'' \<and> list_ex (\<lambda>c. c = ''*'') lxm then None
                   else Some (format_scope ''rpc'' (positional_of lxm) (named_of ''lxm'' lxm @ [(''aud'', aud)]))
               | _ \<Rightarrow> None)"

text \<open>
  \<open>str::to_lowercase\<close>: ASCII strings by the ASCII rule, others by the Unicode tables of the
  standard library, the parameter \<open>ul\<close>.
\<close>

definition str_to_lowercase :: "(str \<Rightarrow> str) \<Rightarrow> str \<Rightarrow> str" where
  "str_to_lowercase ul s = (if list_all is_ascii s then ascii_lowercase s else ul s)"

definition is_redundant_accept :: "str \<Rightarrow> str list \<Rightarrow> bool" where
  "is_redundant_accept value accepts =
     (if ends_with ''/*'' value then False
      else list_ex (\<lambda>other. other = hd (split_on (CHR ''/'') value) @ ''/*'') accepts)"

definition normalized_accept :: "(str \<Rightarrow> str) \<Rightarrow> str list \<Rightarrow> str list" where
  "normalized_accept ul accept =
     (if list_ex (\<lambda>a. a = ''*/*'') accept then [''*/*'']
      else let unique = dedupe_sorted (map (str_to_lowercase ul) accept)
           in filter (\<lambda>a. \<not> is_redundant_accept a unique) unique)"

definition normalize_blob :: "(str \<Rightarrow> str) \<Rightarrow> scope_syntax \<Rightarrow> str option" where
  "normalize_blob ul syntax =
     (if \<not> keys_allowed syntax [''accept''] then None
      else case collect_positional_multi syntax ''accept'' of
        None \<Rightarrow> None
      | Some accept \<Rightarrow>
          if accept = [] \<or> \<not> list_all is_accept accept then None
          else
            let normalized = normalized_accept ul accept
            in Some (format_scope ''blob'' (positional_of normalized) (named_of ''accept'' normalized)))"

definition normalize_account :: "scope_syntax \<Rightarrow> str option" where
  "normalize_account syntax =
     (if \<not> keys_allowed syntax [''attr'', ''action''] then None
      else case collect_positional_single syntax ''attr'' of
        None \<Rightarrow> None
      | Some attr \<Rightarrow>
          if attr \<notin> set account_attrs then None
          else
            let v = get_multi syntax ''action''
            in if v \<noteq> [] \<and> \<not> list_all (\<lambda>a. a \<in> set account_actions) v then None
               else
                 let action = (if v = [] then [''read''] else dedupe_sorted v)
                 in Some (format_scope ''account'' (Some attr)
                      (if \<not> (length action = 1 \<and> action ! 0 = ''read'') then map (Pair ''action'') action
                       else [])))"

definition normalize_identity :: "scope_syntax \<Rightarrow> str option" where
  "normalize_identity syntax =
     (if \<not> keys_allowed syntax [''attr''] then None
      else case collect_positional_single syntax ''attr'' of
        None \<Rightarrow> None
      | Some attr \<Rightarrow>
          if attr \<notin> set identity_attrs then None
          else Some (format_scope ''identity'' (Some attr) []))"

record space_grant =
  sg_space_type :: str
  sg_authority :: str
  sg_skey :: str
  sg_collection :: "str list"
  sg_action :: "str list"
  sg_manage :: "str list"

definition parse_space_grant :: "scope_syntax \<Rightarrow> space_grant option" where
  "parse_space_grant syntax =
     (if \<not> keys_allowed syntax [''type'', ''authority'', ''skey'', ''collection'', ''action'', ''manage''] then None
      else case collect_positional_single syntax ''type'' of
        None \<Rightarrow> None
      | Some space_type \<Rightarrow>
          if \<not> is_space_type_param space_type then None
          else
            case (case get_single syntax ''authority'' of
                    None \<Rightarrow> Some ''self''
                  | Some (Some v) \<Rightarrow> if is_space_authority_param v then Some v else None
                  | Some None \<Rightarrow> None) of
              None \<Rightarrow> None
            | Some authority \<Rightarrow>
                case (case get_single syntax ''skey'' of
                        None \<Rightarrow> Some ''*''
                      | Some (Some v) \<Rightarrow> if is_space_skey_param v then Some v else None
                      | Some None \<Rightarrow> None) of
                  None \<Rightarrow> None
                | Some skey \<Rightarrow>
                    let collection = get_multi syntax ''collection'';
                        v = get_multi syntax ''action'';
                        manage = get_multi syntax ''manage''
                    in if \<not> list_all is_collection_param collection then None
                       else if v \<noteq> [] \<and> \<not> list_all (\<lambda>a. a \<in> set space_actions) v then None
                       else if \<not> list_all (\<lambda>m. m \<in> set space_manage_ops) manage then None
                       else Some \<lparr> sg_space_type = space_type, sg_authority = authority, sg_skey = skey,
                              sg_collection = star_or_sorted collection,
                              sg_action = action_set space_default_actions space_actions v,
                              sg_manage = filter (\<lambda>m. m \<in> set manage) space_manage_ops \<rparr>)"

definition parse_space_token :: "str \<Rightarrow> space_grant option" where
  "parse_space_token token =
     (let syntax = scope_parse token
      in if sc_prefix syntax \<noteq> ''space'' then None else parse_space_grant syntax)"

definition space_grant_writes_records :: "space_grant \<Rightarrow> bool" where
  "space_grant_writes_records grant =
     list_ex (\<lambda>a. a = ''create'' \<or> a = ''update'' \<or> a = ''delete'') (sg_action grant)"

definition space_params :: "space_grant \<Rightarrow> (str \<times> str) list" where
  "space_params grant =
     (if sg_authority grant \<noteq> ''self'' then [(''authority'', sg_authority grant)] else []) @
     (if sg_skey grant \<noteq> ''*'' then [(''skey'', sg_skey grant)] else []) @
     map (Pair ''collection'') (sg_collection grant) @
     (if sg_action grant \<noteq> space_default_actions then map (Pair ''action'') (sg_action grant) else []) @
     map (Pair ''manage'') (sg_manage grant)"

definition normalize_space :: "scope_syntax \<Rightarrow> str option" where
  "normalize_space syntax =
     (case parse_space_grant syntax of
        None \<Rightarrow> None
      | Some grant \<Rightarrow> Some (format_scope ''space'' (Some (sg_space_type grant)) (space_params grant)))"

definition normalize_include :: "scope_syntax \<Rightarrow> str option" where
  "normalize_include syntax =
     (if \<not> keys_allowed syntax [''nsid'', ''aud''] then None
      else case collect_positional_single syntax ''nsid'' of
        None \<Rightarrow> None
      | Some nsid \<Rightarrow>
          if \<not> is_nsid nsid then None
          else case get_single syntax ''aud'' of
                 None \<Rightarrow> Some (format_scope ''include'' (Some nsid) [])
               | Some (Some v) \<Rightarrow>
                   if is_atproto_audience v then Some (format_scope ''include'' (Some nsid) [(''aud'', v)])
                   else None
               | Some None \<Rightarrow> None)"

section \<open>Normalization of tokens and requests\<close>

definition normalize_syntax :: "(str \<Rightarrow> str) \<Rightarrow> scope_syntax \<Rightarrow> str option" where
  "normalize_syntax ul syntax =
     (let p = sc_prefix syntax
      in if p = ''repo'' then normalize_repo syntax
         else if p = ''rpc'' then normalize_rpc syntax
         else if p = ''blob'' then normalize_blob ul syntax
         else if p = ''account'' then normalize_account syntax
         else if p = ''identity'' then normalize_identity syntax
         else if p = ''space'' then normalize_space syntax
         else if p = ''include'' then normalize_include syntax
         else None)"

definition normalize_token :: "(str \<Rightarrow> str) \<Rightarrow> str \<Rightarrow> str option" where
  "normalize_token ul token =
     (if token \<in> set static_scopes then Some token
      else normalize_syntax ul (scope_parse token))"

text \<open>The loop of \<open>normalize_scope_request\<close>: the canonical tokens, or the first error.\<close>

fun normalize_tokens :: "(str \<Rightarrow> str) \<Rightarrow> str list \<Rightarrow> str + str list" where
  "normalize_tokens ul [] = Inr []"
| "normalize_tokens ul (token # tokens) =
     (case normalize_token ul token of
        None \<Rightarrow> Inl (''unsupported or malformed scope: \"'' @ token @ ''\"'')
      | Some normalized \<Rightarrow>
          (case normalize_tokens ul tokens of
             Inl e \<Rightarrow> Inl e
           | Inr ns \<Rightarrow> Inr (normalized # ns)))"

definition normalize_scope_request :: "(str \<Rightarrow> str) \<Rightarrow> str \<Rightarrow> str + str" where
  "normalize_scope_request ul requested =
     (case normalize_tokens ul (filter (\<lambda>t. t \<noteq> []) (split_on (CHR '' '') requested)) of
        Inl e \<Rightarrow> Inl e
      | Inr normalized \<Rightarrow>
          let canonical = dedupe_sorted normalized
          in if canonical = [] then Inl ''scope must not be empty''
             else if atproto_base_scope \<notin> set normalized then Inl ''the \"atproto\" scope is required''
             else Inr (join_with '' '' canonical))"

definition intersect_scope_tokens :: "str list \<Rightarrow> str list \<Rightarrow> str list" where
  "intersect_scope_tokens a b = dedupe_sorted (filter (\<lambda>t. t \<in> set b) a)"

text \<open>The Rust \<open>{:?}\<close> rendering of the offending token is the parameter \<open>dbg\<close>.\<close>

definition canonicalize_agent_scopes :: "(str \<Rightarrow> str) \<Rightarrow> (str \<Rightarrow> str) \<Rightarrow> str list \<Rightarrow> str + str list" where
  "canonicalize_agent_scopes ul dbg tokens =
     collect_results
       (\<lambda>token. ok_or (normalize_token ul token) (''unsupported or malformed scope token: '' @ dbg token))
       tokens"

definition is_atproto_oauth_scope :: "(str \<Rightarrow> str) \<Rightarrow> str \<Rightarrow> bool" where
  "is_atproto_oauth_scope ul scope = is_ok (normalize_scope_request ul scope)"

section \<open>Enforcement\<close>

datatype repo_action = Create | Update | Delete

fun repo_action_str :: "repo_action \<Rightarrow> str" where
  "repo_action_str Create = ''create''"
| "repo_action_str Update = ''update''"
| "repo_action_str Delete = ''delete''"

definition has_transition_generic :: "str \<Rightarrow> bool" where
  "has_transition_generic scope = list_ex (\<lambda>token. token = ''transition:generic'') (split_whitespace scope)"

definition param_values :: "str \<Rightarrow> (str \<times> str) list \<Rightarrow> str list" where
  "param_values key params = map snd (filter (\<lambda>(k, _). k = key) params)"

definition account_token_allows_action :: "str \<Rightarrow> str \<Rightarrow> str \<Rightarrow> bool" where
  "account_token_allows_action token attr action =
     (let syntax = scope_parse token
      in case sc_positional syntax of
           Some pos \<Rightarrow>
             if sc_prefix syntax = ''account'' \<and> pos = attr then
               let actions = param_values ''action'' (sc_params syntax)
               in if actions = [] then action = ''read'' else action \<in> set actions
             else False
         | None \<Rightarrow> False)"

definition account_token_allows :: "str \<Rightarrow> str \<Rightarrow> bool" where
  "account_token_allows token attr \<longleftrightarrow>
     account_token_allows_action token attr ''read'' \<or> account_token_allows_action token attr ''manage''"

definition allows_email :: "str \<Rightarrow> bool" where
  "allows_email scope \<longleftrightarrow>
     has_transition_generic scope \<or>
     list_ex (\<lambda>token. token = ''transition:email'' \<or> account_token_allows token ''email'') (split_whitespace scope)"

definition identity_token_allows :: "str \<Rightarrow> str \<Rightarrow> bool" where
  "identity_token_allows attr token =
     (let syntax = scope_parse token
      in case sc_positional syntax of
           Some pos \<Rightarrow> if sc_prefix syntax = ''identity'' then pos = ''*'' \<or> pos = attr else False
         | None \<Rightarrow> False)"

definition allows_identity :: "str \<Rightarrow> str \<Rightarrow> bool" where
  "allows_identity scope attr = list_ex (identity_token_allows attr) (split_whitespace scope)"

definition allows_account :: "str \<Rightarrow> str \<Rightarrow> str \<Rightarrow> bool" where
  "allows_account scope attr action \<longleftrightarrow>
     has_transition_generic scope \<or>
     list_ex (\<lambda>token. account_token_allows_action token attr action) (split_whitespace scope)"

definition collection_matches :: "str \<Rightarrow> str \<Rightarrow> bool" where
  "collection_matches grant collection \<longleftrightarrow> grant = ''*'' \<or> grant = collection"

definition lxm_matches :: "str \<Rightarrow> str \<Rightarrow> bool" where
  "lxm_matches grant lxm \<longleftrightarrow> grant = ''*'' \<or> grant = lxm"

definition repo_actions_match :: "(str \<times> str) list \<Rightarrow> repo_action \<Rightarrow> bool" where
  "repo_actions_match params action =
     (let actions = param_values ''action'' params
      in actions = [] \<or> repo_action_str action \<in> set actions)"

definition aud_did :: "str \<Rightarrow> str" where
  "aud_did aud = (case split_once (CHR ''#'') aud of None \<Rightarrow> aud | Some (did, _) \<Rightarrow> did)"

definition aud_matches :: "(str \<times> str) list \<Rightarrow> str \<Rightarrow> bool" where
  "aud_matches params aud =
     (case find (\<lambda>(k, _). k = ''aud'') params of
        None \<Rightarrow> False
      | Some (_, value) \<Rightarrow> value = ''*'' \<or> aud_did value = aud_did aud)"

definition accept_matches :: "str \<Rightarrow> str \<Rightarrow> bool" where
  "accept_matches grant0 mime0 =
     (let grant = ascii_lowercase grant0; mime_type = ascii_lowercase mime0
      in grant = ''*/*'' \<or> grant = mime_type \<or>
         (case strip_suffix ''/*'' grant of
            None \<Rightarrow> False
          | Some prefix \<Rightarrow> starts_with (prefix @ ''/'') mime_type))"

definition repo_token_allows :: "str \<Rightarrow> repo_action \<Rightarrow> str \<Rightarrow> bool" where
  "repo_token_allows collection action token =
     (let syntax = scope_parse token; params = sc_params syntax
      in if sc_prefix syntax \<noteq> ''repo'' then False
         else case sc_positional syntax of
           Some pos \<Rightarrow> collection_matches pos collection \<and> repo_actions_match params action
         | None \<Rightarrow>
             let collections = param_values ''collection'' params
             in collections \<noteq> [] \<and> list_ex (\<lambda>c. collection_matches c collection) collections \<and>
                repo_actions_match params action)"

definition allows_repo :: "str \<Rightarrow> str \<Rightarrow> repo_action \<Rightarrow> bool" where
  "allows_repo scope collection action \<longleftrightarrow>
     has_transition_generic scope \<or> list_ex (repo_token_allows collection action) (split_whitespace scope)"

definition rpc_token_allows :: "str \<Rightarrow> str \<Rightarrow> str \<Rightarrow> bool" where
  "rpc_token_allows lxm aud token =
     (if token = ''transition:chat.bsky'' then starts_with ''chat.bsky.'' lxm
      else
        let syntax = scope_parse token; params = sc_params syntax
        in if sc_prefix syntax \<noteq> ''rpc'' then False
           else case sc_positional syntax of
             Some pos \<Rightarrow> lxm_matches pos lxm \<and> aud_matches params aud
           | None \<Rightarrow>
               let lxms = param_values ''lxm'' params
               in lxms \<noteq> [] \<and> list_ex (\<lambda>candidate. lxm_matches candidate lxm) lxms \<and>
                  aud_matches params aud)"

definition allows_rpc :: "str \<Rightarrow> str \<Rightarrow> str \<Rightarrow> bool" where
  "allows_rpc scope lxm aud \<longleftrightarrow>
     has_transition_generic scope \<or> list_ex (rpc_token_allows lxm aud) (split_whitespace scope)"

definition blob_token_allows :: "str \<Rightarrow> str \<Rightarrow> bool" where
  "blob_token_allows mime_type token =
     (let syntax = scope_parse token
      in if sc_prefix syntax \<noteq> ''blob'' then False
         else case sc_positional syntax of
           Some pos \<Rightarrow> accept_matches pos mime_type
         | None \<Rightarrow> list_ex (\<lambda>accept. accept_matches accept mime_type) (param_values ''accept'' (sc_params syntax)))"

definition allows_blob :: "str \<Rightarrow> str \<Rightarrow> bool" where
  "allows_blob scope mime_type \<longleftrightarrow>
     has_transition_generic scope \<or> list_ex (blob_token_allows mime_type) (split_whitespace scope)"

datatype space_op = OpRead | OpReadSelf | OpRecord repo_action str | OpManage repo_action

record space_request =
  rq_space_type :: str
  rq_authority :: str
  rq_skey :: str
  rq_op :: space_op
  rq_account_did :: str
  rq_declared_collections :: "str list"

definition collection_allows :: "space_grant \<Rightarrow> str \<Rightarrow> space_request \<Rightarrow> bool" where
  "collection_allows grant collection req =
     (if sg_collection grant = [] then
        sg_space_type grant \<noteq> ''*'' \<and> list_ex (\<lambda>c. c = collection) (rq_declared_collections req)
      else list_ex (\<lambda>c. c = ''*'' \<or> c = collection) (sg_collection grant))"

definition space_grant_matches :: "space_grant \<Rightarrow> space_request \<Rightarrow> bool" where
  "space_grant_matches grant req =
     (let authority = (if sg_authority grant = ''self'' then rq_account_did req else sg_authority grant)
      in if sg_space_type grant \<noteq> ''*'' \<and> sg_space_type grant \<noteq> rq_space_type req then False
         else if authority \<noteq> ''*'' \<and> authority \<noteq> rq_authority req then False
         else if sg_skey grant \<noteq> ''*'' \<and> sg_skey grant \<noteq> rq_skey req then False
         else case rq_op req of
           OpRead \<Rightarrow> list_ex (\<lambda>a. a = ''read'') (sg_action grant)
         | OpReadSelf \<Rightarrow> list_ex (\<lambda>a. a = ''read'' \<or> a = ''read_self'') (sg_action grant)
         | OpRecord action collection \<Rightarrow>
             list_ex (\<lambda>a. a = repo_action_str action) (sg_action grant) \<and> collection_allows grant collection req
         | OpManage op \<Rightarrow> list_ex (\<lambda>m. m = repo_action_str op) (sg_manage grant))"

definition space_token_allows :: "space_request \<Rightarrow> str \<Rightarrow> bool" where
  "space_token_allows req token =
     (let syntax = scope_parse token
      in sc_prefix syntax = ''space'' \<and>
         (case parse_space_grant syntax of None \<Rightarrow> False | Some grant \<Rightarrow> space_grant_matches grant req))"

definition allows_space :: "str \<Rightarrow> space_request \<Rightarrow> bool" where
  "allows_space scope req = list_ex (space_token_allows req) (split_whitespace scope)"

definition scope_access :: str where "scope_access = ''com.atproto.access''"

definition insufficient_scope :: "str \<Rightarrow> unit api_error" where
  "insufficient_scope message = api_error_new InsufficientScope message"

definition require_email :: "str \<Rightarrow> unit api_error + unit" where
  "require_email scope =
     (if scope = scope_access \<or> allows_email scope then Inr ()
      else Inl (insufficient_scope ''token scope does not permit reading email fields''))"

definition require_identity :: "str \<Rightarrow> str \<Rightarrow> unit api_error + unit" where
  "require_identity scope attr =
     (if scope = scope_access \<or> allows_identity scope attr then Inr ()
      else Inl (insufficient_scope ''token scope does not permit identity operations''))"

definition require_account :: "str \<Rightarrow> str \<Rightarrow> str \<Rightarrow> unit api_error + unit" where
  "require_account scope attr action =
     (if scope = scope_access \<or> allows_account scope attr action then Inr ()
      else Inl (insufficient_scope ''token scope does not permit account status changes''))"

definition require_repo :: "str \<Rightarrow> str \<Rightarrow> repo_action \<Rightarrow> unit api_error + unit" where
  "require_repo scope collection action =
     (if scope = scope_access \<or> allows_repo scope collection action then Inr ()
      else Inl (insufficient_scope ''token scope does not permit this repo write''))"

definition require_rpc :: "str \<Rightarrow> str \<Rightarrow> str \<Rightarrow> str \<Rightarrow> unit api_error + unit" where
  "require_rpc scope lxm aud message =
     (if scope = scope_access \<or> allows_rpc scope lxm aud then Inr ()
      else Inl (insufficient_scope message))"

definition require_blob :: "str \<Rightarrow> str \<Rightarrow> unit api_error + unit" where
  "require_blob scope mime_type =
     (if scope = scope_access \<or> allows_blob scope mime_type then Inr ()
      else Inl (insufficient_scope ''token scope does not permit this blob upload''))"

definition require_space :: "str \<Rightarrow> space_request \<Rightarrow> unit api_error + unit" where
  "require_space scope req =
     (if scope = scope_access \<or> allows_space scope req then Inr ()
      else Inl (insufficient_scope ''token scope does not permit this space operation''))"

section \<open>The contract of the enforcement functions\<close>

locale token_wise =
  fixes allows :: "str \<Rightarrow> bool" and token_ok :: "str \<Rightarrow> bool"
  assumes allows_iff: "allows scope \<longleftrightarrow> (\<exists>t\<in>set (split_whitespace scope). token_ok t)"
begin

lemma allows_append: "allows (s @ '' '' @ t) \<longleftrightarrow> allows s \<or> allows t"
  by (auto simp: allows_iff split_whitespace_append [simplified])

lemma allows_mono: "set (split_whitespace s) \<subseteq> set (split_whitespace t) \<Longrightarrow> allows s \<Longrightarrow> allows t"
  by (auto simp: allows_iff)

lemma allows_set_cong: "set (split_whitespace s) = set (split_whitespace t) \<Longrightarrow> allows s = allows t"
  by (simp add: allows_iff)

lemma allows_join:
  "(\<And>t. t \<in> set ts \<Longrightarrow> printable t \<and> t \<noteq> []) \<Longrightarrow> allows (join_with '' '' ts) \<longleftrightarrow> (\<exists>t\<in>set ts. token_ok t)"
  by (simp add: allows_iff split_whitespace_join)

lemma allows_empty: "\<not> allows []"
  by (simp add: allows_iff split_whitespace_def)

end

definition generic_or :: "(str \<Rightarrow> bool) \<Rightarrow> str \<Rightarrow> bool" where
  "generic_or f token \<longleftrightarrow> token = ''transition:generic'' \<or> f token"

lemmas allows_defs = allows_repo_def allows_rpc_def allows_blob_def allows_account_def allows_email_def
  allows_identity_def allows_space_def has_transition_generic_def generic_or_def

interpretation repo: token_wise "\<lambda>s. allows_repo s collection action" "generic_or (repo_token_allows collection action)"
  for collection action by unfold_locales (auto simp: allows_defs list_ex_iff)

interpretation rpc: token_wise "\<lambda>s. allows_rpc s lxm aud" "generic_or (rpc_token_allows lxm aud)"
  for lxm aud by unfold_locales (auto simp: allows_defs list_ex_iff)

interpretation blob: token_wise "\<lambda>s. allows_blob s mime" "generic_or (blob_token_allows mime)"
  for mime by unfold_locales (auto simp: allows_defs list_ex_iff)

interpretation account: token_wise "\<lambda>s. allows_account s attr action"
    "generic_or (\<lambda>t. account_token_allows_action t attr action)"
  for attr action by unfold_locales (auto simp: allows_defs list_ex_iff)

interpretation email: token_wise allows_email
    "generic_or (\<lambda>t. t = ''transition:email'' \<or> account_token_allows t ''email'')"
  by unfold_locales (auto simp: allows_defs list_ex_iff)

interpretation identity: token_wise "\<lambda>s. allows_identity s attr" "identity_token_allows attr"
  for attr by unfold_locales (auto simp: allows_defs list_ex_iff)

interpretation space: token_wise "\<lambda>s. allows_space s req" "space_token_allows req"
  for req by unfold_locales (auto simp: allows_defs list_ex_iff)

end
