(* ===== verification/Scope_Canonical.thy ===== *)
theory Scope_Canonical
  imports Scopes
begin

text \<open>
  Canonical forms of OAuth scopes: the output of \<open>normalize_token\<close> and
  \<open>normalize_scope_request\<close> parses back to the syntax it was rendered from and is a fixed point.
\<close>

section \<open>Reading back rendered parameters\<close>

lemma get_multi_param_values: "get_multi s k = param_values k (sc_params s)"
  by (simp add: get_multi_def param_values_def)

lemma param_values_simps [simp]:
  "param_values k [] = []"
  "param_values k ((n, v) # ps) = (if n = k then v # param_values k ps else param_values k ps)"
  "param_values k (ps @ qs) = param_values k ps @ param_values k qs"
  "param_values k (map (Pair n) vs) = (if n = k then vs else [])"
  by (simp_all add: param_values_def) (induction vs; simp)

lemma param_values_named [simp]:
  "param_values k (named_of n vs) = (if n = k \<and> length vs \<noteq> 1 then vs else [])"
  by (simp add: named_of_def)

lemma keys_allowed_iff: "keys_allowed s allowed \<longleftrightarrow> fst ` set (sc_params s) \<subseteq> set allowed"
  by (auto simp: keys_allowed_def sc_keys_def list_all_iff)

lemma named_of_keys: "fst ` set (named_of n vs) \<subseteq> {n}"
  by (auto simp: named_of_def)

lemma get_single_param_values:
  "get_single s k = (case param_values k (sc_params s) of [] \<Rightarrow> None | [v] \<Rightarrow> Some (Some v) | _ \<Rightarrow> Some None)"
  by (simp add: get_single_def get_multi_param_values)

lemma collect_multi_rendered:
  assumes "vs \<noteq> []" "param_values n rest = []"
  shows "collect_positional_multi
     \<lparr> sc_prefix = p, sc_positional = positional_of vs, sc_params = named_of n vs @ rest \<rparr> n = Some vs"
  using assms by (cases vs) (auto simp: collect_positional_multi_def get_multi_param_values positional_of_def Let_def)

lemma list_ex_key: "list_ex (\<lambda>(k, _). k = n) ps \<longleftrightarrow> param_values n ps \<noteq> []"
  by (auto simp: param_values_def list_ex_iff filter_empty_conv)

lemma collect_single_rendered:
  "param_values n ps = [] \<Longrightarrow>
   collect_positional_single \<lparr> sc_prefix = p, sc_positional = Some v, sc_params = ps \<rparr> n = Some v"
  by (simp add: collect_positional_single_def list_ex_key)

section \<open>Values of a parsed token\<close>

definition valid_syntax :: "scope_syntax \<Rightarrow> bool" where
  "valid_syntax s \<longleftrightarrow> list_all (\<lambda>(k, v). valid_utf8 v) (sc_params s) \<and> pred_option valid_utf8 (sc_positional s)"

lemma valid_scope_parse [simp]: "valid_syntax (scope_parse t)"
  using scope_parse_valid [of t] by (simp add: valid_syntax_def)

lemma get_multi_valid: "valid_syntax s \<Longrightarrow> v \<in> set (get_multi s k) \<Longrightarrow> valid_utf8 v"
  by (auto simp: valid_syntax_def get_multi_def list_all_iff)

lemma get_single_valid: "valid_syntax s \<Longrightarrow> get_single s k = Some (Some v) \<Longrightarrow> valid_utf8 v"
  by (rule get_multi_valid [of s v k]) (auto simp: get_single_def split: list.splits)

lemma collect_multi_valid:
  "valid_syntax s \<Longrightarrow> collect_positional_multi s n = Some vs \<Longrightarrow> v \<in> set vs \<Longrightarrow> valid_utf8 v"
  by (auto simp: collect_positional_multi_def Let_def valid_syntax_def
      intro: get_multi_valid [unfolded valid_syntax_def] split: option.splits if_splits)

lemma collect_single_valid:
  "valid_syntax s \<Longrightarrow> collect_positional_single s n = Some v \<Longrightarrow> valid_utf8 v"
  by (auto simp: collect_positional_single_def valid_syntax_def
      intro: get_single_valid [unfolded valid_syntax_def] split: option.splits if_splits)

lemma collect_multi_not_Nil: "collect_positional_multi s n = Some vs \<Longrightarrow> vs \<noteq> []"
  by (auto simp: collect_positional_multi_def Let_def split: option.splits if_splits)

section \<open>Canonical value lists\<close>

lemma star_or_sorted_idem [simp]: "star_or_sorted (star_or_sorted vs) = star_or_sorted vs"
  by (auto simp: star_or_sorted_def list_ex_iff)

lemma star_or_sorted_set: "set (star_or_sorted vs) \<subseteq> set vs"
  by (auto simp: star_or_sorted_def list_ex_iff)

lemma star_or_sorted_Nil [simp]: "star_or_sorted vs = [] \<longleftrightarrow> vs = []"
  by (auto simp: star_or_sorted_def list_ex_iff)

lemma star_in_star_or_sorted [simp]: "''*'' \<in> set (star_or_sorted vs) \<longleftrightarrow> ''*'' \<in> set vs"
  by (auto simp: star_or_sorted_def list_ex_iff)

lemma positional_of_valid:
  "(\<And>v. v \<in> set vs \<Longrightarrow> valid_utf8 v) \<Longrightarrow> pred_option valid_utf8 (positional_of vs)"
  by (auto simp: positional_of_def)

lemma valid_params_simps [simp]:
  "valid_params []" "valid_params ((k, v) # ps) \<longleftrightarrow> plain_word k \<and> valid_utf8 v \<and> valid_params ps"
  "valid_params (ps @ qs) \<longleftrightarrow> valid_params ps \<and> valid_params qs"
  by (simp_all add: valid_params_def)

lemma valid_params_named:
  "plain_word n \<Longrightarrow> (\<And>v. v \<in> set vs \<Longrightarrow> valid_utf8 v) \<Longrightarrow> valid_params (named_of n vs)"
  by (auto simp: valid_params_def named_of_def list_all_iff)

lemma valid_params_map:
  "plain_word n \<Longrightarrow> (\<And>v. v \<in> set vs \<Longrightarrow> valid_utf8 v) \<Longrightarrow> valid_params (map (Pair n) vs)"
  by (auto simp: valid_params_def list_all_iff)

lemma plain_words [simp]:
  "plain_word ''collection''" "plain_word ''action''" "plain_word ''lxm''" "plain_word ''aud''"
  "plain_word ''accept''" "plain_word ''attr''" "plain_word ''authority''" "plain_word ''skey''"
  "plain_word ''manage''" "plain_word ''nsid''" "plain_word ''type''" "plain_word ''repo''"
  "plain_word ''rpc''" "plain_word ''blob''" "plain_word ''account''" "plain_word ''identity''"
  "plain_word ''space''" "plain_word ''include''"
  by code_simp+

lemma filter_filter_mem: "filter (\<lambda>a. a \<in> set (filter P xs)) xs = filter P xs"
  by (rule filter_cong) auto

lemma filter_full: "length (filter P xs) = length xs \<Longrightarrow> filter P xs = xs"
  by (metis filter_id_conv length_filter_less order_less_irrefl)

lemma action_set_not_Nil:
  "dflt \<noteq> [] \<Longrightarrow> list_all (\<lambda>a. a \<in> set all) v \<Longrightarrow> action_set dflt all v \<noteq> []"
  by (cases v) (auto simp: action_set_def filter_empty_conv)

lemma action_set_subset: "set dflt \<subseteq> set all \<Longrightarrow> set (action_set dflt all v) \<subseteq> set all"
  by (auto simp: action_set_def)

lemma action_set_idem:
  "v \<noteq> [] \<Longrightarrow> action_set dflt all v \<noteq> [] \<Longrightarrow>
   action_set d (all) (action_set dflt all v) = action_set dflt all v"
  by (auto simp: action_set_def intro: filter_cong)

lemma action_set_full:
  "length (action_set all all v) = length all \<Longrightarrow> action_set all all v = all"
  by (auto simp: action_set_def dest: filter_full split: if_splits)

lemma action_set_mem:
  "list_all (\<lambda>a. a \<in> set all) v \<Longrightarrow> a \<in> set (action_set dflt all v) \<longleftrightarrow> (if v = [] then a \<in> set dflt else a \<in> set v)"
  by (auto simp: action_set_def list_all_iff)

lemma action_words_valid:
  "a \<in> set repo_actions \<Longrightarrow> valid_utf8 a" "a \<in> set space_actions \<Longrightarrow> valid_utf8 a"
  "a \<in> set space_manage_ops \<Longrightarrow> valid_utf8 a" "a \<in> set account_actions \<Longrightarrow> valid_utf8 a"
proof -
  have "list_all valid_utf8 repo_actions" "list_all valid_utf8 space_actions"
    "list_all valid_utf8 space_manage_ops" "list_all valid_utf8 account_actions"
    by code_simp+
  then show "a \<in> set repo_actions \<Longrightarrow> valid_utf8 a" "a \<in> set space_actions \<Longrightarrow> valid_utf8 a"
    "a \<in> set space_manage_ops \<Longrightarrow> valid_utf8 a" "a \<in> set account_actions \<Longrightarrow> valid_utf8 a"
    by (auto simp: list_all_iff)
qed

text \<open>
  \<open>renders norm p r\<close>: the canonical string \<open>r\<close> is rendered from a syntax that \<open>norm\<close> maps
  to \<open>r\<close> again, and whose pieces survive the percent codec.
\<close>

definition renders :: "(scope_syntax \<Rightarrow> str option) \<Rightarrow> str \<Rightarrow> str \<Rightarrow> bool" where
  "renders norm p r \<longleftrightarrow>
     (\<exists>pos ps. r = format_scope p pos ps \<and> valid_params ps \<and> pred_option valid_utf8 pos \<and>
        norm \<lparr> sc_prefix = p, sc_positional = pos, sc_params = ps \<rparr> = Some r)"

lemma rendersI:
  "r = format_scope p pos ps \<Longrightarrow> valid_params ps \<Longrightarrow> pred_option valid_utf8 pos \<Longrightarrow>
   norm \<lparr> sc_prefix = p, sc_positional = pos, sc_params = ps \<rparr> = Some r \<Longrightarrow> renders norm p r"
  by (auto simp: renders_def)

lemma renders_parse: "renders norm p r \<Longrightarrow> plain_word p \<Longrightarrow> norm (scope_parse r) = Some r \<and> sc_prefix (scope_parse r) = p"
  by (auto simp: renders_def scope_parse_format)

lemma renders_printable: "renders norm p r \<Longrightarrow> plain_word p \<Longrightarrow> printable r \<and> r \<noteq> []"
  by (auto simp: renders_def format_scope_printable format_scope_not_Nil)

section \<open>repo\<close>

definition repo_rest :: "str list \<Rightarrow> (str \<times> str) list" where
  "repo_rest v =
     (let action = action_set repo_actions repo_actions v
      in if length action \<noteq> length repo_actions then map (Pair ''action'') action else [])"

lemma normalize_repo_eq:
  "normalize_repo s =
     (if keys_allowed s [''collection'', ''action''] then
        (case collect_positional_multi s ''collection'' of
           None \<Rightarrow> None
         | Some vs \<Rightarrow>
             if list_all is_collection_param vs \<and> list_all (\<lambda>a. a \<in> set repo_actions) (get_multi s ''action'')
             then Some (format_scope ''repo'' (positional_of (star_or_sorted vs))
                    (named_of ''collection'' (star_or_sorted vs) @ repo_rest (get_multi s ''action'')))
             else None)
      else None)"
  by (auto simp: normalize_repo_def repo_rest_def Let_def dest: collect_multi_not_Nil split: option.splits)

lemma repo_rest_read:
  assumes "list_all (\<lambda>a. a \<in> set repo_actions) v"
  shows "param_values ''collection'' (repo_rest v) = []"
    "list_all (\<lambda>a. a \<in> set repo_actions) (param_values ''action'' (repo_rest v))"
    "repo_rest (param_values ''action'' (repo_rest v)) = repo_rest v"
    "valid_params (repo_rest v)" "fst ` set (repo_rest v) \<subseteq> {''action''}"
proof -
  let ?a = "action_set repo_actions repo_actions v"
  have ne: "?a \<noteq> []" using assms by (intro action_set_not_Nil) (simp_all add: repo_actions_def)
  have sub: "set ?a \<subseteq> set repo_actions" by (rule action_set_subset) simp
  have idem: "action_set repo_actions repo_actions ?a = ?a" if "length ?a \<noteq> length repo_actions"
    using that ne by (cases "v = []") (auto simp: action_set_idem, simp add: action_set_def)
  have full: "repo_rest [] = []" by (simp add: repo_rest_def action_set_def)
  show "param_values ''collection'' (repo_rest v) = []" "fst ` set (repo_rest v) \<subseteq> {''action''}"
    by (auto simp: repo_rest_def Let_def)
  show "list_all (\<lambda>a. a \<in> set repo_actions) (param_values ''action'' (repo_rest v))"
    using sub by (auto simp: repo_rest_def Let_def list_all_iff)
  show "repo_rest (param_values ''action'' (repo_rest v)) = repo_rest v"
    using idem full by (cases "length ?a = length repo_actions") (simp_all add: repo_rest_def Let_def)
  show "valid_params (repo_rest v)"
    using sub by (auto simp: repo_rest_def Let_def intro!: valid_params_map dest: action_words_valid)
qed

lemma normalize_repo_renders:
  assumes s: "valid_syntax s" and r: "normalize_repo s = Some r"
  shows "renders normalize_repo ''repo'' r"
proof -
  let ?v = "get_multi s ''action''"
  obtain vs where vs: "collect_positional_multi s ''collection'' = Some vs" "list_all is_collection_param vs"
    and v: "list_all (\<lambda>a. a \<in> set repo_actions) ?v"
    and r_eq: "r = format_scope ''repo'' (positional_of (star_or_sorted vs))
                 (named_of ''collection'' (star_or_sorted vs) @ repo_rest ?v)"
    using r by (auto simp: normalize_repo_eq split: if_splits option.splits)
  let ?cs = "star_or_sorted vs"
  note rest = repo_rest_read [OF v]
  have cs: "?cs \<noteq> []" "list_all is_collection_param ?cs" "\<And>v. v \<in> set ?cs \<Longrightarrow> valid_utf8 v"
    using vs star_or_sorted_set [of vs] collect_multi_valid [OF s vs(1)] collect_multi_not_Nil [OF vs(1)]
    by (auto simp: list_all_iff)
  let ?t = "\<lparr> sc_prefix = ''repo'', sc_positional = positional_of ?cs,
              sc_params = named_of ''collection'' ?cs @ repo_rest ?v \<rparr>"
  have "keys_allowed ?t [''collection'', ''action'']"
    using named_of_keys [of "''collection''" ?cs] rest(5) by (auto simp: keys_allowed_iff)
  then have "normalize_repo ?t = Some r"
    using cs rest by (simp add: normalize_repo_eq collect_multi_rendered get_multi_param_values r_eq)
  then show ?thesis
    using cs rest by (intro rendersI [OF r_eq]) (auto intro!: positional_of_valid valid_params_named)
qed

section \<open>rpc\<close>

lemma normalize_rpc_eq:
  "normalize_rpc s =
     (if keys_allowed s [''lxm'', ''aud''] then
        (case (collect_positional_multi s ''lxm'', get_single s ''aud'') of
           (Some vs, Some (Some aud)) \<Rightarrow>
             if list_all is_lxm_param vs \<and> (aud = ''*'' \<or> is_atproto_audience aud) \<and>
                \<not> (aud = ''*'' \<and> ''*'' \<in> set vs)
             then Some (format_scope ''rpc'' (positional_of (star_or_sorted vs))
                    (named_of ''lxm'' (star_or_sorted vs) @ [(''aud'', aud)]))
             else None
         | _ \<Rightarrow> None)
      else None)"
  by (auto simp: normalize_rpc_def Let_def list_ex_iff dest: collect_multi_not_Nil split: option.splits)

lemma normalize_rpc_renders:
  assumes s: "valid_syntax s" and r: "normalize_rpc s = Some r"
  shows "renders normalize_rpc ''rpc'' r"
proof -
  obtain vs aud where vs: "collect_positional_multi s ''lxm'' = Some vs" "list_all is_lxm_param vs"
    and aud: "get_single s ''aud'' = Some (Some aud)" "aud = ''*'' \<or> is_atproto_audience aud"
      "\<not> (aud = ''*'' \<and> ''*'' \<in> set vs)"
    and r_eq: "r = format_scope ''rpc'' (positional_of (star_or_sorted vs))
                 (named_of ''lxm'' (star_or_sorted vs) @ [(''aud'', aud)])"
    using r by (auto simp: normalize_rpc_eq split: if_splits option.splits)
  let ?vs = "star_or_sorted vs"
  have cs: "?vs \<noteq> []" "list_all is_lxm_param ?vs" "\<And>v. v \<in> set ?vs \<Longrightarrow> valid_utf8 v"
    using vs star_or_sorted_set [of vs] collect_multi_valid [OF s vs(1)] collect_multi_not_Nil [OF vs(1)]
    by (auto simp: list_all_iff)
  let ?t = "\<lparr> sc_prefix = ''rpc'', sc_positional = positional_of ?vs,
              sc_params = named_of ''lxm'' ?vs @ [(''aud'', aud)] \<rparr>"
  have "keys_allowed ?t [''lxm'', ''aud'']"
    using named_of_keys [of "''lxm''" ?vs] by (auto simp: keys_allowed_iff)
  then have "normalize_rpc ?t = Some r"
    using cs aud by (simp add: normalize_rpc_eq collect_multi_rendered get_single_param_values r_eq)
  then show ?thesis
    using cs get_single_valid [OF s aud(1)]
    by (intro rendersI [OF r_eq]) (auto intro!: positional_of_valid valid_params_named)
qed

section \<open>account, identity, include\<close>

definition account_rest :: "str list \<Rightarrow> (str \<times> str) list" where
  "account_rest v =
     (let action = (if v = [] then [''read''] else dedupe_sorted v)
      in if \<not> (length action = 1 \<and> action ! 0 = ''read'') then map (Pair ''action'') action else [])"

lemma normalize_account_eq:
  "normalize_account s =
     (if keys_allowed s [''attr'', ''action''] then
        (case collect_positional_single s ''attr'' of
           None \<Rightarrow> None
         | Some attr \<Rightarrow>
             if attr \<in> set account_attrs \<and> list_all (\<lambda>a. a \<in> set account_actions) (get_multi s ''action'')
             then Some (format_scope ''account'' (Some attr) (account_rest (get_multi s ''action'')))
             else None)
      else None)"
  by (auto simp: normalize_account_def account_rest_def Let_def split: option.splits)

lemma account_rest_read:
  assumes "list_all (\<lambda>a. a \<in> set account_actions) v"
  shows "param_values ''attr'' (account_rest v) = []"
    "list_all (\<lambda>a. a \<in> set account_actions) (param_values ''action'' (account_rest v))"
    "account_rest (param_values ''action'' (account_rest v)) = account_rest v"
    "valid_params (account_rest v)" "fst ` set (account_rest v) \<subseteq> {''action''}"
  using assms
  by (auto simp: account_rest_def Let_def list_all_iff intro!: valid_params_map dest: action_words_valid)

lemma normalize_account_renders:
  assumes s: "valid_syntax s" and r: "normalize_account s = Some r"
  shows "renders normalize_account ''account'' r"
proof -
  let ?v = "get_multi s ''action''"
  obtain attr where a: "collect_positional_single s ''attr'' = Some attr" "attr \<in> set account_attrs"
    and v: "list_all (\<lambda>a. a \<in> set account_actions) ?v"
    and r_eq: "r = format_scope ''account'' (Some attr) (account_rest ?v)"
    using r by (auto simp: normalize_account_eq split: if_splits option.splits)
  note rest = account_rest_read [OF v]
  let ?t = "\<lparr> sc_prefix = ''account'', sc_positional = Some attr, sc_params = account_rest ?v \<rparr>"
  have "keys_allowed ?t [''attr'', ''action'']" using rest(5) by (auto simp: keys_allowed_iff)
  then have "normalize_account ?t = Some r"
    using a rest by (simp add: normalize_account_eq collect_single_rendered get_multi_param_values r_eq)
  then show ?thesis
    using rest collect_single_valid [OF s a(1)] by (intro rendersI [OF r_eq]) auto
qed

lemma normalize_identity_renders:
  assumes s: "valid_syntax s" and r: "normalize_identity s = Some r"
  shows "renders normalize_identity ''identity'' r"
proof -
  obtain attr where a: "collect_positional_single s ''attr'' = Some attr" "attr \<in> set identity_attrs"
    and r_eq: "r = format_scope ''identity'' (Some attr) []"
    using r by (auto simp: normalize_identity_def split: if_splits option.splits)
  show ?thesis
    using a collect_single_valid [OF s a(1)]
    by (intro rendersI [OF r_eq]) (auto simp: normalize_identity_def collect_single_rendered keys_allowed_iff r_eq)
qed

lemma normalize_include_eq:
  "normalize_include s =
     (if keys_allowed s [''nsid'', ''aud''] then
        (case collect_positional_single s ''nsid'' of
           None \<Rightarrow> None
         | Some nsid \<Rightarrow>
             if is_nsid nsid \<and> list_all is_atproto_audience (get_multi s ''aud'') \<and> length (get_multi s ''aud'') \<le> 1
             then Some (format_scope ''include'' (Some nsid) (map (Pair ''aud'') (get_multi s ''aud'')))
             else None)
      else None)"
  by (auto simp: normalize_include_def get_single_def split: option.splits list.splits)

lemma normalize_include_renders:
  assumes s: "valid_syntax s" and r: "normalize_include s = Some r"
  shows "renders normalize_include ''include'' r"
proof -
  let ?aud = "get_multi s ''aud''"
  obtain nsid where n: "collect_positional_single s ''nsid'' = Some nsid" "is_nsid nsid"
    and aud: "list_all is_atproto_audience ?aud" "length ?aud \<le> 1"
    and r_eq: "r = format_scope ''include'' (Some nsid) (map (Pair ''aud'') ?aud)"
    using r by (auto simp: normalize_include_eq split: if_splits option.splits)
  have "keys_allowed \<lparr> sc_prefix = ''include'', sc_positional = Some nsid, sc_params = map (Pair ''aud'') ?aud \<rparr>
          [''nsid'', ''aud'']"
    by (auto simp: keys_allowed_iff)
  then have "normalize_include \<lparr> sc_prefix = ''include'', sc_positional = Some nsid,
          sc_params = map (Pair ''aud'') ?aud \<rparr> = Some r"
    using n aud by (simp add: normalize_include_eq collect_single_rendered get_multi_param_values r_eq)
  then show ?thesis
    using collect_single_valid [OF s n(1)] get_multi_valid [OF s]
    by (intro rendersI [OF r_eq]) (auto intro!: valid_params_map)
qed

section \<open>space\<close>

definition space_grant_ok :: "space_grant \<Rightarrow> bool" where
  "space_grant_ok g \<longleftrightarrow>
     is_space_type_param (sg_space_type g) \<and> is_space_authority_param (sg_authority g) \<and>
     is_space_skey_param (sg_skey g) \<and> list_all is_collection_param (sg_collection g) \<and>
     star_or_sorted (sg_collection g) = sg_collection g \<and>
     (sg_action g = space_default_actions \<or>
        sg_action g \<noteq> [] \<and> filter (\<lambda>a. a \<in> set (sg_action g)) space_actions = sg_action g) \<and>
     filter (\<lambda>m. m \<in> set (sg_manage g)) space_manage_ops = sg_manage g"

definition space_grant_valid :: "space_grant \<Rightarrow> bool" where
  "space_grant_valid g \<longleftrightarrow>
     valid_utf8 (sg_space_type g) \<and> valid_utf8 (sg_authority g) \<and> valid_utf8 (sg_skey g) \<and>
     list_all valid_utf8 (sg_collection g @ sg_action g @ sg_manage g)"

lemma parse_space_grant_fields:
  assumes "parse_space_grant s = Some g"
  shows "collect_positional_single s ''type'' = Some (sg_space_type g)" "is_space_type_param (sg_space_type g)"
    "sg_authority g = ''self'' \<or>
       get_single s ''authority'' = Some (Some (sg_authority g)) \<and> is_space_authority_param (sg_authority g)"
    "sg_skey g = ''*'' \<or> get_single s ''skey'' = Some (Some (sg_skey g)) \<and> is_space_skey_param (sg_skey g)"
    "list_all is_collection_param (get_multi s ''collection'')"
    "list_all (\<lambda>a. a \<in> set space_actions) (get_multi s ''action'')"
    "sg_collection g = star_or_sorted (get_multi s ''collection'')"
    "sg_action g = action_set space_default_actions space_actions (get_multi s ''action'')"
    "sg_manage g = filter (\<lambda>m. m \<in> set (get_multi s ''manage'')) space_manage_ops"
  using assms unfolding parse_space_grant_def Let_def
  by (simp_all split: if_split_asm option.split_asm) (fastforce, (fastforce+)?)

lemma parse_space_grant_ok:
  assumes "parse_space_grant s = Some g"
  shows "space_grant_ok g"
proof -
  note base = parse_space_grant_fields [OF assms]
  let ?v = "get_multi s ''action''"
  have lit: "is_space_authority_param ''self''" "is_space_skey_param ''*''" by code_simp+
  have "sg_action g = space_default_actions \<or>
        sg_action g \<noteq> [] \<and> filter (\<lambda>a. a \<in> set (sg_action g)) space_actions = sg_action g"
  proof (cases "?v = []")
    case True
    then show ?thesis using base(8) by (simp add: action_set_def)
  next
    case False
    have "sg_action g \<noteq> []"
      unfolding base(8) using base(6) by (intro action_set_not_Nil) (simp_all add: space_default_actions_def)
    moreover have "filter (\<lambda>a. a \<in> set (sg_action g)) space_actions = sg_action g"
      unfolding base(8) using False by (auto simp: action_set_def intro: filter_cong)
    ultimately show ?thesis by simp
  qed
  moreover have "filter (\<lambda>m. m \<in> set (sg_manage g)) space_manage_ops = sg_manage g"
    unfolding base(9) by (rule filter_filter_mem)
  moreover have "is_space_authority_param (sg_authority g)" "is_space_skey_param (sg_skey g)"
    using base(3,4) lit by metis+
  moreover have "list_all is_collection_param (sg_collection g)" "star_or_sorted (sg_collection g) = sg_collection g"
    using base(5,7) star_or_sorted_set by (auto simp: list_all_iff)
  ultimately show ?thesis
    using base(2) unfolding space_grant_ok_def by blast
qed

lemma filter_eq_subset: "filter P xs = ys \<Longrightarrow> set ys \<subseteq> set xs"
  by auto

lemma space_grant_ok_subsets:
  assumes "space_grant_ok g"
  shows "set (sg_action g) \<subseteq> set space_actions" "set (sg_manage g) \<subseteq> set space_manage_ops"
proof -
  have "set space_default_actions \<subseteq> set space_actions" by code_simp
  then show "set (sg_action g) \<subseteq> set space_actions"
    using assms filter_eq_subset unfolding space_grant_ok_def by metis
  show "set (sg_manage g) \<subseteq> set space_manage_ops"
    using assms filter_eq_subset unfolding space_grant_ok_def by metis
qed

lemma parse_space_grant_valid:
  assumes s: "valid_syntax s" and g: "parse_space_grant s = Some g"
  shows "space_grant_valid g"
proof -
  note base = parse_space_grant_fields [OF g]
  have lit: "valid_utf8 ''self''" "valid_utf8 ''*''" by code_simp+
  have "valid_utf8 (sg_space_type g)" by (rule collect_single_valid [OF s base(1)])
  moreover have "valid_utf8 (sg_authority g)" "valid_utf8 (sg_skey g)"
    using base(3,4) get_single_valid [OF s] lit by metis+
  moreover note space_grant_ok_subsets [OF parse_space_grant_ok [OF g]]
  ultimately show ?thesis
    using get_multi_valid [OF s] star_or_sorted_set [of "get_multi s ''collection''"] base(7)
    by (auto simp: space_grant_valid_def list_all_iff dest: action_words_valid)
qed

definition opt_value :: "str \<Rightarrow> str \<Rightarrow> str \<Rightarrow> (str \<times> str) list" where
  "opt_value name dflt v = (if v \<noteq> dflt then [(name, v)] else [])"

lemma param_values_opt [simp]: "param_values k (opt_value n d v) = (if n = k \<and> v \<noteq> d then [v] else [])"
  by (simp add: opt_value_def)

lemma space_params_eq:
  "space_params g =
     opt_value ''authority'' ''self'' (sg_authority g) @ opt_value ''skey'' ''*'' (sg_skey g) @
     map (Pair ''collection'') (sg_collection g) @
     map (Pair ''action'') (if sg_action g \<noteq> space_default_actions then sg_action g else []) @
     map (Pair ''manage'') (sg_manage g)"
  by (simp add: space_params_def opt_value_def)

lemma parse_space_params:
  assumes "space_grant_ok g"
  shows "parse_space_grant \<lparr> sc_prefix = ''space'', sc_positional = Some (sg_space_type g),
            sc_params = space_params g \<rparr> = Some g"
proof -
  let ?t = "\<lparr> sc_prefix = ''space'', sc_positional = Some (sg_space_type g), sc_params = space_params g \<rparr>"
  have keys: "keys_allowed ?t [''type'', ''authority'', ''skey'', ''collection'', ''action'', ''manage'']"
    by (auto simp: keys_allowed_iff space_params_eq opt_value_def)
  have ty: "collect_positional_single ?t ''type'' = Some (sg_space_type g)"
    by (intro collect_single_rendered) (simp add: space_params_eq)
  have au: "get_single ?t ''authority'' = (if sg_authority g \<noteq> ''self'' then Some (Some (sg_authority g)) else None)"
    and sk: "get_single ?t ''skey'' = (if sg_skey g \<noteq> ''*'' then Some (Some (sg_skey g)) else None)"
    and co: "get_multi ?t ''collection'' = sg_collection g"
    and ac: "get_multi ?t ''action'' = (if sg_action g \<noteq> space_default_actions then sg_action g else [])"
    and ma: "get_multi ?t ''manage'' = sg_manage g"
    by (simp_all add: get_single_param_values get_multi_param_values space_params_eq)
  have action: "action_set space_default_actions space_actions
       (if sg_action g \<noteq> space_default_actions then sg_action g else []) = sg_action g"
    using assms by (auto simp: space_grant_ok_def action_set_def space_default_actions_def)
  note subs = space_grant_ok_subsets [OF assms]
  have manage: "filter (\<lambda>m. m \<in> set (sg_manage g)) space_manage_ops = sg_manage g"
    and coll: "star_or_sorted (sg_collection g) = sg_collection g"
    and ok: "is_space_type_param (sg_space_type g)" "is_space_authority_param (sg_authority g)"
      "is_space_skey_param (sg_skey g)" "list_all is_collection_param (sg_collection g)"
    using assms by (simp_all add: space_grant_ok_def)
  show ?thesis
    unfolding parse_space_grant_def ty au sk co ac ma Let_def action
    using keys subs ok manage coll
    by (cases "sg_authority g = ''self''"; cases "sg_skey g = ''*''") (auto simp: list_all_iff subset_iff)
qed

lemma normalize_space_renders:
  assumes s: "valid_syntax s" and r: "normalize_space s = Some r"
  shows "renders normalize_space ''space'' r"
proof -
  obtain g where g: "parse_space_grant s = Some g"
    and r_eq: "r = format_scope ''space'' (Some (sg_space_type g)) (space_params g)"
    using r by (auto simp: normalize_space_def split: option.splits)
  have v: "space_grant_valid g" by (rule parse_space_grant_valid [OF s g])
  have "valid_params (space_params g)"
    using v by (auto simp: space_grant_valid_def space_params_eq opt_value_def list_all_iff intro!: valid_params_map)
  then show ?thesis
    using v parse_space_params [OF parse_space_grant_ok [OF g]]
    by (intro rendersI [OF r_eq]) (auto simp: normalize_space_def space_grant_valid_def r_eq)
qed

section \<open>blob\<close>

text \<open>
  What the code relies on of \<open>str::to_lowercase\<close> (the Unicode tables \<open>ul\<close>): it returns a
  \<open>str\<close>, is idempotent, is empty only on the empty string, and the caseless ASCII characters
  \<open>/\<close>, \<open>*\<close> and space stay in place and are never produced from another character.
\<close>

definition caseless :: "char \<Rightarrow> bool" where
  "caseless c \<longleftrightarrow> c = CHR ''/'' \<or> c = CHR ''*'' \<or> c = CHR '' ''"

definition lowercase_laws :: "(str \<Rightarrow> str) \<Rightarrow> bool" where
  "lowercase_laws ul \<longleftrightarrow>
     (\<forall>s. valid_utf8 s \<longrightarrow> valid_utf8 (str_to_lowercase ul s)) \<and>
     (\<forall>s. str_to_lowercase ul (str_to_lowercase ul s) = str_to_lowercase ul s) \<and>
     (\<forall>s. str_to_lowercase ul s = [] \<longleftrightarrow> s = []) \<and>
     (\<forall>c s. caseless c \<longrightarrow> (c \<in> set (str_to_lowercase ul s) \<longleftrightarrow> c \<in> set s)) \<and>
     (\<forall>c a b. caseless c \<longrightarrow>
        str_to_lowercase ul (a @ c # b) = str_to_lowercase ul a @ c # str_to_lowercase ul b)"

lemma lowercase_lawsD:
  assumes "lowercase_laws ul"
  shows "valid_utf8 s \<Longrightarrow> valid_utf8 (str_to_lowercase ul s)"
    "str_to_lowercase ul (str_to_lowercase ul s) = str_to_lowercase ul s"
    "str_to_lowercase ul s = [] \<longleftrightarrow> s = []"
    "caseless c \<Longrightarrow> c \<in> set (str_to_lowercase ul s) \<longleftrightarrow> c \<in> set s"
    "caseless c \<Longrightarrow> str_to_lowercase ul (a @ c # b) = str_to_lowercase ul a @ c # str_to_lowercase ul b"
  using assms unfolding lowercase_laws_def by blast+

lemma caseless_simps [simp]: "caseless (CHR ''/'')" "caseless (CHR ''*'')" "caseless (CHR '' '')"
  by (simp_all add: caseless_def)

lemma is_type_slash_subtype_iff:
  "is_type_slash_subtype v \<longleftrightarrow>
     (\<exists>x y. v = x @ CHR ''/'' # y \<and> x \<noteq> [] \<and> y \<noteq> [] \<and> CHR ''/'' \<notin> set x \<and> CHR ''/'' \<notin> set y \<and> CHR '' '' \<notin> set v)"
proof -
  have "CHR ''/'' \<notin> set v \<Longrightarrow> \<not> (\<exists>x y. v = x @ CHR ''/'' # y)" by auto
  moreover have "is_type_slash_subtype (x @ CHR ''/'' # y) \<longleftrightarrow>
      x \<noteq> [] \<and> y \<noteq> [] \<and> CHR ''/'' \<notin> set y \<and> CHR '' '' \<notin> set (x @ CHR ''/'' # y)"
    if "CHR ''/'' \<notin> set x" for x y
    using that by (simp add: is_type_slash_subtype_def)
  moreover have "CHR ''/'' \<in> set v \<Longrightarrow> \<exists>x y. v = x @ CHR ''/'' # y \<and> CHR ''/'' \<notin> set x"
    by (meson split_list_first)
  moreover have "CHR ''/'' \<notin> set v \<Longrightarrow> \<not> is_type_slash_subtype v"
    by (auto simp: is_type_slash_subtype_def find_char_Some split: option.splits)
  ultimately show ?thesis by (metis (no_types, lifting))
qed

lemma lower_star [simp]: "str_to_lowercase ul ''*'' = ''*''"
  by code_simp

lemma lower_eq_star:
  assumes "lowercase_laws ul" "str_to_lowercase ul x = ''*''"
  shows "x = ''*''"
proof -
  note law = lowercase_lawsD [OF assms(1)]
  have "CHR ''*'' \<in> set x" using law(4) [of "CHR ''*''" x] assms(2) by simp
  then obtain a b where ab: "x = a @ CHR ''*'' # b" by (meson split_list)
  then have "str_to_lowercase ul a @ CHR ''*'' # str_to_lowercase ul b = ''*''"
    using law(5) [of "CHR ''*''" a b] assms(2) by simp
  then have "str_to_lowercase ul a = [] \<and> str_to_lowercase ul b = []"
    by (cases "str_to_lowercase ul a") auto
  with law(3) ab show ?thesis by simp
qed

lemma is_accept_lower:
  assumes ul: "lowercase_laws ul" and v: "is_accept v" "v \<noteq> ''*/*''"
  shows "is_accept (str_to_lowercase ul v)" "str_to_lowercase ul v \<noteq> ''*/*''"
proof -
  let ?L = "str_to_lowercase ul"
  note law = lowercase_lawsD [OF ul]
  obtain x y where xy: "v = x @ CHR ''/'' # y" "x \<noteq> []" "y \<noteq> []" "CHR ''/'' \<notin> set x" "CHR ''/'' \<notin> set y"
      "CHR '' '' \<notin> set v" and star: "CHR ''*'' \<notin> set v \<or> ends_with ''/*'' v"
    using v by (auto simp: is_accept_def is_type_slash_subtype_iff split: if_splits)
  have Lv: "?L v = ?L x @ CHR ''/'' # ?L y" using law(5) xy(1) by simp
  have "is_type_slash_subtype (?L v)"
    unfolding is_type_slash_subtype_iff using Lv xy law(3,4) by (intro exI [of _ "?L x"] exI [of _ "?L y"]) auto
  moreover have "CHR ''*'' \<notin> set (?L v) \<or> ends_with ''/*'' (?L v)"
  proof (cases "CHR ''*'' \<in> set v")
    case True
    with star obtain r where "v = r @ ''/*''" by (auto simp: ends_with_iff)
    then have "?L v = ?L r @ CHR ''/'' # ?L ''*''" using law(5) [of "CHR ''/''" r "''*''"] by simp
    then show ?thesis by (auto simp: ends_with_iff)
  qed (simp add: law(4))
  ultimately show "is_accept (?L v)" by (simp add: is_accept_def)
  show "?L v \<noteq> ''*/*''"
  proof
    assume "?L v = ''*/*''"
    then have "?L x @ CHR ''/'' # ?L y = ''*'' @ CHR ''/'' # ''*''" using Lv by simp
    moreover have "CHR ''/'' \<notin> set (?L x)" "CHR ''/'' \<notin> set ''*''" using xy law(4) by auto
    ultimately have "?L x = ''*'' \<and> ?L y = ''*''"
      by (metis append_eq_append_conv2 list.inject split_once_app option.inject prod.inject)
    then have "x = ''*''" "y = ''*''" using lower_eq_star [OF ul] by blast+
    with xy(1) have "v = ''*/*''" by simp
    with v(2) show False by simp
  qed
qed

lemma not_redundant_filter:
  assumes "unique \<noteq> []" "N = filter (\<lambda>a. \<not> is_redundant_accept a unique) unique"
  shows "N \<noteq> []" "filter (\<lambda>a. \<not> is_redundant_accept a N) N = N"
proof -
  show "N \<noteq> []"
  proof (cases "\<exists>a\<in>set unique. ends_with ''/*'' a")
    case True
    then obtain a where "a \<in> set unique" "ends_with ''/*'' a" by blast
    then have "a \<in> set N" by (simp add: assms(2) is_redundant_accept_def)
    then show ?thesis by auto
  next
    case False
    then have "\<not> is_redundant_accept a unique" for a
      by (auto simp: is_redundant_accept_def list_ex_iff ends_with_iff)
    with assms show ?thesis by simp
  qed
  show "filter (\<lambda>a. \<not> is_redundant_accept a N) N = N"
    using assms(2) by (intro filter_True) (auto simp: is_redundant_accept_def list_ex_iff)
qed

lemma normalized_accept_canonical:
  assumes ul: "lowercase_laws ul" and acc: "accept \<noteq> []" "list_all is_accept accept"
    and valid: "\<And>v. v \<in> set accept \<Longrightarrow> valid_utf8 v"
  shows "normalized_accept ul accept \<noteq> []" "list_all is_accept (normalized_accept ul accept)"
    "normalized_accept ul (normalized_accept ul accept) = normalized_accept ul accept"
    "\<And>v. v \<in> set (normalized_accept ul accept) \<Longrightarrow> valid_utf8 v"
proof -
  let ?N = "normalized_accept ul accept"
  have lit: "is_accept ''*/*''" "valid_utf8 ''*/*''" by code_simp+
  have "?N \<noteq> [] \<and> list_all is_accept ?N \<and> normalized_accept ul ?N = ?N \<and> (\<forall>x. x \<in> set ?N \<longrightarrow> valid_utf8 x)"
  proof (cases "''*/*'' \<in> set accept")
    case True
    then have "?N = [''*/*'']" by (auto simp: normalized_accept_def list_ex_iff)
    then show ?thesis
      using lit by (simp add: normalized_accept_def)
  next
    case False
    let ?u = "dedupe_sorted (map (str_to_lowercase ul) accept)"
    have N: "?N = filter (\<lambda>a. \<not> is_redundant_accept a ?u) ?u"
      using False by (auto simp: normalized_accept_def list_ex_iff Let_def)
    have u: "?u \<noteq> []" using acc by simp
    note nr = not_redundant_filter [OF u N]
    have elems: "\<exists>a\<in>set accept. v = str_to_lowercase ul a" if "v \<in> set ?N" for v
      using that N by auto
    have ok: "is_accept v \<and> v \<noteq> ''*/*'' \<and> valid_utf8 v \<and> str_to_lowercase ul v = v" if "v \<in> set ?N" for v
    proof -
      obtain a where a: "a \<in> set accept" "v = str_to_lowercase ul a" using elems [OF \<open>v \<in> set ?N\<close>] by blast
      then have "is_accept a" "a \<noteq> ''*/*''" using acc(2) False by (auto simp: list_all_iff)
      then show ?thesis
        using a is_accept_lower [OF ul] valid [OF a(1)] lowercase_lawsD(1,2) [OF ul] by simp
    qed
    have "map (str_to_lowercase ul) ?N = ?N" using ok by (intro map_idI) auto
    moreover have "dedupe_sorted ?N = ?N" unfolding N by (intro dedupe_sorted_id) (simp_all add: sorted_wrt_filter)
    moreover have "''*/*'' \<notin> set ?N" using ok by blast
    ultimately have "normalized_accept ul ?N = ?N"
      using nr(2) by (auto simp: normalized_accept_def [of ul ?N] list_ex_iff)
    then show ?thesis
      using nr(1) ok by (auto simp: list_all_iff)
  qed
  then show "?N \<noteq> []" "list_all is_accept ?N" "normalized_accept ul ?N = ?N" "\<And>v. v \<in> set ?N \<Longrightarrow> valid_utf8 v"
    by auto
qed

lemma normalize_blob_eq:
  "normalize_blob ul s =
     (if keys_allowed s [''accept''] then
        (case collect_positional_multi s ''accept'' of
           None \<Rightarrow> None
         | Some vs \<Rightarrow>
             if list_all is_accept vs
             then Some (format_scope ''blob'' (positional_of (normalized_accept ul vs))
                    (named_of ''accept'' (normalized_accept ul vs)))
             else None)
      else None)"
  by (auto simp: normalize_blob_def Let_def dest: collect_multi_not_Nil split: option.splits)

lemma normalize_blob_renders:
  assumes ul: "lowercase_laws ul" and s: "valid_syntax s" and r: "normalize_blob ul s = Some r"
  shows "renders (normalize_blob ul) ''blob'' r"
proof -
  obtain vs where vs: "collect_positional_multi s ''accept'' = Some vs" "list_all is_accept vs"
    and r_eq: "r = format_scope ''blob'' (positional_of (normalized_accept ul vs))
                 (named_of ''accept'' (normalized_accept ul vs))"
    using r by (auto simp: normalize_blob_eq split: if_splits option.splits)
  let ?N = "normalized_accept ul vs"
  note can = normalized_accept_canonical [OF ul collect_multi_not_Nil [OF vs(1)] vs(2)
      collect_multi_valid [OF s vs(1)]]
  let ?t = "\<lparr> sc_prefix = ''blob'', sc_positional = positional_of ?N, sc_params = named_of ''accept'' ?N \<rparr>"
  have "keys_allowed ?t [''accept'']"
    using named_of_keys [of "''accept''" ?N] by (auto simp: keys_allowed_iff)
  then have "normalize_blob ul ?t = Some r"
    using can collect_multi_rendered [of ?N "''accept''" "[]"] by (simp add: normalize_blob_eq r_eq)
  then show ?thesis
    using can by (intro rendersI [OF r_eq]) (auto intro!: positional_of_valid valid_params_named)
qed

section \<open>Tokens and requests\<close>

lemma static_scopes_printable: "t \<in> set static_scopes \<Longrightarrow> printable t \<and> t \<noteq> []"
proof -
  have "list_all (\<lambda>t. printable t \<and> t \<noteq> []) static_scopes" by code_simp
  then show "t \<in> set static_scopes \<Longrightarrow> printable t \<and> t \<noteq> []" by (auto simp: list_all_iff)
qed

lemma normalize_syntax_cases:
  assumes "normalize_syntax ul s = Some r"
  obtains "sc_prefix s = ''repo''" "normalize_repo s = Some r"
    | "sc_prefix s = ''rpc''" "normalize_rpc s = Some r"
    | "sc_prefix s = ''blob''" "normalize_blob ul s = Some r"
    | "sc_prefix s = ''account''" "normalize_account s = Some r"
    | "sc_prefix s = ''identity''" "normalize_identity s = Some r"
    | "sc_prefix s = ''space''" "normalize_space s = Some r"
    | "sc_prefix s = ''include''" "normalize_include s = Some r"
  using assms unfolding normalize_syntax_def Let_def by (auto split: if_splits)

lemma normalize_syntax_at:
  "sc_prefix s = ''repo'' \<Longrightarrow> normalize_syntax ul s = normalize_repo s"
  "sc_prefix s = ''rpc'' \<Longrightarrow> normalize_syntax ul s = normalize_rpc s"
  "sc_prefix s = ''blob'' \<Longrightarrow> normalize_syntax ul s = normalize_blob ul s"
  "sc_prefix s = ''account'' \<Longrightarrow> normalize_syntax ul s = normalize_account s"
  "sc_prefix s = ''identity'' \<Longrightarrow> normalize_syntax ul s = normalize_identity s"
  "sc_prefix s = ''space'' \<Longrightarrow> normalize_syntax ul s = normalize_space s"
  "sc_prefix s = ''include'' \<Longrightarrow> normalize_syntax ul s = normalize_include s"
  by (simp_all add: normalize_syntax_def)

lemma normalize_syntax_renders:
  assumes "lowercase_laws ul" "valid_syntax s" "normalize_syntax ul s = Some r"
  shows "\<exists>p norm. plain_word p \<and> renders norm p r \<and> (\<forall>t. sc_prefix t = p \<longrightarrow> normalize_syntax ul t = norm t)"
  using assms(3)
proof (cases rule: normalize_syntax_cases)
  case 1
  from normalize_repo_renders [OF assms(2) 1(2)] show ?thesis
    by (intro exI [of _ "''repo''"] exI [of _ normalize_repo]) (simp add: normalize_syntax_at)
next
  case 2
  from normalize_rpc_renders [OF assms(2) 2(2)] show ?thesis
    by (intro exI [of _ "''rpc''"] exI [of _ normalize_rpc]) (simp add: normalize_syntax_at)
next
  case 3
  from normalize_blob_renders [OF assms(1,2) 3(2)] show ?thesis
    by (intro exI [of _ "''blob''"] exI [of _ "normalize_blob ul"]) (simp add: normalize_syntax_at)
next
  case 4
  from normalize_account_renders [OF assms(2) 4(2)] show ?thesis
    by (intro exI [of _ "''account''"] exI [of _ normalize_account]) (simp add: normalize_syntax_at)
next
  case 5
  from normalize_identity_renders [OF assms(2) 5(2)] show ?thesis
    by (intro exI [of _ "''identity''"] exI [of _ normalize_identity]) (simp add: normalize_syntax_at)
next
  case 6
  from normalize_space_renders [OF assms(2) 6(2)] show ?thesis
    by (intro exI [of _ "''space''"] exI [of _ normalize_space]) (simp add: normalize_syntax_at)
next
  case 7
  from normalize_include_renders [OF assms(2) 7(2)] show ?thesis
    by (intro exI [of _ "''include''"] exI [of _ normalize_include]) (simp add: normalize_syntax_at)
qed

lemma normalize_token_canonical:
  assumes ul: "lowercase_laws ul" and r: "normalize_token ul t = Some r"
  shows "normalize_token ul r = Some r" "printable r" "r \<noteq> []"
proof -
  have "normalize_token ul r = Some r \<and> printable r \<and> r \<noteq> []"
  proof (cases "t \<in> set static_scopes")
    case True
    with r have "r = t" by (simp add: normalize_token_def)
    with True static_scopes_printable show ?thesis by (simp add: normalize_token_def)
  next
    case False
    with r have "normalize_syntax ul (scope_parse t) = Some r" by (simp add: normalize_token_def)
    then obtain p norm where p: "plain_word p" "renders norm p r"
        "\<forall>s. sc_prefix s = p \<longrightarrow> normalize_syntax ul s = norm s"
      using normalize_syntax_renders [OF ul valid_scope_parse] by blast
    then have "normalize_syntax ul (scope_parse r) = Some r"
      using renders_parse [OF p(2,1)] by simp
    then show ?thesis
      using renders_printable [OF p(2,1)] by (simp add: normalize_token_def)
  qed
  then show "normalize_token ul r = Some r" "printable r" "r \<noteq> []" by simp_all
qed

lemma normalize_tokens_Inr:
  "normalize_tokens ul ts = Inr ns \<longleftrightarrow> list_all2 (\<lambda>t n. normalize_token ul t = Some n) ts ns"
proof (induction ts arbitrary: ns)
  case Nil
  then show ?case by (cases ns) auto
next
  case (Cons t ts)
  show ?case by (cases ns) (auto simp: Cons.IH[symmetric] split: option.splits sum.splits)
qed

definition request_tokens :: "str \<Rightarrow> str list" where
  "request_tokens requested = filter (\<lambda>t. t \<noteq> []) (split_on (CHR '' '') requested)"

lemma normalize_scope_request_Inr:
  "normalize_scope_request ul requested = Inr s \<longleftrightarrow>
     (\<exists>ns. list_all2 (\<lambda>t n. normalize_token ul t = Some n) (request_tokens requested) ns \<and>
        ''atproto'' \<in> set ns \<and> s = join_with '' '' (dedupe_sorted ns))"
  by (auto simp: normalize_scope_request_def request_tokens_def Let_def normalize_tokens_Inr [symmetric]
      atproto_base_scope_def split: sum.splits)

lemma request_tokens_join:
  assumes "ts \<noteq> []" "\<And>t. t \<in> set ts \<Longrightarrow> printable t \<and> t \<noteq> []"
  shows "request_tokens (join_with '' '' ts) = ts"
proof -
  have "split_on (CHR '' '') (join_with '' '' ts) = ts"
    using assms printable_no_space by (intro split_on_join) auto
  then show ?thesis unfolding request_tokens_def using assms(2) by (auto intro: filter_True)
qed

lemma normalized_tokens_canonical:
  assumes "lowercase_laws ul" "list_all2 (\<lambda>t n. normalize_token ul t = Some n) ts ns" "n \<in> set ns"
  shows "normalize_token ul n = Some n \<and> printable n \<and> n \<noteq> []"
proof -
  obtain i where i: "i < length ns" "n = ns ! i" using assms(3) by (metis in_set_conv_nth)
  then have "normalize_token ul (ts ! i) = Some n" using assms(2) by (simp add: list_all2_conv_all_nth)
  then show ?thesis using normalize_token_canonical [OF assms(1)] by blast
qed

lemma list_all2_image: "list_all2 (\<lambda>t n. f t = Some n) ts ns \<Longrightarrow> set ns = {n. \<exists>t\<in>set ts. f t = Some n}"
  by (induction rule: list_all2_induct) auto

lemma scope_request_canonical:
  assumes ul: "lowercase_laws ul" and s: "normalize_scope_request ul requested = Inr s"
  shows "normalize_scope_request ul s = Inr s"
    "request_tokens s = split_whitespace s" "sorted (split_whitespace s)" "distinct (split_whitespace s)"
    "set (split_whitespace s) = {n. \<exists>t\<in>set (request_tokens requested). normalize_token ul t = Some n}"
    "''atproto'' \<in> set (split_whitespace s)"
proof -
  obtain ns where ns: "list_all2 (\<lambda>t n. normalize_token ul t = Some n) (request_tokens requested) ns"
      "''atproto'' \<in> set ns" "s = join_with '' '' (dedupe_sorted ns)"
    using s by (auto simp: normalize_scope_request_Inr)
  let ?c = "dedupe_sorted ns"
  have can: "normalize_token ul n = Some n" "printable n" "n \<noteq> []" if "n \<in> set ?c" for n
    using that normalized_tokens_canonical [OF ul ns(1), of n] by auto
  have ne: "?c \<noteq> []" using ns(2) by auto
  have toks: "request_tokens s = ?c"
    unfolding ns(3) using ne can by (intro request_tokens_join) auto
  have ws: "split_whitespace s = ?c"
    unfolding ns(3) using can by (intro split_whitespace_join) auto
  have "list_all2 (\<lambda>t n. normalize_token ul t = Some n) ?c ?c"
    by (intro list.rel_refl_strong) (rule can)
  then show "normalize_scope_request ul s = Inr s"
    unfolding normalize_scope_request_Inr toks using ns by (intro exI [of _ ?c]) auto
  show "request_tokens s = split_whitespace s" "sorted (split_whitespace s)" "distinct (split_whitespace s)"
      "''atproto'' \<in> set (split_whitespace s)"
    using toks ws ns(2) by simp_all
  show "set (split_whitespace s) = {n. \<exists>t\<in>set (request_tokens requested). normalize_token ul t = Some n}"
    unfolding ws set_dedupe_sorted using ns(1) by (rule list_all2_image)
qed

end
