(* ===== verification/Scope_Grants.thy ===== *)
theory Scope_Grants
  imports Scope_Canonical
begin

text \<open>
  What a normalized scope string grants: an abstract reading of a requested token
  (\<open>requested\<close>), and the proof that the enforcement functions, run on the normalized string
  the token endpoint stores, decide exactly that reading.
\<close>

section \<open>Reading a rendered token back\<close>

lemma normalize_repo_parse:
  assumes s: "valid_syntax s" and r: "normalize_repo s = Some r"
  shows "\<exists>vs. collect_positional_multi s ''collection'' = Some vs \<and>
     list_all (\<lambda>a. a \<in> set repo_actions) (get_multi s ''action'') \<and> star_or_sorted vs \<noteq> [] \<and>
     scope_parse r = \<lparr> sc_prefix = ''repo'', sc_positional = positional_of (star_or_sorted vs),
        sc_params = named_of ''collection'' (star_or_sorted vs) @ repo_rest (get_multi s ''action'') \<rparr>"
proof -
  let ?v = "get_multi s ''action''"
  obtain vs where vs: "collect_positional_multi s ''collection'' = Some vs"
    and v: "list_all (\<lambda>a. a \<in> set repo_actions) ?v"
    and r_eq: "r = format_scope ''repo'' (positional_of (star_or_sorted vs))
                 (named_of ''collection'' (star_or_sorted vs) @ repo_rest ?v)"
    using r by (auto simp: normalize_repo_eq split: if_splits option.splits)
  have valid: "\<And>v. v \<in> set (star_or_sorted vs) \<Longrightarrow> valid_utf8 v"
    using star_or_sorted_set [of vs] collect_multi_valid [OF s vs] by auto
  then have "valid_params (named_of ''collection'' (star_or_sorted vs) @ repo_rest ?v)"
    using repo_rest_read(4) [OF v] by (auto intro!: valid_params_named)
  with valid have "scope_parse r = \<lparr> sc_prefix = ''repo'', sc_positional = positional_of (star_or_sorted vs),
        sc_params = named_of ''collection'' (star_or_sorted vs) @ repo_rest ?v \<rparr>"
    unfolding r_eq by (intro scope_parse_format positional_of_valid) auto
  with vs v collect_multi_not_Nil [OF vs] show ?thesis by auto
qed

lemma normalize_rpc_parse:
  assumes s: "valid_syntax s" and r: "normalize_rpc s = Some r"
  shows "\<exists>vs aud. collect_positional_multi s ''lxm'' = Some vs \<and> get_single s ''aud'' = Some (Some aud) \<and>
     list_all is_lxm_param vs \<and> (aud = ''*'' \<or> is_atproto_audience aud) \<and> \<not> (aud = ''*'' \<and> ''*'' \<in> set vs) \<and>
     star_or_sorted vs \<noteq> [] \<and>
     scope_parse r = \<lparr> sc_prefix = ''rpc'', sc_positional = positional_of (star_or_sorted vs),
        sc_params = named_of ''lxm'' (star_or_sorted vs) @ [(''aud'', aud)] \<rparr>"
proof -
  obtain vs aud where vs: "collect_positional_multi s ''lxm'' = Some vs" "list_all is_lxm_param vs"
    and aud: "get_single s ''aud'' = Some (Some aud)" "aud = ''*'' \<or> is_atproto_audience aud"
      "\<not> (aud = ''*'' \<and> ''*'' \<in> set vs)"
    and r_eq: "r = format_scope ''rpc'' (positional_of (star_or_sorted vs))
                 (named_of ''lxm'' (star_or_sorted vs) @ [(''aud'', aud)])"
    using r by (auto simp: normalize_rpc_eq split: if_splits option.splits)
  have valid: "\<And>v. v \<in> set (star_or_sorted vs) \<Longrightarrow> valid_utf8 v"
    using star_or_sorted_set [of vs] collect_multi_valid [OF s vs(1)] by auto
  then have "valid_params (named_of ''lxm'' (star_or_sorted vs) @ [(''aud'', aud)])"
    using get_single_valid [OF s aud(1)] by (auto intro!: valid_params_named)
  with valid have "scope_parse r = \<lparr> sc_prefix = ''rpc'', sc_positional = positional_of (star_or_sorted vs),
        sc_params = named_of ''lxm'' (star_or_sorted vs) @ [(''aud'', aud)] \<rparr>"
    unfolding r_eq by (intro scope_parse_format positional_of_valid) auto
  with vs aud collect_multi_not_Nil [OF vs(1)] show ?thesis by auto
qed

lemma normalize_blob_parse:
  assumes ul: "lowercase_laws ul" and s: "valid_syntax s" and r: "normalize_blob ul s = Some r"
  shows "\<exists>vs. collect_positional_multi s ''accept'' = Some vs \<and> list_all is_accept vs \<and> normalized_accept ul vs \<noteq> [] \<and>
     scope_parse r = \<lparr> sc_prefix = ''blob'', sc_positional = positional_of (normalized_accept ul vs),
        sc_params = named_of ''accept'' (normalized_accept ul vs) \<rparr>"
proof -
  obtain vs where vs: "collect_positional_multi s ''accept'' = Some vs" "list_all is_accept vs"
    and r_eq: "r = format_scope ''blob'' (positional_of (normalized_accept ul vs))
                 (named_of ''accept'' (normalized_accept ul vs))"
    using r by (auto simp: normalize_blob_eq split: if_splits option.splits)
  note can = normalized_accept_canonical [OF ul collect_multi_not_Nil [OF vs(1)] vs(2)
      collect_multi_valid [OF s vs(1)]]
  then have "scope_parse r = \<lparr> sc_prefix = ''blob'', sc_positional = positional_of (normalized_accept ul vs),
        sc_params = named_of ''accept'' (normalized_accept ul vs) \<rparr>"
    unfolding r_eq by (intro scope_parse_format positional_of_valid valid_params_named) auto
  with vs can show ?thesis by blast
qed

lemma normalize_account_parse:
  assumes s: "valid_syntax s" and r: "normalize_account s = Some r"
  shows "\<exists>attr. collect_positional_single s ''attr'' = Some attr \<and>
     list_all (\<lambda>a. a \<in> set account_actions) (get_multi s ''action'') \<and>
     scope_parse r = \<lparr> sc_prefix = ''account'', sc_positional = Some attr,
        sc_params = account_rest (get_multi s ''action'') \<rparr>"
proof -
  obtain attr where a: "collect_positional_single s ''attr'' = Some attr"
    and v: "list_all (\<lambda>a. a \<in> set account_actions) (get_multi s ''action'')"
    and r_eq: "r = format_scope ''account'' (Some attr) (account_rest (get_multi s ''action''))"
    using r by (auto simp: normalize_account_eq split: if_splits option.splits)
  have "scope_parse r = \<lparr> sc_prefix = ''account'', sc_positional = Some attr,
        sc_params = account_rest (get_multi s ''action'') \<rparr>"
    unfolding r_eq using account_rest_read(4) [OF v] collect_single_valid [OF s a]
    by (intro scope_parse_format) auto
  with a v show ?thesis by blast
qed

lemma normalize_identity_parse:
  assumes s: "valid_syntax s" and r: "normalize_identity s = Some r"
  shows "\<exists>attr. collect_positional_single s ''attr'' = Some attr \<and>
     scope_parse r = \<lparr> sc_prefix = ''identity'', sc_positional = Some attr, sc_params = [] \<rparr>"
proof -
  obtain attr where a: "collect_positional_single s ''attr'' = Some attr"
    and r_eq: "r = format_scope ''identity'' (Some attr) []"
    using r by (auto simp: normalize_identity_def split: if_splits option.splits)
  have "scope_parse r = \<lparr> sc_prefix = ''identity'', sc_positional = Some attr, sc_params = [] \<rparr>"
    unfolding r_eq using collect_single_valid [OF s a] by (intro scope_parse_format) auto
  with a show ?thesis by blast
qed

lemma normalize_space_parse:
  assumes s: "valid_syntax s" and r: "normalize_space s = Some r"
  shows "\<exists>g. parse_space_grant s = Some g \<and> sc_prefix (scope_parse r) = ''space'' \<and>
     parse_space_grant (scope_parse r) = Some g"
proof -
  obtain g where g: "parse_space_grant s = Some g"
    and r_eq: "r = format_scope ''space'' (Some (sg_space_type g)) (space_params g)"
    using r by (auto simp: normalize_space_def split: option.splits)
  have v: "space_grant_valid g" by (rule parse_space_grant_valid [OF s g])
  have "valid_params (space_params g)"
    using v by (auto simp: space_grant_valid_def space_params_eq opt_value_def list_all_iff intro!: valid_params_map)
  then have "scope_parse r = \<lparr> sc_prefix = ''space'', sc_positional = Some (sg_space_type g),
      sc_params = space_params g \<rparr>"
    unfolding r_eq using v by (intro scope_parse_format) (auto simp: space_grant_valid_def)
  with g parse_space_params [OF parse_space_grant_ok [OF g]] show ?thesis by auto
qed

section \<open>The abstract reading of a requested token\<close>

datatype privilege =
    RepoWrite str repo_action | RpcCall str str | BlobUpload str | AccountAccess str str
  | IdentityAccess str | SpaceAccess space_request

definition names_or_star :: "str list option \<Rightarrow> str \<Rightarrow> bool" where
  "names_or_star named x = (case named of None \<Rightarrow> False | Some vs \<Rightarrow> ''*'' \<in> set vs \<or> x \<in> set vs)"

fun requested :: "(str \<Rightarrow> str) \<Rightarrow> privilege \<Rightarrow> str \<Rightarrow> bool" where
  "requested ul (RepoWrite collection action) t =
     (t = ''transition:generic'' \<or>
      (let s = scope_parse t; actions = get_multi s ''action''
       in sc_prefix s = ''repo'' \<and> names_or_star (collect_positional_multi s ''collection'') collection \<and>
          (actions = [] \<or> repo_action_str action \<in> set actions)))"
| "requested ul (RpcCall lxm aud) t =
     (t = ''transition:generic'' \<or> (t = ''transition:chat.bsky'' \<and> starts_with ''chat.bsky.'' lxm) \<or>
      (let s = scope_parse t
       in sc_prefix s = ''rpc'' \<and> names_or_star (collect_positional_multi s ''lxm'') lxm \<and>
          (case get_single s ''aud'' of
             Some (Some v) \<Rightarrow> v = ''*'' \<or> aud_did v = aud_did aud
           | _ \<Rightarrow> False)))"
| "requested ul (BlobUpload mime) t =
     (t = ''transition:generic'' \<or>
      (let s = scope_parse t
       in sc_prefix s = ''blob'' \<and>
          (case collect_positional_multi s ''accept'' of
             None \<Rightarrow> False
           | Some vs \<Rightarrow> ''*/*'' \<in> set vs \<or> (\<exists>v\<in>set vs. accept_matches (str_to_lowercase ul v) mime))))"
| "requested ul (AccountAccess attr action) t =
     (t = ''transition:generic'' \<or>
      (let s = scope_parse t; actions = get_multi s ''action''
       in sc_prefix s = ''account'' \<and> collect_positional_single s ''attr'' = Some attr \<and>
          (if actions = [] then action = ''read'' else action \<in> set actions)))"
| "requested ul (IdentityAccess attr) t =
     (let s = scope_parse t
      in sc_prefix s = ''identity'' \<and>
         (case collect_positional_single s ''attr'' of None \<Rightarrow> False | Some a \<Rightarrow> a = ''*'' \<or> a = attr))"
| "requested ul (SpaceAccess req) t =
     (case parse_space_token t of None \<Rightarrow> False | Some g \<Rightarrow> space_grant_matches g req)"

fun enforced :: "privilege \<Rightarrow> str \<Rightarrow> bool" where
  "enforced (RepoWrite collection action) scope = allows_repo scope collection action"
| "enforced (RpcCall lxm aud) scope = allows_rpc scope lxm aud"
| "enforced (BlobUpload mime) scope = allows_blob scope mime"
| "enforced (AccountAccess attr action) scope = allows_account scope attr action"
| "enforced (IdentityAccess attr) scope = allows_identity scope attr"
| "enforced (SpaceAccess req) scope = allows_space scope req"

text \<open>The enforcement of one token.\<close>

fun token_enforces :: "privilege \<Rightarrow> str \<Rightarrow> bool" where
  "token_enforces (RepoWrite collection action) t = generic_or (repo_token_allows collection action) t"
| "token_enforces (RpcCall lxm aud) t = generic_or (rpc_token_allows lxm aud) t"
| "token_enforces (BlobUpload mime) t = generic_or (blob_token_allows mime) t"
| "token_enforces (AccountAccess attr action) t = generic_or (\<lambda>t. account_token_allows_action t attr action) t"
| "token_enforces (IdentityAccess attr) t = identity_token_allows attr t"
| "token_enforces (SpaceAccess req) t = space_token_allows req t"

interpretation any_privilege: token_wise "enforced p" "token_enforces p"
  for p
proof unfold_locales
  fix scope
  show "enforced p scope \<longleftrightarrow> (\<exists>t\<in>set (split_whitespace scope). token_enforces p t)"
    by (cases p) (simp_all add: repo.allows_iff rpc.allows_iff blob.allows_iff account.allows_iff
        identity.allows_iff space.allows_iff)
qed

section \<open>Enforcement of a rendered token\<close>

lemma list_ex_matches:
  "list_ex (\<lambda>c. collection_matches c x) cs \<longleftrightarrow> ''*'' \<in> set cs \<or> x \<in> set cs"
  "list_ex (\<lambda>c. lxm_matches c x) cs \<longleftrightarrow> ''*'' \<in> set cs \<or> x \<in> set cs"
  by (auto simp: list_ex_iff collection_matches_def lxm_matches_def)

lemma star_or_sorted_covers:
  "''*'' \<in> set (star_or_sorted vs) \<or> x \<in> set (star_or_sorted vs) \<longleftrightarrow> ''*'' \<in> set vs \<or> x \<in> set vs"
  by (auto simp: star_or_sorted_def list_ex_iff)

lemma positional_of_cases:
  assumes "vs \<noteq> []"
  obtains v where "vs = [v]" "positional_of vs = Some v" "named_of n vs = []"
    | "positional_of vs = None" "named_of n vs = map (Pair n) vs"
proof (cases "length vs = 1")
  case True
  then obtain v where "vs = [v]" by (cases vs) auto
  then show ?thesis using that(1) by (simp add: positional_of_def named_of_def)
next
  case False
  then show ?thesis using that(2) by (simp add: positional_of_def named_of_def)
qed

lemma repo_rest_matches:
  assumes "list_all (\<lambda>a. a \<in> set repo_actions) v"
  shows "repo_actions_match (named_of ''collection'' cs @ repo_rest v) action \<longleftrightarrow>
     v = [] \<or> repo_action_str action \<in> set v"
proof -
  let ?a = "action_set repo_actions repo_actions v"
  have ne: "?a \<noteq> []" using assms by (intro action_set_not_Nil) (simp_all add: repo_actions_def)
  have mem: "repo_action_str action \<in> set ?a \<longleftrightarrow> v = [] \<or> repo_action_str action \<in> set v"
    using assms by (cases action) (auto simp: action_set_mem repo_actions_def)
  have full: "repo_action_str action \<in> set repo_actions" by (cases action) (simp_all add: repo_actions_def)
  show ?thesis
  proof (cases "length ?a = length repo_actions")
    case True
    then have "?a = repo_actions" by (rule action_set_full)
    then show ?thesis using mem full by (simp add: repo_actions_match_def repo_rest_def)
  next
    case False
    then show ?thesis using mem ne by (simp add: repo_actions_match_def repo_rest_def Let_def)
  qed
qed

lemma repo_rendered:
  assumes "cs \<noteq> []" "list_all (\<lambda>a. a \<in> set repo_actions) v"
    and "scope_parse r = \<lparr> sc_prefix = ''repo'', sc_positional = positional_of cs,
           sc_params = named_of ''collection'' cs @ repo_rest v \<rparr>"
  shows "repo_token_allows collection action r \<longleftrightarrow>
     (''*'' \<in> set cs \<or> collection \<in> set cs) \<and> (v = [] \<or> repo_action_str action \<in> set v)"
  using assms(1)
proof (cases rule: positional_of_cases [where n = "''collection''"])
  case (1 c)
  then show ?thesis
    using repo_rest_matches [OF assms(2), of cs action] unfolding repo_token_allows_def assms(3)
    by (auto simp: collection_matches_def)
next
  case 2
  then show ?thesis
    using repo_rest_matches [OF assms(2), of cs action] repo_rest_read(1) [OF assms(2)] assms(1)
    unfolding repo_token_allows_def assms(3)
    by (simp add: list_ex_matches)
qed

lemma find_named: "find (\<lambda>(k, _). k = ''aud'') (named_of ''lxm'' vs @ ps) = find (\<lambda>(k, _). k = ''aud'') ps"
proof -
  have "find (\<lambda>(k, _). k = ''aud'') (map (Pair ''lxm'') vs @ ps) = find (\<lambda>(k, _). k = ''aud'') ps"
    by (induction vs) simp_all
  then show ?thesis by (simp add: named_of_def)
qed

lemma rpc_rendered:
  assumes "vs \<noteq> []" "r \<noteq> ''transition:chat.bsky''"
    and "scope_parse r = \<lparr> sc_prefix = ''rpc'', sc_positional = positional_of vs,
           sc_params = named_of ''lxm'' vs @ [(''aud'', v)] \<rparr>"
  shows "rpc_token_allows lxm aud r \<longleftrightarrow>
     (''*'' \<in> set vs \<or> lxm \<in> set vs) \<and> (v = ''*'' \<or> aud_did v = aud_did aud)"
proof -
  have aud: "aud_matches (named_of ''lxm'' vs @ [(''aud'', v)]) aud \<longleftrightarrow> v = ''*'' \<or> aud_did v = aud_did aud"
    by (simp add: aud_matches_def find_named)
  show ?thesis
    using assms(1)
  proof (cases rule: positional_of_cases [where n = "''lxm''"])
    case (1 c)
    with aud assms(2) show ?thesis
      unfolding rpc_token_allows_def assms(3) by (auto simp: lxm_matches_def)
  next
    case 2
    with aud assms(1,2) show ?thesis
      unfolding rpc_token_allows_def assms(3) by (simp add: list_ex_matches)
  qed
qed

lemma to_lower_star: "to_lower c = CHR ''*'' \<longleftrightarrow> c = CHR ''*''" "to_lower c = CHR ''/'' \<longleftrightarrow> c = CHR ''/''"
  by (auto simp: to_lower_def byte_eq_iff ascii_simps of_char_of)

lemma lowercase_ends_star: "ends_with ''/*'' (ascii_lowercase a) \<longleftrightarrow> ends_with ''/*'' a"
proof
  assume "ends_with ''/*'' a"
  then obtain r where r: "a = r @ ''/*''" by (auto simp: ends_with_iff)
  have "ascii_lowercase ''/*'' = ''/*''" by code_simp
  then have "ascii_lowercase a = ascii_lowercase r @ ''/*''" using r by (simp add: ascii_lowercase_def)
  then show "ends_with ''/*'' (ascii_lowercase a)" by (auto simp: ends_with_iff)
next
  assume "ends_with ''/*'' (ascii_lowercase a)"
  then obtain r where "map to_lower a = r @ ''/*''" by (auto simp: ends_with_iff ascii_lowercase_def)
  then obtain x y where "a = x @ y" "map to_lower y = ''/*''" by (auto simp: map_eq_append_conv)
  then have "y = ''/*''" by (auto simp: map_eq_Cons_conv to_lower_star)
  with \<open>a = x @ y\<close> show "ends_with ''/*'' a" by (auto simp: ends_with_iff)
qed

lemma accept_matches_base:
  assumes "accept_matches a mime" "\<not> ends_with ''/*'' a" "CHR ''/'' \<in> set a"
  shows "accept_matches (hd (split_on (CHR ''/'') a) @ ''/*'') mime"
proof -
  obtain b c where a: "a = b @ CHR ''/'' # c" "CHR ''/'' \<notin> set b" using assms(3) by (meson split_list_first)
  have hd: "hd (split_on (CHR ''/'') a) = b" using a by (simp add: split_on_app)
  have not: "\<not> ends_with ''/*'' (ascii_lowercase a)" using assms(2) by (simp add: lowercase_ends_star)
  then have "ascii_lowercase a \<noteq> ''*/*''" by (auto simp: ends_with_iff)
  with not assms(1) have eq: "ascii_lowercase mime = ascii_lowercase a"
    by (auto simp: accept_matches_def Let_def ends_with_def split: option.splits)
  have lit: "map to_lower ''/*'' = ''/*''" "map to_lower ''/'' = ''/''" by code_simp+
  have "ascii_lowercase (b @ ''/*'') = ascii_lowercase b @ ''/*''"
    using lit by (simp add: ascii_lowercase_def)
  moreover have "ascii_lowercase mime = (ascii_lowercase b @ ''/'') @ ascii_lowercase c"
    using lit eq a by (simp add: ascii_lowercase_def)
  moreover have "strip_suffix ''/*'' (ascii_lowercase b @ ''/*'') = Some (ascii_lowercase b)"
    by (simp add: strip_suffix_Some)
  ultimately show ?thesis
    unfolding hd accept_matches_def Let_def by (simp add: starts_with_iff)
qed

lemma accept_star_matches: "accept_matches ''*/*'' mime"
proof -
  have "ascii_lowercase ''*/*'' = ''*/*''" by code_simp
  then show ?thesis by (simp add: accept_matches_def)
qed

lemma normalized_accept_matches:
  assumes ul: "lowercase_laws ul" and vs: "list_all is_accept vs"
  shows "(\<exists>a\<in>set (normalized_accept ul vs). accept_matches a mime) \<longleftrightarrow>
     ''*/*'' \<in> set vs \<or> (\<exists>v\<in>set vs. accept_matches (str_to_lowercase ul v) mime)"
proof (cases "''*/*'' \<in> set vs")
  case True
  then show ?thesis by (auto simp: normalized_accept_def list_ex_iff accept_star_matches)
next
  case False
  let ?u = "dedupe_sorted (map (str_to_lowercase ul) vs)"
  have N: "normalized_accept ul vs = filter (\<lambda>a. \<not> is_redundant_accept a ?u) ?u"
    using False by (auto simp: normalized_accept_def list_ex_iff Let_def)
  have "\<exists>a\<in>set (normalized_accept ul vs). accept_matches a mime"
    if v: "v \<in> set vs" "accept_matches (str_to_lowercase ul v) mime" for v
  proof (cases "is_redundant_accept (str_to_lowercase ul v) ?u")
    case False
    with v show ?thesis unfolding N by auto
  next
    case True
    let ?a = "str_to_lowercase ul v" and ?w = "hd (split_on (CHR ''/'') (str_to_lowercase ul v)) @ ''/*''"
    have w: "\<not> ends_with ''/*'' ?a" "?w \<in> set ?u"
      using True by (auto simp: is_redundant_accept_def list_ex_iff split: if_splits)
    have "ends_with ''/*'' ?w" by (simp add: ends_with_iff)
    then have "?w \<in> set (normalized_accept ul vs)"
      using w(2) unfolding N by (simp add: is_redundant_accept_def)
    moreover have "is_accept ?a" "?a \<noteq> ''*/*''"
      using is_accept_lower [OF ul] vs v(1) \<open>''*/*'' \<notin> set vs\<close> by (auto simp: list_all_iff)
    then have "CHR ''/'' \<in> set ?a"
      by (auto simp: is_accept_def is_type_slash_subtype_iff split: if_splits)
    ultimately show ?thesis using accept_matches_base [OF v(2) w(1)] by blast
  qed
  with False show ?thesis unfolding N by auto
qed

lemma blob_rendered:
  assumes "vs \<noteq> []"
    and "scope_parse r = \<lparr> sc_prefix = ''blob'', sc_positional = positional_of vs, sc_params = named_of ''accept'' vs \<rparr>"
  shows "blob_token_allows mime r \<longleftrightarrow> (\<exists>a\<in>set vs. accept_matches a mime)"
  using assms(1)
proof (cases rule: positional_of_cases [where n = "''accept''"])
  case (1 c)
  then show ?thesis unfolding blob_token_allows_def assms(2) by simp
next
  case 2
  then show ?thesis unfolding blob_token_allows_def assms(2) by (simp add: list_ex_iff)
qed

lemma account_rendered:
  assumes "list_all (\<lambda>a. a \<in> set account_actions) v"
    and "scope_parse r = \<lparr> sc_prefix = ''account'', sc_positional = Some pos, sc_params = account_rest v \<rparr>"
  shows "account_token_allows_action r attr action \<longleftrightarrow>
     pos = attr \<and> (if v = [] then action = ''read'' else action \<in> set v)"
proof -
  have "dedupe_sorted v = [''read''] \<longleftrightarrow> set v = {''read''}"
    using dedupe_sorted_eq_iff [of v "[''read'']"] by (simp add: dedupe_sorted_def)
  moreover have "length xs = 1 \<and> xs ! 0 = y \<longleftrightarrow> xs = [y]" for xs :: "str list" and y
    by (cases xs) auto
  ultimately have "param_values ''action'' (account_rest v) =
      (if v = [] \<or> set v = {''read''} then [] else dedupe_sorted v)"
    by (simp add: account_rest_def Let_def)
  then show ?thesis
    unfolding account_token_allows_action_def assms(2) by auto
qed

section \<open>Enforcement refines the request\<close>

lemma static_not_resource:
  assumes "t \<in> set static_scopes"
  shows "sc_prefix (scope_parse t) \<notin> {''repo'', ''rpc'', ''blob'', ''account'', ''identity'', ''space''}"
proof -
  have "list_all (\<lambda>t. sc_prefix (scope_parse t) \<notin> {''repo'', ''rpc'', ''blob'', ''account'', ''identity'', ''space''}) static_scopes"
    by code_simp
  with assms show ?thesis by (auto simp: list_all_iff)
qed

lemma token_enforces_other:
  assumes "sc_prefix (scope_parse t) = p" "t \<notin> set static_scopes"
  shows "p \<noteq> ''repo'' \<Longrightarrow> \<not> token_enforces (RepoWrite c a) t" "p \<noteq> ''rpc'' \<Longrightarrow> \<not> token_enforces (RpcCall l d) t"
    "p \<noteq> ''blob'' \<Longrightarrow> \<not> token_enforces (BlobUpload m) t" "p \<noteq> ''account'' \<Longrightarrow> \<not> token_enforces (AccountAccess x y) t"
    "p \<noteq> ''identity'' \<Longrightarrow> \<not> token_enforces (IdentityAccess x) t" "p \<noteq> ''space'' \<Longrightarrow> \<not> token_enforces (SpaceAccess q) t"
  using assms
  by (auto simp: generic_or_def static_scopes_def repo_token_allows_def rpc_token_allows_def blob_token_allows_def
      account_token_allows_action_def identity_token_allows_def space_token_allows_def Let_def split: option.splits)

lemma requested_other:
  assumes "sc_prefix (scope_parse t) = p" "t \<notin> set static_scopes"
  shows "p \<noteq> ''repo'' \<Longrightarrow> \<not> requested ul (RepoWrite c a) t" "p \<noteq> ''rpc'' \<Longrightarrow> \<not> requested ul (RpcCall l d) t"
    "p \<noteq> ''blob'' \<Longrightarrow> \<not> requested ul (BlobUpload m) t" "p \<noteq> ''account'' \<Longrightarrow> \<not> requested ul (AccountAccess x y) t"
    "p \<noteq> ''identity'' \<Longrightarrow> \<not> requested ul (IdentityAccess x) t" "p \<noteq> ''space'' \<Longrightarrow> \<not> requested ul (SpaceAccess q) t"
  using assms by (auto simp: static_scopes_def Let_def parse_space_token_def)

lemma renders_not_static:
  assumes "scope_parse r = \<lparr> sc_prefix = p, sc_positional = pos, sc_params = ps \<rparr>"
    and "p \<in> {''repo'', ''rpc'', ''blob'', ''account'', ''identity'', ''space''}"
  shows "r \<notin> set static_scopes" "r \<noteq> ''transition:generic''" "r \<noteq> ''transition:chat.bsky''"
proof -
  show "r \<notin> set static_scopes" using static_not_resource [of r] assms by auto
  then show "r \<noteq> ''transition:generic''" "r \<noteq> ''transition:chat.bsky''" by (auto simp: static_scopes_def)
qed

lemma refine_static:
  assumes "t \<in> set static_scopes"
  shows "token_enforces p t \<longleftrightarrow> requested ul p t"
proof -
  have "sc_prefix (scope_parse t) \<noteq> ''repo''" "sc_prefix (scope_parse t) \<noteq> ''rpc''"
    "sc_prefix (scope_parse t) \<noteq> ''blob''" "sc_prefix (scope_parse t) \<noteq> ''account''"
    "sc_prefix (scope_parse t) \<noteq> ''identity''" "sc_prefix (scope_parse t) \<noteq> ''space''"
    using static_not_resource [OF assms] by blast+
  then show ?thesis
    by (cases p)
      (simp_all add: generic_or_def repo_token_allows_def rpc_token_allows_def blob_token_allows_def
        account_token_allows_action_def identity_token_allows_def space_token_allows_def Let_def
        parse_space_token_def split: option.split)
qed

lemma refine_by_type:
  assumes pt: "sc_prefix (scope_parse t) = p" "t \<notin> set static_scopes"
    and pr: "sc_prefix (scope_parse r) = p" "r \<notin> set static_scopes"
    and "\<And>c a. p = ''repo'' \<Longrightarrow> q = RepoWrite c a \<Longrightarrow> token_enforces q r \<longleftrightarrow> requested ul q t"
    and "\<And>l d. p = ''rpc'' \<Longrightarrow> q = RpcCall l d \<Longrightarrow> token_enforces q r \<longleftrightarrow> requested ul q t"
    and "\<And>m. p = ''blob'' \<Longrightarrow> q = BlobUpload m \<Longrightarrow> token_enforces q r \<longleftrightarrow> requested ul q t"
    and "\<And>x y. p = ''account'' \<Longrightarrow> q = AccountAccess x y \<Longrightarrow> token_enforces q r \<longleftrightarrow> requested ul q t"
    and "\<And>x. p = ''identity'' \<Longrightarrow> q = IdentityAccess x \<Longrightarrow> token_enforces q r \<longleftrightarrow> requested ul q t"
    and "\<And>x. p = ''space'' \<Longrightarrow> q = SpaceAccess x \<Longrightarrow> token_enforces q r \<longleftrightarrow> requested ul q t"
  shows "token_enforces q r \<longleftrightarrow> requested ul q t"
proof (cases q)
  case (RepoWrite c a)
  then show ?thesis using assms(5) token_enforces_other(1) [OF pr] requested_other(1) [OF pt, of ul] by metis
next
  case (RpcCall l d)
  then show ?thesis using assms(6) token_enforces_other(2) [OF pr] requested_other(2) [OF pt, of ul] by metis
next
  case (BlobUpload m)
  then show ?thesis using assms(7) token_enforces_other(3) [OF pr] requested_other(3) [OF pt, of ul] by metis
next
  case (AccountAccess x y)
  then show ?thesis using assms(8) token_enforces_other(4) [OF pr] requested_other(4) [OF pt, of ul] by metis
next
  case (IdentityAccess x)
  then show ?thesis using assms(9) token_enforces_other(5) [OF pr] requested_other(5) [OF pt, of ul] by metis
next
  case (SpaceAccess x)
  then show ?thesis using assms(10) token_enforces_other(6) [OF pr] requested_other(6) [OF pt, of ul] by metis
qed

lemma get_single_multi: "get_single s k = Some (Some v) \<Longrightarrow> get_multi s k = [v]"
  by (auto simp: get_single_def split: list.splits)

lemma normalize_syntax_refines:
  assumes ul: "lowercase_laws ul" and t: "t \<notin> set static_scopes"
    and r: "normalize_syntax ul (scope_parse t) = Some r"
  shows "token_enforces q r \<longleftrightarrow> requested ul q t"
  using r
proof (cases rule: normalize_syntax_cases)
  case 1
  let ?v = "get_multi (scope_parse t) ''action''"
  obtain vs where vs: "collect_positional_multi (scope_parse t) ''collection'' = Some vs"
      "list_all (\<lambda>a. a \<in> set repo_actions) ?v" "star_or_sorted vs \<noteq> []"
      "scope_parse r = \<lparr> sc_prefix = ''repo'', sc_positional = positional_of (star_or_sorted vs),
         sc_params = named_of ''collection'' (star_or_sorted vs) @ repo_rest ?v \<rparr>"
    using normalize_repo_parse [OF valid_scope_parse 1(2)] by blast
  have st: "r \<notin> set static_scopes" "r \<noteq> ''transition:generic''" using renders_not_static [OF vs(4)] by auto
  have "t \<noteq> ''transition:generic''" using t by (auto simp: static_scopes_def)
  then have refined: "token_enforces (RepoWrite c a) r \<longleftrightarrow> requested ul (RepoWrite c a) t" for c a
    using st(2) vs(1) 1(1)
    by (simp add: generic_or_def Let_def names_or_star_def repo_rendered [OF vs(3,2,4)] star_or_sorted_covers
        del: star_in_star_or_sorted)
  show ?thesis by (rule refine_by_type [OF 1(1) t _ st(1)]) (simp_all add: refined vs(4) del: token_enforces.simps requested.simps)
next
  case 2
  obtain vs v where vs: "collect_positional_multi (scope_parse t) ''lxm'' = Some vs"
      "get_single (scope_parse t) ''aud'' = Some (Some v)" "star_or_sorted vs \<noteq> []"
      "scope_parse r = \<lparr> sc_prefix = ''rpc'', sc_positional = positional_of (star_or_sorted vs),
         sc_params = named_of ''lxm'' (star_or_sorted vs) @ [(''aud'', v)] \<rparr>"
    using normalize_rpc_parse [OF valid_scope_parse 2(2)] by blast
  have st: "r \<notin> set static_scopes" "r \<noteq> ''transition:generic''" "r \<noteq> ''transition:chat.bsky''"
    using renders_not_static [OF vs(4)] by auto
  have "t \<noteq> ''transition:generic''" "t \<noteq> ''transition:chat.bsky''" using t by (auto simp: static_scopes_def)
  then have refined: "token_enforces (RpcCall l d) r \<longleftrightarrow> requested ul (RpcCall l d) t" for l d
    using st(2) vs(1,2) 2(1)
    by (simp add: generic_or_def Let_def names_or_star_def rpc_rendered [OF vs(3) st(3) vs(4)] star_or_sorted_covers
        del: star_in_star_or_sorted)
  show ?thesis by (rule refine_by_type [OF 2(1) t _ st(1)]) (simp_all add: refined vs(4) del: token_enforces.simps requested.simps)
next
  case 3
  obtain vs where vs: "collect_positional_multi (scope_parse t) ''accept'' = Some vs" "list_all is_accept vs"
      "normalized_accept ul vs \<noteq> []"
      "scope_parse r = \<lparr> sc_prefix = ''blob'', sc_positional = positional_of (normalized_accept ul vs),
         sc_params = named_of ''accept'' (normalized_accept ul vs) \<rparr>"
    using normalize_blob_parse [OF ul valid_scope_parse 3(2)] by blast
  have st: "r \<notin> set static_scopes" "r \<noteq> ''transition:generic''" using renders_not_static [OF vs(4)] by auto
  have "t \<noteq> ''transition:generic''" using t by (auto simp: static_scopes_def)
  then have refined: "token_enforces (BlobUpload m) r \<longleftrightarrow> requested ul (BlobUpload m) t" for m
    using blob_rendered [OF vs(3,4)] normalized_accept_matches [OF ul vs(2)] st 3(1) vs(1)
    by (simp add: generic_or_def Let_def)
  show ?thesis by (rule refine_by_type [OF 3(1) t _ st(1)]) (simp_all add: refined vs(4) del: token_enforces.simps requested.simps)
next
  case 4
  obtain attr where vs: "collect_positional_single (scope_parse t) ''attr'' = Some attr"
      "list_all (\<lambda>a. a \<in> set account_actions) (get_multi (scope_parse t) ''action'')"
      "scope_parse r = \<lparr> sc_prefix = ''account'', sc_positional = Some attr,
         sc_params = account_rest (get_multi (scope_parse t) ''action'') \<rparr>"
    using normalize_account_parse [OF valid_scope_parse 4(2)] by blast
  have st: "r \<notin> set static_scopes" "r \<noteq> ''transition:generic''" using renders_not_static [OF vs(3)] by auto
  have "t \<noteq> ''transition:generic''" using t by (auto simp: static_scopes_def)
  then have refined: "token_enforces (AccountAccess x y) r \<longleftrightarrow> requested ul (AccountAccess x y) t" for x y
    using account_rendered [OF vs(2,3)] st 4(1) vs(1) by (simp add: generic_or_def Let_def)
  show ?thesis by (rule refine_by_type [OF 4(1) t _ st(1)]) (simp_all add: refined vs(3) del: token_enforces.simps requested.simps)
next
  case 5
  obtain attr where vs: "collect_positional_single (scope_parse t) ''attr'' = Some attr"
      "scope_parse r = \<lparr> sc_prefix = ''identity'', sc_positional = Some attr, sc_params = [] \<rparr>"
    using normalize_identity_parse [OF valid_scope_parse 5(2)] by blast
  have st: "r \<notin> set static_scopes" using renders_not_static [OF vs(2)] by auto
  have refined: "token_enforces (IdentityAccess x) r \<longleftrightarrow> requested ul (IdentityAccess x) t" for x
    using vs 5(1) by (simp add: identity_token_allows_def Let_def)
  show ?thesis by (rule refine_by_type [OF 5(1) t _ st]) (simp_all add: refined vs(2) del: token_enforces.simps requested.simps)
next
  case 6
  obtain g where g: "parse_space_grant (scope_parse t) = Some g" "sc_prefix (scope_parse r) = ''space''"
      "parse_space_grant (scope_parse r) = Some g"
    using normalize_space_parse [OF valid_scope_parse 6(2)] by blast
  have st: "r \<notin> set static_scopes" using static_not_resource [of r] g(2) by auto
  have refined: "token_enforces (SpaceAccess x) r \<longleftrightarrow> requested ul (SpaceAccess x) t" for x
    using g 6(1) by (simp add: space_token_allows_def parse_space_token_def Let_def)
  show ?thesis by (rule refine_by_type [OF 6(1) t _ st]) (simp_all add: refined g del: token_enforces.simps requested.simps)
next
  case 7
  have pr: "sc_prefix (scope_parse r) = ''include''"
    using normalize_include_renders [OF valid_scope_parse 7(2)] renders_parse by force
  have "r \<notin> set static_scopes"
  proof -
    have "list_all (\<lambda>t. sc_prefix (scope_parse t) \<noteq> ''include'') static_scopes" by code_simp
    with pr show ?thesis by (auto simp: list_all_iff)
  qed
  from refine_by_type [OF 7(1) t pr this, of q ul] show ?thesis by simp
qed

lemma token_refines:
  assumes ul: "lowercase_laws ul" and r: "normalize_token ul t = Some r"
  shows "token_enforces q r \<longleftrightarrow> requested ul q t"
proof (cases "t \<in> set static_scopes")
  case True
  then show ?thesis using r refine_static by (simp add: normalize_token_def)
next
  case False
  then show ?thesis using r normalize_syntax_refines [OF ul False] by (simp add: normalize_token_def)
qed

lemma request_refines:
  assumes ul: "lowercase_laws ul" and s: "normalize_scope_request ul req = Inr s"
  shows "enforced q s \<longleftrightarrow> (\<exists>t\<in>set (request_tokens req). requested ul q t)"
proof -
  have "\<exists>n. normalize_token ul t = Some n" if t: "t \<in> set (request_tokens req)" for t
  proof -
    obtain ns where "list_all2 (\<lambda>t n. normalize_token ul t = Some n) (request_tokens req) ns"
      using s by (auto simp: normalize_scope_request_Inr)
    with t show ?thesis by (auto simp: list_all2_conv_all_nth in_set_conv_nth)
  qed
  then show ?thesis
    unfolding any_privilege.allows_iff scope_request_canonical(5) [OF ul s] using token_refines [OF ul] by blast
qed

section \<open>The ASCII instance of the lowercase laws\<close>

lemma byte_to_lower: "128 \<le> byte c \<Longrightarrow> to_lower c = c" "byte (to_lower c) < (128::nat) \<longleftrightarrow> byte c < (128::nat)"
  by (auto simp: to_lower_def is_upper_def of_char_of)

lemma in_bytes_to_lower [simp]: "128 \<le> lo \<Longrightarrow> in_bytes lo hi (to_lower c) \<longleftrightarrow> in_bytes lo hi c"
  using byte_to_lower [of c] by (cases "128 \<le> (byte c :: nat)") (auto simp: in_bytes_def not_le)

lemma utf8_chunk_to_lower: "utf8_chunk (to_lower b) (map to_lower rest) = utf8_chunk b rest"
proof (cases "128 \<le> (byte b :: nat)")
  case True
  then show ?thesis
    unfolding utf8_chunk_def byte_to_lower(1) [OF True] cont_byte_def in_bytes_def [symmetric]
      second3_ok_def second4_ok_def
    by (simp split: list.split)
next
  case False
  then have "byte (to_lower b) < (128::nat)" by (simp add: byte_to_lower)
  with False show ?thesis by (simp add: utf8_chunk_def)
qed

lemma valid_utf8_to_lower: "valid_utf8 (map to_lower s) = valid_utf8 s"
proof (induction s rule: valid_utf8.induct)
  case (2 b rest)
  then show ?case by (simp add: utf8_chunk_to_lower drop_map)
qed simp

lemma to_lower_idem [simp]: "to_lower (to_lower c) = to_lower c"
  by (auto simp: to_lower_def is_upper_def of_char_of)

lemma caseless_byte: "caseless d \<Longrightarrow> byte d = (47::nat) \<or> byte d = (42::nat) \<or> byte d = (32::nat)"
  by (auto simp: caseless_def)

lemma to_lower_caseless:
  assumes "caseless d"
  shows "to_lower c = d \<longleftrightarrow> c = d"
proof (cases "is_upper c")
  case True
  then have "65 \<le> (byte c :: nat)" "byte c \<le> (90::nat)" by (simp_all add: is_upper_def)
  moreover have "byte (to_lower c) = (byte c + 32 :: nat)"
    using True calculation by (simp add: to_lower_def of_char_of)
  ultimately show ?thesis using caseless_byte [OF assms] by auto
qed (simp add: to_lower_def)

lemma lowercase_laws_ascii: "lowercase_laws ascii_lowercase"
proof -
  have eq: "str_to_lowercase ascii_lowercase s = map to_lower s" for s
    by (simp add: str_to_lowercase_def ascii_lowercase_def)
  show ?thesis
    unfolding lowercase_laws_def eq
  proof (intro conjI allI impI)
    fix c s assume "caseless c"
    then show "c \<in> set (map to_lower s) \<longleftrightarrow> c \<in> set s"
      using to_lower_caseless [of c] by (metis (no_types, lifting) imageE image_eqI list.set_map)
  next
    fix c a b assume "caseless c"
    then show "map to_lower (a @ c # b) = map to_lower a @ c # map to_lower b"
      using to_lower_caseless by simp
  qed (simp_all add: valid_utf8_to_lower)
qed

section \<open>Properties\<close>

text \<open>
  C5: enforcement refines the request. When \<open>normalize_scope_request\<close> accepts a scope string,
  then for every privilege (repo write, RPC, blob upload, account, identity, space operation) the
  enforcement function run on the stored canonical string allows it exactly when one of the tokens
  of the original request asks for it: normalization neither widens nor narrows a grant.
\<close>

theorem enforcement_refines_request:
  assumes "lowercase_laws ul" "normalize_scope_request ul req = Inr s"
  shows "enforced q s \<longleftrightarrow> (\<exists>t\<in>set (request_tokens req). requested ul q t)"
  using assms by (rule request_refines)

theorem enforcement_refines_request_witness:
  "enforced (RepoWrite ''app.bsky.feed.post'' Create)
     (projr (normalize_scope_request ascii_lowercase
        ''repo?collection=app.bsky.feed.post&action=create&action=update atproto''))"
proof -
  let ?req = "''repo?collection=app.bsky.feed.post&action=create&action=update atproto''"
  have r: "normalize_scope_request ascii_lowercase ?req
       = Inr ''atproto repo:app.bsky.feed.post?action=create&action=update''"
    by code_simp
  have "list_ex (requested ascii_lowercase (RepoWrite ''app.bsky.feed.post'' Create)) (request_tokens ?req)"
    by code_simp
  then show ?thesis
    unfolding r using enforcement_refines_request [OF lowercase_laws_ascii r] by (auto simp: list_ex_iff)
qed

text \<open>
  C17: canonical scope strings. An accepted request normalizes to a fixed point of normalization
  whose tokens are the normal forms of the requested tokens, sorted and without duplicates, with
  the \<open>atproto\<close> base scope among them; the enforcement side's whitespace split sees exactly the
  tokens the space split of the normalizer sees.
\<close>

theorem normalize_scope_request_canonical:
  assumes "lowercase_laws ul" "normalize_scope_request ul req = Inr s"
  shows "normalize_scope_request ul s = Inr s \<and> request_tokens s = split_whitespace s \<and>
     sorted (split_whitespace s) \<and> distinct (split_whitespace s) \<and> ''atproto'' \<in> set (split_whitespace s) \<and>
     set (split_whitespace s) = {n. \<exists>t\<in>set (request_tokens req). normalize_token ul t = Some n}"
  using scope_request_canonical [OF assms] by blast

theorem normalize_scope_request_canonical_witness:
  "normalize_scope_request ascii_lowercase ''atproto blob:image/*?'' = Inr ''atproto blob:image/*'' \<and>
   distinct (split_whitespace ''atproto blob:image/*'')"
proof -
  have r: "normalize_scope_request ascii_lowercase ''atproto blob:image/*?'' = Inr ''atproto blob:image/*''"
    by code_simp
  then show ?thesis using normalize_scope_request_canonical [OF lowercase_laws_ascii r] by blast
qed

text \<open>
  The transition scopes are not identity or space grants. Appending the legacy scopes
  \<open>transition:generic\<close>, \<open>transition:email\<close> and \<open>transition:chat.bsky\<close> to any scope string
  changes no identity and no space decision, while \<open>transition:generic\<close> alone opens every repo
  write, RPC, blob and account operation.
\<close>

theorem transition_scopes_exclude_identity_and_space:
  "allows_identity (s @ '' '' @ ''transition:generic transition:email transition:chat.bsky'') attr
     = allows_identity s attr \<and>
   allows_space (s @ '' '' @ ''transition:generic transition:email transition:chat.bsky'') req
     = allows_space s req \<and>
   allows_repo ''transition:generic'' c a \<and> allows_rpc ''transition:generic'' l d \<and>
   allows_blob ''transition:generic'' m \<and> allows_account ''transition:generic'' x y"
proof -
  have ws: "split_whitespace ''transition:generic transition:email transition:chat.bsky'' =
      [''transition:generic'', ''transition:email'', ''transition:chat.bsky'']"
    "split_whitespace ''transition:generic'' = [''transition:generic'']"
    by code_simp+
  have pre: "sc_prefix (scope_parse ''transition:generic'') = ''transition''"
    "sc_prefix (scope_parse ''transition:email'') = ''transition''"
    "sc_prefix (scope_parse ''transition:chat.bsky'') = ''transition''"
    by code_simp+
  have "\<not> allows_identity ''transition:generic transition:email transition:chat.bsky'' attr"
    "\<not> allows_space ''transition:generic transition:email transition:chat.bsky'' req"
    by (simp_all add: allows_identity_def allows_space_def ws identity_token_allows_def
        space_token_allows_def pre Let_def split: option.split)
  then show ?thesis
    unfolding identity.allows_append space.allows_append
    by (simp add: allows_defs ws)
qed

lemma audience_did_not_Nil: "is_atproto_audience v \<Longrightarrow> aud_did v \<noteq> []"
proof -
  have "\<not> is_atproto_did []" by code_simp
  then show "is_atproto_audience v \<Longrightarrow> aud_did v \<noteq> []"
    by (auto simp: is_atproto_audience_def aud_did_def split: option.splits)
qed

lemma enforced_single: "printable r \<Longrightarrow> r \<noteq> [] \<Longrightarrow> enforced q r = token_enforces q r"
  by (simp add: any_privilege.allows_iff split_whitespace_word)

lemma rpc_request_not_universal:
  assumes "normalize_rpc (scope_parse t) = Some r" "t \<notin> set static_scopes" "sc_prefix (scope_parse t) = ''rpc''"
  shows "\<exists>lxm aud. \<not> requested ul (RpcCall lxm aud) t"
proof -
  have "t \<noteq> ''transition:generic''" "t \<noteq> ''transition:chat.bsky''" using assms(2) by (auto simp: static_scopes_def)
  note t = this
  obtain vs v where vs: "collect_positional_multi (scope_parse t) ''lxm'' = Some vs"
      "get_single (scope_parse t) ''aud'' = Some (Some v)" "list_all is_lxm_param vs"
      "v = ''*'' \<or> is_atproto_audience v" "\<not> (v = ''*'' \<and> ''*'' \<in> set vs)"
    using normalize_rpc_parse [OF valid_scope_parse assms(1)] by blast
  show ?thesis
  proof (cases "v = ''*''")
    case True
    have "\<not> is_lxm_param []" by code_simp
    then have "[] \<notin> set vs" using vs(3) by (auto simp: list_all_iff)
    then have "\<not> requested ul (RpcCall [] []) t"
      using True vs t by (simp add: Let_def names_or_star_def)
    then show ?thesis by blast
  next
    case False
    then have "aud_did v \<noteq> []" using vs(4) audience_did_not_Nil by blast
    moreover have "aud_did [] = []" by code_simp
    ultimately have "\<not> requested ul (RpcCall [] []) t"
      using False vs t by (simp add: Let_def names_or_star_def)
    then show ?thesis by blast
  qed
qed

text \<open>
  No granular token is a universal RPC grant. Apart from \<open>transition:generic\<close>, every token
  that normalizes leaves some method and audience that the canonical token does not allow
  (\<open>rpc:*?aud=*\<close> is refused).
\<close>

theorem no_universal_rpc_token:
  assumes "lowercase_laws ul" "normalize_token ul t = Some r" "t \<noteq> ''transition:generic''"
  shows "\<exists>lxm aud. \<not> allows_rpc r lxm aud"
proof -
  have "\<exists>lxm aud. \<not> requested ul (RpcCall lxm aud) t"
  proof (cases "t \<in> set static_scopes")
    case True
    have "\<not> requested ul (RpcCall [] []) t"
      using static_not_resource [OF True] assms(3) by (auto simp: Let_def starts_with_iff)
    then show ?thesis by blast
  next
    case False
    show ?thesis
    proof (cases "sc_prefix (scope_parse t) = ''rpc''")
      case True
      then have "normalize_rpc (scope_parse t) = Some r"
        using assms(2) False by (simp add: normalize_token_def normalize_syntax_at)
      then show ?thesis using rpc_request_not_universal [OF _ False True] by blast
    next
      case other: False
      then show ?thesis using requested_other(2) [OF refl False other] by blast
    qed
  qed
  then show ?thesis
    using token_refines [OF assms(1,2)] enforced_single [OF normalize_token_canonical(2,3) [OF assms(1,2)]]
    by (metis enforced.simps(2))
qed

theorem no_universal_rpc_token_witness:
  "\<exists>lxm aud. \<not> allows_rpc ''rpc:*?aud=did:web:api.example.com%23svc'' lxm aud"
proof -
  have "normalize_token ascii_lowercase ''rpc?aud=did:web:api.example.com%23svc&lxm=*''
      = Some ''rpc:*?aud=did:web:api.example.com%23svc''"
    by code_simp
  from no_universal_rpc_token [OF lowercase_laws_ascii this] show ?thesis by simp
qed

text \<open>
  A bare wildcard space grant reads but never writes. A \<open>space:\<close> token whose type is \<open>*\<close>
  and which names no collection allows no record write in any space; and a grant with a concrete
  type and no collection writes exactly the collections its space type declares.
\<close>

theorem bare_space_grant_writes:
  assumes "parse_space_token t = Some g" "sg_collection g = []" "rq_op req = OpRecord a c"
  shows "space_token_allows req t \<longleftrightarrow>
     sg_space_type g = rq_space_type req \<and> sg_space_type g \<noteq> ''*'' \<and>
     (if sg_authority g = ''self'' then rq_account_did req else sg_authority g) \<in> {''*'', rq_authority req} \<and>
     (sg_skey g = ''*'' \<or> sg_skey g = rq_skey req) \<and>
     repo_action_str a \<in> set (sg_action g) \<and> c \<in> set (rq_declared_collections req)"
proof -
  have "space_token_allows req t \<longleftrightarrow> space_grant_matches g req"
    using assms(1) by (auto simp: parse_space_token_def space_token_allows_def Let_def split: if_splits)
  then show ?thesis
    using assms(2,3) by (auto simp: space_grant_matches_def collection_allows_def Let_def list_ex_iff)
qed

theorem bare_space_grant_writes_witness:
  "\<not> space_token_allows \<lparr> rq_space_type = ''com.example.room'', rq_authority = ''did:plc:x'', rq_skey = ''main'',
      rq_op = OpRecord Create ''com.example.msg'', rq_account_did = ''did:plc:x'',
      rq_declared_collections = [''com.example.msg''] \<rparr> ''space:*''"
proof -
  have "parse_space_token ''space:*'' = Some \<lparr> sg_space_type = ''*'', sg_authority = ''self'', sg_skey = ''*'',
      sg_collection = [], sg_action = space_default_actions, sg_manage = [] \<rparr>"
    by code_simp
  from bare_space_grant_writes [OF this, of _ Create "''com.example.msg''"] show ?thesis by simp
qed

text \<open>
  The agent clamp. When the stored scopes and the operator's configured scopes are both lists
  of canonical tokens, the intersection the assertion is minted with grants nothing that either
  list does not grant, and it is sorted and duplicate-free.
\<close>

theorem agent_clamp_grants_no_more:
  assumes "lowercase_laws ul"
    and "canonicalize_agent_scopes ul dbg stored0 = Inr stored"
    and "canonicalize_agent_scopes ul dbg config0 = Inr config"
    and "enforced q (join_with '' '' (intersect_scope_tokens stored config))"
  shows "enforced q (join_with '' '' stored) \<and> enforced q (join_with '' '' config) \<and>
     sorted (intersect_scope_tokens stored config) \<and> distinct (intersect_scope_tokens stored config)"
proof -
  have can: "printable n \<and> n \<noteq> []" if "canonicalize_agent_scopes ul dbg ts = Inr ns" "n \<in> set ns" for ts ns n
  proof -
    have "list_all2 (\<lambda>t n. normalize_token ul t = Some n) ts ns"
      using that(1) unfolding canonicalize_agent_scopes_def collect_results_Inr_iff
      by (rule list_all2_mono) (auto simp: ok_or_def split: option.splits)
    then show ?thesis using normalized_tokens_canonical [OF assms(1)] that(2) by blast
  qed
  have stored: "\<And>n. n \<in> set stored \<Longrightarrow> printable n \<and> n \<noteq> []"
    and config: "\<And>n. n \<in> set config \<Longrightarrow> printable n \<and> n \<noteq> []"
    using can assms(2,3) by blast+
  have "\<exists>n\<in>set (intersect_scope_tokens stored config). token_enforces q n"
    using assms(4) stored
    by (subst (asm) any_privilege.allows_join) (auto simp: intersect_scope_tokens_def)
  then obtain n where "n \<in> set stored" "n \<in> set config" "token_enforces q n"
    by (auto simp: intersect_scope_tokens_def)
  then show ?thesis
    using any_privilege.allows_join [OF stored] any_privilege.allows_join [OF config]
    by (auto simp: intersect_scope_tokens_def)
qed

theorem agent_clamp_grants_no_more_witness:
  "enforced (BlobUpload ''image/png'') ''blob:*/* identity:handle''"
proof -
  have s: "canonicalize_agent_scopes ascii_lowercase id [''blob:*/*'', ''identity:handle'']
       = Inr [''blob:*/*'', ''identity:handle'']" by code_simp
  have c: "canonicalize_agent_scopes ascii_lowercase id [''blob:*/*?'', ''atproto''] = Inr [''blob:*/*'', ''atproto'']"
    by code_simp
  have e: "enforced (BlobUpload ''image/png'')
      (join_with '' '' (intersect_scope_tokens [''blob:*/*'', ''identity:handle''] [''blob:*/*'', ''atproto'']))"
    by code_simp
  from agent_clamp_grants_no_more [OF lowercase_laws_ascii s c e] show ?thesis by simp
qed

text \<open>
  The percent codec. Decoding an encoded component returns it, for every valid UTF-8 string;
  the encoding is printable ASCII without the separators of the scope grammar; and decoding any
  string at all yields valid UTF-8 (invalid bytes become U+FFFD).
\<close>

theorem percent_codec_roundtrip:
  "(valid_utf8 v \<longrightarrow> percent_decode (encode_component v) = v) \<and>
   (\<forall>c\<in>set (encode_component v). in_bytes 33 126 c \<and> \<not> separator_char c) \<and>
   valid_utf8 (percent_decode w)"
  using percent_decode_encode encode_component_range by auto

theorem percent_codec_roundtrip_witness:
  "percent_decode (encode_component [CHR 0xC3, CHR 0xA9, CHR ''?'']) = [CHR 0xC3, CHR 0xA9, CHR ''?'']"
proof -
  have "valid_utf8 [CHR 0xC3, CHR 0xA9, CHR ''?'']" by code_simp
  then show ?thesis using percent_codec_roundtrip [of "[CHR 0xC3, CHR 0xA9, CHR ''?'']"] by blast
qed

end
