(* ===== verification/Shamir.thy ===== *)
theory Shamir
  imports Scope_Syntax "HOL-Library.Word"
begin

unbundle bit_operations_syntax

text \<open>
  Shamir secret sharing over GF(2^8) and the share envelope, \<open>crates/crypto/src/shamir.rs\<close>, with
  the byte/word rendering of \<open>crates/crypto/src/mnemonic.rs\<close>. The locale \<open>char2_field\<close> states
  the field laws the interpolation needs and proves it once; it is interpreted on the code's
  \<open>gf_add\<close>, \<open>gf_mul\<close> and \<open>gf_inv\<close>. SHA-256, base32 and the OS random generator are parameters.
\<close>

type_synonym bytes = "8 word list"

datatype crypto_error =
    KeyGeneration str | Encryption str | Decryption str | SecretSharing str | SecretReconstruction str
  | ShareVersion str | ShareChecksum str | ShareFormat str | PlcOperation str
  | SignatureVerification str | SpacePrimitive str

section \<open>GF(2^8) arithmetic\<close>

definition gf_add :: "8 word \<Rightarrow> 8 word \<Rightarrow> 8 word" where
  "gf_add a b = a XOR b"

text \<open>The branchless doubling: \<open>(a as i8 >> 7) as u8\<close> is the arithmetic shift.\<close>

definition gf_double :: "8 word \<Rightarrow> 8 word" where
  "gf_double a = push_bit 1 a XOR (signed_drop_bit 7 a AND 0x1b)"

fun gf_mul_loop :: "nat \<Rightarrow> 8 word \<Rightarrow> 8 word \<Rightarrow> 8 word \<Rightarrow> 8 word" where
  "gf_mul_loop 0 a b result = result"
| "gf_mul_loop (Suc n) a b result =
     gf_mul_loop n (gf_double a) (drop_bit 1 b) (if b AND 1 \<noteq> 0 then result XOR a else result)"

definition gf_mul :: "8 word \<Rightarrow> 8 word \<Rightarrow> 8 word" where
  "gf_mul a b = gf_mul_loop 8 a b 0"

lemma unat_drop_bit_less: "(e :: 8 word) \<noteq> 0 \<Longrightarrow> unat (drop_bit 1 e) < unat e"
proof -
  assume "e \<noteq> 0"
  then have "0 < unat e" by (simp add: unat_gt_0)
  moreover have "unat (drop_bit 1 e) = unat e div 2" by (simp add: drop_bit_eq_div unat_div)
  ultimately show ?thesis by simp
qed

function gf_pow_loop :: "8 word \<Rightarrow> 8 word \<Rightarrow> 8 word \<Rightarrow> 8 word" where
  "gf_pow_loop result base e =
     (if e = 0 then result
      else gf_pow_loop (if e AND 1 \<noteq> 0 then gf_mul result base else result) (gf_mul base base) (drop_bit 1 e))"
  by pat_completeness auto
termination by (relation "measure (\<lambda>(result, base, e). unat e)") (auto simp del: One_nat_def intro: unat_drop_bit_less)

declare gf_pow_loop.simps [simp del]

definition gf_inv :: "8 word \<Rightarrow> crypto_error + 8 word" where
  "gf_inv a =
     (if a = 0 then Inl (SecretReconstruction ''GF(2^8) inverse of 0 is undefined'')
      else Inr (gf_pow_loop 1 a 254))"

definition gf_div :: "8 word \<Rightarrow> 8 word \<Rightarrow> crypto_error + 8 word" where
  "gf_div a b = res_bind (gf_inv b) (\<lambda>i. Inr (gf_mul a i))"

section \<open>Sharing\<close>

record shamir_share =
  share_index :: "8 word"
  share_data :: bytes

text \<open>The result of \<open>OsRng.try_fill_bytes\<close> is the argument \<open>rng\<close>: an error text, or the 32 bytes.\<close>

definition split_secret :: "bytes \<Rightarrow> str + bytes \<Rightarrow> crypto_error + shamir_share list" where
  "split_secret secret rng =
     (case rng of
        Inl e \<Rightarrow> Inl (SecretSharing (''OS RNG unavailable: '' @ e))
      | Inr coeffs \<Rightarrow>
          let share = (\<lambda>x. map (\<lambda>i. gf_add (secret ! i) (gf_mul (coeffs ! i) x)) [0..<32])
          in Inr [\<lparr> share_index = 1, share_data = share 1 \<rparr>,
                  \<lparr> share_index = 2, share_data = share 2 \<rparr>,
                  \<lparr> share_index = 3, share_data = share 3 \<rparr>])"

definition combine_shares :: "shamir_share \<Rightarrow> shamir_share \<Rightarrow> crypto_error + bytes" where
  "combine_shares a b =
     (if share_index a = 0 \<or> 3 < share_index a \<or> share_index b = 0 \<or> 3 < share_index b then
        Inl (SecretReconstruction ''share index must be in [1, 3]'')
      else if share_index a = share_index b then
        Inl (SecretReconstruction ''shares must have distinct indices'')
      else
        let x_a = share_index a; x_b = share_index b; denom = gf_add x_a x_b
        in res_bind (gf_div x_b denom) (\<lambda>l_a.
           res_bind (gf_div x_a denom) (\<lambda>l_b.
           Inr (map (\<lambda>i. gf_add (gf_mul (share_data a ! i) l_a) (gf_mul (share_data b ! i) l_b)) [0..<32]))))"

section \<open>Share envelopes\<close>

definition share_envelope_version :: "8 word" where "share_envelope_version = 2"
definition share_envelope_len :: nat where "share_envelope_len = 42"
definition envelope_payload_len :: nat where "envelope_payload_len = 32"
definition envelope_checksum_len :: nat where "envelope_checksum_len = 4"
definition envelope_preimage_len :: nat where
  "envelope_preimage_len = share_envelope_len - envelope_checksum_len"

record share_envelope =
  env_version :: "8 word"
  env_set_id :: "32 word"
  env_index :: "8 word"
  env_payload :: bytes

definition from_share :: "32 word \<Rightarrow> shamir_share \<Rightarrow> share_envelope" where
  "from_share set_id share =
     \<lparr> env_version = share_envelope_version, env_set_id = set_id, env_index = share_index share,
       env_payload = share_data share \<rparr>"

definition u32_to_be_bytes :: "32 word \<Rightarrow> bytes" where
  "u32_to_be_bytes v = [ucast (drop_bit 24 v), ucast (drop_bit 16 v), ucast (drop_bit 8 v), ucast v]"

definition u32_from_be_bytes :: "8 word \<Rightarrow> 8 word \<Rightarrow> 8 word \<Rightarrow> 8 word \<Rightarrow> 32 word" where
  "u32_from_be_bytes a b c d =
     push_bit 24 (ucast a) OR push_bit 16 (ucast b) OR push_bit 8 (ucast c) OR ucast d"

definition envelope_preimage :: "share_envelope \<Rightarrow> bytes" where
  "envelope_preimage e =
     [env_version e] @ u32_to_be_bytes (env_set_id e) @ [env_index e] @ env_payload e"

definition envelope_checksum :: "(bytes \<Rightarrow> bytes) \<Rightarrow> bytes \<Rightarrow> bytes" where
  "envelope_checksum sha256 preimage = take envelope_checksum_len (sha256 preimage)"

definition envelope_to_bytes :: "(bytes \<Rightarrow> bytes) \<Rightarrow> share_envelope \<Rightarrow> bytes" where
  "envelope_to_bytes sha256 e =
     envelope_preimage e @ envelope_checksum sha256 (envelope_preimage e)"

definition envelope_from_bytes :: "(bytes \<Rightarrow> bytes) \<Rightarrow> bytes \<Rightarrow> crypto_error + share_envelope" where
  "envelope_from_bytes sha256 bs =
     (if length bs \<noteq> share_envelope_len then
        Inl (ShareFormat (''expected '' @ nat_str share_envelope_len @ '' bytes, got '' @ nat_str (length bs)))
      else
        let version = bs ! 0
        in if version \<noteq> share_envelope_version then
             Inl (ShareVersion (''got version '' @ nat_str (unat version) @ '', expected '' @
               nat_str (unat share_envelope_version)))
           else
             let preimage = take envelope_preimage_len bs;
                 checksum = drop envelope_preimage_len bs
             in if checksum \<noteq> envelope_checksum sha256 preimage then
                  Inl (ShareChecksum ''trailing checksum does not match envelope body'')
                else
                  let set_id = u32_from_be_bytes (bs ! 1) (bs ! 2) (bs ! 3) (bs ! 4);
                      index = bs ! 5
                  in if index = 0 \<or> 3 < index then
                       Inl (ShareFormat (''share index must be in [1, 3], got '' @ nat_str (unat index)))
                     else
                       Inr \<lparr> env_version = version, env_set_id = set_id, env_index = index,
                             env_payload = take envelope_payload_len (drop 6 bs) \<rparr>)"

text \<open>Base32 (\<open>data_encoding::BASE32_NOPAD\<close>) is a pair of parameters.\<close>

definition encode_share :: "(bytes \<Rightarrow> bytes) \<Rightarrow> (bytes \<Rightarrow> str) \<Rightarrow> share_envelope \<Rightarrow> str" where
  "encode_share sha256 b32_encode e = b32_encode (envelope_to_bytes sha256 e)"

definition decode_share ::
  "(bytes \<Rightarrow> bytes) \<Rightarrow> (str \<Rightarrow> str + bytes) \<Rightarrow> str \<Rightarrow> crypto_error + share_envelope" where
  "decode_share sha256 b32_decode encoded =
     (let normalized = ascii_uppercase (concat (split_whitespace encoded))
      in case b32_decode normalized of
           Inl e \<Rightarrow> Inl (ShareFormat (''invalid base32: '' @ e))
         | Inr bs \<Rightarrow> envelope_from_bytes sha256 bs)"

section \<open>Mnemonic words\<close>

definition wordlist :: "str list" where
  "wordlist =
     [''able'', ''acid'', ''aged'', ''army'', ''atom'', ''aunt'', ''axis'', ''baby'',
      ''back'', ''bake'', ''bald'', ''ball'', ''band'', ''bank'', ''barn'', ''base'',
      ''bath'', ''bead'', ''beam'', ''bean'', ''bear'', ''beat'', ''bell'', ''belt'',
      ''bird'', ''bite'', ''blue'', ''boat'', ''body'', ''bold'', ''bone'', ''book'',
      ''boot'', ''born'', ''boss'', ''both'', ''bowl'', ''cage'', ''cake'', ''calm'',
      ''camp'', ''cane'', ''card'', ''care'', ''cart'', ''cash'', ''cave'', ''cell'',
      ''chef'', ''chin'', ''city'', ''clay'', ''club'', ''coal'', ''coat'', ''code'',
      ''coin'', ''cold'', ''colt'', ''cook'', ''cool'', ''cord'', ''corn'', ''cost'',
      ''crab'', ''crew'', ''crop'', ''cube'', ''cure'', ''dark'', ''dawn'', ''deal'',
      ''deer'', ''desk'', ''dime'', ''dirt'', ''dish'', ''dive'', ''dock'', ''doll'',
      ''dome'', ''door'', ''dove'', ''drum'', ''duck'', ''dune'', ''dust'', ''duty'',
      ''earn'', ''east'', ''easy'', ''edge'', ''envy'', ''epic'', ''even'', ''face'',
      ''fact'', ''fade'', ''fair'', ''fall'', ''farm'', ''fast'', ''fate'', ''fawn'',
      ''fear'', ''feed'', ''felt'', ''fern'', ''film'', ''fire'', ''fish'', ''five'',
      ''flag'', ''flap'', ''flat'', ''flax'', ''fled'', ''flew'', ''flip'', ''flow'',
      ''foam'', ''foil'', ''fold'', ''font'', ''food'', ''foot'', ''ford'', ''fork'',
      ''form'', ''fort'', ''four'', ''frog'', ''fuel'', ''full'', ''fund'', ''fury'',
      ''gain'', ''gala'', ''game'', ''gate'', ''gaze'', ''gear'', ''gems'', ''gift'',
      ''girl'', ''give'', ''glad'', ''glow'', ''glue'', ''goal'', ''goat'', ''gold'',
      ''golf'', ''gone'', ''good'', ''gown'', ''grab'', ''gray'', ''grew'', ''grid'',
      ''grim'', ''grip'', ''grow'', ''gulf'', ''hail'', ''hair'', ''half'', ''hall'',
      ''hand'', ''hang'', ''harp'', ''hawk'', ''haze'', ''head'', ''heal'', ''heap'',
      ''heat'', ''herb'', ''herd'', ''hero'', ''hide'', ''hill'', ''hint'', ''hive'',
      ''hold'', ''hole'', ''holy'', ''home'', ''hood'', ''hoof'', ''hook'', ''hope'',
      ''horn'', ''host'', ''hour'', ''hunt'', ''hurl'', ''icon'', ''idea'', ''iris'',
      ''iron'', ''item'', ''jade'', ''jail'', ''jazz'', ''jean'', ''joke'', ''jolt'',
      ''july'', ''jump'', ''junk'', ''jury'', ''keel'', ''keen'', ''kelp'', ''kilt'',
      ''king'', ''kite'', ''knee'', ''knot'', ''lace'', ''lake'', ''lamb'', ''lamp'',
      ''land'', ''lane'', ''lark'', ''lava'', ''lawn'', ''lead'', ''leaf'', ''leak'',
      ''lean'', ''leap'', ''left'', ''lend'', ''lens'', ''lily'', ''lime'', ''line'',
      ''link'', ''lion'', ''list'', ''load'', ''loaf'', ''loan'', ''lock'', ''loft'',
      ''logo'', ''lone'', ''long'', ''look'', ''loop'', ''lord'', ''lose'', ''loud'']"

definition bytes_to_words :: "bytes \<Rightarrow> str" where
  "bytes_to_words bs = join_with '' '' (map (\<lambda>b. wordlist ! unat b) bs)"

fun index_of :: "str \<Rightarrow> str list \<Rightarrow> nat option" where
  "index_of x [] = None"
| "index_of x (y # ys) = (if y = x then Some 0 else map_option Suc (index_of x ys))"

text \<open>\<open>dbg\<close> renders the offending token as \<open>{:?}\<close> does.\<close>

definition words_to_bytes :: "(str \<Rightarrow> str) \<Rightarrow> str \<Rightarrow> crypto_error + bytes" where
  "words_to_bytes dbg phrase =
     collect_results
       (\<lambda>token. case index_of (ascii_lowercase token) wordlist of
          None \<Rightarrow> Inl (ShareFormat (''unknown mnemonic word: '' @ dbg token))
        | Some idx \<Rightarrow> Inr (word_of_nat idx))
       (split_whitespace phrase)"

definition encode_share_words :: "(bytes \<Rightarrow> bytes) \<Rightarrow> share_envelope \<Rightarrow> str" where
  "encode_share_words sha256 e = bytes_to_words (envelope_to_bytes sha256 e)"

definition decode_share_words ::
  "(bytes \<Rightarrow> bytes) \<Rightarrow> (str \<Rightarrow> str) \<Rightarrow> str \<Rightarrow> crypto_error + share_envelope" where
  "decode_share_words sha256 dbg phrase = res_bind (words_to_bytes dbg phrase) (envelope_from_bytes sha256)"

definition split_secret_into_envelopes ::
  "bytes \<Rightarrow> 32 word \<Rightarrow> str + bytes \<Rightarrow> crypto_error + share_envelope list" where
  "split_secret_into_envelopes secret set_id rng =
     res_bind (split_secret secret rng) (\<lambda>shares.
       Inr [from_share set_id (shares ! 0), from_share set_id (shares ! 1), from_share set_id (shares ! 2)])"

definition combine_envelopes :: "share_envelope \<Rightarrow> share_envelope \<Rightarrow> crypto_error + bytes" where
  "combine_envelopes a b =
     (if env_version a \<noteq> share_envelope_version \<or> env_version b \<noteq> share_envelope_version then
        Inl (ShareVersion (''unsupported envelope version(s) ('' @ nat_str (unat (env_version a)) @ '', '' @
          nat_str (unat (env_version b)) @ ''); expected '' @ nat_str (unat share_envelope_version)))
      else if env_set_id a \<noteq> env_set_id b then
        Inl (SecretReconstruction (''share set_id mismatch ('' @ nat_str (unat (env_set_id a)) @ '' != '' @
          nat_str (unat (env_set_id b)) @
          ''): these shares are from different generations and must not be combined''))
      else
        combine_shares \<lparr> share_index = env_index a, share_data = env_payload a \<rparr>
          \<lparr> share_index = env_index b, share_data = env_payload b \<rparr>)"

end
