(* ===== verification/Shamir_Correct.thy ===== *)
theory Shamir_Correct
  imports Shamir
begin

unbundle bit_operations_syntax

text \<open>
  Correctness of the secret sharing: \<open>gf_mul\<close> is the multiplication of a field of
  characteristic 2 (interpretation of \<open>char2_field\<close>), any two shares of a split recombine to the
  secret, one share is compatible with every secret, and the envelope encodings are lossless.
\<close>

section \<open>The field interface\<close>

locale char2_field =
  fixes add mul :: "'a \<Rightarrow> 'a \<Rightarrow> 'a" and zero one :: 'a and inv :: "'a \<Rightarrow> 'a"
  assumes add_assoc: "add (add x y) z = add x (add y z)"
    and add_comm: "add x y = add y x"
    and add_zero: "add x zero = x"
    and add_self: "add x x = zero"
    and mul_assoc: "mul (mul x y) z = mul x (mul y z)"
    and mul_comm: "mul x y = mul y x"
    and mul_one: "mul x one = x"
    and distrib: "mul (add x y) z = add (mul x z) (mul y z)"
    and inverse: "x \<noteq> zero \<Longrightarrow> mul x (inv x) = one"
begin

lemma add_left_comm: "add x (add y z) = add y (add x z)"
  by (metis add_assoc add_comm)

lemma mul_left_comm: "mul x (mul y z) = mul y (mul x z)"
  by (metis mul_assoc mul_comm)

lemmas add_ac = add_assoc add_comm add_left_comm
lemmas mul_ac = mul_assoc mul_comm mul_left_comm

lemma add_cancel: "add x (add x y) = y"
  by (metis add_assoc add_comm add_self add_zero)

lemma add_eq_zero: "add x y = zero \<longleftrightarrow> x = y"
  by (metis add_cancel add_zero add_self)

lemma mul_zero: "mul zero x = zero"
  by (metis add_cancel add_self distrib)

lemma lagrange:
  assumes "xa \<noteq> xb"
  shows "add (mul (add s (mul a xa)) (mul xb (inv (add xa xb)))) (mul (add s (mul a xb)) (mul xa (inv (add xa xb)))) = s"
proof -
  let ?d = "inv (add xa xb)"
  have one: "mul (add xa xb) ?d = one" using assms by (intro inverse) (simp add: add_eq_zero)
  have cross: "mul (mul a xa) (mul xb ?d) = mul (mul a xb) (mul xa ?d)" by (simp add: mul_ac)
  have "add (mul (add s (mul a xa)) (mul xb ?d)) (mul (add s (mul a xb)) (mul xa ?d)) =
      add (add (mul s (mul xb ?d)) (mul s (mul xa ?d))) (add (mul (mul a xa) (mul xb ?d)) (mul (mul a xb) (mul xa ?d)))"
    by (simp add: distrib add_ac)
  also have "\<dots> = add (mul s (mul xb ?d)) (mul s (mul xa ?d))"
    unfolding cross by (simp add: add_self add_zero)
  also have "\<dots> = mul s (mul (add xa xb) ?d)"
    by (metis add_comm distrib mul_comm)
  also have "\<dots> = s" by (simp add: one mul_one)
  finally show ?thesis .
qed

lemma unique_coefficient:
  assumes "x \<noteq> zero"
  shows "add s (mul a x) = y \<longleftrightarrow> a = mul (add s y) (inv x)"
proof
  assume "add s (mul a x) = y"
  then have "add s y = mul a x" using add_cancel by blast
  then show "a = mul (add s y) (inv x)" using inverse [OF assms] by (simp add: mul_assoc mul_one)
next
  assume "a = mul (add s y) (inv x)"
  then have "mul a x = mul (add s y) (mul x (inv x))" by (metis mul_assoc mul_comm)
  then have "mul a x = add s y" using inverse [OF assms] by (simp add: mul_one)
  then show "add s (mul a x) = y" by (simp add: add_cancel)
qed

end

section \<open>Linear maps on bytes\<close>

definition pick :: "8 word \<Rightarrow> nat \<Rightarrow> 8 word" where
  "pick b i = (if bit b i then push_bit i 1 else 0)"

lemma bit_pick: "n < 8 \<Longrightarrow> bit (pick b i) n \<longleftrightarrow> bit b i \<and> n = i"
  by (auto simp: pick_def bit_simps)

lemma pick_sum:
  "pick b 0 XOR pick b 1 XOR pick b 2 XOR pick b 3 XOR pick b 4 XOR pick b 5 XOR pick b 6 XOR pick b 7 = b"
proof (rule bit_word_eqI)
  fix n assume "n < LENGTH(8)"
  then have n: "n < 8" by simp
  then have "n = 0 \<or> n = 1 \<or> n = 2 \<or> n = 3 \<or> n = 4 \<or> n = 5 \<or> n = 6 \<or> n = 7" by auto
  then show "bit (pick b 0 XOR pick b 1 XOR pick b 2 XOR pick b 3 XOR pick b 4 XOR pick b 5 XOR pick b 6 XOR pick b 7) n = bit b n"
    unfolding bit_xor_iff by (elim disjE) (simp_all add: bit_pick)
qed

lemma linear_ext:
  fixes f g :: "8 word \<Rightarrow> 8 word"
  assumes f: "\<And>x y. f (x XOR y) = f x XOR f y" and g: "\<And>x y. g (x XOR y) = g x XOR g y"
    and basis: "\<And>i. i < 8 \<Longrightarrow> f (push_bit i 1) = g (push_bit i 1)"
  shows "f b = g b"
proof -
  have z: "f 0 = 0" "g 0 = 0" using f [of 0 0] g [of 0 0] by simp_all
  have p: "f (pick b i) = g (pick b i)" if "i < 8" for i using basis [OF that] z by (simp add: pick_def)
  show ?thesis
    using arg_cong [OF pick_sum [of b], of f] arg_cong [OF pick_sum [of b], of g] p by (simp add: f g)
qed

lemma gf_double_xor: "gf_double (a XOR b) = gf_double a XOR gf_double b"
  by (rule bit_word_eqI) (auto simp: gf_double_def bit_simps)

lemma gf_mul_loop_result: "gf_mul_loop n a b r = r XOR gf_mul_loop n a b 0"
proof (induction n arbitrary: a b r)
  case 0
  then show ?case by simp
next
  case (Suc n)
  show ?case
    using Suc.IH [of "gf_double a" "drop_bit 1 b" r] Suc.IH [of "gf_double a" "drop_bit 1 b" a]
      Suc.IH [of "gf_double a" "drop_bit 1 b" "r XOR a"]
    by (simp add: xor.assoc)
qed

lemma gf_mul_loop_Suc:
  "gf_mul_loop (Suc n) a b 0 = (if bit b 0 then a else 0) XOR gf_mul_loop n (gf_double a) (drop_bit 1 b) 0"
  using gf_mul_loop_result [of n "gf_double a" "drop_bit 1 b" a]
  by (simp add: bit_0 odd_iff_mod_2_eq_one and_one_eq)

declare gf_mul_loop.simps(2) [simp del]

lemma gf_mul_loop_left: "gf_mul_loop n (a XOR a') b 0 = gf_mul_loop n a b 0 XOR gf_mul_loop n a' b 0"
proof (induction n arbitrary: a a' b)
  case 0
  then show ?case by simp
next
  case (Suc n)
  show ?case
    using Suc.IH [of "gf_double a" "gf_double a'" "drop_bit 1 b"]
    by (simp add: gf_mul_loop_Suc gf_double_xor xor.assoc xor.left_commute)
qed

lemma gf_mul_loop_right: "gf_mul_loop n a (b XOR b') 0 = gf_mul_loop n a b 0 XOR gf_mul_loop n a b' 0"
proof (induction n arbitrary: a b b')
  case 0
  then show ?case by simp
next
  case (Suc n)
  have "drop_bit 1 (b XOR b') = drop_bit 1 b XOR drop_bit 1 b'" by (simp add: drop_bit_xor)
  then show ?case
    using Suc.IH [of "gf_double a" "drop_bit 1 b" "drop_bit 1 b'"]
    by (simp add: gf_mul_loop_Suc bit_xor_iff xor.assoc xor.left_commute)
qed

lemma gf_mul_loop_double: "gf_double (gf_mul_loop n a b 0) = gf_mul_loop n (gf_double a) b 0"
proof (induction n arbitrary: a b)
  case 0
  have "gf_double 0 = 0" by code_simp
  then show ?case by simp
next
  case (Suc n)
  have "gf_double 0 = 0" by code_simp
  then show ?case using Suc.IH [of "gf_double a" "drop_bit 1 b"] by (simp add: gf_mul_loop_Suc gf_double_xor)
qed

section \<open>The field of bytes\<close>

lemma gf_mul_left: "gf_mul (x XOR y) z = gf_mul x z XOR gf_mul y z"
  by (simp add: gf_mul_def gf_mul_loop_left)

lemma gf_mul_right: "gf_mul x (y XOR z) = gf_mul x y XOR gf_mul x z"
  by (simp add: gf_mul_def gf_mul_loop_right)

lemma gf_mul_double_left: "gf_mul (gf_double a) b = gf_double (gf_mul a b)"
  by (simp add: gf_mul_def gf_mul_loop_double)

lemma push_bit_double: "i < 7 \<Longrightarrow> push_bit (Suc i) 1 = gf_double (push_bit i 1)"
proof -
  have "list_all (\<lambda>i. push_bit (Suc i) 1 = gf_double (push_bit i 1)) [0..<7]" by code_simp
  then show "i < 7 \<Longrightarrow> push_bit (Suc i) 1 = gf_double (push_bit i 1)" by (auto simp: list_all_iff)
qed

lemma push_bit_doubles: "i < 8 \<Longrightarrow> push_bit i 1 = (gf_double ^^ i) 1"
proof (induction i)
  case (Suc i)
  then have "push_bit (Suc i) (1 :: 8 word) = gf_double (push_bit i 1)" by (intro push_bit_double) simp
  with Suc show ?case by (simp del: push_bit_Suc_numeral)
qed simp

lemma gf_mul_loop_zero: "gf_mul_loop n a 0 0 = 0"
  by (induction n arbitrary: a) (simp_all add: gf_mul_loop_Suc)

lemma gf_mul_loop_power:
  "i < n \<Longrightarrow> i < 8 \<Longrightarrow> gf_mul_loop n a (push_bit i 1) 0 = (gf_double ^^ i) a"
proof (induction n arbitrary: i a)
  case (Suc n)
  show ?case
  proof (cases i)
    case 0
    have "drop_bit 1 (1 :: 8 word) = 0" by code_simp
    with 0 show ?thesis by (simp add: gf_mul_loop_Suc gf_mul_loop_zero)
  next
    case (Suc k)
    have "drop_bit 1 (push_bit (Suc k) (1 :: 8 word)) = push_bit k 1"
      using Suc Suc.prems by (intro bit_word_eqI) (auto simp: bit_simps)
    moreover have "\<not> bit (push_bit (Suc k) (1 :: 8 word)) 0" by (simp only: bit_push_bit_iff) simp
    ultimately show ?thesis
      using Suc Suc.prems Suc.IH [of k "gf_double a"] by (simp add: gf_mul_loop_Suc funpow_swap1 del: push_bit_Suc)
  qed
qed simp

lemma gf_mul_power: "i < 8 \<Longrightarrow> gf_mul a ((gf_double ^^ i) 1) = (gf_double ^^ i) a"
  unfolding gf_mul_def using gf_mul_loop_power [of i 8 a] push_bit_doubles [of i] by simp

text \<open>Two linear maps that agree on the powers of the doubling are equal.\<close>

lemma linear_powers:
  fixes f g :: "8 word \<Rightarrow> 8 word"
  assumes "\<And>x y. f (x XOR y) = f x XOR f y" "\<And>x y. g (x XOR y) = g x XOR g y"
    and "\<And>i. i < 8 \<Longrightarrow> f ((gf_double ^^ i) 1) = g ((gf_double ^^ i) 1)"
  shows "f b = g b"
  using linear_ext [of f g b] assms push_bit_doubles by simp

lemma gf_mul_one_left: "gf_mul 1 b = b"
  by (rule linear_powers [of "gf_mul 1" "\<lambda>b. b"]) (simp_all add: gf_mul_right gf_mul_power)

lemma gf_double_powers_left: "gf_mul ((gf_double ^^ i) a) b = (gf_double ^^ i) (gf_mul a b)"
  by (induction i) (simp_all add: gf_mul_double_left)

lemma gf_mul_comm: "gf_mul a b = gf_mul b a"
  by (rule linear_powers [of "gf_mul a" "\<lambda>b. gf_mul b a"])
    (simp_all add: gf_mul_right gf_mul_left gf_mul_power gf_double_powers_left gf_mul_one_left)

lemma gf_mul_double_right: "gf_mul a (gf_double b) = gf_double (gf_mul a b)"
  using gf_mul_double_left [of b a] by (simp add: gf_mul_comm)

lemma gf_mul_one_right: "gf_mul x 1 = x"
  using gf_mul_comm gf_mul_one_left by metis

lemma gf_double_powers_right: "gf_mul a ((gf_double ^^ i) b) = (gf_double ^^ i) (gf_mul a b)"
  by (induction i) (simp_all add: gf_mul_double_right)

lemma gf_mul_assoc: "gf_mul (gf_mul a b) c = gf_mul a (gf_mul b c)"
  by (rule linear_powers [of "gf_mul (gf_mul a b)" "\<lambda>c. gf_mul a (gf_mul b c)"])
    (simp_all add: gf_mul_right gf_double_powers_right gf_mul_one_right)

section \<open>Inverses\<close>

primrec gf_power :: "8 word \<Rightarrow> nat \<Rightarrow> 8 word" where
  "gf_power a 0 = 1"
| "gf_power a (Suc n) = gf_mul a (gf_power a n)"

lemma gf_power_add: "gf_power a (m + n) = gf_mul (gf_power a m) (gf_power a n)"
  by (induction m) (simp_all add: gf_mul_one_left gf_mul_assoc)

lemma gf_power_one [simp]: "gf_power 1 n = 1"
  by (induction n) (simp_all add: gf_mul_one_left)

lemma gf_power_mult: "gf_power a (m * n) = gf_power (gf_power a m) n"
  by (induction n) (simp_all add: gf_power_add)

lemma gf_power_square: "gf_power (gf_mul a a) n = gf_power a (2 * n)"
proof -
  have "gf_power a 2 = gf_mul a a" by (simp add: numeral_2_eq_2 gf_mul_one_right)
  then show ?thesis by (metis gf_power_mult)
qed

lemma unat_half: "unat (drop_bit (Suc 0) (e :: 8 word)) = unat e div 2"
  by (simp add: drop_bit_eq_div unat_div)

lemma unat_odd: "(e :: 8 word) AND 1 \<noteq> 0 \<longleftrightarrow> odd (unat e)"
proof -
  have "e AND 1 \<noteq> 0 \<longleftrightarrow> bit e 0" by (simp add: bit_0 odd_iff_mod_2_eq_one and_one_eq)
  also have "\<dots> \<longleftrightarrow> bit (unat e) 0" by (simp only: bit_unsigned_iff) simp
  also have "\<dots> \<longleftrightarrow> odd (unat e)" by (simp add: bit_0)
  finally show ?thesis .
qed

lemma gf_pow_loop_eq: "gf_pow_loop r b e = gf_mul r (gf_power b (unat e))"
proof (induction r b e rule: gf_pow_loop.induct)
  case (1 r b e)
  show ?case
  proof (cases "e = 0")
    case True
    then show ?thesis by (simp add: gf_pow_loop.simps gf_mul_one_right)
  next
    case False
    let ?k = "unat e div 2"
    have IH: "gf_pow_loop r b e =
        gf_mul (if e AND 1 \<noteq> 0 then gf_mul r b else r) (gf_power (gf_mul b b) ?k)"
      using 1 [OF False] False by (simp add: gf_pow_loop.simps [of r b e] unat_half)
    show ?thesis
    proof (cases "e AND 1 \<noteq> 0")
      case True
      then have "unat e = Suc (2 * ?k)" using unat_odd [of e] by presburger
      then have "gf_power b (unat e) = gf_mul b (gf_power b (2 * ?k))" by (metis gf_power.simps(2))
      with IH True show ?thesis by (simp add: gf_power_square gf_mul_assoc)
    next
      case even: False
      then have "unat e = 2 * ?k" using unat_odd [of e] by presburger
      with IH even show ?thesis by (simp add: gf_power_square)
    qed
  qed
qed

text \<open>
  The element 3 generates the multiplicative group: its order divides 255 and no proper divisor of
  255 is a period, by the products of its repeated squares below.
\<close>

lemma generator_products:
  "list_all (\<lambda>(a, b, c). gf_mul a b = c)
     [(3, 3, 5), (5, 5, 17), (17, 17, 26), (26, 26, 95), (95, 95, 229), (229, 229, 76), (76, 76, 251), (3, 5, 15), (15, 17, 255), (255, 26, 53), (3, 5, 15), (15, 95, 72), (72, 229, 12), (3, 17, 51), (51, 95, 115), (115, 76, 189), (53, 95, 170), (170, 229, 205), (205, 76, 160), (160, 251, 1)]"
  by code_simp

lemma generator_squares:
  "gf_power 3 2 = 5" "gf_power 3 4 = 17" "gf_power 3 8 = 26" "gf_power 3 16 = 95" "gf_power 3 32 = 229"
  "gf_power 3 64 = 76" "gf_power 3 128 = 251"
proof -
  note prods = generator_products [unfolded list.pred_inject prod.case]
  have double: "gf_power 3 (m + m) = gf_mul (gf_power 3 m) (gf_power 3 m)" for m by (rule gf_power_add)
  have "gf_power 3 1 = 3" by (simp add: gf_mul_one_right)
  with double [of 1] prods show two: "gf_power 3 2 = 5" by (simp add: numeral_2_eq_2)
  with double [of 2] prods show four: "gf_power 3 4 = 17" by simp
  with double [of 4] prods show eight: "gf_power 3 8 = 26" by simp
  with double [of 8] prods show sixteen: "gf_power 3 16 = 95" by simp
  with double [of 16] prods show "gf_power 3 32 = 229" by simp
  with double [of 32] prods show "gf_power 3 64 = 76" by simp
  with double [of 64] prods show "gf_power 3 128 = 251" by simp
qed

lemma generator_order:
  "gf_power 3 15 \<noteq> 1" "gf_power 3 51 \<noteq> 1" "gf_power 3 85 \<noteq> 1" "gf_power 3 255 = 1"
proof -
  note prods = generator_products [unfolded list.pred_inject prod.case]
  note sq = generator_squares
  have one: "gf_power 3 1 = 3" by (simp add: gf_mul_one_right)
  have p3: "gf_power 3 3 = 15" using gf_power_add [of 3 1 2] sq prods by (simp add: one del: One_nat_def)
  have p7: "gf_power 3 7 = 255" using gf_power_add [of 3 3 4] p3 sq prods by simp
  have p15: "gf_power 3 15 = 53" using gf_power_add [of 3 7 8] p7 sq prods by simp
  then show "gf_power 3 15 \<noteq> 1" by simp
  have p19: "gf_power 3 19 = 72" using gf_power_add [of 3 3 16] p3 sq prods by simp
  have p51: "gf_power 3 51 = 12" using gf_power_add [of 3 19 32] p19 sq prods by simp
  then show "gf_power 3 51 \<noteq> 1" by simp
  have p5: "gf_power 3 5 = 51" using gf_power_add [of 3 1 4] sq prods by (simp add: one del: One_nat_def)
  have p21: "gf_power 3 21 = 115" using gf_power_add [of 3 5 16] p5 sq prods by simp
  have p85: "gf_power 3 85 = 189" using gf_power_add [of 3 21 64] p21 sq prods by simp
  then show "gf_power 3 85 \<noteq> 1" by simp
  have p31: "gf_power 3 31 = 170" using gf_power_add [of 3 15 16] p15 sq prods by simp
  have p63: "gf_power 3 63 = 205" using gf_power_add [of 3 31 32] p31 sq prods by simp
  have p127: "gf_power 3 127 = 160" using gf_power_add [of 3 63 64] p63 sq prods by simp
  show "gf_power 3 255 = 1" using gf_power_add [of 3 127 128] p127 sq prods by simp
qed

lemma power_one_dvd: "gf_power a m = 1 \<Longrightarrow> m dvd n \<Longrightarrow> gf_power a n = 1"
  by (auto simp: dvd_def gf_power_mult)

lemma power_one_gcd:
  assumes "gf_power a m = 1" "gf_power a n = 1" "m \<noteq> 0"
  shows "gf_power a (gcd m n) = 1"
proof -
  obtain x y where "m * x = n * y + gcd m n" using bezout_nat [OF assms(3)] by blast
  moreover have "gf_power a (m * x) = 1" "gf_power a (n * y) = 1"
    using assms power_one_dvd by simp_all
  ultimately have "gf_mul 1 (gf_power a (gcd m n)) = 1" by (metis gf_power_add)
  then show ?thesis by (simp add: gf_mul_one_left)
qed

lemma proper_divisors_255:
  assumes "e dvd 255" "e < (255 :: nat)"
  shows "e dvd 85 \<or> e dvd 51 \<or> e dvd 15"
proof -
  have "list_all (\<lambda>e. e dvd 255 \<longrightarrow> e dvd 85 \<or> e dvd 51 \<or> e dvd (15 :: nat)) [1..<255]" by code_simp
  moreover have "e \<noteq> 0" using assms(1) by (metis dvd_0_left_iff numeral_eq_iff zero_neq_numeral)
  ultimately show ?thesis using assms by (auto simp: list_all_iff)
qed

lemma generator_period: "0 < d \<Longrightarrow> d < 255 \<Longrightarrow> gf_power 3 d \<noteq> 1"
proof
  assume d: "0 < d" "d < 255" and one: "gf_power 3 d = 1"
  then have "gf_power 3 (gcd d 255) = 1" by (intro power_one_gcd generator_order) simp_all
  moreover have "gcd d 255 dvd 255" "gcd d 255 < 255"
    using d by (simp, metis gcd_le1_nat le_less_trans less_numeral_extra(3))
  then have "gcd d 255 dvd 85 \<or> gcd d 255 dvd 51 \<or> gcd d 255 dvd 15" by (rule proper_divisors_255)
  ultimately show False using power_one_dvd generator_order by blast
qed

lemma generator_cancel: "i \<le> 255 \<Longrightarrow> gf_mul (gf_power 3 (255 - i)) (gf_power 3 i) = 1"
  using gf_power_add [of 3 "255 - i" i] generator_order(4) by simp

lemma generator_inj: "inj_on (gf_power 3) {..<255}"
proof -
  have "gf_power 3 i \<noteq> gf_power 3 j" if "i < j" "j < 255" for i j
  proof
    assume eq: "gf_power 3 i = gf_power 3 j"
    have "gf_power 3 j = gf_mul (gf_power 3 i) (gf_power 3 (j - i))"
      using gf_power_add [of 3 i "j - i"] that by simp
    then have "gf_mul (gf_power 3 (255 - i)) (gf_power 3 i) =
        gf_mul (gf_mul (gf_power 3 (255 - i)) (gf_power 3 i)) (gf_power 3 (j - i))"
      using eq by (simp add: gf_mul_assoc)
    then have "gf_power 3 (j - i) = 1" using generator_cancel [of i] that by (simp add: gf_mul_one_left)
    moreover have "0 < j - i" "j - i < 255" using that by auto
    ultimately show False using generator_period by blast
  qed
  then show ?thesis by (intro linorder_inj_onI) (auto simp: linorder_neq_iff)
qed

lemma gf_mul_zero: "gf_mul 0 b = 0"
  by (metis gf_mul_left xor_self_eq)

lemma generator_surj: "a \<noteq> 0 \<Longrightarrow> \<exists>k. a = gf_power 3 k"
proof -
  have "gf_power 3 i \<noteq> 0" if "i < 255" for i
    using generator_cancel [of i] that gf_mul_zero gf_mul_comm by (metis less_imp_le zero_neq_one)
  then have "gf_power 3 ` {..<255} \<subseteq> UNIV - {0}" by auto
  moreover have "card (gf_power 3 ` {..<255}) = 255" using generator_inj by (simp add: card_image)
  moreover have "card (UNIV - {0 :: 8 word}) = 255" by (simp add: card_word)
  ultimately have "gf_power 3 ` {..<255} = UNIV - {0}" by (intro card_subset_eq) auto
  then show "a \<noteq> 0 \<Longrightarrow> \<exists>k. a = gf_power 3 k" by blast
qed

lemma gf_power_255: "a \<noteq> 0 \<Longrightarrow> gf_power a 255 = 1"
proof -
  assume "a \<noteq> 0"
  then obtain k where "a = gf_power 3 k" using generator_surj by blast
  then have "gf_power a 255 = gf_power 3 (255 * k)" by (metis gf_power_mult mult.commute)
  then show ?thesis using generator_order(4) by (simp add: gf_power_mult)
qed

definition gf_inverse :: "8 word \<Rightarrow> 8 word" where
  "gf_inverse a = gf_power a 254"

lemma gf_inv_eq: "a \<noteq> 0 \<Longrightarrow> gf_inv a = Inr (gf_inverse a)"
  by (simp add: gf_inv_def gf_pow_loop_eq gf_mul_one_left gf_inverse_def)

lemma gf_mul_inverse: "a \<noteq> 0 \<Longrightarrow> gf_mul a (gf_inverse a) = 1"
  using gf_power_255 [of a] gf_power_add [of a 1 254] by (simp add: gf_inverse_def gf_mul_one_right)

interpretation gf: char2_field gf_add gf_mul 0 1 gf_inverse
proof unfold_locales
  fix x y z
  show "gf_add (gf_add x y) z = gf_add x (gf_add y z)" "gf_add x y = gf_add y x" "gf_add x 0 = x" "gf_add x x = 0"
    by (simp_all add: gf_add_def ac_simps)
  show "gf_mul (gf_mul x y) z = gf_mul x (gf_mul y z)" by (rule gf_mul_assoc)
  show "gf_mul x y = gf_mul y x" by (rule gf_mul_comm)
  show "gf_mul x 1 = x" by (rule gf_mul_one_right)
  show "gf_mul (gf_add x y) z = gf_add (gf_mul x z) (gf_mul y z)" by (simp add: gf_add_def gf_mul_left)
  show "x \<noteq> 0 \<Longrightarrow> gf_mul x (gf_inverse x) = 1" by (rule gf_mul_inverse)
qed

section \<open>Recombination\<close>

definition share_of :: "bytes \<Rightarrow> bytes \<Rightarrow> 8 word \<Rightarrow> bytes" where
  "share_of secret coeffs x = map (\<lambda>i. gf_add (secret ! i) (gf_mul (coeffs ! i) x)) [0..<32]"

lemma split_secret_eq:
  "split_secret secret (Inr coeffs) =
     Inr (map (\<lambda>x. \<lparr> share_index = x, share_data = share_of secret coeffs x \<rparr>) [1, 2, 3])"
  by (simp add: split_secret_def share_of_def)

lemma gf_div_eq: "b \<noteq> 0 \<Longrightarrow> gf_div a b = Inr (gf_mul a (gf_inverse b))"
  by (simp add: gf_div_def gf_inv_eq)

lemma combine_two_shares:
  assumes "length secret = 32" "x \<noteq> y" "x \<noteq> 0" "x \<le> 3" "y \<noteq> 0" "y \<le> 3"
  shows "combine_shares \<lparr> share_index = x, share_data = share_of secret coeffs x \<rparr>
           \<lparr> share_index = y, share_data = share_of secret coeffs y \<rparr> = Inr secret"
proof -
  have nz: "gf_add x y \<noteq> 0" using assms(2) by (simp add: gf.add_eq_zero)
  have "map (\<lambda>i. gf_add (gf_mul (share_of secret coeffs x ! i) (gf_mul y (gf_inverse (gf_add x y))))
      (gf_mul (share_of secret coeffs y ! i) (gf_mul x (gf_inverse (gf_add x y))))) [0..<32] = map ((!) secret) [0..<32]"
    by (rule map_cong) (simp_all add: share_of_def gf.lagrange [OF assms(2)])
  also have "\<dots> = secret" using assms(1) by (metis map_nth)
  finally show ?thesis
    using assms nz by (simp add: combine_shares_def Let_def gf_div_eq not_less [symmetric] del: map_eq_conv)
qed

lemma less_3: "i < 3 \<Longrightarrow> i = 0 \<or> i = 1 \<or> i = (2 :: nat)"
  by auto

lemma share_indices: "i < 3 \<Longrightarrow> [1, 2, 3 :: 8 word] ! i \<noteq> 0 \<and> [1, 2, 3 :: 8 word] ! i \<le> 3"
  by (drule less_3) (elim disjE; simp)

lemma share_indices_inj: "i < 3 \<Longrightarrow> j < 3 \<Longrightarrow> [1, 2, 3 :: 8 word] ! i = [1, 2, 3] ! j \<longleftrightarrow> i = j"
  by (drule less_3, drule less_3) (elim disjE; simp)

lemma split_any_two:
  assumes "length secret = 32" "split_secret secret rng = Inr shares" "i < 3" "j < 3" "i \<noteq> j"
  shows "combine_shares (shares ! i) (shares ! j) = Inr secret"
proof -
  obtain coeffs where "rng = Inr coeffs" using assms(2) by (cases rng) (simp_all add: split_secret_def)
  then have "shares = map (\<lambda>x. \<lparr> share_index = x, share_data = share_of secret coeffs x \<rparr>) [1, 2, 3]"
    using assms(2) by (simp add: split_secret_eq)
  then have "shares ! k = \<lparr> share_index = [1, 2, 3] ! k, share_data = share_of secret coeffs ([1, 2, 3] ! k) \<rparr>" if "k < 3" for k
    using that by (simp add: nth_map [of k "[1, 2, 3]"] del: list.map)
  then show ?thesis
    using combine_two_shares [OF assms(1)] share_indices share_indices_inj assms(3-5) by simp
qed

section \<open>Envelopes\<close>

definition wf_envelope :: "share_envelope \<Rightarrow> bool" where
  "wf_envelope e \<longleftrightarrow> env_version e = share_envelope_version \<and> env_index e \<noteq> 0 \<and> env_index e \<le> 3 \<and>
     length (env_payload e) = envelope_payload_len"

lemmas envelope_consts = share_envelope_len_def envelope_payload_len_def envelope_checksum_len_def
  envelope_preimage_len_def

lemma u32_be_roundtrip:
  "u32_from_be_bytes (ucast (drop_bit 24 v)) (ucast (drop_bit 16 v)) (ucast (drop_bit 8 v)) (ucast v) = (v :: 32 word)"
  unfolding u32_from_be_bytes_def
proof (rule bit_word_eqI)
  fix n assume "n < LENGTH(32)"
  then consider "n < 8" | "8 \<le> n" "n < 16" | "16 \<le> n" "n < 24" | "24 \<le> n" by (meson not_le)
  then show "bit (push_bit 24 (ucast (ucast (drop_bit 24 v) :: 8 word)) OR
      push_bit 16 (ucast (ucast (drop_bit 16 v) :: 8 word)) OR
      push_bit 8 (ucast (ucast (drop_bit 8 v) :: 8 word)) OR ucast (ucast v :: 8 word) :: 32 word) n = bit v n"
    using \<open>n < LENGTH(32)\<close> by cases (auto simp: bit_simps)
qed

lemma u32_be_bytes:
  "u32_to_be_bytes (u32_from_be_bytes a b c d) = [a, b, c, d]"
  unfolding u32_to_be_bytes_def u32_from_be_bytes_def list.inject
  by (intro conjI refl; rule bit_word_eqI) (auto simp: bit_simps dest: bit_imp_le_length)

lemma envelope_to_bytes_parts:
  assumes "length (env_payload e) = 32"
  shows "envelope_to_bytes sha256 e ! 0 = env_version e"
    "envelope_to_bytes sha256 e ! 5 = env_index e"
    "take 38 (envelope_to_bytes sha256 e) = envelope_preimage e"
    "drop 38 (envelope_to_bytes sha256 e) = envelope_checksum sha256 (envelope_preimage e)"
    "take 32 (drop 6 (envelope_to_bytes sha256 e)) = env_payload e"
    "length (envelope_to_bytes sha256 e) = 38 + length (envelope_checksum sha256 (envelope_preimage e))"
  using assms
  by (simp_all add: envelope_to_bytes_def envelope_preimage_def u32_to_be_bytes_def numeral_eq_Suc)

lemma envelope_to_bytes_set_id:
  "u32_from_be_bytes (envelope_to_bytes sha256 e ! 1) (envelope_to_bytes sha256 e ! 2)
     (envelope_to_bytes sha256 e ! 3) (envelope_to_bytes sha256 e ! 4) = env_set_id e"
  by (simp add: envelope_to_bytes_def envelope_preimage_def u32_to_be_bytes_def u32_be_roundtrip)

lemma envelope_from_to_bytes:
  assumes "\<And>x. length (sha256 x) = 32" "wf_envelope e"
  shows "envelope_from_bytes sha256 (envelope_to_bytes sha256 e) = Inr e"
  using assms envelope_to_bytes_parts [of e sha256] envelope_to_bytes_set_id [of sha256 e]
  by (simp add: envelope_from_bytes_def wf_envelope_def envelope_consts envelope_checksum_def Let_def
      not_less [symmetric])

lemma take_38:
  fixes bs :: bytes
  assumes "length bs = 42"
  shows "take 38 bs = [bs ! 0, bs ! 1, bs ! 2, bs ! 3, bs ! 4, bs ! 5] @ take 32 (drop 6 bs)"
proof -
  have "take 38 bs = take 6 bs @ take 32 (drop 6 bs)"
    using take_add [of 6 32 bs] by simp
  also have "take 6 bs = [bs ! 0, bs ! 1, bs ! 2, bs ! 3, bs ! 4, bs ! 5]"
    using assms by (intro nth_equalityI) (auto simp: less_Suc_eq numeral_eq_Suc)
  finally show ?thesis .
qed

lemma envelope_to_from_bytes:
  assumes "envelope_from_bytes sha256 bs = Inr e"
  shows "wf_envelope e \<and> envelope_to_bytes sha256 e = bs"
proof -
  have len: "length bs = 42" and v: "bs ! 0 = share_envelope_version"
    and ck: "drop 38 bs = envelope_checksum sha256 (take 38 bs)"
    and ix: "bs ! 5 \<noteq> 0" "bs ! 5 \<le> 3"
    and e: "e = \<lparr> env_version = bs ! 0, env_set_id = u32_from_be_bytes (bs ! 1) (bs ! 2) (bs ! 3) (bs ! 4),
              env_index = bs ! 5, env_payload = take 32 (drop 6 bs) \<rparr>"
    using assms by (auto simp: envelope_from_bytes_def envelope_consts Let_def split: if_splits)
  have "envelope_preimage e = take 38 bs"
    unfolding take_38 [OF len] by (simp add: e envelope_preimage_def u32_be_bytes)
  then have "envelope_to_bytes sha256 e = bs"
    using ck by (metis append_take_drop_id envelope_to_bytes_def)
  then show ?thesis
    using v ix len by (simp add: wf_envelope_def e envelope_consts)
qed

section \<open>Words\<close>

lemma wordlist_sorted: "successively (<) wordlist"
  by code_simp

lemma wordlist_distinct: "distinct wordlist"
proof -
  have "sorted_wrt (<) wordlist"
    using wordlist_sorted by (simp add: successively_conv_sorted_wrt)
  then show ?thesis by (simp add: strict_sorted_iff)
qed

lemma wordlist_words: "list_all plain_word wordlist"
  by code_simp

lemma length_wordlist: "length wordlist = 256"
  by code_simp

lemma index_of_nth: "distinct ws \<Longrightarrow> i < length ws \<Longrightarrow> index_of (ws ! i) ws = Some i"
proof (induction ws arbitrary: i)
  case (Cons w ws)
  then show ?case by (cases i) (auto simp: in_set_conv_nth)
qed simp

lemma unat_less_256: "unat (b :: 8 word) < 256"
  using unsigned_less [of b, where 'a = nat] by simp

lemma wordlist_lookup:
  "index_of (ascii_lowercase (wordlist ! unat b)) wordlist = Some (unat (b :: 8 word))"
proof -
  have w: "plain_word (wordlist ! unat b)"
    using wordlist_words unat_less_256 [of b] by (simp add: list_all_length length_wordlist)
  have "map to_lower s = s" if "list_all is_lower s" for s
    using that by (induction s) (auto simp: to_lower_def ascii_simps)
  then have "ascii_lowercase (wordlist ! unat b) = wordlist ! unat b"
    using w by (simp add: ascii_lowercase_def plain_word_def)
  then show ?thesis
    using index_of_nth [OF wordlist_distinct] unat_less_256 [of b] by (simp add: length_wordlist)
qed

lemma words_roundtrip: "words_to_bytes dbg (bytes_to_words bs) = Inr bs"
proof -
  have "printable w \<and> w \<noteq> []" if w_in: "w \<in> set (map (\<lambda>b. wordlist ! unat b) bs)" for w
  proof -
    obtain b where b: "w = wordlist ! unat (b :: 8 word)" using w_in unfolding set_map by blast
    then have "w \<in> set wordlist" using unat_less_256 [of b] by (simp add: length_wordlist)
    then have "plain_word w" using wordlist_words by (auto simp: list_all_iff)
    then show ?thesis using plain_word_printable by (simp add: plain_word_def)
  qed
  then have "split_whitespace (bytes_to_words bs) = map (\<lambda>b. wordlist ! unat b) bs"
    unfolding bytes_to_words_def by (intro split_whitespace_join) auto
  then show ?thesis
    unfolding words_to_bytes_def collect_results_Inr_iff
    by (simp add: list_all2_conv_all_nth wordlist_lookup)
qed

section \<open>Properties\<close>

text \<open>
  C10: two of three shares. Whatever the random coefficients, any two different shares of a split
  recombine to the secret in either order, and a share combined with itself is refused.
\<close>

theorem any_two_shares_reconstruct:
  assumes "length secret = 32" "split_secret secret rng = Inr shares"
  shows "length shares = 3 \<and>
     (\<forall>i<3. \<forall>j<3. combine_shares (shares ! i) (shares ! j) =
        (if i = j then Inl (SecretReconstruction ''shares must have distinct indices'') else Inr secret))"
proof -
  obtain coeffs where "rng = Inr coeffs" using assms(2) by (cases rng) (simp_all add: split_secret_def)
  then have shares: "shares = map (\<lambda>x. \<lparr> share_index = x, share_data = share_of secret coeffs x \<rparr>) [1, 2, 3]"
    using assms(2) by (simp add: split_secret_eq)
  have self: "combine_shares (shares ! i) (shares ! i) =
      Inl (SecretReconstruction ''shares must have distinct indices'')" if "i < 3" for i
    using less_3 [OF that] by (elim disjE) (simp_all add: shares combine_shares_def)
  show ?thesis
    using split_any_two [OF assms] self by (auto simp: shares)
qed

definition demo_secret :: bytes where "demo_secret = replicate 32 7"

theorem any_two_shares_reconstruct_witness:
  "combine_shares (projr (split_secret demo_secret (Inr (replicate 32 5))) ! 0)
     (projr (split_secret demo_secret (Inr (replicate 32 5))) ! 2) = Inr demo_secret"
proof -
  have len: "length demo_secret = 32" by (simp add: demo_secret_def)
  have split: "split_secret demo_secret (Inr (replicate 32 5)) =
      Inr (projr (split_secret demo_secret (Inr (replicate 32 5))))"
    by (simp add: split_secret_def Let_def)
  show ?thesis using any_two_shares_reconstruct [OF len split] by auto
qed

lemma share_of_unique:
  assumes "x \<noteq> 0" "length d = 32"
  shows "length coeffs = 32 \<and> share_of secret coeffs x = d \<longleftrightarrow>
     coeffs = map (\<lambda>i. gf_mul (gf_add (secret ! i) (d ! i)) (gf_inverse x)) [0..<32]"
proof -
  have "share_of secret coeffs x = d \<longleftrightarrow> (\<forall>i<32. gf_add (secret ! i) (gf_mul (coeffs ! i) x) = d ! i)"
    using assms(2) by (auto simp: share_of_def list_eq_iff_nth_eq)
  also have "\<dots> \<longleftrightarrow> (\<forall>i<32. coeffs ! i = gf_mul (gf_add (secret ! i) (d ! i)) (gf_inverse x))"
    by (simp add: gf.unique_coefficient [OF assms(1)])
  finally show ?thesis by (auto simp: list_eq_iff_nth_eq)
qed

text \<open>
  C11: one share reveals nothing. For every secret and every value the data of share \<open>k\<close> may take,
  exactly one choice of the 32 random coefficient bytes makes the split of that secret produce
  that share: under uniform coefficients a single share has the same distribution for all secrets.
\<close>

theorem single_share_is_independent:
  assumes "k < 3" "length d = 32"
  shows "\<exists>!coeffs. length coeffs = 32 \<and>
     (\<exists>shares. split_secret secret (Inr coeffs) = Inr shares \<and> share_data (shares ! k) = d)"
proof -
  have "[1, 2, 3 :: 8 word] ! k \<noteq> 0" using share_indices [OF assms(1)] by simp
  moreover have "(\<exists>shares. split_secret secret (Inr coeffs) = Inr shares \<and> share_data (shares ! k) = d) \<longleftrightarrow>
      share_of secret coeffs ([1, 2, 3] ! k) = d" for coeffs
    using less_3 [OF assms(1)] by (elim disjE) (simp_all add: split_secret_eq)
  ultimately show ?thesis
    using share_of_unique [OF _ assms(2)] by simp
qed

theorem single_share_is_independent_witness:
  "\<exists>!coeffs. length coeffs = 32 \<and>
     (\<exists>shares. split_secret demo_secret (Inr coeffs) = Inr shares \<and> share_data (shares ! 1) = replicate 32 9)"
  by (rule single_share_is_independent) simp_all

text \<open>
  The envelope format. Parsing 42 bytes yields an envelope exactly when the envelope is well
  formed (version 2, index 1 to 3, 32 payload bytes) and the bytes are its serialization; so
  serialization is injective, and every accepted byte string is canonical. SHA-256 is any function
  with 32-byte results.
\<close>

theorem envelope_bytes_roundtrip:
  assumes "\<forall>x. length (sha256 x) = 32"
  shows "envelope_from_bytes sha256 bs = Inr e \<longleftrightarrow> wf_envelope e \<and> bs = envelope_to_bytes sha256 e"
  using envelope_from_to_bytes [of sha256 e] envelope_to_from_bytes [of sha256 bs e] assms by auto

definition demo_sha256 :: "bytes \<Rightarrow> bytes" where
  "demo_sha256 x = replicate 32 (foldr (\<lambda>b acc. b + 31 * acc) x 0)"

definition demo_envelope :: "8 word \<Rightarrow> share_envelope" where
  "demo_envelope i =
     \<lparr> env_version = 2, env_set_id = 0xDEADBEEF, env_index = i, env_payload = replicate 32 0x5A \<rparr>"

theorem envelope_bytes_roundtrip_witness:
  "envelope_from_bytes demo_sha256 (envelope_to_bytes demo_sha256 (demo_envelope 3)) = Inr (demo_envelope 3)"
proof -
  have sha: "\<forall>x. length (demo_sha256 x) = 32" by (simp add: demo_sha256_def)
  have "wf_envelope (demo_envelope 3)"
    by (simp add: wf_envelope_def demo_envelope_def share_envelope_version_def envelope_payload_len_def)
  then show ?thesis
    using envelope_bytes_roundtrip [OF sha, of "envelope_to_bytes demo_sha256 (demo_envelope 3)" "demo_envelope 3"]
    by blast
qed

lemma split_envelopes:
  assumes "split_secret_into_envelopes secret set_id rng = Inr es" "i < 3"
  shows "\<exists>shares. split_secret secret rng = Inr shares \<and> es ! i = from_share set_id (shares ! i) \<and> wf_envelope (es ! i)"
proof -
  obtain shares where sh: "split_secret secret rng = Inr shares"
      and es: "es = [from_share set_id (shares ! 0), from_share set_id (shares ! 1), from_share set_id (shares ! 2)]"
    using assms(1) by (auto simp: split_secret_into_envelopes_def)
  obtain coeffs where "rng = Inr coeffs" using sh by (cases rng) (simp_all add: split_secret_def)
  then have "shares = map (\<lambda>x. \<lparr> share_index = x, share_data = share_of secret coeffs x \<rparr>) [1, 2, 3]"
    using sh by (simp add: split_secret_eq)
  then have "es ! i = from_share set_id (shares ! i) \<and> wf_envelope (es ! i)"
    using less_3 [OF assms(2)] unfolding es
    by (elim disjE) (simp_all add: from_share_def wf_envelope_def envelope_payload_len_def share_of_def)
  with sh show ?thesis by blast
qed

text \<open>The letters of base32 (RFC 4648).\<close>

definition b32_alphabet :: str where "b32_alphabet = ''ABCDEFGHIJKLMNOPQRSTUVWXYZ234567''"

lemma b32_letters: "c \<in> set b32_alphabet \<Longrightarrow> in_bytes 33 126 c \<and> to_upper c = c"
proof -
  have "list_all (\<lambda>c. in_bytes 33 126 c \<and> to_upper c = c) b32_alphabet" by code_simp
  then show "c \<in> set b32_alphabet \<Longrightarrow> in_bytes 33 126 c \<and> to_upper c = c" by (simp add: list_all_iff)
qed

lemma b32_text:
  assumes "set t \<subseteq> set b32_alphabet"
  shows "printable t" "ascii_uppercase t = t"
proof -
  show "printable t" using assms b32_letters by (auto simp: printable_def list_all_iff)
  show "ascii_uppercase t = t" unfolding ascii_uppercase_def using assms b32_letters by (intro map_idI) blast
qed

text \<open>
  C12: the recovery path. Split a secret into envelopes, write one as a base32 string and another
  as mnemonic words, decode both and combine: the secret comes back, for every pair of different
  shares; and an envelope of a split made under another set id is refused. Of base32 it uses that the
  decoder inverts the encoder, that the text is over the alphabet of RFC 4648 and that only the empty
  input has the empty text.
\<close>

theorem recovery_roundtrip:
  assumes "\<forall>x. length (sha256 x) = 32"
    and "\<forall>x. b32_decode (b32_encode x) = Inr x \<and> set (b32_encode x) \<subseteq> set b32_alphabet \<and> (b32_encode x = [] \<longleftrightarrow> x = [])"
    and "length secret = 32" "split_secret_into_envelopes secret set_id rng = Inr es"
    and "split_secret_into_envelopes secret' set_id' rng' = Inr es'" "set_id \<noteq> set_id'"
    and "i < 3" "j < 3" "i \<noteq> j"
  shows "res_bind (decode_share sha256 b32_decode (encode_share sha256 b32_encode (es ! i))) (\<lambda>a.
         res_bind (decode_share_words sha256 dbg (encode_share_words sha256 (es ! j))) (\<lambda>b.
         combine_envelopes a b)) = Inr secret \<and>
       \<not> is_ok (combine_envelopes (es ! i) (es' ! j))"
proof -
  obtain shares where sh: "split_secret secret rng = Inr shares"
      and i: "es ! i = from_share set_id (shares ! i)" "wf_envelope (es ! i)"
      and j: "es ! j = from_share set_id (shares ! j)" "wf_envelope (es ! j)"
    using split_envelopes [OF assms(4,7)] split_envelopes [OF assms(4,8)] by auto
  have j': "env_set_id (es' ! j) = set_id'"
    using split_envelopes [OF assms(5,8)] by (auto simp: from_share_def)
  have sha: "\<And>x. length (sha256 x) = 32" using assms(1) by blast
  have a: "decode_share sha256 b32_decode (encode_share sha256 b32_encode (es ! i)) = Inr (es ! i)"
  proof -
    let ?bs = "envelope_to_bytes sha256 (es ! i)"
    have "?bs \<noteq> []" using sha i(2) by (simp add: envelope_to_bytes_def envelope_preimage_def)
    then show ?thesis
      using assms(2) [rule_format, of ?bs] b32_text [of "b32_encode ?bs"] envelope_from_to_bytes [OF sha i(2)]
      by (simp add: decode_share_def encode_share_def split_whitespace_word)
  qed
  have b: "decode_share_words sha256 dbg (encode_share_words sha256 (es ! j)) = Inr (es ! j)"
    using envelope_from_to_bytes [OF sha j(2)]
    by (simp add: decode_share_words_def encode_share_words_def words_roundtrip)
  have eta: "\<lparr> share_index = share_index s, share_data = share_data s \<rparr> = s" for s :: shamir_share by simp
  have "combine_envelopes (es ! i) (es ! j) = combine_shares (shares ! i) (shares ! j)"
    by (simp add: combine_envelopes_def i j from_share_def eta)
  also have "\<dots> = Inr secret" by (rule split_any_two [OF assms(3) sh assms(7-9)])
  finally have "combine_envelopes (es ! i) (es ! j) = Inr secret" .
  moreover have "\<not> is_ok (combine_envelopes (es ! i) (es' ! j))"
    using assms(6) j' by (simp add: combine_envelopes_def i from_share_def)
  ultimately show ?thesis by (simp add: a b)
qed

text \<open>Base32 without padding, for the witness: bits most significant first, in groups of five.\<close>

definition byte_bits :: "8 word \<Rightarrow> bool list" where "byte_bits b = map (bit b) (rev [0..<8])"

fun chunks5 :: "bool list \<Rightarrow> bool list list" where
  "chunks5 (a # b # c # d # e # r) = [a, b, c, d, e] # chunks5 r"
| "chunks5 [] = []"
| "chunks5 r = [r @ replicate (5 - length r) False]"

fun chunks8 :: "bool list \<Rightarrow> bool list list" where
  "chunks8 (a # b # c # d # e # f # g # h # r) = [a, b, c, d, e, f, g, h] # chunks8 r"
| "chunks8 r = []"

definition bits_nat :: "bool list \<Rightarrow> nat" where "bits_nat g = horner_sum of_bool 2 (rev g)"

definition letter_bits :: "char \<Rightarrow> bool list" where
  "letter_bits c = map (bit (if 65 \<le> byte c then byte c - 65 else byte c - 24 :: nat)) (rev [0..<5])"

definition b32_encode_std :: "bytes \<Rightarrow> str" where
  "b32_encode_std bs = map (\<lambda>g. b32_alphabet ! bits_nat g) (chunks5 (concat (map byte_bits bs)))"

definition b32_decode_std :: "str \<Rightarrow> str + bytes" where
  "b32_decode_std t =
     (let bs = map (\<lambda>g. horner_sum of_bool 2 (rev g)) (chunks8 (concat (map letter_bits t)))
      in if b32_encode_std bs = t then Inr bs else Inl ''invalid'')"

lemma byte_bits_back: "horner_sum of_bool 2 (rev (byte_bits b)) = b"
  by (simp add: byte_bits_def rev_map horner_sum_bit_eq_take_bit del: upt_Suc upt_rec_numeral) (simp add: take_bit_word_eq_self)

lemma chunks5_groups: "g \<in> set (chunks5 r) \<Longrightarrow> length g = 5"
  by (induction r rule: chunks5.induct) auto

lemma group_letter:
  assumes "length g = 5"
  shows "bits_nat g < length b32_alphabet" "letter_bits (b32_alphabet ! bits_nat g) = g"
proof -
  obtain a b c d e where g: "g = [a, b, c, d, e]" using assms by (auto simp: length_Suc_conv eval_nat_numeral)
  have "list_all (\<lambda>g. bits_nat g < length b32_alphabet \<and> letter_bits (b32_alphabet ! bits_nat g) = g)
      (List.n_lists 5 [True, False])" by code_simp
  moreover have "g \<in> set (List.n_lists 5 [True, False])" using assms by (auto simp: set_n_lists)
  ultimately show "bits_nat g < length b32_alphabet" "letter_bits (b32_alphabet ! bits_nat g) = g" by (auto simp: list_all_iff)
qed

lemma concat_chunks5: "\<exists>p<5. concat (chunks5 r) = r @ replicate p False"
proof (induction r rule: chunks5.induct)
  case (1 a b c d e r)
  then show ?case by auto
next
  case 2
  then show ?case by (intro exI [of _ 0]) simp
next
  case "3_1"
  show ?case by (intro exI [of _ 4]) (simp add: eval_nat_numeral)
next
  case "3_2"
  show ?case by (intro exI [of _ 3]) (simp add: eval_nat_numeral)
next
  case "3_3"
  show ?case by (intro exI [of _ 2]) (simp add: eval_nat_numeral)
next
  case "3_4"
  show ?case by (intro exI [of _ 1]) (simp add: eval_nat_numeral)
qed

lemma chunks8_bytes: "p < 5 \<Longrightarrow> chunks8 (concat (map byte_bits bs) @ replicate p False) = map byte_bits bs"
proof (induction bs)
  case Nil
  then have "p = 0 \<or> p = 1 \<or> p = 2 \<or> p = 3 \<or> p = 4" by auto
  then show ?case by (elim disjE) (simp_all add: eval_nat_numeral)
next
  case (Cons b bs)
  obtain x1 x2 x3 x4 x5 x6 x7 x8 where "byte_bits b = [x1, x2, x3, x4, x5, x6, x7, x8]"
    by (simp add: byte_bits_def upt_rec)
  then show ?case using Cons by simp
qed

lemma base32_laws:
  "b32_decode_std (b32_encode_std x) = Inr x \<and> set (b32_encode_std x) \<subseteq> set b32_alphabet \<and> (b32_encode_std x = [] \<longleftrightarrow> x = [])"
proof (intro conjI)
  let ?gs = "chunks5 (concat (map byte_bits x))"
  have "map (\<lambda>g. letter_bits (b32_alphabet ! bits_nat g)) ?gs = ?gs"
    by (intro map_idI) (simp add: group_letter(2) chunks5_groups)
  then have "concat (map letter_bits (b32_encode_std x)) = concat ?gs"
    by (simp add: b32_encode_std_def comp_def)
  then have "chunks8 (concat (map letter_bits (b32_encode_std x))) = map byte_bits x"
    using concat_chunks5 [of "concat (map byte_bits x)"] chunks8_bytes by metis
  then show "b32_decode_std (b32_encode_std x) = Inr x"
    by (simp add: b32_decode_std_def comp_def byte_bits_back)
  show "set (b32_encode_std x) \<subseteq> set b32_alphabet"
    using group_letter(1) chunks5_groups by (auto simp: b32_encode_std_def)
  show "b32_encode_std x = [] \<longleftrightarrow> x = []"
    by (cases x) (auto simp: b32_encode_std_def byte_bits_def upt_rec)
qed

theorem recovery_roundtrip_witness:
  "\<exists>es es'. split_secret_into_envelopes demo_secret 1 (Inr (replicate 32 5)) = Inr es \<and>
     split_secret_into_envelopes demo_secret 2 (Inr (replicate 32 6)) = Inr es' \<and>
     res_bind (decode_share demo_sha256 b32_decode_std (encode_share demo_sha256 b32_encode_std (es ! 0))) (\<lambda>a.
     res_bind (decode_share_words demo_sha256 id (encode_share_words demo_sha256 (es ! 2))) (\<lambda>b.
     combine_envelopes a b)) = Inr demo_secret \<and>
     \<not> is_ok (combine_envelopes (es ! 0) (es' ! 2))"
proof -
  have sha: "\<forall>x. length (demo_sha256 x) = 32" by (simp add: demo_sha256_def)
  have b32: "\<forall>x. b32_decode_std (b32_encode_std x) = Inr x \<and> set (b32_encode_std x) \<subseteq> set b32_alphabet \<and> (b32_encode_std x = [] \<longleftrightarrow> x = [])"
    using base32_laws by blast
  have len: "length demo_secret = 32" by (simp add: demo_secret_def)
  obtain es where es: "split_secret_into_envelopes demo_secret 1 (Inr (replicate 32 5)) = Inr es"
    by (simp add: split_secret_into_envelopes_def split_secret_def Let_def)
  obtain es' where es': "split_secret_into_envelopes demo_secret 2 (Inr (replicate 32 6)) = Inr es'"
    by (simp add: split_secret_into_envelopes_def split_secret_def Let_def)
  from recovery_roundtrip [OF sha b32 len es es', of 0 2 id] es es' show ?thesis by auto
qed

end
