(* ===== verification/Rate_Limit.thy ===== *)
theory Rate_Limit
  imports Api_Error
begin

text \<open>
  The sliding-window limiters of \<open>crates/custos-core/src/auth/rate_limit.rs\<close> and the limiter set
  built on them in \<open>crates/custos-core/src/rate_limit.rs\<close>. An \<open>Instant\<close> is a natural number of
  nanoseconds since the origin of the monotonic clock and a \<open>Duration\<close> a number of nanoseconds;
  point counts are \<open>u64\<close> values with the saturating additions written out. The mutexes only
  serialize calls, so a limiter is a state passed through.
\<close>

section \<open>Login failures\<close>

definition nanos :: nat where "nanos = 10 ^ 9"

definition rate_limit_window_secs :: nat where "rate_limit_window_secs = 60"
definition rate_limit_max_failures :: nat where "rate_limit_max_failures = 5"

type_synonym attempts = "str \<rightharpoonup> nat list"

definition is_rate_limited :: "nat \<Rightarrow> attempts \<Rightarrow> str \<Rightarrow> attempts \<times> bool" where
  "is_rate_limited now attempts identifier =
     (case attempts identifier of
        Some deque \<Rightarrow>
          let deque' = dropWhile (\<lambda>oldest. rate_limit_window_secs * nanos < now - oldest) deque
          in (attempts(identifier \<mapsto> deque'), rate_limit_max_failures \<le> length deque')
      | None \<Rightarrow> (attempts, False))"

definition record_failure :: "nat \<Rightarrow> attempts \<Rightarrow> str \<Rightarrow> attempts" where
  "record_failure now attempts identifier =
     attempts(identifier \<mapsto> (case attempts identifier of None \<Rightarrow> [] | Some d \<Rightarrow> d) @ [now])"

definition clear_failures :: "attempts \<Rightarrow> str \<Rightarrow> attempts" where
  "clear_failures attempts identifier = attempts(identifier := None)"

section \<open>The multi-window limiter\<close>

definition u64_max :: nat where "u64_max = 2 ^ 64 - 1"

definition sat_add :: "nat \<Rightarrow> nat \<Rightarrow> nat" where "sat_add a b = min u64_max (a + b)"

record window =
  win_len :: nat
  win_max :: nat

record decision =
  dec_allowed :: bool
  dec_limit :: nat
  dec_remaining :: nat
  dec_reset_after_secs :: nat

definition sweep_every :: nat where "sweep_every = 1024"

type_synonym samples = "(nat \<times> nat) list"

record limiter =
  lim_windows :: "window list"
  lim_max_window :: nat
  lim_entries :: "str \<Rightarrow> samples option"
  lim_ops :: nat

definition limiter_new :: "window list \<Rightarrow> limiter" where
  "limiter_new windows =
     (let ws = filter (\<lambda>w. 0 < win_max w) windows
      in \<lparr> lim_windows = ws, lim_max_window = fold max (map win_len ws) 0,
           lim_entries = (\<lambda>_. None), lim_ops = 0 \<rparr>)"

definition prune :: "nat \<Rightarrow> nat \<Rightarrow> samples \<Rightarrow> samples" where
  "prune max_window now deque = dropWhile (\<lambda>(ts, _). max_window < now - ts) deque"

definition sweep :: "nat \<Rightarrow> limiter \<Rightarrow> limiter" where
  "sweep now lim =
     lim\<lparr> lim_entries := (\<lambda>k. case lim_entries lim k of
            None \<Rightarrow> None
          | Some deque \<Rightarrow> (let d = prune (lim_max_window lim) now deque in if d = [] then None else Some d)) \<rparr>"

text \<open>\<open>now.checked_sub(w.window)\<close> and the closure \<open>counts\<close>.\<close>

definition win_counts :: "nat \<Rightarrow> window \<Rightarrow> nat \<Rightarrow> bool" where
  "win_counts now w ts =
     (case (if win_len w \<le> now then Some (now - win_len w) else None) of
        Some c \<Rightarrow> c \<le> ts
      | None \<Rightarrow> True)"

definition reset_secs :: "nat \<Rightarrow> window \<Rightarrow> nat \<Rightarrow> nat" where
  "reset_secs now w ts = (win_len w - (now - ts)) div nanos"

text \<open>The first inner loop: points consumed in the window and the reset of its oldest sample.\<close>

fun scan_window :: "nat \<Rightarrow> window \<Rightarrow> nat \<times> nat \<times> bool \<Rightarrow> samples \<Rightarrow> nat \<times> nat \<times> bool" where
  "scan_window now w acc [] = acc"
| "scan_window now w (consumed, oldest_reset, seen) ((ts, points) # rest) =
     (if win_counts now w ts then
        scan_window now w (sat_add consumed points, (if seen then oldest_reset else reset_secs now w ts), True) rest
      else scan_window now w (consumed, oldest_reset, seen) rest)"

text \<open>The second inner loop: walk until \<open>over_by\<close> points have expired.\<close>

fun retry_walk :: "nat \<Rightarrow> window \<Rightarrow> nat \<Rightarrow> nat \<Rightarrow> nat \<Rightarrow> samples \<Rightarrow> nat" where
  "retry_walk now w over_by freed retry [] = retry"
| "retry_walk now w over_by freed retry ((ts, points) # rest) =
     (if \<not> win_counts now w ts then retry_walk now w over_by freed retry rest
      else
        let retry' = reset_secs now w ts; freed' = sat_add freed points
        in if over_by \<le> freed' then retry' else retry_walk now w over_by freed' retry' rest)"

record eval_state =
  ev_allowed :: bool
  ev_limit :: nat
  ev_remaining :: nat
  ev_reset :: nat
  ev_rejection_reset :: nat

definition eval_window :: "nat \<Rightarrow> nat \<Rightarrow> samples \<Rightarrow> window \<Rightarrow> eval_state \<Rightarrow> eval_state" where
  "eval_window now cost deque w s =
     (case scan_window now w (0, 0, False) deque of
        (consumed, oldest_reset, _) \<Rightarrow>
          let remaining_before = win_max w - consumed;
              over_by = sat_add consumed cost - win_max w;
              s1 = (if 0 < over_by then
                      s\<lparr> ev_allowed := False,
                         ev_rejection_reset :=
                           max (ev_rejection_reset s) (retry_walk now w over_by 0 oldest_reset deque) \<rparr>
                    else s)
          in if remaining_before < ev_remaining s1 \<or>
                (remaining_before = ev_remaining s1 \<and> ev_reset s1 < oldest_reset)
             then s1\<lparr> ev_limit := win_max w, ev_remaining := remaining_before, ev_reset := oldest_reset \<rparr>
             else s1)"

definition eval_windows :: "nat \<Rightarrow> nat \<Rightarrow> samples \<Rightarrow> window list \<Rightarrow> eval_state" where
  "eval_windows now cost deque ws =
     fold (eval_window now cost deque) ws
       \<lparr> ev_allowed = True, ev_limit = u64_max, ev_remaining = u64_max, ev_reset = 0, ev_rejection_reset = 0 \<rparr>"

definition limiter_check :: "limiter \<Rightarrow> str \<Rightarrow> nat \<Rightarrow> nat \<Rightarrow> limiter \<times> decision" where
  "limiter_check lim key cost now =
     (if lim_windows lim = [] then
        (lim, \<lparr> dec_allowed = True, dec_limit = 0, dec_remaining = 0, dec_reset_after_secs = 0 \<rparr>)
      else
        let ops = lim_ops lim + 1;
            lim1 = (if sweep_every \<le> ops then sweep now (lim\<lparr> lim_ops := 0 \<rparr>) else lim\<lparr> lim_ops := ops \<rparr>);
            deque = prune (lim_max_window lim1) now (case lim_entries lim1 key of None \<Rightarrow> [] | Some d \<Rightarrow> d);
            e = eval_windows now cost deque (lim_windows lim1)
        in if ev_allowed e then
             (lim1\<lparr> lim_entries := (lim_entries lim1)(key \<mapsto> deque @ [(now, cost)]) \<rparr>,
              \<lparr> dec_allowed = True, dec_limit = ev_limit e, dec_remaining = ev_remaining e - cost,
                dec_reset_after_secs = ev_reset e \<rparr>)
           else
             let fallback = max (lim_max_window lim1 div nanos) 1;
                 reset = (if ev_rejection_reset e = 0 then fallback else min (ev_rejection_reset e) fallback)
             in (lim1\<lparr> lim_entries := (lim_entries lim1)(key \<mapsto> deque) \<rparr>,
                 \<lparr> dec_allowed = False, dec_limit = ev_limit e, dec_remaining = 0,
                   dec_reset_after_secs = reset \<rparr>))"

section \<open>The limiter set\<close>

definition five_min :: nat where "five_min = 5 * 60 * nanos"
definition one_hour :: nat where "one_hour = 60 * 60 * nanos"
definition one_day :: nat where "one_day = 24 * 60 * 60 * nanos"
definition did_refresh_cooldown :: nat where "did_refresh_cooldown = 60 * nanos"
definition get_repo_full_sweep_at :: nat where "get_repo_full_sweep_at = 10000"

definition write_cost_create :: nat where "write_cost_create = 3"
definition write_cost_update :: nat where "write_cost_update = 2"
definition write_cost_delete :: nat where "write_cost_delete = 1"

definition is_global_exempt :: "str \<Rightarrow> bool" where
  "is_global_exempt path \<longleftrightarrow>
     path \<in> set [''/xrpc/com.atproto.sync.getRepo'', ''/xrpc/com.atproto.sync.subscribeRepos'', ''/xrpc/_health'']"

text \<open>The configuration \<open>RateLimitConfig\<close>: the knobs the limiter set reads.\<close>

record rate_limit_config =
  cfg_enabled :: bool
  cfg_global_ip_per_5min :: nat
  cfg_create_account_per_5min :: nat
  cfg_create_session_per_5min :: nat
  cfg_reset_password_per_5min :: nat
  cfg_update_handle_per_5min :: nat
  cfg_transfer_accept_per_5min :: nat
  cfg_agent_claim_confirm_per_5min :: nat
  cfg_recovery_per_5min :: nat
  cfg_oauth_consent_action_per_5min :: nat
  cfg_waitlist_per_5min :: nat
  cfg_write_points_hourly :: nat
  cfg_write_points_daily :: nat
  cfg_oauth_consent_create_per_5min :: nat
  cfg_space_credential_per_5min :: nat
  cfg_get_repo_full_cooldown_secs :: nat

definition rate_limit_config_default :: rate_limit_config where
  "rate_limit_config_default =
     \<lparr> cfg_enabled = True, cfg_global_ip_per_5min = 3000, cfg_create_account_per_5min = 100,
       cfg_create_session_per_5min = 30, cfg_reset_password_per_5min = 50, cfg_update_handle_per_5min = 10,
       cfg_transfer_accept_per_5min = 30, cfg_agent_claim_confirm_per_5min = 30, cfg_recovery_per_5min = 30,
       cfg_oauth_consent_action_per_5min = 30, cfg_waitlist_per_5min = 30, cfg_write_points_hourly = 5000,
       cfg_write_points_daily = 35000, cfg_oauth_consent_create_per_5min = 30, cfg_space_credential_per_5min = 3000,
       cfg_get_repo_full_cooldown_secs = 3600 \<rparr>"

text \<open>
  The \<open>Arc\<close>-shared per-endpoint limiters: several paths name one limiter instance, so the map
  from paths gives an instance name and the state keeps one limiter per name.
\<close>

datatype endpoint_limiter =
    LimCreateAccount | LimCreateSession | LimResetPassword | LimUpdateHandle | LimTransferAccept
  | LimClaimConfirm | LimRecovery | LimConsentAction | LimWaitlist

definition endpoint_table :: "(str \<times> endpoint_limiter) list" where
  "endpoint_table =
     [(''/xrpc/com.atproto.server.createAccount'', LimCreateAccount),
      (''/v1/accounts'', LimCreateAccount),
      (''/v1/accounts/mobile'', LimCreateAccount),
      (''/xrpc/com.atproto.server.createSession'', LimCreateSession),
      (''/v1/sessions/sovereign'', LimCreateSession),
      (''/xrpc/com.atproto.server.resetPassword'', LimResetPassword),
      (''/xrpc/com.atproto.identity.updateHandle'', LimUpdateHandle),
      (''/v1/transfer/accept'', LimTransferAccept),
      (''/agent/identity/claim/confirm'', LimClaimConfirm),
      (''/v1/agents/claim-preview'', LimClaimConfirm),
      (''/v1/recovery/initiate'', LimRecovery),
      (''/v1/recovery/release'', LimRecovery),
      (''/oauth/authorize/consent-request'', LimConsentAction),
      (''/oauth/authorize/approve'', LimConsentAction),
      (''/waitlist'', LimWaitlist)]"

fun endpoint_max :: "rate_limit_config \<Rightarrow> endpoint_limiter \<Rightarrow> nat" where
  "endpoint_max cfg LimCreateAccount = cfg_create_account_per_5min cfg"
| "endpoint_max cfg LimCreateSession = cfg_create_session_per_5min cfg"
| "endpoint_max cfg LimResetPassword = cfg_reset_password_per_5min cfg"
| "endpoint_max cfg LimUpdateHandle = cfg_update_handle_per_5min cfg"
| "endpoint_max cfg LimTransferAccept = cfg_transfer_accept_per_5min cfg"
| "endpoint_max cfg LimClaimConfirm = cfg_agent_claim_confirm_per_5min cfg"
| "endpoint_max cfg LimRecovery = cfg_recovery_per_5min cfg"
| "endpoint_max cfg LimConsentAction = cfg_oauth_consent_action_per_5min cfg"
| "endpoint_max cfg LimWaitlist = cfg_waitlist_per_5min cfg"

record rate_limiter_state =
  rl_enabled :: bool
  rl_global_ip :: limiter
  rl_endpoints :: "endpoint_limiter \<Rightarrow> limiter"
  rl_write_points :: limiter
  rl_oauth_consent_creation :: limiter
  rl_space_credential :: limiter
  rl_did_refresh :: limiter
  rl_get_repo_full_window :: nat
  rl_get_repo_full :: "((str \<times> str) \<times> str \<times> nat) list"

definition per_5min :: "nat \<Rightarrow> limiter" where
  "per_5min points = limiter_new [\<lparr> win_len = five_min, win_max = points \<rparr>]"

definition rate_limiter_new :: "rate_limit_config \<Rightarrow> rate_limiter_state" where
  "rate_limiter_new cfg =
     \<lparr> rl_enabled = cfg_enabled cfg,
       rl_global_ip = per_5min (cfg_global_ip_per_5min cfg),
       rl_endpoints = (\<lambda>e. per_5min (endpoint_max cfg e)),
       rl_write_points = limiter_new
         [\<lparr> win_len = one_hour, win_max = cfg_write_points_hourly cfg \<rparr>,
          \<lparr> win_len = one_day, win_max = cfg_write_points_daily cfg \<rparr>],
       rl_oauth_consent_creation = per_5min (cfg_oauth_consent_create_per_5min cfg),
       rl_space_credential = per_5min (cfg_space_credential_per_5min cfg),
       rl_did_refresh = limiter_new [\<lparr> win_len = did_refresh_cooldown, win_max = 1 \<rparr>],
       rl_get_repo_full_window = cfg_get_repo_full_cooldown_secs cfg * nanos,
       rl_get_repo_full = [] \<rparr>"

text \<open>The four headers of a 429.\<close>

definition rate_limited_error :: "str \<Rightarrow> decision \<Rightarrow> unit api_error" where
  "rate_limited_error message d =
     api_error_with_header (api_error_with_header (api_error_with_header (api_error_with_header
       (api_error_new RateLimited message)
       ''retry-after'' (nat_str (dec_reset_after_secs d)))
       ''ratelimit-limit'' (nat_str (dec_limit d)))
       ''ratelimit-remaining'' (nat_str (dec_remaining d)))
       ''ratelimit-reset'' (nat_str (dec_reset_after_secs d))"

definition check_get_repo_full ::
  "rate_limiter_state \<Rightarrow> str \<Rightarrow> str \<Rightarrow> str \<Rightarrow> nat \<Rightarrow> rate_limiter_state \<times> (unit api_error + unit)" where
  "check_get_repo_full st ip did root now =
     (let window = rl_get_repo_full_window st
      in if \<not> rl_enabled st \<or> window = 0 then (st, Inr ())
         else
           let key = (ip, did); m = rl_get_repo_full st;
               refused = (case map_of m key of
                            None \<Rightarrow> None
                          | Some (served, at) \<Rightarrow>
                              if served = root \<and> now - at < window
                              then Some (max ((window - (now - at)) div nanos) 1) else None)
           in case refused of
                Some left \<Rightarrow>
                  (st, Inl (rate_limited_error
                     ''this repo has not changed since your last full export; use `since` or retry later''
                     \<lparr> dec_allowed = False, dec_limit = 1, dec_remaining = 0, dec_reset_after_secs = left \<rparr>))
              | None \<Rightarrow>
                  let m1 = (if get_repo_full_sweep_at \<le> length m then
                              (let live = filter (\<lambda>(_, _, at). now - at < window) m
                               in if get_repo_full_sweep_at \<le> length live then [] else live)
                            else m)
                  in (st\<lparr> rl_get_repo_full := (key, root, now) # filter (\<lambda>(k, _). k \<noteq> key) m1 \<rparr>, Inr ()))"

definition check_space_credential ::
  "rate_limiter_state \<Rightarrow> str \<Rightarrow> nat \<Rightarrow> rate_limiter_state \<times> (unit api_error + unit)" where
  "check_space_credential st kid now =
     (if \<not> rl_enabled st then (st, Inr ())
      else case limiter_check (rl_space_credential st) kid 1 now of
        (l, d) \<Rightarrow> (st\<lparr> rl_space_credential := l \<rparr>,
          if dec_allowed d then Inr ()
          else Inl (rate_limited_error ''space credential rate limit exceeded; slow down and retry later'' d)))"

definition allow_did_refresh :: "rate_limiter_state \<Rightarrow> str \<Rightarrow> nat \<Rightarrow> rate_limiter_state \<times> bool" where
  "allow_did_refresh st did now =
     (if \<not> rl_enabled st then (st, True)
      else case limiter_check (rl_did_refresh st) did 1 now of
        (l, d) \<Rightarrow> (st\<lparr> rl_did_refresh := l \<rparr>, dec_allowed d))"

definition check_write_points ::
  "rate_limiter_state \<Rightarrow> str \<Rightarrow> nat \<Rightarrow> nat \<Rightarrow> rate_limiter_state \<times> (unit api_error + unit)" where
  "check_write_points st did cost now =
     (if \<not> rl_enabled st then (st, Inr ())
      else case limiter_check (rl_write_points st) did cost now of
        (l, d) \<Rightarrow> (st\<lparr> rl_write_points := l \<rparr>,
          if dec_allowed d then Inr ()
          else Inl (rate_limited_error ''repo write rate limit exceeded; slow down and retry later'' d)))"

fun consent_loop ::
  "rate_limiter_state \<Rightarrow> nat \<Rightarrow> str list \<Rightarrow> rate_limiter_state \<times> (unit api_error + unit)" where
  "consent_loop st now [] = (st, Inr ())"
| "consent_loop st now (key # keys) =
     (case limiter_check (rl_oauth_consent_creation st) key 1 now of
        (l, d) \<Rightarrow>
          let st1 = st\<lparr> rl_oauth_consent_creation := l \<rparr>
          in if dec_allowed d then consent_loop st1 now keys
             else (st1, Inl (rate_limited_error ''too many authorization requests; slow down and retry later'' d)))"

definition check_oauth_consent_creation ::
  "rate_limiter_state \<Rightarrow> str \<Rightarrow> str \<Rightarrow> nat \<Rightarrow> rate_limiter_state \<times> (unit api_error + unit)" where
  "check_oauth_consent_creation st client_id ip now =
     (if \<not> rl_enabled st then (st, Inr ())
      else consent_loop st now [''ip:'' @ ip, ''client:'' @ client_id])"

text \<open>
  The middleware: the request is either refused by one of the two per-IP limiters, or passed on
  with the decision whose headers ride on the response.
\<close>

datatype middleware_outcome = Refused decision str | Passed "decision option"

definition rate_limit_middleware ::
  "rate_limiter_state \<Rightarrow> str \<Rightarrow> str \<Rightarrow> nat \<Rightarrow> rate_limiter_state \<times> middleware_outcome" where
  "rate_limit_middleware st path ip now =
     (if \<not> rl_enabled st then (st, Passed None)
      else
        case (if is_global_exempt path then (st, None)
              else case limiter_check (rl_global_ip st) ip 1 now of
                (l, d) \<Rightarrow> (st\<lparr> rl_global_ip := l \<rparr>, Some d)) of
          (st1, global) \<Rightarrow>
            if (case global of None \<Rightarrow> False | Some d \<Rightarrow> \<not> dec_allowed d)
            then (st1, Refused (the global) ''global'')
            else case map_of endpoint_table path of
              None \<Rightarrow> (st1, Passed global)
            | Some e \<Rightarrow>
                (case limiter_check (rl_endpoints st1 e) ip 1 now of
                   (l, d) \<Rightarrow>
                     let st2 = st1\<lparr> rl_endpoints := (rl_endpoints st1)(e := l) \<rparr>
                     in if \<not> dec_allowed d then (st2, Refused d ''endpoint'')
                        else (st2, Passed (Some (case global of
                               Some prev \<Rightarrow> if dec_remaining prev \<le> dec_remaining d then prev else d
                             | None \<Rightarrow> d)))))"

end
