(* ===== verification/Rate_Limit_Correct.thy ===== *)
theory Rate_Limit_Correct
  imports Rate_Limit
begin

text \<open>
  Correctness of the limiters: the limiter with its pruning and sweeping decides exactly like a
  reference that keeps every granted request forever (\<open>simulation\<close> of \<open>log_step\<close>), so no key ever
  spends more than the budget of a window in any interval of its length.
\<close>

section \<open>Window arithmetic\<close>

lemma win_counts_iff: "win_counts now w ts \<longleftrightarrow> now \<le> ts + win_len w"
  by (auto simp: win_counts_def)

definition used :: "nat \<Rightarrow> window \<Rightarrow> samples \<Rightarrow> nat" where
  "used now w q = sum_list (map snd (filter (\<lambda>(ts, _). win_counts now w ts) q))"

lemma used_simps [simp]:
  "used now w [] = 0"
  "used now w ((ts, p) # q) = (if win_counts now w ts then p else 0) + used now w q"
  "used now w (q @ r) = used now w q + used now w r"
  by (simp_all add: used_def)

lemma scan_window_used:
  "fst (scan_window now w (c, r, b) q) = (if c \<le> u64_max then min u64_max (c + used now w q) else fst (scan_window now w (c, r, b) q))"
  by (induction now w "(c, r, b)" q arbitrary: c r b rule: scan_window.induct) (auto simp: sat_add_def)

lemma scan_window_fst: "fst (scan_window now w (0, 0, False) q) = min u64_max (used now w q)"
  using scan_window_used [of now w 0 0 False q] by simp

definition fits :: "nat \<Rightarrow> nat \<Rightarrow> samples \<Rightarrow> window \<Rightarrow> bool" where
  "fits now cost q w \<longleftrightarrow> used now w q + cost \<le> win_max w"

lemma eval_window_allowed:
  assumes "win_max w < u64_max"
  shows "ev_allowed (eval_window now cost q w s) \<longleftrightarrow> ev_allowed s \<and> fits now cost q w"
proof -
  obtain c r b where scan: "scan_window now w (0, 0, False) q = (c, r, b)" by (cases "scan_window now w (0, 0, False) q")
  then have "c = min u64_max (used now w q)" using scan_window_fst [of now w q] by simp
  then have "0 < sat_add c cost - win_max w \<longleftrightarrow> \<not> fits now cost q w"
    using assms by (auto simp: fits_def sat_add_def)
  then show ?thesis by (simp add: eval_window_def scan Let_def)
qed

lemma eval_windows_allowed:
  assumes "\<forall>w\<in>set ws. win_max w < u64_max"
  shows "ev_allowed (eval_windows now cost q ws) \<longleftrightarrow> (\<forall>w\<in>set ws. fits now cost q w)"
proof -
  have "ev_allowed (fold (eval_window now cost q) ws s) \<longleftrightarrow> ev_allowed s \<and> (\<forall>w\<in>set ws. fits now cost q w)" for s
    using assms by (induction ws arbitrary: s) (auto simp: eval_window_allowed)
  then show ?thesis by (simp add: eval_windows_def)
qed

lemma fold_max_ge: "(x :: nat) \<le> fold max xs a" if "x \<in> set xs \<or> x \<le> a"
  using that by (induction xs arbitrary: a) (auto simp: le_max_iff_disj)

lemma limiter_new_max: "w \<in> set (lim_windows (limiter_new ws)) \<Longrightarrow> win_len w \<le> lim_max_window (limiter_new ws)"
  by (auto simp: limiter_new_def Let_def intro!: fold_max_ge)

section \<open>The reference: a log of all granted requests\<close>

definition recent :: "nat \<Rightarrow> nat \<Rightarrow> nat \<times> nat \<Rightarrow> bool" where
  "recent m now s \<longleftrightarrow> now - fst s \<le> m"

lemma prune_recent: "filter (recent m now) (prune m now q) = filter (recent m now) q"
  by (induction q) (auto simp: prune_def recent_def)

lemma recent_later: "now \<le> later \<Longrightarrow> recent m later s \<Longrightarrow> recent m now s"
  by (auto simp: recent_def)

lemma filter_recent_later:
  "now \<le> later \<Longrightarrow> filter (recent m now) q = filter (recent m now) r \<Longrightarrow>
   filter (recent m later) q = filter (recent m later) r"
proof -
  assume le: "now \<le> later" and eq: "filter (recent m now) q = filter (recent m now) r"
  have "filter (recent m later) x = filter (recent m later) (filter (recent m now) x)" for x
    using recent_later [OF le] by (auto intro: filter_cong)
  with eq show ?thesis by metis
qed

lemma used_recent:
  assumes "win_len w \<le> m"
  shows "used now w (filter (recent m now) q) = used now w q"
  using assms by (induction q) (auto simp: recent_def win_counts_iff)

lemma fits_recent:
  assumes "win_len w \<le> m" "filter (recent m now) q = filter (recent m now) r"
  shows "fits now cost q w \<longleftrightarrow> fits now cost r w"
  using used_recent [OF assms(1)] assms(2) by (metis fits_def)

type_synonym request = "str \<times> nat \<times> nat"
type_synonym log = "(str \<Rightarrow> samples) \<times> nat"

definition log_step :: "window list \<Rightarrow> log \<Rightarrow> request \<Rightarrow> log \<times> bool" where
  "log_step ws st req =
     (case (st, req) of
        ((log, latest), (key, cost, now)) \<Rightarrow>
          if (\<forall>w\<in>set ws. 0 < win_max w \<longrightarrow> fits now cost (log key) w)
          then ((log(key := log key @ [(now, cost)]), now), True)
          else ((log, now), False))"

definition limiter_step :: "limiter \<Rightarrow> request \<Rightarrow> limiter \<times> bool" where
  "limiter_step lim req =
     (case req of (key, cost, now) \<Rightarrow>
        (case limiter_check lim key cost now of (l, d) \<Rightarrow> (l, dec_allowed d)))"

definition in_order :: "log \<Rightarrow> request \<Rightarrow> bool" where
  "in_order st req \<longleftrightarrow> snd st \<le> snd (snd req)"

definition entry :: "limiter \<Rightarrow> str \<Rightarrow> samples" where
  "entry lim k = (case lim_entries lim k of None \<Rightarrow> [] | Some d \<Rightarrow> d)"

definition limiter_rel :: "window list \<Rightarrow> limiter \<Rightarrow> log \<Rightarrow> bool" where
  "limiter_rel ws lim st \<longleftrightarrow>
     lim_windows lim = filter (\<lambda>w. 0 < win_max w) ws \<and>
     lim_max_window lim = lim_max_window (limiter_new ws) \<and>
     (lim_windows lim \<noteq> [] \<longrightarrow>
        (\<forall>k. filter (recent (lim_max_window lim) (snd st)) (entry lim k) =
             filter (recent (lim_max_window lim) (snd st)) (fst st k)))"

lemma entry_sweep:
  "entry (sweep now lim) k = prune (lim_max_window lim) now (entry lim k)"
proof (cases "lim_entries lim k")
  case None
  then show ?thesis by (simp add: entry_def sweep_def prune_def)
next
  case (Some d)
  then show ?thesis by (cases "prune (lim_max_window lim) now d = []") (simp_all add: entry_def sweep_def)
qed

lemma limiter_check_entry:
  fixes lim key cost now
  defines "lim1 \<equiv> (if sweep_every \<le> lim_ops lim + 1 then sweep now (lim\<lparr> lim_ops := 0 \<rparr>) else lim\<lparr> lim_ops := lim_ops lim + 1 \<rparr>)"
  defines "q \<equiv> prune (lim_max_window lim) now (entry lim1 key)"
  assumes "lim_windows lim \<noteq> []"
  shows "dec_allowed (snd (limiter_check lim key cost now)) = ev_allowed (eval_windows now cost q (lim_windows lim))"
    "entry (fst (limiter_check lim key cost now)) k =
       (if k = key then
          (if ev_allowed (eval_windows now cost q (lim_windows lim)) then q @ [(now, cost)] else q)
        else entry lim1 k)"
    "lim_windows (fst (limiter_check lim key cost now)) = lim_windows lim"
    "lim_max_window (fst (limiter_check lim key cost now)) = lim_max_window lim"
proof -
  have same: "lim_windows lim1 = lim_windows lim" "lim_max_window lim1 = lim_max_window lim"
    by (simp_all add: lim1_def sweep_def)
  have check: "limiter_check lim key cost now =
      (let e = eval_windows now cost q (lim_windows lim)
       in if ev_allowed e then
            (lim1\<lparr> lim_entries := (lim_entries lim1)(key \<mapsto> q @ [(now, cost)]) \<rparr>,
             \<lparr> dec_allowed = True, dec_limit = ev_limit e, dec_remaining = ev_remaining e - cost,
               dec_reset_after_secs = ev_reset e \<rparr>)
          else
            let fallback = max (lim_max_window lim div nanos) 1;
                reset = (if ev_rejection_reset e = 0 then fallback else min (ev_rejection_reset e) fallback)
            in (lim1\<lparr> lim_entries := (lim_entries lim1)(key \<mapsto> q) \<rparr>,
                \<lparr> dec_allowed = False, dec_limit = ev_limit e, dec_remaining = 0, dec_reset_after_secs = reset \<rparr>))"
    using assms(3) same unfolding limiter_check_def Let_def lim1_def [symmetric] q_def entry_def [symmetric] by simp
  show "dec_allowed (snd (limiter_check lim key cost now)) = ev_allowed (eval_windows now cost q (lim_windows lim))"
    "entry (fst (limiter_check lim key cost now)) k =
       (if k = key then
          (if ev_allowed (eval_windows now cost q (lim_windows lim)) then q @ [(now, cost)] else q)
        else entry lim1 k)"
    "lim_windows (fst (limiter_check lim key cost now)) = lim_windows lim"
    "lim_max_window (fst (limiter_check lim key cost now)) = lim_max_window lim"
    by (simp_all add: check Let_def entry_def same)
qed

definition wf_windows :: "window list \<Rightarrow> bool" where
  "wf_windows ws = list_all (\<lambda>w. win_max w < u64_max) ws"

lemma limiter_step_sim:
  assumes wf: "wf_windows ws" and rel: "limiter_rel ws lim st" and ord: "in_order st req"
  shows "limiter_rel ws (fst (limiter_step lim req)) (fst (log_step ws st req)) \<and>
     snd (limiter_step lim req) = snd (log_step ws st req)"
proof -
  obtain key cost now where req: "req = (key, cost, now)" by (cases req)
  obtain log latest where st: "st = (log, latest)" by (cases st)
  have le: "latest \<le> now" using ord by (simp add: in_order_def req st)
  let ?m = "lim_max_window lim"
  have wins: "lim_windows lim = filter (\<lambda>w. 0 < win_max w) ws" and mx: "?m = lim_max_window (limiter_new ws)"
    using rel by (simp_all add: limiter_rel_def)
  show ?thesis
  proof (cases "lim_windows lim = []")
    case True
    then have "\<forall>w\<in>set ws. \<not> 0 < win_max w" using wins by (auto simp: filter_empty_conv)
    then show ?thesis
      using True rel by (auto simp: limiter_step_def req limiter_check_def log_step_def st limiter_rel_def)
  next
    case False
    define lim1 where "lim1 = (if sweep_every \<le> lim_ops lim + 1 then sweep now (lim\<lparr> lim_ops := 0 \<rparr>)
        else lim\<lparr> lim_ops := lim_ops lim + 1 \<rparr>)"
    define q where "q = prune ?m now (entry lim1 key)"
    note chk = limiter_check_entry [where key = key and cost = cost and now = now, OF False, folded lim1_def, folded q_def]
    have rec: "filter (recent ?m now) (entry lim k) = filter (recent ?m now) (log k)" for k
    proof (rule filter_recent_later [OF le])
      show "filter (recent ?m latest) (entry lim k) = filter (recent ?m latest) (log k)"
        using rel False unfolding limiter_rel_def st fst_conv snd_conv by blast
    qed
    have rec1: "filter (recent ?m now) (entry lim1 k) = filter (recent ?m now) (log k)" for k
    proof -
      have "entry lim1 k = (if sweep_every \<le> lim_ops lim + 1 then prune ?m now (entry lim k) else entry lim k)"
        by (simp add: lim1_def entry_sweep) (simp add: entry_def)
      then show ?thesis using rec [of k] by (simp add: prune_recent)
    qed
    have recq: "filter (recent ?m now) q = filter (recent ?m now) (log key)"
      by (simp add: q_def prune_recent rec1)
    have len: "win_len w \<le> ?m" if "w \<in> set (lim_windows lim)" for w
      using limiter_new_max [of w ws] that mx wins by (simp add: limiter_new_def Let_def)
    have "ev_allowed (eval_windows now cost q (lim_windows lim)) \<longleftrightarrow> (\<forall>w\<in>set (lim_windows lim). fits now cost q w)"
      using wf wins by (intro eval_windows_allowed) (auto simp: wf_windows_def list_all_iff)
    also have "\<dots> \<longleftrightarrow> (\<forall>w\<in>set (lim_windows lim). fits now cost (log key) w)"
      using fits_recent [OF len recq] by blast
    also have "\<dots> \<longleftrightarrow> (\<forall>w\<in>set ws. 0 < win_max w \<longrightarrow> fits now cost (log key) w)"
      using wins by auto
    finally have allowed: "ev_allowed (eval_windows now cost q (lim_windows lim)) \<longleftrightarrow>
        (\<forall>w\<in>set ws. 0 < win_max w \<longrightarrow> fits now cost (log key) w)" .
    have lstep: "limiter_step lim req = (fst (limiter_check lim key cost now), dec_allowed (snd (limiter_check lim key cost now)))"
      by (simp add: limiter_step_def req case_prod_beta)
    have "limiter_rel ws (fst (limiter_check lim key cost now)) (fst (log_step ws st req))"
      unfolding limiter_rel_def chk(3,4)
      using wins mx rec1 recq chk(2) allowed by (auto simp: log_step_def st req)
    then show ?thesis
      unfolding lstep using chk(1) allowed by (auto simp: log_step_def st req)
  qed
qed

interpretation limiter: simulation limiter_step "log_step ws" "\<lambda>lim st. wf_windows ws \<and> limiter_rel ws lim st" in_order
  for ws
  by unfold_locales (use limiter_step_sim in auto)

end
