(* ===== verification/Rate_Limit_Budget.thy ===== *)
theory Rate_Limit_Budget
  imports Rate_Limit_Correct
begin

text \<open>
  What the limiters promise their callers: a budget per key and window, a usable \<open>Retry-After\<close>,
  one budget for all the paths that share a limiter, the login lockout and the full-export
  cooldown.
\<close>

section \<open>The budget of the reference log\<close>

definition spent :: "nat \<Rightarrow> nat \<Rightarrow> samples \<Rightarrow> nat" where
  "spent lo len q = sum_list (map snd (filter (\<lambda>(ts, _). lo \<le> ts \<and> ts \<le> lo + len) q))"

lemma spent_simps [simp]:
  "spent lo len [] = 0"
  "spent lo len ((ts, p) # q) = (if lo \<le> ts \<and> ts \<le> lo + len then p else 0) + spent lo len q"
  "spent lo len (q @ r) = spent lo len q + spent lo len r"
  by (simp_all add: spent_def)

lemma spent_le_used: "now \<le> lo + win_len w \<Longrightarrow> spent lo (win_len w) q \<le> used now w q"
  by (induction q) (auto simp: win_counts_iff)

definition log_ok :: "window list \<Rightarrow> log \<Rightarrow> bool" where
  "log_ok ws st \<longleftrightarrow>
     (\<forall>w\<in>set ws. 0 < win_max w \<longrightarrow> (\<forall>k lo. spent lo (win_len w) (fst st k) \<le> win_max w))"

lemma log_ok_append:
  assumes ok: "log_ok ws (log, latest)" and fits: "\<forall>w\<in>set ws. 0 < win_max w \<longrightarrow> fits now cost (log key) w"
  shows "log_ok ws (log(key := log key @ [(now, cost)]), now)"
proof -
  have "spent lo (win_len w) (log key @ [(now, cost)]) \<le> win_max w"
    if "w \<in> set ws" "0 < win_max w" for w lo
  proof (cases "lo \<le> now \<and> now \<le> lo + win_len w")
    case True
    then show ?thesis
      using fits that spent_le_used [of now lo w "log key"] by (fastforce simp: fits_def)
  next
    case False
    then show ?thesis using ok that by (auto simp: log_ok_def)
  qed
  then show ?thesis using ok by (simp add: log_ok_def)
qed

lemma log_step_ok: "log_ok ws st \<Longrightarrow> log_ok ws (fst (log_step ws st req))"
proof -
  assume ok: "log_ok ws st"
  obtain key cost now where req: "req = (key, cost, now)" by (cases req)
  obtain log latest where st: "st = (log, latest)" by (cases st)
  show ?thesis
  proof (cases "\<forall>w\<in>set ws. 0 < win_max w \<longrightarrow> fits now cost (log key) w")
    case True
    then show ?thesis using log_ok_append ok by (simp add: log_step_def req st)
  next
    case False
    then show ?thesis using ok by (simp add: log_step_def req st log_ok_def del: ball_simps)
  qed
qed

text \<open>The requests of one key that a run granted, with their times and costs.\<close>

fun granted :: "str \<Rightarrow> request list \<Rightarrow> bool list \<Rightarrow> samples" where
  "granted key ((k, cost, now) # reqs) (allowed # outs) =
     (if allowed \<and> k = key then [(now, cost)] else []) @ granted key reqs outs"
| "granted key _ _ = []"

lemma log_run_granted:
  "fst (fst (run (log_step ws) st reqs)) key = fst st key @ granted key reqs (snd (run (log_step ws) st reqs))"
proof (induction reqs arbitrary: st)
  case Nil
  then show ?case by simp
next
  case (Cons req reqs)
  obtain k cost now where req: "req = (k, cost, now)" by (cases req)
  obtain st1 out where s: "log_step ws st req = (st1, out)" by (cases "log_step ws st req")
  have "fst st1 key = fst st key @ (if out \<and> k = key then [(now, cost)] else [])"
    using s by (auto simp: log_step_def req split: prod.splits if_splits)
  then show ?case using Cons.IH [of st1] s by (simp add: req case_prod_beta)
qed

lemma log_run_ok: "log_ok ws st \<Longrightarrow> log_ok ws (fst (run (log_step ws) st reqs))"
proof (induction reqs arbitrary: st)
  case Nil
  then show ?case by simp
next
  case (Cons req reqs)
  then show ?case using log_step_ok [of ws st req] by (simp add: case_prod_beta)
qed

definition empty_log :: log where "empty_log = (\<lambda>_. [], 0)"

lemma empty_log_ok [simp]: "log_ok ws empty_log"
  by (simp add: empty_log_def log_ok_def)

lemma limiter_rel_new [simp]: "limiter_rel ws (limiter_new ws) empty_log"
  by (simp add: limiter_rel_def limiter_new_def Let_def entry_def empty_log_def)

definition time_of :: "'a \<times> 'b \<times> nat \<Rightarrow> nat" where "time_of req = snd (snd req)"

lemma guarded_sorted:
  "sorted (snd st # map time_of reqs) \<Longrightarrow> limiter.guarded ws st reqs"
proof (induction reqs arbitrary: st)
  case Nil
  then show ?case by (simp add: limiter.guarded.simps)
next
  case (Cons req reqs)
  have "snd (fst (log_step ws st req)) = time_of req"
    by (auto simp: log_step_def time_of_def split: prod.splits)
  moreover have "in_order st req" using Cons.prems by (simp add: in_order_def time_of_def)
  moreover have "sorted (time_of req # map time_of reqs)" using Cons.prems by simp
  ultimately show ?case using Cons.IH [of "fst (log_step ws st req)"] by (simp add: limiter.guarded.simps)
qed

lemma limiter_runs_as_log:
  assumes "wf_windows ws" "sorted (map time_of reqs)"
  shows "snd (run limiter_step (limiter_new ws) reqs) = snd (run (log_step ws) empty_log reqs)"
proof -
  have "limiter.guarded ws empty_log reqs"
    using assms(2) by (intro guarded_sorted) (simp add: empty_log_def)
  then show ?thesis
    using assms(1) limiter.run_simulates [of ws "limiter_new ws" empty_log reqs] by simp
qed

text \<open>
  C8: the limiter with its pruned deques and its periodic sweep of the whole map takes exactly the
  decisions of a reference that never forgets a granted request, for every sequence of requests
  of any keys and costs whose times do not go back.
\<close>

theorem limiter_refines_log:
  assumes "wf_windows ws" "sorted (map time_of reqs)"
  shows "snd (run limiter_step (limiter_new ws) reqs) = snd (run (log_step ws) empty_log reqs)"
  using assms by (rule limiter_runs_as_log)

theorem limiter_refines_log_witness:
  "snd (run limiter_step (limiter_new [\<lparr> win_len = 10, win_max = 3 \<rparr>]) [(''a'', 2, 0), (''a'', 2, 5), (''a'', 1, 6), (''a'', 2, 11)]) =
   [True, False, True, True]"
  by (subst limiter_refines_log)
    (simp_all add: wf_windows_def u64_max_def time_of_def log_step_def empty_log_def fits_def used_def win_counts_def)

text \<open>
  C9: a budget is never overspent: in any interval of the length of a window, the requests of one
  key that the limiter granted cost at most the window's maximum together.
\<close>

theorem budget_never_overspent:
  assumes "wf_windows ws" "sorted (map time_of reqs)" "w \<in> set ws" "0 < win_max w"
  shows "spent lo (win_len w) (granted key reqs (snd (run limiter_step (limiter_new ws) reqs))) \<le> win_max w"
proof -
  have "log_ok ws (fst (run (log_step ws) empty_log reqs))"
    by (simp add: log_run_ok)
  then have "spent lo (win_len w) (fst (fst (run (log_step ws) empty_log reqs)) key) \<le> win_max w"
    using assms(3,4) by (simp add: log_ok_def)
  then show ?thesis
    using limiter_runs_as_log [OF assms(1,2)] by (simp add: log_run_granted empty_log_def)
qed

theorem budget_never_overspent_witness:
  "spent 1 10 (granted ''a'' [(''a'', 2, 0), (''a'', 1, 6)]
     (snd (run limiter_step (limiter_new [\<lparr> win_len = 10, win_max = 3 \<rparr>]) [(''a'', 2, 0), (''a'', 1, 6)]))) \<le> 3"
  using budget_never_overspent [of "[\<lparr> win_len = 10, win_max = 3 \<rparr>]" "[(''a'', 2, 0), (''a'', 1, 6)]"
      "\<lparr> win_len = 10, win_max = 3 \<rparr>" 1 "''a''"]
  by (simp add: wf_windows_def u64_max_def time_of_def)

section \<open>Retry-After\<close>

text \<open>
  A rejection names a wait: \<open>Retry-After\<close> is at least one second and at most the longest
  window (one second if that is shorter), no budget is reported left, and the rejected request
  itself is not charged.
\<close>

theorem rejection_names_a_wait:
  assumes "limiter_check lim key cost now = (lim', d)" "\<not> dec_allowed d"
  shows "1 \<le> dec_reset_after_secs d \<and> dec_reset_after_secs d \<le> max (lim_max_window lim div nanos) 1 \<and>
    dec_remaining d = 0 \<and> set (entry lim' key) \<subseteq> set (entry lim key)"
proof (cases "lim_windows lim = []")
  case True
  then show ?thesis using assms by (auto simp: limiter_check_def)
next
  case False
  define lim1 where "lim1 = (if sweep_every \<le> lim_ops lim + 1 then sweep now (lim\<lparr> lim_ops := 0 \<rparr>)
    else lim\<lparr> lim_ops := lim_ops lim + 1 \<rparr>)"
  have mx: "lim_max_window lim1 = lim_max_window lim" by (simp add: lim1_def sweep_def)
  have "entry (lim\<lparr> lim_ops := n \<rparr>) key = entry lim key" for n by (simp add: entry_def)
  then have "set (entry lim1 key) \<subseteq> set (entry lim key)"
    by (auto simp: lim1_def entry_sweep prune_def dest: set_dropWhileD)
  moreover have "entry lim' key = prune (lim_max_window lim) now (entry lim1 key)"
    using limiter_check_entry(1,2) [OF False, of key cost now] assms
    by (auto simp: lim1_def split: if_splits)
  ultimately have sub: "set (entry lim' key) \<subseteq> set (entry lim key)"
    by (auto simp: prune_def dest: set_dropWhileD)
  have "1 \<le> dec_reset_after_secs d \<and> dec_reset_after_secs d \<le> max (lim_max_window lim div nanos) 1 \<and> dec_remaining d = 0"
    using assms False unfolding limiter_check_def lim1_def [symmetric] Let_def
    by (auto simp: mx split: if_splits)
  then show ?thesis using sub by blast
qed

definition one_entry :: "window \<Rightarrow> str \<Rightarrow> nat \<Rightarrow> nat \<Rightarrow> limiter" where
  "one_entry w key t0 n =
     \<lparr> lim_windows = [w], lim_max_window = win_len w, lim_entries = [key \<mapsto> [(t0, 1)]], lim_ops = n \<rparr>"

lemma first_check:
  "win_max w = 1 \<Longrightarrow> fst (limiter_check (limiter_new [w]) key 1 t0) = one_entry w key t0 1"
  by (simp add: limiter_check_def limiter_new_def Let_def sweep_every_def prune_def eval_windows_def
      eval_window_def sat_add_def u64_max_def one_entry_def)

lemma second_check_early:
  assumes "win_max w = 1" "win_len w = s * nanos" "0 < s" "0 < r" "r < nanos"
  shows "limiter_check (one_entry w key t0 1) key 1 (t0 + s * nanos - r) =
    (one_entry w key t0 2, \<lparr> dec_allowed = False, dec_limit = 1, dec_remaining = 0, dec_reset_after_secs = s \<rparr>)"
proof -
  let ?now = "t0 + s * nanos - r"
  have "nanos \<le> s * nanos" using assms(3) by (cases s) auto
  then have r: "r < s * nanos" using assms(5) by linarith
  have now: "?now - t0 = s * nanos - r" "s * nanos - (?now - t0) = r" "?now \<le> t0 + s * nanos" using r by auto
  have counts: "win_counts ?now w t0" using r assms by (simp add: win_counts_iff)
  have reset: "reset_secs ?now w t0 = 0" using now assms by (simp add: reset_secs_def)
  have keep: "prune (win_len w) ?now [(t0, 1)] = [(t0, 1)]" using now(1) assms(2) by (simp add: prune_def)
  have "eval_windows ?now 1 [(t0, 1)] [w] = \<lparr> ev_allowed = False, ev_limit = 1, ev_remaining = 0, ev_reset = 0, ev_rejection_reset = 0 \<rparr>"
    by (simp add: eval_windows_def eval_window_def counts reset Let_def assms(1) sat_add_def u64_max_def)
  moreover have "s * nanos div nanos = s" by (simp add: nanos_def)
  ultimately show ?thesis
    using assms(2,3) keep by (simp add: limiter_check_def one_entry_def sweep_every_def Let_def)
qed

theorem rejection_names_a_wait_witness:
  "1 \<le> dec_reset_after_secs (snd (limiter_check (one_entry \<lparr> win_len = 300 * nanos, win_max = 1 \<rparr> ''ip'' 0 1) ''ip'' 1
      (0 + 300 * nanos - 1)))"
proof -
  let ?w = "\<lparr> win_len = 300 * nanos, win_max = 1 \<rparr>"
  have check: "limiter_check (one_entry ?w ''ip'' 0 1) ''ip'' 1 (0 + 300 * nanos - 1) =
      (one_entry ?w ''ip'' 0 2, \<lparr> dec_allowed = False, dec_limit = 1, dec_remaining = 0, dec_reset_after_secs = 300 \<rparr>)"
    by (rule second_check_early) (simp_all add: nanos_def)
  show ?thesis unfolding check using rejection_names_a_wait [OF check] by simp
qed

lemma second_check_late:
  assumes "win_max w = 1"
  shows "dec_allowed (snd (limiter_check (one_entry w key t0 2) key 1 (t0 + win_len w + 1)))"
  using assms
  by (simp add: limiter_check_def one_entry_def sweep_every_def Let_def prune_def eval_windows_def
      eval_window_def sat_add_def u64_max_def)

text \<open>
  Within the last second before the blocking sample expires the wait is rounded down to zero,
  which the code takes for ``never'': it reports the whole window, although the same request is
  granted as soon as that fraction of a second has passed.
\<close>

theorem retry_after_overstated:
  assumes "0 < s" "0 < r" "r < nanos"
  shows "let w = \<lparr> win_len = s * nanos, win_max = 1 \<rparr>;
             lim1 = fst (limiter_check (limiter_new [w]) key 1 t0);
             refused = limiter_check lim1 key 1 (t0 + s * nanos - r);
             later = limiter_check (fst refused) key 1 (t0 + s * nanos + 1)
         in snd refused = \<lparr> dec_allowed = False, dec_limit = 1, dec_remaining = 0, dec_reset_after_secs = s \<rparr> \<and>
            dec_allowed (snd later)"
  using second_check_early [of "\<lparr> win_len = s * nanos, win_max = 1 \<rparr>" s r key t0] assms
    second_check_late [of "\<lparr> win_len = s * nanos, win_max = 1 \<rparr>" key t0]
  by (simp add: Let_def first_check del: One_nat_def)

theorem retry_after_overstated_witness:
  "dec_reset_after_secs (snd (limiter_check
     (fst (limiter_check (limiter_new [\<lparr> win_len = 300 * nanos, win_max = 1 \<rparr>]) ''ip'' 1 0)) ''ip'' 1
     (0 + 300 * nanos - 1))) = 300"
  using retry_after_overstated [of 300 1 "''ip''" 0] by (simp add: Let_def nanos_def)

section \<open>One budget for the paths that share a limiter\<close>

type_synonym http_request = "str \<times> str \<times> nat"

definition mw_step :: "rate_limiter_state \<Rightarrow> http_request \<Rightarrow> rate_limiter_state \<times> middleware_outcome" where
  "mw_step st req = (case req of (path, ip, now) \<Rightarrow> rate_limit_middleware st path ip now)"

definition is_passed :: "middleware_outcome \<Rightarrow> bool" where
  "is_passed outcome = (case outcome of Passed _ \<Rightarrow> True | Refused _ _ \<Rightarrow> False)"

lemma is_passed_simps [simp]: "is_passed (Passed d)" "\<not> is_passed (Refused dec s)"
  by (simp_all add: is_passed_def)

definition globally_refused :: "rate_limiter_state \<Rightarrow> str \<Rightarrow> str \<Rightarrow> nat \<Rightarrow> bool" where
  "globally_refused st path ip now \<longleftrightarrow>
     \<not> is_global_exempt path \<and> \<not> dec_allowed (snd (limiter_check (rl_global_ip st) ip 1 now))"

lemma middleware_enabled: "rl_enabled (fst (rate_limit_middleware st path ip now)) = rl_enabled st"
  by (simp add: rate_limit_middleware_def Let_def case_prod_beta split: option.splits)

lemma middleware_endpoint:
  assumes "rl_enabled st"
  shows "rl_endpoints (fst (rate_limit_middleware st path ip now)) e =
      (if \<not> globally_refused st path ip now \<and> map_of endpoint_table path = Some e
       then fst (limiter_check (rl_endpoints st e) ip 1 now) else rl_endpoints st e)"
  using assms
  by (auto simp: rate_limit_middleware_def globally_refused_def Let_def case_prod_beta split: option.splits)

lemma middleware_passed:
  assumes "rl_enabled st"
  shows "is_passed (snd (rate_limit_middleware st path ip now)) \<longleftrightarrow>
      \<not> globally_refused st path ip now \<and>
      (\<forall>e. map_of endpoint_table path = Some e \<longrightarrow> dec_allowed (snd (limiter_check (rl_endpoints st e) ip 1 now)))"
  using assms
  by (auto simp: rate_limit_middleware_def globally_refused_def Let_def case_prod_beta split: option.splits)

text \<open>The requests of one address that passed on any path of one endpoint limiter.\<close>

fun passed_on :: "endpoint_limiter \<Rightarrow> str \<Rightarrow> http_request list \<Rightarrow> middleware_outcome list \<Rightarrow> samples" where
  "passed_on e ip ((path, ip', now) # reqs) (out # outs) =
     (if map_of endpoint_table path = Some e \<and> ip' = ip \<and> is_passed out then [(now, 1)] else [])
       @ passed_on e ip reqs outs"
| "passed_on e ip _ _ = []"

lemma limiter_rel_later:
  "limiter_rel ws lim (log, latest) \<Longrightarrow> latest \<le> now \<Longrightarrow> limiter_rel ws lim (log, now)"
  using filter_recent_later unfolding limiter_rel_def fst_conv snd_conv by blast

lemma middleware_step_log:
  assumes wf: "wf_windows ws" and on: "rl_enabled st" and rel: "limiter_rel ws (rl_endpoints st e) (log, latest)"
    and ok: "log_ok ws (log, latest)" and le: "latest \<le> now"
  obtains log1 where "limiter_rel ws (rl_endpoints (fst (mw_step st (path, ip', now))) e) (log1, now)"
    "log_ok ws (log1, now)"
    "log1 ip = log ip @ passed_on e ip [(path, ip', now)] [snd (mw_step st (path, ip', now))]"
proof (cases "\<not> globally_refused st path ip' now \<and> map_of endpoint_table path = Some e")
  case False
  show thesis
  proof (rule that [of log])
    show "limiter_rel ws (rl_endpoints (fst (mw_step st (path, ip', now))) e) (log, now)"
      using limiter_rel_later [OF rel le] False by (auto simp: mw_step_def middleware_endpoint [OF on])
    show "log_ok ws (log, now)" using ok by (simp add: log_ok_def)
    show "log ip = log ip @ passed_on e ip [(path, ip', now)] [snd (mw_step st (path, ip', now))]"
      using False by (auto simp: mw_step_def middleware_passed [OF on])
  qed
next
  case True
  let ?req = "(ip', 1 :: nat, now)"
  define log1 where "log1 = fst (fst (log_step ws (log, latest) ?req))"
  then have log1: "fst (log_step ws (log, latest) ?req) = (log1, now)"
    by (simp add: log_step_def)
  have sim: "limiter_rel ws (fst (limiter_step (rl_endpoints st e) ?req)) (log1, now)"
    "snd (limiter_step (rl_endpoints st e) ?req) = snd (log_step ws (log, latest) ?req)"
    using limiter_step_sim [OF wf rel, of ?req] le log1 by (auto simp: in_order_def)
  have step: "fst (limiter_step (rl_endpoints st e) ?req) = fst (limiter_check (rl_endpoints st e) ip' 1 now)"
    "snd (limiter_step (rl_endpoints st e) ?req) = dec_allowed (snd (limiter_check (rl_endpoints st e) ip' 1 now))"
    by (simp_all add: limiter_step_def case_prod_beta)
  have passed: "is_passed (snd (mw_step st (path, ip', now))) \<longleftrightarrow> snd (log_step ws (log, latest) ?req)"
    using True step(2) sim(2) by (simp add: mw_step_def middleware_passed [OF on])
  show thesis
  proof (rule that [of log1])
    show "limiter_rel ws (rl_endpoints (fst (mw_step st (path, ip', now))) e) (log1, now)"
      using sim(1) True step(1) by (simp add: mw_step_def middleware_endpoint [OF on])
    show "log_ok ws (log1, now)" using log_step_ok [OF ok, of ?req] log1 by simp
    show "log1 ip = log ip @ passed_on e ip [(path, ip', now)] [snd (mw_step st (path, ip', now))]"
      using log1 True passed by (auto simp: log_step_def split: if_splits)
  qed
qed

lemma passed_on_Cons:
  "passed_on e ip (req # reqs) (out # outs) = passed_on e ip [req] [out] @ passed_on e ip reqs outs"
  by (cases req) simp

lemma middleware_run_log:
  assumes "wf_windows ws" "rl_enabled st" "limiter_rel ws (rl_endpoints st e) (log, latest)"
    "log_ok ws (log, latest)" "sorted (latest # map time_of reqs)"
  shows "\<exists>log'. log_ok ws (log', 0) \<and> log' ip = log ip @ passed_on e ip reqs (snd (run mw_step st reqs))"
  using assms
proof (induction reqs arbitrary: st log latest)
  case Nil
  then show ?case by (auto simp: log_ok_def)
next
  case (Cons req reqs)
  obtain path ip' now where req: "req = (path, ip', now)" by (cases req)
  obtain log1 where log1: "limiter_rel ws (rl_endpoints (fst (mw_step st req)) e) (log1, now)" "log_ok ws (log1, now)"
    "log1 ip = log ip @ passed_on e ip [req] [snd (mw_step st req)]"
    using middleware_step_log [OF Cons.prems(1-4), of now path ip' ip] Cons.prems(5) unfolding req time_of_def by auto
  have on: "rl_enabled (fst (mw_step st req))"
    using Cons.prems(2) by (simp add: mw_step_def req middleware_enabled)
  have "sorted (now # map time_of reqs)" using Cons.prems(5) by (auto simp: req time_of_def [of "(path, ip', now)"])
  then obtain log' where "log_ok ws (log', 0)"
    "log' ip = log1 ip @ passed_on e ip reqs (snd (run mw_step (fst (mw_step st req)) reqs))"
    using Cons.IH [OF Cons.prems(1) on log1(1,2)] by blast
  then show ?case
    using log1(3) passed_on_Cons [of e ip req reqs "snd (mw_step st req)" "snd (run mw_step (fst (mw_step st req)) reqs)"]
    by (intro exI [of _ log']) (simp add: case_prod_beta)
qed

text \<open>
  C15: several paths of one endpoint limiter share one budget: whatever mix of paths and addresses
  is requested, the middleware lets at most the configured number of requests of one address
  through to the paths of a limiter in any five minutes, so alternating the account-creation
  routes, the two session routes or the code-validating pairs gains nothing.
\<close>

theorem shared_endpoint_budget:
  assumes "cfg_enabled cfg" "0 < endpoint_max cfg e" "endpoint_max cfg e < u64_max" "sorted (map time_of reqs)"
  shows "spent lo five_min (passed_on e ip reqs (snd (run mw_step (rate_limiter_new cfg) reqs))) \<le> endpoint_max cfg e"
proof -
  let ?w = "\<lparr> win_len = five_min, win_max = endpoint_max cfg e \<rparr>"
  have wf: "wf_windows [?w]" using assms(3) by (simp add: wf_windows_def)
  have rel: "limiter_rel [?w] (rl_endpoints (rate_limiter_new cfg) e) (fst empty_log, snd empty_log)"
    using limiter_rel_new [of "[?w]"] by (simp add: rate_limiter_new_def per_5min_def)
  obtain log' where ok: "log_ok [?w] (log', 0)" and log': "log' ip = fst empty_log ip @ passed_on e ip reqs (snd (run mw_step (rate_limiter_new cfg) reqs))"
    using middleware_run_log [OF wf _ rel, of reqs ip] assms(1,4) by (auto simp: rate_limiter_new_def empty_log_def log_ok_def)
  from ok have "spent lo (win_len ?w) (log' ip) \<le> win_max ?w" using assms(2) by (simp add: log_ok_def)
  with log' show ?thesis by (simp add: empty_log_def)
qed

theorem shared_endpoint_budget_witness:
  "spent 0 five_min (passed_on LimRecovery ''ip''
     [(''/v1/recovery/initiate'', ''ip'', 0), (''/v1/recovery/release'', ''ip'', 5)]
     (snd (run mw_step (rate_limiter_new rate_limit_config_default)
       [(''/v1/recovery/initiate'', ''ip'', 0), (''/v1/recovery/release'', ''ip'', 5)]))) \<le> 30"
  using shared_endpoint_budget [of rate_limit_config_default LimRecovery
      "[(''/v1/recovery/initiate'', ''ip'', 0), (''/v1/recovery/release'', ''ip'', 5)]" 0 "''ip''"]
  by (simp add: rate_limit_config_default_def u64_max_def time_of_def)

section \<open>The login lockout\<close>

datatype login_op = LoginCheck | LoginFailure | LoginClear

type_synonym login_event = "str \<times> login_op \<times> nat"

definition login_step :: "attempts \<Rightarrow> login_event \<Rightarrow> attempts \<times> bool" where
  "login_step a ev =
     (case ev of
        (k, LoginCheck, now) \<Rightarrow> is_rate_limited now a k
      | (k, LoginFailure, now) \<Rightarrow> (record_failure now a k, False)
      | (k, LoginClear, now) \<Rightarrow> (clear_failures a k, False))"

text \<open>The reference keeps all the failures since the last success.\<close>

definition recent_failure :: "nat \<Rightarrow> nat \<Rightarrow> bool" where
  "recent_failure now t \<longleftrightarrow> now - t \<le> rate_limit_window_secs * nanos"

type_synonym failure_log = "(str \<Rightarrow> nat list) \<times> nat"

definition failure_log_step :: "failure_log \<Rightarrow> login_event \<Rightarrow> failure_log \<times> bool" where
  "failure_log_step st ev =
     (case (st, ev) of
        ((log, _), (k, LoginCheck, now)) \<Rightarrow>
          ((log, now), rate_limit_max_failures \<le> length (filter (recent_failure now) (log k)))
      | ((log, _), (k, LoginFailure, now)) \<Rightarrow> ((log(k := log k @ [now]), now), False)
      | ((log, _), (k, LoginClear, now)) \<Rightarrow> ((log(k := []), now), False))"

definition failures :: "attempts \<Rightarrow> str \<Rightarrow> nat list" where
  "failures a k = (case a k of None \<Rightarrow> [] | Some d \<Rightarrow> d)"

definition login_rel :: "attempts \<Rightarrow> failure_log \<Rightarrow> bool" where
  "login_rel a st \<longleftrightarrow> (\<forall>k. sorted (failures a k) \<and> (\<forall>t\<in>set (failures a k). t \<le> snd st) \<and>
     filter (recent_failure (snd st)) (failures a k) = filter (recent_failure (snd st)) (fst st k))"

definition login_in_order :: "failure_log \<Rightarrow> login_event \<Rightarrow> bool" where
  "login_in_order st ev \<longleftrightarrow> snd st \<le> time_of ev"

lemma drop_stale_sorted:
  "sorted d \<Longrightarrow> dropWhile (\<lambda>oldest. rate_limit_window_secs * nanos < now - oldest) d = filter (recent_failure now) d"
proof (induction d)
  case Nil
  then show ?case by simp
next
  case (Cons t d)
  show ?case
  proof (cases "rate_limit_window_secs * nanos < now - t")
    case True
    then show ?thesis using Cons by (simp add: recent_failure_def)
  next
    case False
    have "filter (recent_failure now) (t # d) = t # d"
      using Cons.prems False by (force simp: recent_failure_def filter_id_conv)
    then show ?thesis using False by simp
  qed
qed

lemma filter_failure_later:
  assumes "latest \<le> now" "filter (recent_failure latest) d = filter (recent_failure latest) e"
  shows "filter (recent_failure now) d = filter (recent_failure now) e"
proof -
  have "filter (recent_failure now) x = filter (recent_failure now) (filter (recent_failure latest) x)" for x
    using assms(1) by (auto intro!: filter_cong simp: recent_failure_def)
  with assms(2) show ?thesis by metis
qed

lemma login_rel_later: "login_rel a (log, latest) \<Longrightarrow> latest \<le> now \<Longrightarrow> login_rel a (log, now)"
  using filter_failure_later [of latest now] unfolding login_rel_def fst_conv snd_conv by (metis order_trans)

lemma login_step_sim:
  assumes rel: "login_rel a st" and ord: "login_in_order st ev"
  shows "login_rel (fst (login_step a ev)) (fst (failure_log_step st ev)) \<and>
    snd (login_step a ev) = snd (failure_log_step st ev)"
proof -
  obtain k op now where ev: "ev = (k, op, now)" by (cases ev)
  obtain log latest where st: "st = (log, latest)" by (cases st)
  have rel': "login_rel a (log, now)"
    using login_rel_later rel ord by (simp add: login_in_order_def st ev time_of_def)
  show ?thesis
  proof (cases op)
    case LoginCheck
    show ?thesis
    proof (cases "a k")
      case None
      then have "filter (recent_failure now) (log k) = []"
        using rel' unfolding login_rel_def failures_def by (metis filter.simps(1) fst_conv option.case(1) snd_conv)
      then show ?thesis
        using None rel' LoginCheck
        by (simp add: login_step_def ev is_rate_limited_def failure_log_step_def st rate_limit_max_failures_def)
    next
      case (Some d)
      then have d: "sorted d" "\<forall>t\<in>set d. t \<le> now" "filter (recent_failure now) d = filter (recent_failure now) (log k)"
        using rel' unfolding login_rel_def failures_def by (metis fst_conv option.case(2) snd_conv)+
      let ?a = "a(k \<mapsto> filter (recent_failure now) d)"
      have "login_rel ?a (log, now)"
        unfolding login_rel_def fst_conv snd_conv
      proof
        fix k'
        show "sorted (failures ?a k') \<and> (\<forall>t\<in>set (failures ?a k'). t \<le> now) \<and>
          filter (recent_failure now) (failures ?a k') = filter (recent_failure now) (log k')"
        proof (cases "k' = k")
          case True
          then have fa: "failures ?a k' = filter (recent_failure now) d" by (simp add: failures_def)
          have "sorted (filter (recent_failure now) d)" using d(1) by (simp add: sorted_wrt_filter)
          moreover have "\<forall>t\<in>set (filter (recent_failure now) d). t \<le> now" using d(2) by simp
          moreover have "filter (recent_failure now) (filter (recent_failure now) d) = filter (recent_failure now) (log k)"
            unfolding d(3) [symmetric] by simp
          ultimately show ?thesis unfolding fa unfolding True by blast
        next
          case False
          then have "failures ?a k' = failures a k'" by (simp add: failures_def)
          then show ?thesis using rel' by (simp add: login_rel_def)
        qed
      qed
      then show ?thesis
        using Some LoginCheck d(1,3)
        by (simp add: login_step_def ev is_rate_limited_def failure_log_step_def st drop_stale_sorted Let_def)
    qed
  next
    case LoginFailure
    have "failures (record_failure now a k) k' = (if k' = k then failures a k @ [now] else failures a k')" for k'
      by (simp add: record_failure_def failures_def)
    then show ?thesis
      using rel' LoginFailure by (auto simp: login_step_def ev failure_log_step_def st login_rel_def sorted_append)
  next
    case LoginClear
    then show ?thesis
      using rel' by (auto simp: login_step_def ev clear_failures_def failure_log_step_def st login_rel_def failures_def)
  qed
qed

interpretation lockout: simulation login_step failure_log_step login_rel login_in_order
  by unfold_locales (use login_step_sim in auto)

lemma lockout_guarded: "sorted (snd st # map time_of evs) \<Longrightarrow> lockout.guarded st evs"
proof (induction evs arbitrary: st)
  case Nil
  then show ?case by simp
next
  case (Cons ev evs)
  have "snd (fst (failure_log_step st ev)) = time_of ev"
    by (auto simp: failure_log_step_def time_of_def split: prod.splits login_op.splits)
  moreover have "login_in_order st ev" using Cons.prems by (simp add: login_in_order_def)
  moreover have "sorted (time_of ev # map time_of evs)" using Cons.prems by simp
  ultimately show ?case using Cons.IH [of "fst (failure_log_step st ev)"] by simp
qed

text \<open>
  C16: an identifier is locked out exactly when at least five failures were recorded for it in the
  last minute and since its last success, whatever checks (which prune the deque) happened in
  between.
\<close>

theorem lockout_refines_failure_log:
  assumes "sorted (map time_of evs)"
  shows "snd (run login_step (\<lambda>_. None) evs) = snd (run failure_log_step (\<lambda>_. [], 0) evs)"
proof -
  have "login_rel (\<lambda>_. None) (\<lambda>_. [], 0)" by (simp add: login_rel_def failures_def)
  moreover have "lockout.guarded (\<lambda>_. [], 0) evs" using assms by (intro lockout_guarded) simp
  ultimately show ?thesis by (simp add: lockout.run_simulates)
qed

theorem lockout_refines_failure_log_witness:
  "snd (run login_step (\<lambda>_. None) ([(''a'', LoginFailure, 1), (''a'', LoginFailure, 1), (''a'', LoginFailure, 1), (''a'', LoginFailure, 1),
      (''a'', LoginFailure, 1), (''a'', LoginCheck, 2), (''b'', LoginCheck, 2)])) =
   [False, False, False, False, False, True, False]"
  by (subst lockout_refines_failure_log)
    (simp_all add: time_of_def failure_log_step_def recent_failure_def rate_limit_max_failures_def rate_limit_window_secs_def nanos_def)

section \<open>The full-export cooldown\<close>

text \<open>
  The map of full exports stays at its cap or below, whatever the flood, an allowed export is
  remembered, and until the window has passed the same root is refused to the same address with a
  wait of at least a second while a new root is served.
\<close>

theorem get_repo_full_cooldown:
  assumes "check_get_repo_full st ip did root now = (st1, Inr ())" "rl_enabled st" "0 < rl_get_repo_full_window st"
    "now \<le> later" "later < now + rl_get_repo_full_window st"
    "length (rl_get_repo_full st) \<le> get_repo_full_sweep_at"
  shows "length (rl_get_repo_full st1) \<le> get_repo_full_sweep_at \<and>
    check_get_repo_full st1 ip did root later =
      (st1, Inl (rate_limited_error ''this repo has not changed since your last full export; use `since` or retry later''
        \<lparr> dec_allowed = False, dec_limit = 1, dec_remaining = 0,
          dec_reset_after_secs = max ((rl_get_repo_full_window st - (later - now)) div nanos) 1 \<rparr>)) \<and>
    (root' \<noteq> root \<longrightarrow> snd (check_get_repo_full st1 ip did root' later) = Inr ())"
proof -
  let ?key = "(ip, did)"
  let ?m = "rl_get_repo_full st"
  let ?live = "filter (\<lambda>(_, _, at). now - at < rl_get_repo_full_window st) ?m"
  define m1 where "m1 = (if get_repo_full_sweep_at \<le> length ?m then
      (if get_repo_full_sweep_at \<le> length ?live then [] else ?live) else ?m)"
  have st1: "st1 = st\<lparr> rl_get_repo_full := (?key, root, now) # filter (\<lambda>(k, _). k \<noteq> ?key) m1 \<rparr>"
    using assms(1-3) by (auto simp: check_get_repo_full_def Let_def m1_def split: option.splits if_splits)
  have "length m1 < get_repo_full_sweep_at"
    unfolding m1_def using assms(6) by (simp add: get_repo_full_sweep_at_def)
  then have len: "length (rl_get_repo_full st1) \<le> get_repo_full_sweep_at"
    using le_less_trans [OF length_filter_le] by (simp add: st1 Suc_le_eq)
  have within: "later - now < rl_get_repo_full_window st" using assms(4,5) by linarith
  show ?thesis
    using len within assms(2,3) by (simp add: check_get_repo_full_def Let_def st1)
qed

theorem get_repo_full_cooldown_witness:
  "\<exists>st. length (rl_get_repo_full (fst (check_get_repo_full st ''ip'' ''did'' ''root'' 5))) \<le> get_repo_full_sweep_at"
proof -
  define st :: rate_limiter_state where "st = \<lparr> rl_enabled = True, rl_global_ip = limiter_new [], rl_endpoints = (\<lambda>_. limiter_new []),
    rl_write_points = limiter_new [], rl_oauth_consent_creation = limiter_new [], rl_space_credential = limiter_new [],
    rl_did_refresh = limiter_new [], rl_get_repo_full_window = 60 * nanos, rl_get_repo_full = [] \<rparr>"
  have ok: "snd (check_get_repo_full st ''ip'' ''did'' ''root'' 5) = Inr ()"
    by (simp add: st_def check_get_repo_full_def Let_def)
  show ?thesis
    using get_repo_full_cooldown [of st "''ip''" "''did''" "''root''" 5 "fst (check_get_repo_full st ''ip'' ''did'' ''root'' 5)" 6 "[]"] ok
    by (intro exI [of _ st]) (simp add: st_def prod_eq_iff nanos_def)
qed

end
