(* ===== verification/Transfer_Db.thy ===== *)
theory Transfer_Db
  imports Api_Error
begin

text \<open>
  The tables behind planned device transfers and the statements of
  \<open>crates/custos-db/src/transfers.rs\<close> on them. A table is the list of its rows in rowid order; the
  primary keys, the unique indexes (two of them partial, over the active states) and the foreign
  keys of the schema (migrations V027, V029 and V030) are checked by the statements that can
  violate them. \<open>datetime('now')\<close> is a number of seconds, passed to each statement: the statements
  of one transaction may run in different seconds. Failures of the database itself (I/O, locking)
  are not modelled.
\<close>

section \<open>Rows\<close>

datatype transfer_status = Pending | Accepted | Completing | Complete | Expired | Cancelled

primrec is_active :: "transfer_status \<Rightarrow> bool" where
  "is_active Pending = True"
| "is_active Accepted = True"
| "is_active Completing = True"
| "is_active Complete = False"
| "is_active Expired = False"
| "is_active Cancelled = False"

record transfer =
  t_id :: str
  t_did :: str
  t_code :: str
  t_status :: transfer_status
  t_expires_at :: nat
  t_created_at :: nat
  t_accepted_device_id :: "str option"
  t_accepted_at :: "nat option"
  t_completed_at :: "nat option"

record transfer_device =
  td_id :: str
  td_did :: str
  td_platform :: str
  td_public_key :: str
  td_token_hash :: str
  td_created_at :: nat
  td_last_seen_at :: nat
  td_revoked_at :: "nat option"

record audit_event =
  ae_id :: str
  ae_transfer_id :: str
  ae_did :: str
  ae_event_type :: str
  ae_actor :: "str option"
  ae_created_at :: nat

text \<open>Of the sessions and refresh tokens, the columns the transfer statements read.\<close>

record session_row =
  s_did :: str
  s_token_hash :: str
  s_expires_at :: nat

record refresh_row =
  rt_jti :: str
  rt_did :: str

record db =
  db_accounts :: "str list"
  db_transfers :: "transfer list"
  db_devices :: "transfer_device list"
  db_audit :: "audit_event list"
  db_sessions :: "session_row list"
  db_refresh_tokens :: "refresh_row list"

section \<open>Errors\<close>

text \<open>The SQLite errors a statement can meet; a unique violation names the table and the column.\<close>

datatype db_error = UniqueViolation str str | ForeignKeyViolation | RowNotFound

definition is_unique_violation :: "db_error \<Rightarrow> bool" where
  "is_unique_violation e = (case e of UniqueViolation _ _ \<Rightarrow> True | _ \<Rightarrow> False)"

definition unique_violation_column :: "db_error \<Rightarrow> str \<Rightarrow> str option" where
  "unique_violation_column e table =
     (case e of UniqueViolation t c \<Rightarrow> if t = table then Some c else None | _ \<Rightarrow> None)"

text \<open>
  When a row violates several unique indexes, which of them the message names is up to SQLite:
  \<open>pick n\<close> chooses one of the violated columns.
\<close>

definition pick :: "nat \<Rightarrow> str list \<Rightarrow> str" where
  "pick n cols = cols ! (n mod length cols)"

text \<open>A transaction returns its result and the database to commit, or rolls back on an error.\<close>

type_synonym 'a tx = "db \<Rightarrow> db_error + 'a \<times> db"

definition transact :: "'a tx \<Rightarrow> db \<Rightarrow> db \<times> (db_error + 'a)" where
  "transact body d = (case body d of Inl e \<Rightarrow> (d, Inl e) | Inr (x, d') \<Rightarrow> (d', Inr x))"

definition update_rows :: "('r \<Rightarrow> bool) \<Rightarrow> ('r \<Rightarrow> 'r) \<Rightarrow> 'r list \<Rightarrow> 'r list" where
  "update_rows p f rows = map (\<lambda>r. if p r then f r else r) rows"

definition count_rows :: "('r \<Rightarrow> bool) \<Rightarrow> 'r list \<Rightarrow> nat" where
  "count_rows p rows = length (filter p rows)"

section \<open>Initiation\<close>

datatype initiate_outcome = Created nat | DuplicateActive | CodeCollision

definition sweep_expired_did :: "nat \<Rightarrow> str \<Rightarrow> db \<Rightarrow> db" where
  "sweep_expired_did now did d =
     d\<lparr> db_transfers := update_rows (\<lambda>r. t_did r = did \<and> is_active (t_status r) \<and> t_expires_at r \<le> now)
          (\<lambda>r. r\<lparr> t_status := Expired \<rparr>) (db_transfers d) \<rparr>"

definition transfer_conflicts :: "transfer \<Rightarrow> transfer list \<Rightarrow> str list" where
  "transfer_conflicts new rows =
     (if list_ex (\<lambda>r. t_id r = t_id new) rows then [''id''] else []) @
     (if list_ex (\<lambda>r. is_active (t_status r) \<and> t_did r = t_did new) rows then [''did''] else []) @
     (if list_ex (\<lambda>r. is_active (t_status r) \<and> t_code r = t_code new) rows then [''code''] else [])"

definition insert_pending :: "nat \<Rightarrow> nat \<Rightarrow> str \<Rightarrow> str \<Rightarrow> str \<Rightarrow> nat \<Rightarrow> nat tx" where
  "insert_pending n now transfer_id did code ttl_minutes d =
     (let new = \<lparr> t_id = transfer_id, t_did = did, t_code = code, t_status = Pending,
                  t_expires_at = now + 60 * ttl_minutes, t_created_at = now,
                  t_accepted_device_id = None, t_accepted_at = None, t_completed_at = None \<rparr>;
          clash = transfer_conflicts new (db_transfers d)
      in if clash \<noteq> [] then Inl (UniqueViolation ''transfers'' (pick n clash))
         else if did \<notin> set (db_accounts d) then Inl ForeignKeyViolation
         else Inr (t_expires_at new, d\<lparr> db_transfers := db_transfers d @ [new] \<rparr>))"

definition insert_transfer ::
  "nat \<Rightarrow> (nat \<Rightarrow> nat) \<Rightarrow> str \<Rightarrow> str \<Rightarrow> str \<Rightarrow> nat \<Rightarrow> db \<Rightarrow> db \<times> (db_error + initiate_outcome)" where
  "insert_transfer n clk transfer_id did code ttl_minutes d =
     (case insert_pending n (clk 1) transfer_id did code ttl_minutes (sweep_expired_did (clk 0) did d) of
        Inr (expires_at, d') \<Rightarrow> (d', Inr (Created expires_at))
      | Inl e \<Rightarrow>
          (d, if is_unique_violation e then
                case unique_violation_column e ''transfers'' of
                  Some col \<Rightarrow>
                    if col = ''did'' then Inr DuplicateActive
                    else if col = ''code'' then Inr CodeCollision
                    else Inl e
                | None \<Rightarrow> Inl e
              else Inl e))"

section \<open>Acceptance\<close>

definition expire_pending_code :: "nat \<Rightarrow> str \<Rightarrow> db \<Rightarrow> db" where
  "expire_pending_code now code d =
     d\<lparr> db_transfers := update_rows (\<lambda>r. t_code r = code \<and> t_status r = Pending \<and> t_expires_at r \<le> now)
          (\<lambda>r. r\<lparr> t_status := Expired \<rparr>) (db_transfers d) \<rparr>"

definition active_transfer_for_code :: "str \<Rightarrow> db \<Rightarrow> transfer option" where
  "active_transfer_for_code code d =
     List.find (\<lambda>r. t_code r = code \<and> is_active (t_status r)) (db_transfers d)"

definition insert_transfer_device ::
  "nat \<Rightarrow> nat \<Rightarrow> str \<Rightarrow> str \<Rightarrow> str \<Rightarrow> str \<Rightarrow> str \<Rightarrow> unit tx" where
  "insert_transfer_device n now device_id did platform public_key token_hash d =
     (let new = \<lparr> td_id = device_id, td_did = did, td_platform = platform, td_public_key = public_key,
                  td_token_hash = token_hash, td_created_at = now, td_last_seen_at = now, td_revoked_at = None \<rparr>;
          clash = (if list_ex (\<lambda>r. td_id r = device_id) (db_devices d) then [''id''] else []) @
                  (if list_ex (\<lambda>r. td_token_hash r = token_hash) (db_devices d) then [''device_token_hash''] else [])
      in if clash \<noteq> [] then Inl (UniqueViolation ''transfer_devices'' (pick n clash))
         else if did \<notin> set (db_accounts d) then Inl ForeignKeyViolation
         else Inr ((), d\<lparr> db_devices := db_devices d @ [new] \<rparr>))"

definition mark_transfer_accepted :: "nat \<Rightarrow> str \<Rightarrow> str \<Rightarrow> nat tx" where
  "mark_transfer_accepted now transfer_id device_id d =
     (let p = (\<lambda>r. t_id r = transfer_id \<and> t_status r = Pending \<and> now < t_expires_at r);
          k = count_rows p (db_transfers d)
      in if 0 < k \<and> \<not> list_ex (\<lambda>r. td_id r = device_id) (db_devices d) then Inl ForeignKeyViolation
         else Inr (k, d\<lparr> db_transfers := update_rows p
           (\<lambda>r. r\<lparr> t_status := Accepted, t_accepted_device_id := Some device_id, t_accepted_at := Some now \<rparr>)
           (db_transfers d) \<rparr>))"

definition delete_transfer_device :: "str \<Rightarrow> unit tx" where
  "delete_transfer_device device_id d =
     (if list_ex (\<lambda>r. td_id r = device_id) (db_devices d) \<and>
         list_ex (\<lambda>r. t_accepted_device_id r = Some device_id) (db_transfers d)
      then Inl ForeignKeyViolation
      else Inr ((), d\<lparr> db_devices := filter (\<lambda>r. td_id r \<noteq> device_id) (db_devices d) \<rparr>))"

definition expire_pending_transfer_if_elapsed :: "nat \<Rightarrow> str \<Rightarrow> db \<Rightarrow> db" where
  "expire_pending_transfer_if_elapsed now transfer_id d =
     d\<lparr> db_transfers := update_rows (\<lambda>r. t_id r = transfer_id \<and> t_status r = Pending \<and> t_expires_at r \<le> now)
          (\<lambda>r. r\<lparr> t_status := Expired \<rparr>) (db_transfers d) \<rparr>"

text \<open>
  \<open>transfer_device_token_exists\<close> and \<open>transfer_device_token_matches\<close> run the same query, the first
  outside any transaction.
\<close>

definition transfer_device_token_exists :: "str \<Rightarrow> str \<Rightarrow> db \<Rightarrow> bool" where
  "transfer_device_token_exists device_id token_hash d =
     list_ex (\<lambda>r. td_id r = device_id \<and> td_token_hash r = token_hash \<and> td_revoked_at r = None) (db_devices d)"

definition transfer_device_token_matches :: "str \<Rightarrow> str \<Rightarrow> db \<Rightarrow> bool" where
  "transfer_device_token_matches device_id token_hash d =
     list_ex (\<lambda>r. td_id r = device_id \<and> td_token_hash r = token_hash \<and> td_revoked_at r = None) (db_devices d)"

section \<open>Completion and cancellation\<close>

definition transfer_by_id :: "str \<Rightarrow> db \<Rightarrow> transfer option" where
  "transfer_by_id transfer_id d = List.find (\<lambda>r. t_id r = transfer_id) (db_transfers d)"

definition session_token_matches_did :: "nat \<Rightarrow> str \<Rightarrow> str \<Rightarrow> db \<Rightarrow> bool" where
  "session_token_matches_did now did token_hash d =
     list_ex (\<lambda>r. s_did r = did \<and> s_token_hash r = token_hash \<and> now < s_expires_at r) (db_sessions d)"

definition mark_transfer_complete :: "nat \<Rightarrow> str \<Rightarrow> db \<Rightarrow> nat \<times> db" where
  "mark_transfer_complete now transfer_id d =
     (let p = (\<lambda>r. t_id r = transfer_id \<and> t_status r \<in> {Accepted, Completing})
      in (count_rows p (db_transfers d),
          d\<lparr> db_transfers := update_rows p (\<lambda>r. r\<lparr> t_status := Complete, t_completed_at := Some now \<rparr>) (db_transfers d) \<rparr>))"

definition delete_refresh_tokens_for_did :: "str \<Rightarrow> db \<Rightarrow> db" where
  "delete_refresh_tokens_for_did did d =
     d\<lparr> db_refresh_tokens := filter (\<lambda>r. rt_did r \<noteq> did) (db_refresh_tokens d) \<rparr>"

definition delete_sessions_for_did :: "str \<Rightarrow> db \<Rightarrow> db" where
  "delete_sessions_for_did did d = d\<lparr> db_sessions := filter (\<lambda>r. s_did r \<noteq> did) (db_sessions d) \<rparr>"

definition revoke_other_transfer_devices :: "nat \<Rightarrow> str \<Rightarrow> str \<Rightarrow> db \<Rightarrow> db" where
  "revoke_other_transfer_devices now did keep_device_id d =
     d\<lparr> db_devices := update_rows (\<lambda>r. td_did r = did \<and> td_id r \<noteq> keep_device_id \<and> td_revoked_at r = None)
          (\<lambda>r. r\<lparr> td_revoked_at := Some now \<rparr>) (db_devices d) \<rparr>"

definition mark_transfer_cancelled :: "str \<Rightarrow> db \<Rightarrow> nat \<times> db" where
  "mark_transfer_cancelled transfer_id d =
     (let p = (\<lambda>r. t_id r = transfer_id \<and> is_active (t_status r))
      in (count_rows p (db_transfers d),
          d\<lparr> db_transfers := update_rows p (\<lambda>r. r\<lparr> t_status := Cancelled \<rparr>) (db_transfers d) \<rparr>))"

definition revoke_transfer_device :: "nat \<Rightarrow> str \<Rightarrow> db \<Rightarrow> nat \<times> db" where
  "revoke_transfer_device now device_id d =
     (let p = (\<lambda>r. td_id r = device_id \<and> td_revoked_at r = None)
      in (count_rows p (db_devices d),
          d\<lparr> db_devices := update_rows p (\<lambda>r. r\<lparr> td_revoked_at := Some now \<rparr>) (db_devices d) \<rparr>))"

definition insert_transfer_audit_event ::
  "nat \<Rightarrow> str \<Rightarrow> str \<Rightarrow> str \<Rightarrow> str \<Rightarrow> str option \<Rightarrow> unit tx" where
  "insert_transfer_audit_event now event_id transfer_id did event_type actor d =
     (if list_ex (\<lambda>r. ae_id r = event_id) (db_audit d) then Inl (UniqueViolation ''transfer_audit_events'' ''id'')
      else if \<not> list_ex (\<lambda>r. t_id r = transfer_id) (db_transfers d) \<or> did \<notin> set (db_accounts d)
      then Inl ForeignKeyViolation
      else Inr ((), d\<lparr> db_audit := db_audit d @
        [\<lparr> ae_id = event_id, ae_transfer_id = transfer_id, ae_did = did, ae_event_type = event_type,
           ae_actor = actor, ae_created_at = now \<rparr>] \<rparr>))"

section \<open>The operator's listing\<close>

record inflight_row =
  if_id :: str
  if_did :: str
  if_status :: transfer_status
  if_created_at :: nat
  if_expires_at :: nat
  if_accepted_at :: "nat option"
  if_platform :: "str option"

text \<open>
  Newest first by \<open>(created_at, id)\<close>, strictly below an exclusive cursor, at most \<open>limit\<close> rows; the
  joined handle is not modelled.
\<close>

definition key_less :: "nat \<times> str \<Rightarrow> nat \<times> str \<Rightarrow> bool" where
  "key_less a b \<longleftrightarrow> fst a < fst b \<or> fst a = fst b \<and> snd a < snd b"

definition row_key :: "transfer \<Rightarrow> nat \<times> str" where "row_key r = (t_created_at r, t_id r)"

definition is_inflight :: "nat \<Rightarrow> transfer \<Rightarrow> bool" where
  "is_inflight now r \<longleftrightarrow>
     t_status r = Accepted \<or> t_status r = Completing \<or> t_status r = Pending \<and> now < t_expires_at r"

fun insert_newest :: "transfer \<Rightarrow> transfer list \<Rightarrow> transfer list" where
  "insert_newest r [] = [r]"
| "insert_newest r (s # rows) = (if key_less (row_key r) (row_key s) then s # insert_newest r rows else r # s # rows)"

definition inflight_order :: "transfer list \<Rightarrow> transfer list" where
  "inflight_order rows = foldr insert_newest rows []"

definition list_inflight_transfers :: "nat \<Rightarrow> (nat \<times> str) option \<Rightarrow> nat \<Rightarrow> db \<Rightarrow> inflight_row list" where
  "list_inflight_transfers now cursor limit d =
     map (\<lambda>r. \<lparr> if_id = t_id r, if_did = t_did r, if_status = t_status r, if_created_at = t_created_at r,
                 if_expires_at = t_expires_at r, if_accepted_at = t_accepted_at r,
                 if_platform = (case t_accepted_device_id r of None \<Rightarrow> None
                   | Some dev \<Rightarrow> map_option td_platform (List.find (\<lambda>x. td_id x = dev) (db_devices d))) \<rparr>)
       (take limit (inflight_order
         (filter (\<lambda>r. is_inflight now r \<and> (case cursor of None \<Rightarrow> True | Some c \<Rightarrow> key_less (row_key r) c))
           (db_transfers d))))"

end
