(* ===== verification/Transfer_Flow.thy ===== *)
theory Transfer_Flow
  imports Transfer_Db
begin

text \<open>
  The transfer workflows of \<open>crates/pds/src/transfer.rs\<close> over the statements of \<open>Transfer_Db\<close>, the
  code-collision retry of the initiate route and the mapping of outcomes to responses. \<open>clk i\<close> is
  the time of the \<open>i\<close>-th timed statement of a transaction.
\<close>

section \<open>Cancellation\<close>

datatype cancel_outcome = CancelledNow bool | AlreadyCancelled | Terminal transfer_status | TransferNotFound

definition cancel_transfer_tx :: "(nat \<Rightarrow> nat) \<Rightarrow> str \<Rightarrow> str \<Rightarrow> cancel_outcome tx" where
  "cancel_transfer_tx clk event_id transfer_id d0 =
     (let d1 = expire_pending_transfer_if_elapsed (clk 0) transfer_id d0
      in case transfer_by_id transfer_id d1 of
           None \<Rightarrow> Inr (TransferNotFound, d1)
         | Some row \<Rightarrow>
             if is_active (t_status row) then
               (case mark_transfer_cancelled (t_id row) d1 of
                  (updated, d2) \<Rightarrow>
                    if updated \<noteq> 1 then Inl RowNotFound
                    else
                      case (case t_accepted_device_id row of
                              None \<Rightarrow> (False, d2)
                            | Some device_id \<Rightarrow>
                                (case revoke_transfer_device (clk 1) device_id d2 of (k, d3) \<Rightarrow> (0 < k, d3))) of
                        (revoked, d3) \<Rightarrow>
                          res_bind (insert_transfer_audit_event (clk 2) event_id (t_id row) (t_did row)
                                      ''transfer.cancelled'' None d3)
                            (\<lambda>(_, d4). Inr (CancelledNow revoked, d4)))
             else if t_status row = Cancelled then Inr (AlreadyCancelled, d1)
             else Inr (Terminal (t_status row), d1))"

definition cancel_transfer ::
  "(nat \<Rightarrow> nat) \<Rightarrow> str \<Rightarrow> str \<Rightarrow> db \<Rightarrow> db \<times> (db_error + cancel_outcome)" where
  "cancel_transfer clk event_id transfer_id = transact (cancel_transfer_tx clk event_id transfer_id)"

section \<open>Acceptance\<close>

datatype accept_outcome = AcceptedBy str | InvalidOrExpired | NotPending

definition accept_transfer_tx ::
  "nat \<Rightarrow> (nat \<Rightarrow> nat) \<Rightarrow> str \<Rightarrow> str \<Rightarrow> str \<Rightarrow> str \<Rightarrow> str \<Rightarrow> accept_outcome tx" where
  "accept_transfer_tx n clk code device_id platform public_key token_hash d0 =
     (let d1 = expire_pending_code (clk 0) code d0
      in case active_transfer_for_code code d1 of
           None \<Rightarrow> Inr (InvalidOrExpired, d1)
         | Some row \<Rightarrow>
             if t_status row \<noteq> Pending then Inr (NotPending, d1)
             else
               res_bind (insert_transfer_device n (clk 1) device_id (t_did row) platform public_key token_hash d1)
                 (\<lambda>(_, d2). res_bind (mark_transfer_accepted (clk 2) (t_id row) device_id d2)
                   (\<lambda>(updated, d3).
                     if updated \<noteq> 1 then
                       res_bind (delete_transfer_device device_id d3)
                         (\<lambda>(_, d4). Inr (InvalidOrExpired, expire_pending_transfer_if_elapsed (clk 3) (t_id row) d4))
                     else Inr (AcceptedBy (t_id row), d3))))"

definition accept_transfer ::
  "nat \<Rightarrow> (nat \<Rightarrow> nat) \<Rightarrow> str \<Rightarrow> str \<Rightarrow> str \<Rightarrow> str \<Rightarrow> str \<Rightarrow> db \<Rightarrow> db \<times> (db_error + accept_outcome)" where
  "accept_transfer n clk code device_id platform public_key token_hash =
     transact (accept_transfer_tx n clk code device_id platform public_key token_hash)"

section \<open>Completion\<close>

datatype complete_outcome = Completed str | InvalidTransfer | NotAccepted | UnauthorizedToken

definition complete_transfer_tx :: "(nat \<Rightarrow> nat) \<Rightarrow> str \<Rightarrow> str \<Rightarrow> str \<Rightarrow> complete_outcome tx" where
  "complete_transfer_tx clk event_id transfer_id token_hash d0 =
     (case transfer_by_id transfer_id d0 of
        None \<Rightarrow> Inr (InvalidTransfer, d0)
      | Some row \<Rightarrow>
          let source_session = session_token_matches_did (clk 0) (t_did row) token_hash d0
          in case t_accepted_device_id row of
               None \<Rightarrow>
                 Inr (if t_status row = Pending \<and> source_session then NotAccepted
                      else if \<not> source_session then UnauthorizedToken
                      else InvalidTransfer, d0)
             | Some accepted_device_id \<Rightarrow>
                 let target_device = transfer_device_token_matches accepted_device_id token_hash d0
                 in if \<not> source_session \<and> \<not> target_device then Inr (UnauthorizedToken, d0)
                    else if t_status row = Accepted \<or> t_status row = Completing then
                      (case mark_transfer_complete (clk 1) (t_id row) d0 of
                         (updated, d1) \<Rightarrow>
                           if updated \<noteq> 1 then Inr (InvalidTransfer, d1)
                           else
                             let d2 = delete_refresh_tokens_for_did (t_did row) d1;
                                 d3 = delete_sessions_for_did (t_did row) d2;
                                 d4 = revoke_other_transfer_devices (clk 2) (t_did row) accepted_device_id d3
                             in res_bind (insert_transfer_audit_event (clk 3) event_id (t_id row) (t_did row)
                                            ''transfer.complete'' (Some accepted_device_id) d4)
                                  (\<lambda>(_, d5). Inr (Completed (t_id row), d5)))
                    else if t_status row = Complete then
                      Inr (if \<not> target_device then UnauthorizedToken else Completed (t_id row), d0)
                    else if t_status row = Pending then Inr (NotAccepted, d0)
                    else Inr (InvalidTransfer, d0))"

definition complete_transfer ::
  "(nat \<Rightarrow> nat) \<Rightarrow> str \<Rightarrow> str \<Rightarrow> str \<Rightarrow> db \<Rightarrow> db \<times> (db_error + complete_outcome)" where
  "complete_transfer clk event_id transfer_id token_hash =
     transact (complete_transfer_tx clk event_id transfer_id token_hash)"

section \<open>The routes\<close>

definition transfer_ttl_minutes :: nat where "transfer_ttl_minutes = 15"
definition max_code_attempts :: nat where "max_code_attempts = 5"

text \<open>
  The initiate handler after authentication: \<open>gen\<close> gives the codes of the successive attempts and
  the index SQLite names, and \<open>left\<close> counts the attempts still allowed. The success value carries the
  code and the expiry of the response.
\<close>

fun initiate_loop ::
  "nat \<Rightarrow> (nat \<Rightarrow> nat \<times> str \<times> (nat \<Rightarrow> nat)) \<Rightarrow> str \<Rightarrow> str \<Rightarrow> db \<Rightarrow> db \<times> (unit api_error + str \<times> nat)" where
  "initiate_loop 0 gen transfer_id did d =
     (d, Inl (api_error_new InternalError ''failed to allocate a unique transfer code''))"
| "initiate_loop (Suc left) gen transfer_id did d =
     (case gen left of
        (n, code, clk) \<Rightarrow>
          (case insert_transfer n clk transfer_id did code transfer_ttl_minutes d of
             (d1, Inl e) \<Rightarrow> (d1, Inl (api_error_new InternalError ''failed to initiate transfer''))
           | (d1, Inr (Created expires_at)) \<Rightarrow> (d1, Inr (code, expires_at))
           | (d1, Inr DuplicateActive) \<Rightarrow>
               (d1, Inl (api_error_new Conflict ''an active transfer already exists for this account''))
           | (d1, Inr CodeCollision) \<Rightarrow> initiate_loop left gen transfer_id did d1))"

definition transfer_initiate ::
  "(nat \<Rightarrow> nat \<times> str \<times> (nat \<Rightarrow> nat)) \<Rightarrow> str \<Rightarrow> str \<Rightarrow> db \<Rightarrow> db \<times> (unit api_error + str \<times> nat)" where
  "transfer_initiate gen transfer_id did d = initiate_loop max_code_attempts gen transfer_id did d"

definition accept_response :: "db_error + accept_outcome \<Rightarrow> unit api_error + str" where
  "accept_response r =
     (case r of
        Inl _ \<Rightarrow> Inl (api_error_new InternalError ''failed to accept transfer'')
      | Inr (AcceptedBy transfer_id) \<Rightarrow> Inr transfer_id
      | Inr InvalidOrExpired \<Rightarrow> Inl (api_error_new InvalidClaim ''transfer code is invalid or expired'')
      | Inr NotPending \<Rightarrow> Inl (api_error_new Conflict ''transfer is no longer pending''))"

definition complete_response :: "db_error + complete_outcome \<Rightarrow> unit api_error + str" where
  "complete_response r =
     (case r of
        Inl _ \<Rightarrow> Inl (api_error_new InternalError ''failed to complete transfer'')
      | Inr (Completed transfer_id) \<Rightarrow> Inr transfer_id
      | Inr InvalidTransfer \<Rightarrow> Inl (api_error_new InvalidClaim ''transfer is invalid or expired'')
      | Inr NotAccepted \<Rightarrow> Inl (api_error_new Conflict ''transfer has not been accepted'')
      | Inr UnauthorizedToken \<Rightarrow> Inl (api_error_new Unauthorized ''invalid transfer completion token''))"

section \<open>Other writers of the tables\<close>

text \<open>
  The operator's credential sweep and the account purge, restricted to the modelled tables. The
  purge also removes the account row.
\<close>

definition revoke_credentials :: "nat \<Rightarrow> str \<Rightarrow> db \<Rightarrow> db" where
  "revoke_credentials now did d =
     (let d1 = delete_sessions_for_did did (delete_refresh_tokens_for_did did d)
      in d1\<lparr> db_devices := update_rows (\<lambda>r. td_did r = did \<and> td_revoked_at r = None)
               (\<lambda>r. r\<lparr> td_revoked_at := Some now \<rparr>) (db_devices d1) \<rparr>)"

definition purge_transfers :: "str \<Rightarrow> db \<Rightarrow> db" where
  "purge_transfers did d =
     (let d1 = delete_sessions_for_did did (delete_refresh_tokens_for_did did d)
      in d1\<lparr> db_audit := filter (\<lambda>r. ae_did r \<noteq> did) (db_audit d1),
             db_transfers := filter (\<lambda>r. t_did r \<noteq> did) (db_transfers d1),
             db_devices := filter (\<lambda>r. td_did r \<noteq> did) (db_devices d1),
             db_accounts := filter (\<lambda>a. a \<noteq> did) (db_accounts d1) \<rparr>)"

end
