(* ===== verification/Transfer_Correct.thy ===== *)
theory Transfer_Correct
  imports Transfer_Flow
begin

text \<open>
  The transfer system as a step relation over the database and its invariant: unique active
  transfers, accepted devices that exist and belong to the account, one audit event per finished
  transfer.
\<close>

section \<open>Updating rows\<close>

named_theorems stmt_simps \<open>definitions of the statements that only update or filter rows\<close>

lemma set_update_rows: "set (update_rows p f rows) = (\<lambda>r. if p r then f r else r) ` set rows"
  by (simp add: update_rows_def)

lemma map_update_rows: "(\<And>r. g (f r) = g r) \<Longrightarrow> map g (update_rows p f rows) = map g rows"
  by (simp add: update_rows_def)

lemma list_ex_update_rows: "(\<And>r. q (f r) = q r) \<Longrightarrow> list_ex q (update_rows p f rows) = list_ex q rows"
  by (induction rows) (auto simp: update_rows_def)

lemma filter_update_rows_off:
  "(\<And>r. \<not> a (f r)) \<Longrightarrow> filter a (update_rows p f rows) = filter (\<lambda>r. a r \<and> \<not> p r) rows"
  by (induction rows) (auto simp: update_rows_def)

lemma map_filter_update_rows_on:
  "(\<And>r. p r \<Longrightarrow> a (f r) = a r) \<Longrightarrow> (\<And>r. g (f r) = g r) \<Longrightarrow>
   map g (filter a (update_rows p f rows)) = map g (filter a rows)"
  by (induction rows) (auto simp: update_rows_def)

lemma distinct_map_filter_less:
  "distinct (map g (filter a rows)) \<Longrightarrow> distinct (map g (filter (\<lambda>r. a r \<and> b r) rows))"
  using distinct_map_filter [of g "filter a rows" b] by (simp add: conj_commute)

lemma count_rows_append [simp]: "count_rows p (xs @ ys) = count_rows p xs + count_rows p ys"
  by (simp add: count_rows_def)

lemma count_rows_one [simp]: "count_rows p [x] = (if p x then 1 else 0)"
  by (simp add: count_rows_def)

lemma count_rows_zero_iff: "count_rows p rows = 0 \<longleftrightarrow> (\<forall>r\<in>set rows. \<not> p r)"
  by (simp add: count_rows_def filter_empty_conv)

lemma count_rows_key:
  assumes "distinct (map key rows)" "r \<in> set rows" "key r = k"
  shows "count_rows (\<lambda>x. key x = k \<and> q x) rows = (if q r then 1 else 0)"
  using assms
proof (induction rows)
  case Nil
  then show ?case by simp
next
  case (Cons x rows)
  have none: "count_rows (\<lambda>x. key x = k \<and> q x) rows = 0" if "key x = k"
    unfolding count_rows_zero_iff using that Cons.prems(1) by (auto simp: image_iff)
  show ?case
  proof (cases "key x = k")
    case True
    then have "x = r" using Cons.prems by (cases "r = x") (auto simp: image_iff)
    with none [OF True] True show ?thesis by (simp add: count_rows_def)
  next
    case False
    then show ?thesis using Cons by (auto simp: count_rows_def)
  qed
qed

lemma find_by_key:
  assumes "distinct (map key rows)"
  shows "List.find (\<lambda>r. key r = k) rows = Some r \<longleftrightarrow> r \<in> set rows \<and> key r = k"
  using assms by (induction rows) (auto simp: image_iff)

lemma find_SomeD: "List.find p rows = Some r \<Longrightarrow> r \<in> set rows \<and> p r"
  by (auto simp: find_Some_iff)

section \<open>The invariant\<close>

definition active :: "transfer \<Rightarrow> bool" where "active r \<longleftrightarrow> is_active (t_status r)"

definition events_of :: "db \<Rightarrow> str \<Rightarrow> transfer \<Rightarrow> nat" where
  "events_of d ty r = count_rows (\<lambda>e. ae_transfer_id e = t_id r \<and> ae_event_type e = ty) (db_audit d)"

definition row_ok :: "db \<Rightarrow> transfer \<Rightarrow> bool" where
  "row_ok d r \<longleftrightarrow>
     t_did r \<in> set (db_accounts d) \<and> t_status r \<noteq> Completing \<and>
     (t_status r = Pending \<longrightarrow> t_accepted_device_id r = None) \<and>
     (t_status r = Accepted \<or> t_status r = Complete \<longrightarrow> t_accepted_device_id r \<noteq> None) \<and>
     (\<forall>dev. t_accepted_device_id r = Some dev \<longrightarrow> (\<exists>x\<in>set (db_devices d). td_id x = dev \<and> td_did x = t_did r)) \<and>
     events_of d ''transfer.complete'' r = (if t_status r = Complete then 1 else 0) \<and>
     events_of d ''transfer.cancelled'' r = (if t_status r = Cancelled then 1 else 0)"

definition uniques_ok :: "db \<Rightarrow> bool" where
  "uniques_ok d \<longleftrightarrow>
     distinct (map t_id (db_transfers d)) \<and>
     distinct (map t_did (filter active (db_transfers d))) \<and>
     distinct (map t_code (filter active (db_transfers d))) \<and>
     distinct (map td_id (db_devices d)) \<and> distinct (map td_token_hash (db_devices d)) \<and>
     distinct (map ae_id (db_audit d))"

definition refs_ok :: "db \<Rightarrow> bool" where
  "refs_ok d \<longleftrightarrow>
     (\<forall>x\<in>set (db_devices d). td_did x \<in> set (db_accounts d)) \<and>
     (\<forall>e\<in>set (db_audit d). (ae_transfer_id e, ae_did e) \<in> set (map (\<lambda>r. (t_id r, t_did r)) (db_transfers d)))"

definition db_ok :: "db \<Rightarrow> bool" where
  "db_ok d \<longleftrightarrow> uniques_ok d \<and> refs_ok d \<and> (\<forall>r\<in>set (db_transfers d). row_ok d r)"

lemma db_okD:
  assumes "db_ok d"
  shows "distinct (map t_id (db_transfers d))" "distinct (map td_id (db_devices d))"
    "r \<in> set (db_transfers d) \<Longrightarrow> row_ok d r"
  using assms by (simp_all add: db_ok_def uniques_ok_def)

text \<open>Statements that only move active rows to \<open>Expired\<close>.\<close>

definition expire_where :: "(transfer \<Rightarrow> bool) \<Rightarrow> db \<Rightarrow> db" where
  "expire_where p d = d\<lparr> db_transfers := update_rows p (\<lambda>r. r\<lparr> t_status := Expired \<rparr>) (db_transfers d) \<rparr>"

lemma expire_stmts [stmt_simps]:
  "sweep_expired_did now did d = expire_where (\<lambda>r. t_did r = did \<and> is_active (t_status r) \<and> t_expires_at r \<le> now) d"
  "expire_pending_code now code d = expire_where (\<lambda>r. t_code r = code \<and> t_status r = Pending \<and> t_expires_at r \<le> now) d"
  "expire_pending_transfer_if_elapsed now tid d =
     expire_where (\<lambda>r. t_id r = tid \<and> t_status r = Pending \<and> t_expires_at r \<le> now) d"
  by (simp_all add: sweep_expired_did_def expire_pending_code_def expire_pending_transfer_if_elapsed_def expire_where_def)

lemma active_off: "\<not> active (r\<lparr> t_status := Expired \<rparr>)"
  by (simp add: active_def)

lemma row_ok_transfers [simp]: "row_ok (d\<lparr> db_transfers := rows \<rparr>) r = row_ok d r"
  by (simp add: row_ok_def events_of_def)

lemma uniques_expire: "uniques_ok d \<Longrightarrow> uniques_ok (expire_where p d)"
  unfolding uniques_ok_def expire_where_def
  by (simp add: map_update_rows filter_update_rows_off distinct_map_filter_less active_off)

lemma refs_update:
  "refs_ok d \<Longrightarrow> (\<And>r. t_id (f r) = t_id r \<and> t_did (f r) = t_did r) \<Longrightarrow>
   refs_ok (d\<lparr> db_transfers := update_rows p f (db_transfers d) \<rparr>)"
  unfolding refs_ok_def by (simp add: map_update_rows del: set_map)

lemma expire_ok:
  assumes ok: "db_ok d" and act: "\<And>r. p r \<Longrightarrow> active r"
  shows "db_ok (expire_where p d)"
proof -
  have "row_ok d (r\<lparr> t_status := Expired \<rparr>)" if "r \<in> set (db_transfers d)" "p r" for r
    using db_okD(3) [OF ok that(1)] act [OF that(2)]
    by (cases "t_status r") (simp_all add: row_ok_def events_of_def active_def)
  then have "\<forall>r\<in>set (db_transfers (expire_where p d)). row_ok (expire_where p d) r"
    using db_okD(3) [OF ok] by (auto simp: expire_where_def set_update_rows)
  moreover have "refs_ok (expire_where p d)"
    using ok unfolding expire_where_def by (intro refs_update) (simp_all add: db_ok_def)
  ultimately show ?thesis
    using ok uniques_expire [of d p] by (simp add: db_ok_def)
qed

lemma expire_stmts_ok:
  assumes "db_ok d"
  shows "db_ok (sweep_expired_did now did d)" "db_ok (expire_pending_code now code d)"
    "db_ok (expire_pending_transfer_if_elapsed now tid d)"
  unfolding expire_stmts using assms by (rule expire_ok, simp add: active_def)+

section \<open>Each statement keeps the invariant\<close>

lemma insert_pending_ok:
  assumes ok: "db_ok d" and ins: "insert_pending n now tid did code ttl d = Inr (x, d')"
  shows "db_ok d'"
proof -
  define new where "new = \<lparr> t_id = tid, t_did = did, t_code = code, t_status = Pending,
    t_expires_at = now + 60 * ttl, t_created_at = now,
    t_accepted_device_id = None, t_accepted_at = None, t_completed_at = None \<rparr>"
  have clash: "transfer_conflicts new (db_transfers d) = []" and acc: "did \<in> set (db_accounts d)"
      and d': "d' = d\<lparr> db_transfers := db_transfers d @ [new] \<rparr>"
    using ins by (auto simp: insert_pending_def Let_def new_def split: if_splits)
  have fresh: "\<forall>r\<in>set (db_transfers d). t_id r \<noteq> tid"
    "\<forall>r\<in>set (db_transfers d). active r \<longrightarrow> t_did r \<noteq> did" "\<forall>r\<in>set (db_transfers d). active r \<longrightarrow> t_code r \<noteq> code"
    using clash by (auto simp: transfer_conflicts_def list_ex_iff active_def new_def split: if_splits)
  have new: "t_id new = tid" "t_did new = did" "t_code new = code" "active new"
    by (simp_all add: new_def active_def)
  have "uniques_ok d'"
    using ok fresh new unfolding db_ok_def uniques_ok_def d' by auto
  moreover have "refs_ok d'" using ok by (auto simp: db_ok_def refs_ok_def d')
  moreover have "row_ok d new"
  proof -
    have "\<forall>e\<in>set (db_audit d). ae_transfer_id e \<noteq> tid"
      using ok fresh(1) unfolding db_ok_def refs_ok_def by fastforce
    then have "events_of d ty new = 0" for ty by (simp add: events_of_def count_rows_zero_iff new)
    then show ?thesis using acc by (simp add: row_ok_def new_def)
  qed
  ultimately show ?thesis using ok by (auto simp: db_ok_def d')
qed

lemma row_ok_devices:
  assumes "row_ok d r" "\<forall>x\<in>set (db_devices d). \<exists>x'\<in>set devs. td_id x' = td_id x \<and> td_did x' = td_did x"
  shows "row_ok (d\<lparr> db_devices := devs \<rparr>) r"
proof -
  have "\<exists>x'\<in>set devs. td_id x' = dev \<and> td_did x' = t_did r" if "t_accepted_device_id r = Some dev" for dev
    using assms that unfolding row_ok_def by metis
  then show ?thesis using assms(1) by (simp add: row_ok_def events_of_def)
qed

lemma insert_device_ok:
  assumes ok: "db_ok d" and ins: "insert_transfer_device n now dev did platform key hash d = Inr (u, d')"
  shows "db_ok d' \<and> db_transfers d' = db_transfers d \<and> dev \<notin> td_id ` set (db_devices d) \<and>
    (\<exists>x\<in>set (db_devices d'). td_id x = dev \<and> td_did x = did) \<and>
    (\<exists>x. d' = d\<lparr> db_devices := db_devices d @ [x] \<rparr> \<and> td_id x = dev)"
proof -
  obtain x where d': "d' = d\<lparr> db_devices := db_devices d @ [x] \<rparr>" and x: "td_id x = dev" "td_did x = did" "td_token_hash x = hash"
      and acc: "did \<in> set (db_accounts d)"
      and fresh: "\<forall>y\<in>set (db_devices d). td_id y \<noteq> dev" "\<forall>y\<in>set (db_devices d). td_token_hash y \<noteq> hash"
    using ins by (auto simp: insert_transfer_device_def Let_def list_ex_iff split: if_splits)
  have "uniques_ok d'" using ok fresh x by (auto simp: db_ok_def uniques_ok_def d')
  moreover have "refs_ok d'" using ok acc x by (auto simp: db_ok_def refs_ok_def d')
  moreover have "row_ok d' r" if "r \<in> set (db_transfers d)" for r
    using db_okD(3) [OF ok that] unfolding d' by (rule row_ok_devices) auto
  ultimately show ?thesis using x fresh by (auto simp: db_ok_def d')
qed

lemma delete_device_ok:
  assumes ok: "db_ok d" and del: "delete_transfer_device dev d = Inr (u, d')"
  shows "db_ok d'"
proof -
  have d': "d' = d\<lparr> db_devices := filter (\<lambda>x. td_id x \<noteq> dev) (db_devices d) \<rparr>"
      and free: "(\<forall>x\<in>set (db_devices d). td_id x \<noteq> dev) \<or> (\<forall>r\<in>set (db_transfers d). t_accepted_device_id r \<noteq> Some dev)"
    using del by (auto simp: delete_transfer_device_def list_ex_iff split: if_splits)
  have "uniques_ok d'" using ok by (simp add: db_ok_def uniques_ok_def d' distinct_map_filter)
  moreover have "refs_ok d'" using ok by (auto simp: db_ok_def refs_ok_def d')
  moreover have "row_ok d' r" if "r \<in> set (db_transfers d)" for r
    using db_okD(3) [OF ok that] free that by (fastforce simp: row_ok_def d' events_of_def)
  ultimately show ?thesis by (simp add: db_ok_def d')
qed

lemma uniques_update_same:
  assumes "uniques_ok d" "\<And>r. p r \<Longrightarrow> active r \<and> active (f r)"
    "\<And>r. t_id (f r) = t_id r \<and> t_did (f r) = t_did r \<and> t_code (f r) = t_code r"
  shows "uniques_ok (d\<lparr> db_transfers := update_rows p f (db_transfers d) \<rparr>)"
  using assms by (simp add: uniques_ok_def map_update_rows map_filter_update_rows_on)

lemma mark_accepted_ok:
  assumes ok: "db_ok d" and mark: "mark_transfer_accepted now tid dev d = Inr (k, d')"
    and dev: "\<forall>r\<in>set (db_transfers d). t_id r = tid \<longrightarrow> (\<exists>x\<in>set (db_devices d). td_id x = dev \<and> td_did x = t_did r)"
  shows "db_ok d'"
proof -
  define p :: "transfer \<Rightarrow> bool" where "p = (\<lambda>r. t_id r = tid \<and> t_status r = Pending \<and> now < t_expires_at r)"
  define f :: "transfer \<Rightarrow> transfer"
    where "f = (\<lambda>r. r\<lparr> t_status := Accepted, t_accepted_device_id := Some dev, t_accepted_at := Some now \<rparr>)"
  have d': "d' = d\<lparr> db_transfers := update_rows p f (db_transfers d) \<rparr>"
    using mark by (auto simp: mark_transfer_accepted_def Let_def p_def f_def split: if_splits)
  have f: "t_id (f r) = t_id r" "t_did (f r) = t_did r" "t_code (f r) = t_code r" "active (f r)" for r
    by (simp_all add: f_def active_def)
  have "uniques_ok d'"
    unfolding d' using ok by (intro uniques_update_same) (auto simp: db_ok_def f p_def active_def f_def)
  moreover have "refs_ok d'"
    unfolding d' using ok by (intro refs_update) (auto simp: db_ok_def f)
  moreover have "row_ok d (f r)" if "r \<in> set (db_transfers d)" "p r" for r
    using db_okD(3) [OF ok that(1)] dev that by (auto simp: row_ok_def events_of_def f_def p_def)
  ultimately show ?thesis
    using ok by (auto simp: db_ok_def d' set_update_rows)
qed

text \<open>Finishing an active transfer and recording the event are one step of the invariant.\<close>

definition finish_row :: "transfer_status \<Rightarrow> nat option \<Rightarrow> transfer \<Rightarrow> transfer" where
  "finish_row st at r = r\<lparr> t_status := st, t_completed_at := (if at = None then t_completed_at r else at) \<rparr>"

lemma finish_row_simps [simp]:
  "t_id (finish_row st at r) = t_id r" "t_did (finish_row st at r) = t_did r" "t_code (finish_row st at r) = t_code r"
  "t_status (finish_row st at r) = st" "t_accepted_device_id (finish_row st at r) = t_accepted_device_id r"
  by (simp_all add: finish_row_def)

definition finish :: "str \<Rightarrow> transfer_status \<Rightarrow> nat option \<Rightarrow> audit_event \<Rightarrow> db \<Rightarrow> db" where
  "finish tid st at ev d =
     d\<lparr> db_transfers := update_rows (\<lambda>r. t_id r = tid) (finish_row st at) (db_transfers d),
        db_audit := db_audit d @ [ev] \<rparr>"

definition event_type_of :: "transfer_status \<Rightarrow> str" where
  "event_type_of st = (if st = Complete then ''transfer.complete'' else ''transfer.cancelled'')"

lemma finish_ok:
  assumes ok: "db_ok d" and row: "row \<in> set (db_transfers d)" "t_id row = tid" "active row"
    and st: "st = Complete \<or> st = Cancelled" "st = Complete \<longrightarrow> t_accepted_device_id row \<noteq> None"
    and ev: "ae_transfer_id ev = tid" "ae_did ev = t_did row" "ae_event_type ev = event_type_of st"
      "\<forall>e\<in>set (db_audit d). ae_id e \<noteq> ae_id ev"
  shows "db_ok (finish tid st at ev d)"
proof -
  let ?d = "finish tid st at ev d"
  have only: "r = row" if "r \<in> set (db_transfers d)" "t_id r = tid" for r
    using db_okD(1) [OF ok] row that by (metis distinct_map inj_onD)
  have inact: "\<not> active (finish_row st at r)" for r using st by (auto simp: active_def)
  have "uniques_ok ?d"
    using ok ev(4) unfolding db_ok_def uniques_ok_def finish_def
    by (auto simp: map_update_rows filter_update_rows_off inact distinct_map_filter_less)
  moreover have "refs_ok ?d"
    using ok row ev by (auto simp: db_ok_def refs_ok_def finish_def map_update_rows simp del: set_map) auto
  moreover have ev_other: "events_of ?d ty r = events_of d ty r" if "t_id r \<noteq> tid" for ty r
    using that ev(1) by (auto simp: events_of_def finish_def)
  moreover have "row_ok ?d (finish_row st at row)"
    using db_okD(3) [OF ok row(1)] row st ev
    by (auto simp: row_ok_def finish_def events_of_def active_def event_type_of_def)
  moreover have "row_ok ?d r" if "r \<in> set (db_transfers d)" "t_id r \<noteq> tid" for r
    using db_okD(3) [OF ok that(1)] ev_other [OF that(2)] by (simp add: row_ok_def finish_def)
  ultimately show ?thesis
    using only by (auto simp: db_ok_def finish_def set_update_rows)
qed

text \<open>Revoking devices and dropping sessions touches nothing the invariant looks at.\<close>

lemma revoke_ok:
  assumes ok: "db_ok d"
  shows "db_ok (d\<lparr> db_devices := update_rows p (\<lambda>x. x\<lparr> td_revoked_at := Some now \<rparr>) (db_devices d) \<rparr>)"
proof -
  let ?devs = "update_rows p (\<lambda>x. x\<lparr> td_revoked_at := Some now \<rparr>) (db_devices d)"
  have keep: "\<exists>x'\<in>set ?devs. td_id x' = td_id x \<and> td_did x' = td_did x" if "x \<in> set (db_devices d)" for x
    by (rule bexI [of _ "if p x then x\<lparr> td_revoked_at := Some now \<rparr> else x"])
      (use that in \<open>auto simp: set_update_rows\<close>)
  have "row_ok (d\<lparr> db_devices := ?devs \<rparr>) r" if "r \<in> set (db_transfers d)" for r
    using db_okD(3) [OF ok that] by (rule row_ok_devices) (use keep in blast)
  then show ?thesis
    using ok by (auto simp: db_ok_def uniques_ok_def refs_ok_def map_update_rows set_update_rows)
qed

lemma sessions_ok [simp]: "db_ok (d\<lparr> db_sessions := ss \<rparr>) = db_ok d" "db_ok (d\<lparr> db_refresh_tokens := rs \<rparr>) = db_ok d"
  by (simp_all add: db_ok_def uniques_ok_def refs_ok_def row_ok_def events_of_def)

section \<open>Each workflow keeps the invariant\<close>

lemma insert_transfer_ok: "db_ok d \<Longrightarrow> db_ok (fst (insert_transfer n clk tid did code ttl d))"
  using insert_pending_ok [OF expire_stmts_ok(1)]
  by (fastforce simp: insert_transfer_def split: sum.splits prod.splits)

lemma transact_ok:
  "db_ok d \<Longrightarrow> (\<And>x d'. body d = Inr (x, d') \<Longrightarrow> db_ok d') \<Longrightarrow> db_ok (fst (transact body d))"
  by (auto simp: transact_def split: sum.splits prod.splits)

lemma active_transfer_for_codeD:
  "active_transfer_for_code code d = Some r \<Longrightarrow> r \<in> set (db_transfers d) \<and> t_code r = code \<and> active r"
  unfolding active_transfer_for_code_def active_def by (drule find_SomeD) simp

lemma transfer_by_idD: "transfer_by_id tid d = Some r \<Longrightarrow> r \<in> set (db_transfers d) \<and> t_id r = tid"
  unfolding transfer_by_id_def by (drule find_SomeD) simp

lemma accept_transfer_ok:
  assumes ok: "db_ok d"
  shows "db_ok (fst (accept_transfer n clk code dev platform key hash d))"
  unfolding accept_transfer_def
proof (rule transact_ok [OF ok])
  fix x d'
  assume run: "accept_transfer_tx n clk code dev platform key hash d = Inr (x, d')"
  define d1 where "d1 = expire_pending_code (clk 0) code d"
  have ok1: "db_ok d1" using expire_stmts_ok [OF ok] by (simp add: d1_def)
  show "db_ok d'"
  proof (cases "active_transfer_for_code code d1")
    case None
    then show ?thesis using run ok1 by (simp add: accept_transfer_tx_def d1_def)
  next
    case (Some row)
    note row = active_transfer_for_codeD [OF Some]
    show ?thesis
    proof (cases "t_status row = Pending")
      case False
      then show ?thesis using run Some ok1 by (simp add: accept_transfer_tx_def d1_def)
    next
      case True
      then obtain u d2 k d3 where ins: "insert_transfer_device n (clk 1) dev (t_did row) platform key hash d1 = Inr (u, d2)"
          and mark: "mark_transfer_accepted (clk 2) (t_id row) dev d2 = Inr (k, d3)"
          and rest: "(if k \<noteq> 1 then res_bind (delete_transfer_device dev d3)
               (\<lambda>(_, d4). Inr (InvalidOrExpired, expire_pending_transfer_if_elapsed (clk 3) (t_id row) d4))
             else Inr (AcceptedBy (t_id row), d3)) = Inr (x, d')"
        using run Some by (auto simp: accept_transfer_tx_def d1_def Let_def)
      note d2 = insert_device_ok [OF ok1 ins]
      have "r = row" if "r \<in> set (db_transfers d1)" "t_id r = t_id row" for r
        using db_okD(1) [OF ok1] row that by (metis distinct_map inj_onD)
      then have ok3: "db_ok d3"
        using d2 by (intro mark_accepted_ok [OF _ mark]) auto
      show ?thesis
        using rest ok3 delete_device_ok [OF ok3] expire_stmts_ok(3) by (auto split: if_splits)
    qed
  qed
qed

lemma update_rows_cong:
  "(\<And>r. r \<in> set rows \<Longrightarrow> p r = q r) \<Longrightarrow> (\<And>r. r \<in> set rows \<Longrightarrow> q r \<Longrightarrow> f r = g r) \<Longrightarrow>
   update_rows p f rows = update_rows q g rows"
  by (simp add: update_rows_def)

text \<open>A successful completion, written as \<open>finish\<close> followed by the revocations.\<close>

definition complete_event :: "(nat \<Rightarrow> nat) \<Rightarrow> str \<Rightarrow> transfer \<Rightarrow> str \<Rightarrow> audit_event" where
  "complete_event clk event_id row dev =
     \<lparr> ae_id = event_id, ae_transfer_id = t_id row, ae_did = t_did row, ae_event_type = ''transfer.complete'',
        ae_actor = Some dev, ae_created_at = clk 3 \<rparr>"

definition completed_db :: "(nat \<Rightarrow> nat) \<Rightarrow> str \<Rightarrow> transfer \<Rightarrow> str \<Rightarrow> db \<Rightarrow> db" where
  "completed_db clk event_id row dev d =
     revoke_other_transfer_devices (clk 2) (t_did row) dev
       (delete_sessions_for_did (t_did row) (delete_refresh_tokens_for_did (t_did row)
         (finish (t_id row) Complete (Some (clk 1)) (complete_event clk event_id row dev) d)))"

lemma only_row:
  assumes "db_ok d" "row \<in> set (db_transfers d)" "r \<in> set (db_transfers d)" "t_id r = t_id row"
  shows "r = row"
  using db_okD(1) [OF assms(1)] assms(2-4) by (metis distinct_map inj_onD)

lemma complete_transfer_shape:
  assumes ok: "db_ok d" and row: "transfer_by_id tid d = Some row" "t_accepted_device_id row = Some dev" "t_status row = Accepted"
    and auth: "session_token_matches_did (clk 0) (t_did row) hash d \<or> transfer_device_token_matches dev hash d"
  shows "complete_transfer_tx clk event_id tid hash d =
    (if list_ex (\<lambda>e. ae_id e = event_id) (db_audit d) then Inl (UniqueViolation ''transfer_audit_events'' ''id'')
     else Inr (Completed tid, completed_db clk event_id row dev d))"
proof -
  have r: "row \<in> set (db_transfers d)" "t_id row = tid" using transfer_by_idD [OF row(1)] by auto
  have "count_rows (\<lambda>r. t_id r = tid \<and> t_status r \<in> {Accepted, Completing}) (db_transfers d) = 1"
    using count_rows_key [OF db_okD(1) [OF ok] r, of "\<lambda>r. t_status r \<in> {Accepted, Completing}"] row(3) by simp
  moreover have "update_rows (\<lambda>r. t_id r = tid \<and> t_status r \<in> {Accepted, Completing})
      (\<lambda>r. r\<lparr> t_status := Complete, t_completed_at := Some (clk 1) \<rparr>) (db_transfers d) =
      update_rows (\<lambda>r. t_id r = tid) (finish_row Complete (Some (clk 1))) (db_transfers d)"
    using only_row [OF ok r(1)] r(2) row(3) by (intro update_rows_cong) (auto simp: finish_row_def)
  ultimately have mark: "mark_transfer_complete (clk 1) tid d =
      (1, d\<lparr> db_transfers := update_rows (\<lambda>r. t_id r = tid) (finish_row Complete (Some (clk 1))) (db_transfers d) \<rparr>)"
    by (simp add: mark_transfer_complete_def Let_def)
  have ids: "list_ex (\<lambda>r. t_id r = tid) (update_rows (\<lambda>r. t_id r = tid) (finish_row st at) (db_transfers d))" for st at
    using r by (subst list_ex_update_rows) (auto simp: list_ex_iff)
  have "t_did row \<in> set (db_accounts d)" using db_okD(3) [OF ok r(1)] by (simp add: row_ok_def)
  then show ?thesis
    using row auth r
    by (auto simp: complete_transfer_tx_def mark insert_transfer_audit_event_def completed_db_def complete_event_def finish_def
        delete_refresh_tokens_for_did_def delete_sessions_for_did_def revoke_other_transfer_devices_def Let_def ids
        simp del: One_nat_def)
qed

lemma completed_db_ok:
  assumes ok: "db_ok d" and row: "row \<in> set (db_transfers d)" "t_accepted_device_id row = Some dev" "t_status row = Accepted"
    and fresh: "\<not> list_ex (\<lambda>e. ae_id e = event_id) (db_audit d)"
  shows "db_ok (completed_db clk event_id row dev d)"
proof -
  have "db_ok (finish (t_id row) Complete (Some (clk 1)) (complete_event clk event_id row dev) d)"
    using row fresh by (intro finish_ok [OF ok row(1)]) (auto simp: active_def complete_event_def event_type_of_def list_ex_iff)
  then show ?thesis
    unfolding completed_db_def revoke_other_transfer_devices_def
    by (intro revoke_ok) (simp add: delete_refresh_tokens_for_did_def delete_sessions_for_did_def)
qed

lemma complete_transfer_cases:
  assumes ok: "db_ok d" and run: "complete_transfer_tx clk event_id tid hash d = Inr (out, d')"
  obtains "d' = d"
  | row dev where "transfer_by_id tid d = Some row" "t_accepted_device_id row = Some dev" "t_status row = Accepted"
      "\<not> list_ex (\<lambda>e. ae_id e = event_id) (db_audit d)"
      "out = Completed tid" "d' = completed_db clk event_id row dev d"
proof (cases "\<exists>row dev. transfer_by_id tid d = Some row \<and> t_accepted_device_id row = Some dev \<and> t_status row = Accepted \<and>
    (session_token_matches_did (clk 0) (t_did row) hash d \<or> transfer_device_token_matches dev hash d)")
  case True
  then obtain row dev where row: "transfer_by_id tid d = Some row" "t_accepted_device_id row = Some dev" "t_status row = Accepted"
    "session_token_matches_did (clk 0) (t_did row) hash d \<or> transfer_device_token_matches dev hash d" by blast
  show thesis
    using run complete_transfer_shape [OF ok row(1-3), of clk hash event_id] row(4) that(2) [OF row(1-3)] by (auto split: if_splits)
next
  case False
  have "t_status row \<noteq> Completing" if "transfer_by_id tid d = Some row" for row
    using db_okD(3) [OF ok, of row] transfer_by_idD [OF that] by (simp add: row_ok_def)
  then have "d' = d"
    using run False by (auto simp: complete_transfer_tx_def Let_def split: option.splits if_splits)
  then show thesis by (rule that(1))
qed

lemma complete_transfer_ok: "db_ok d \<Longrightarrow> db_ok (fst (complete_transfer clk event_id tid hash d))"
  unfolding complete_transfer_def
proof (rule transact_ok, assumption)
  fix out d'
  assume ok: "db_ok d" and run: "complete_transfer_tx clk event_id tid hash d = Inr (out, d')"
  show "db_ok d'"
    using ok run by (rule complete_transfer_cases) (use ok completed_db_ok transfer_by_idD in blast)+
qed

text \<open>A successful cancellation likewise.\<close>

definition cancel_event :: "(nat \<Rightarrow> nat) \<Rightarrow> str \<Rightarrow> transfer \<Rightarrow> audit_event" where
  "cancel_event clk event_id row =
     \<lparr> ae_id = event_id, ae_transfer_id = t_id row, ae_did = t_did row, ae_event_type = ''transfer.cancelled'',
        ae_actor = None, ae_created_at = clk 2 \<rparr>"

definition revoke_accepted :: "nat \<Rightarrow> str option \<Rightarrow> db \<Rightarrow> db" where
  "revoke_accepted now dev d =
     (case dev of None \<Rightarrow> d
      | Some x \<Rightarrow> d\<lparr> db_devices := update_rows (\<lambda>r. td_id r = x \<and> td_revoked_at r = None)
            (\<lambda>r. r\<lparr> td_revoked_at := Some now \<rparr>) (db_devices d) \<rparr>)"

definition cancelled_db :: "(nat \<Rightarrow> nat) \<Rightarrow> str \<Rightarrow> transfer \<Rightarrow> db \<Rightarrow> db" where
  "cancelled_db clk event_id row d =
     revoke_accepted (clk 1) (t_accepted_device_id row) (finish (t_id row) Cancelled None (cancel_event clk event_id row) d)"

lemma cancel_transfer_shape:
  fixes d0 clk tid
  defines "d \<equiv> expire_pending_transfer_if_elapsed (clk 0) tid d0"
  assumes ok: "db_ok d" and row: "transfer_by_id tid d = Some row" "active row"
  shows "cancel_transfer_tx clk event_id tid d0 =
    (if list_ex (\<lambda>e. ae_id e = event_id) (db_audit d) then Inl (UniqueViolation ''transfer_audit_events'' ''id'')
     else Inr (CancelledNow (case t_accepted_device_id row of None \<Rightarrow> False
         | Some x \<Rightarrow> list_ex (\<lambda>r. td_id r = x \<and> td_revoked_at r = None) (db_devices d)),
       cancelled_db clk event_id row d))"
proof -
  have r: "row \<in> set (db_transfers d)" "t_id row = tid" using transfer_by_idD [OF row(1)] by auto
  have act: "is_active (t_status row)" using row(2) by (simp add: active_def)
  have "count_rows (\<lambda>r. t_id r = tid \<and> is_active (t_status r)) (db_transfers d) = 1"
    using count_rows_key [OF db_okD(1) [OF ok] r, of "\<lambda>r. is_active (t_status r)"] act by simp
  moreover have "update_rows (\<lambda>r. t_id r = tid \<and> is_active (t_status r)) (\<lambda>r. r\<lparr> t_status := Cancelled \<rparr>) (db_transfers d) =
      update_rows (\<lambda>r. t_id r = tid) (finish_row Cancelled None) (db_transfers d)"
    using only_row [OF ok r(1)] r(2) act by (intro update_rows_cong) (auto simp: finish_row_def)
  ultimately have mark: "mark_transfer_cancelled tid d =
      (1, d\<lparr> db_transfers := update_rows (\<lambda>r. t_id r = tid) (finish_row Cancelled None) (db_transfers d) \<rparr>)"
    by (simp add: mark_transfer_cancelled_def Let_def)
  have ids: "list_ex (\<lambda>r. t_id r = tid) (update_rows (\<lambda>r. t_id r = tid) (finish_row st at) (db_transfers d))" for st at
    using r by (subst list_ex_update_rows) (auto simp: list_ex_iff)
  have pos: "0 < count_rows p rows \<longleftrightarrow> list_ex p rows" for p and rows :: "transfer_device list"
    using count_rows_zero_iff [of p rows] by (auto simp: list_ex_iff)
  have "t_did row \<in> set (db_accounts d)" using db_okD(3) [OF ok r(1)] by (simp add: row_ok_def)
  then show ?thesis
    using row act r
    by (cases "t_accepted_device_id row")
      (auto simp: cancel_transfer_tx_def d_def [symmetric] mark insert_transfer_audit_event_def cancelled_db_def cancel_event_def finish_def
        revoke_accepted_def revoke_transfer_device_def Let_def ids pos simp del: One_nat_def)
qed

end
