(* ===== verification/Transfer_System.thy ===== *)
theory Transfer_System
  imports Transfer_Correct
begin

text \<open>
  The transfer tables as a state machine: the handlers of the relay, the operator's actions and
  the account life cycle as steps, the invariant of every reachable database, the life of a single
  transfer, and what completion, cancellation and expiry do to the credentials.
\<close>

section \<open>Steps that keep the invariant\<close>

lemma cancelled_db_ok:
  assumes ok: "db_ok d" and row: "row \<in> set (db_transfers d)" "active row"
    and fresh: "\<not> list_ex (\<lambda>e. ae_id e = event_id) (db_audit d)"
  shows "db_ok (cancelled_db clk event_id row d)"
proof -
  have "db_ok (finish (t_id row) Cancelled None (cancel_event clk event_id row) d)"
    using row fresh by (intro finish_ok [OF ok row(1)]) (auto simp: cancel_event_def event_type_of_def list_ex_iff)
  then show ?thesis
    unfolding cancelled_db_def revoke_accepted_def by (auto intro: revoke_ok split: option.splits)
qed

lemma cancel_transfer_cases:
  fixes d0 clk tid
  defines "d \<equiv> expire_pending_transfer_if_elapsed (clk 0) tid d0"
  assumes ok: "db_ok d" and run: "cancel_transfer_tx clk event_id tid d0 = Inr (out, d')"
  obtains "d' = d" "\<And>b. out \<noteq> CancelledNow b"
  | row where "transfer_by_id tid d = Some row" "active row" "\<not> list_ex (\<lambda>e. ae_id e = event_id) (db_audit d)"
      "d' = cancelled_db clk event_id row d"
      "out = CancelledNow (case t_accepted_device_id row of None \<Rightarrow> False
         | Some x \<Rightarrow> list_ex (\<lambda>r. td_id r = x \<and> td_revoked_at r = None) (db_devices d))"
proof (cases "\<exists>row. transfer_by_id tid d = Some row \<and> active row")
  case True
  then obtain row where row: "transfer_by_id tid d = Some row" "active row" by blast
  show thesis
    using run cancel_transfer_shape [where clk = clk and tid = tid and ?d0.0 = d0, folded d_def, OF ok row, of event_id] that(2) [OF row]
    by (auto split: if_splits)
next
  case False
  then have "d' = d" "\<And>b. out \<noteq> CancelledNow b"
    using run by (auto simp: cancel_transfer_tx_def d_def active_def Let_def split: option.splits if_splits)
  then show thesis by (rule that(1))
qed

lemma cancel_transfer_ok: "db_ok d \<Longrightarrow> db_ok (fst (cancel_transfer clk event_id tid d))"
  unfolding cancel_transfer_def
proof (rule transact_ok, assumption)
  fix out d'
  assume ok: "db_ok d" and run: "cancel_transfer_tx clk event_id tid d = Inr (out, d')"
  have ok1: "db_ok (expire_pending_transfer_if_elapsed (clk 0) tid d)" using expire_stmts_ok(3) [OF ok] .
  show "db_ok d'"
    using ok1 run by (rule cancel_transfer_cases) (use ok1 cancelled_db_ok transfer_by_idD in blast)+
qed

lemma revoke_credentials_ok: "db_ok d \<Longrightarrow> db_ok (revoke_credentials now did d)"
  unfolding revoke_credentials_def Let_def
  by (intro revoke_ok) (simp add: delete_refresh_tokens_for_did_def delete_sessions_for_did_def)

lemma count_rows_filter: "(\<And>x. x \<in> set rows \<Longrightarrow> p x \<Longrightarrow> q x) \<Longrightarrow> count_rows p (filter q rows) = count_rows p rows"
  by (induction rows) (auto simp: count_rows_def)

lemma purge_ok:
  assumes ok: "db_ok d"
  shows "db_ok (purge_transfers did d)"
proof -
  define d1 where "d1 = d\<lparr> db_refresh_tokens := filter (\<lambda>r. rt_did r \<noteq> did) (db_refresh_tokens d),
    db_sessions := filter (\<lambda>r. s_did r \<noteq> did) (db_sessions d) \<rparr>"
  have ok1: "db_ok d1" using ok by (simp add: d1_def)
  have p: "purge_transfers did d = d1\<lparr> db_audit := filter (\<lambda>r. ae_did r \<noteq> did) (db_audit d1),
      db_transfers := filter (\<lambda>r. t_did r \<noteq> did) (db_transfers d1),
      db_devices := filter (\<lambda>r. td_did r \<noteq> did) (db_devices d1),
      db_accounts := filter (\<lambda>a. a \<noteq> did) (db_accounts d1) \<rparr>"
    by (simp add: purge_transfers_def delete_sessions_for_did_def delete_refresh_tokens_for_did_def d1_def Let_def)
  have "uniques_ok (purge_transfers did d)"
    using ok1 unfolding db_ok_def uniques_ok_def p
    by (auto simp: distinct_map_filter distinct_map_filter_less conj_commute)
  moreover have "refs_ok (purge_transfers did d)"
    using ok1 by (auto simp: db_ok_def refs_ok_def p image_iff)
  moreover have "row_ok (purge_transfers did d) r" if r: "r \<in> set (db_transfers d1)" "t_did r \<noteq> did" for r
  proof -
    have own: "ae_did e = t_did r" if "e \<in> set (db_audit d1)" "ae_transfer_id e = t_id r" for e
    proof -
      have "(ae_transfer_id e, ae_did e) \<in> set (map (\<lambda>r. (t_id r, t_did r)) (db_transfers d1))"
        using ok1 that(1) unfolding db_ok_def refs_ok_def by blast
      then obtain r' where "r' \<in> set (db_transfers d1)" "t_id r' = ae_transfer_id e" "t_did r' = ae_did e" by auto
      then show ?thesis using only_row [OF ok1 r(1)] that(2) by metis
    qed
    have "events_of (purge_transfers did d) ty r = events_of d1 ty r" for ty
      unfolding events_of_def p using own r(2) by (simp, intro count_rows_filter, simp)
    moreover have "\<exists>x\<in>set (db_devices (purge_transfers did d)). td_id x = dev \<and> td_did x = t_did r"
      if "t_accepted_device_id r = Some dev" for dev
      using db_okD(3) [OF ok1 r(1)] r(2) that unfolding row_ok_def by (fastforce simp: p)
    ultimately show ?thesis
      using db_okD(3) [OF ok1 r(1)] r(2) by (simp add: row_ok_def) (simp add: p)
  qed
  ultimately show ?thesis by (auto simp: db_ok_def p)
qed

lemma initiate_loop_ok: "db_ok d \<Longrightarrow> db_ok (fst (initiate_loop k gen tid did d))"
proof (induction k gen tid did d rule: initiate_loop.induct)
  case (1 gen tid did d)
  then show ?case by simp
next
  case (2 left gen tid did d)
  obtain n code clk where g: "gen left = (n, code, clk)" by (cases "gen left")
  obtain d1 out where r: "insert_transfer n clk tid did code transfer_ttl_minutes d = (d1, out)" by fastforce
  have "db_ok d1" using insert_transfer_ok [OF "2.prems", of n clk tid did code transfer_ttl_minutes] r by simp
  then show ?case using "2.IH" g r by (auto split: sum.splits initiate_outcome.splits)
qed

section \<open>Reachable databases\<close>

inductive tstep :: "db \<Rightarrow> db \<Rightarrow> bool" where
  step_initiate: "tstep d (fst (transfer_initiate gen tid did d))"
| step_accept: "tstep d (fst (accept_transfer n clk code dev platform key hash d))"
| step_complete: "tstep d (fst (complete_transfer clk event_id tid hash d))"
| step_cancel: "tstep d (fst (cancel_transfer clk event_id tid d))"
| step_revoke: "tstep d (revoke_credentials now did d)"
| step_purge: "tstep d (purge_transfers did d)"
| step_account: "tstep d (d\<lparr> db_accounts := did # db_accounts d \<rparr>)"
| step_sessions: "tstep d (d\<lparr> db_sessions := ss, db_refresh_tokens := rs \<rparr>)"

inductive_cases tstepE: "tstep d d'"

definition empty_db :: db where
  "empty_db = \<lparr> db_accounts = [], db_transfers = [], db_devices = [], db_audit = [], db_sessions = [], db_refresh_tokens = [] \<rparr>"

inductive reachable :: "db \<Rightarrow> bool" where
  reach_start: "reachable empty_db"
| reach_step: "reachable d \<Longrightarrow> tstep d d' \<Longrightarrow> reachable d'"

lemma account_ok: "db_ok d \<Longrightarrow> db_ok (d\<lparr> db_accounts := did # db_accounts d \<rparr>)"
  by (auto simp: db_ok_def uniques_ok_def refs_ok_def row_ok_def events_of_def)

lemma tstep_ok: "tstep d d' \<Longrightarrow> db_ok d \<Longrightarrow> db_ok d'"
  by (erule tstepE)
    (simp_all add: transfer_initiate_def initiate_loop_ok accept_transfer_ok complete_transfer_ok cancel_transfer_ok
      revoke_credentials_ok purge_ok account_ok)

lemma reachable_ok: "reachable d \<Longrightarrow> db_ok d"
proof (induction rule: reachable.induct)
  case reach_start
  then show ?case by (simp add: empty_db_def db_ok_def uniques_ok_def refs_ok_def)
next
  case (reach_step d d')
  then show ?case using tstep_ok by blast
qed

section \<open>The life of a transfer\<close>

fun may_become :: "transfer_status \<Rightarrow> transfer_status \<Rightarrow> bool" where
  "may_become Pending s = (s \<noteq> Completing)"
| "may_become Accepted s = (s \<noteq> Pending \<and> s \<noteq> Completing)"
| "may_become s s' = (s' = s)"

definition follows :: "transfer \<Rightarrow> transfer \<Rightarrow> bool" where
  "follows r r' \<longleftrightarrow> t_id r' = t_id r \<and> t_did r' = t_did r \<and> t_code r' = t_code r \<and> t_expires_at r' = t_expires_at r \<and>
     may_become (t_status r) (t_status r') \<and>
     (t_accepted_device_id r \<noteq> None \<longrightarrow> t_accepted_device_id r' = t_accepted_device_id r)"

definition evolves :: "db \<Rightarrow> db \<Rightarrow> bool" where
  "evolves d d' \<longleftrightarrow> (\<forall>r\<in>set (db_transfers d). \<exists>r'\<in>set (db_transfers d'). follows r r')"

lemma may_become_refl [simp]: "may_become s s" by (cases s) simp_all

lemma follows_refl [simp]: "follows r r" by (simp add: follows_def)

lemma evolves_same: "db_transfers d' = db_transfers d \<Longrightarrow> evolves d d'"
  unfolding evolves_def using follows_refl by metis

lemma evolves_update:
  assumes "db_transfers d' = update_rows p f (db_transfers d)" "\<And>r. r \<in> set (db_transfers d) \<Longrightarrow> p r \<Longrightarrow> follows r (f r)"
  shows "evolves d d'"
  unfolding evolves_def
proof
  fix r assume r: "r \<in> set (db_transfers d)"
  then show "\<exists>r'\<in>set (db_transfers d'). follows r r'"
    by (intro bexI [of _ "if p r then f r else r"]) (use assms in \<open>auto simp: set_update_rows\<close>)
qed

lemma may_become_expired: "is_active s \<Longrightarrow> s \<noteq> Completing \<Longrightarrow> may_become s Expired \<and> may_become s Cancelled"
  by (cases s) simp_all

lemma not_completing: "db_ok d \<Longrightarrow> r \<in> set (db_transfers d) \<Longrightarrow> t_status r \<noteq> Completing"
  using db_okD(3) by (fastforce simp: row_ok_def)

lemma evolves_expire:
  assumes "db_ok d" "\<And>r. p r \<Longrightarrow> active r"
  shows "evolves d (expire_where p d)"
  by (rule evolves_update [where p = p and f = "\<lambda>r. r\<lparr> t_status := Expired \<rparr>"])
    (use assms not_completing may_become_expired in \<open>auto simp: expire_where_def follows_def active_def\<close>)

lemma evolves_insert:
  assumes "db_ok d"
  shows "evolves d (fst (insert_transfer n clk tid did code ttl d))"
proof (cases "insert_pending n (clk 1) tid did code ttl (sweep_expired_did (clk 0) did d)")
  case (Inl e)
  then show ?thesis by (simp add: insert_transfer_def evolves_same)
next
  case (Inr res)
  then obtain new where "db_transfers (snd res) = db_transfers (sweep_expired_did (clk 0) did d) @ [new]"
    by (auto simp: insert_pending_def Let_def split: if_splits)
  moreover have "evolves d (sweep_expired_did (clk 0) did d)"
    unfolding expire_stmts by (rule evolves_expire [OF assms]) (simp add: active_def)
  ultimately show ?thesis
    using Inr by (cases res) (auto simp: insert_transfer_def evolves_def)
qed

lemma may_become_trans: "may_become a b \<Longrightarrow> may_become b c \<Longrightarrow> may_become a c"
  by (cases a; cases b) auto

lemma follows_trans: "follows a b \<Longrightarrow> follows b c \<Longrightarrow> follows a c"
  unfolding follows_def using may_become_trans by auto

lemma evolves_trans: "evolves d d1 \<Longrightarrow> evolves d1 d2 \<Longrightarrow> evolves d d2"
  unfolding evolves_def using follows_trans by blast

lemma evolves_initiate: "db_ok d \<Longrightarrow> evolves d (fst (initiate_loop k gen tid did d))"
proof (induction k gen tid did d rule: initiate_loop.induct)
  case (1 gen tid did d)
  then show ?case by (simp add: evolves_same)
next
  case (2 left gen tid did d)
  obtain n code clk where g: "gen left = (n, code, clk)" by (cases "gen left")
  obtain d1 out where r: "insert_transfer n clk tid did code transfer_ttl_minutes d = (d1, out)" by fastforce
  have "db_ok d1" "evolves d d1"
    using insert_transfer_ok [OF "2.prems"] evolves_insert [OF "2.prems"] r by (metis fst_conv)+
  then show ?case using "2.IH" g r evolves_trans by (auto split: sum.splits initiate_outcome.splits)
qed

lemma evolves_transact:
  "(\<And>x d'. body d = Inr (x, d') \<Longrightarrow> evolves d d') \<Longrightarrow> evolves d (fst (transact body d))"
  by (auto simp: transact_def evolves_same split: sum.splits)

lemma evolves_accept:
  assumes ok: "db_ok d"
  shows "evolves d (fst (accept_transfer n clk code dev platform key hash d))"
  unfolding accept_transfer_def
proof (rule evolves_transact)
  fix x d'
  assume run: "accept_transfer_tx n clk code dev platform key hash d = Inr (x, d')"
  define d1 where "d1 = expire_pending_code (clk 0) code d"
  have e1: "evolves d d1"
    unfolding d1_def expire_stmts by (rule evolves_expire [OF ok]) (simp add: active_def)
  have ok1: "db_ok d1" using expire_stmts_ok(2) [OF ok] by (simp add: d1_def)
  have mark: "evolves d2 d3" if "mark_transfer_accepted t tid dev d2 = Inr (k, d3)" "db_transfers d2 = db_transfers d1" for t tid d2 k d3
  proof (rule evolves_update)
    show "db_transfers d3 = update_rows (\<lambda>r. t_id r = tid \<and> t_status r = Pending \<and> t < t_expires_at r)
       (\<lambda>r. r\<lparr> t_status := Accepted, t_accepted_device_id := Some dev, t_accepted_at := Some t \<rparr>) (db_transfers d2)"
      using that(1) by (auto simp: mark_transfer_accepted_def Let_def split: if_splits)
    show "follows r (r\<lparr> t_status := Accepted, t_accepted_device_id := Some dev, t_accepted_at := Some t \<rparr>)"
      if "r \<in> set (db_transfers d2)" "t_id r = tid \<and> t_status r = Pending \<and> t < t_expires_at r" for r
      using db_okD(3) [OF ok1, of r] that \<open>db_transfers d2 = _\<close> by (simp add: follows_def row_ok_def)
  qed
  have last: "evolves d3 (expire_pending_transfer_if_elapsed t tid d4)"
    if "delete_transfer_device dev d3 = Inr (u, d4)" "db_ok d3" for d3 d4 t tid u
  proof -
    have "db_transfers d4 = db_transfers d3" using that(1) by (auto simp: delete_transfer_device_def split: if_splits)
    moreover have "evolves d4 (expire_pending_transfer_if_elapsed t tid d4)"
      unfolding expire_stmts by (rule evolves_expire [OF delete_device_ok [OF that(2,1)]]) (simp add: active_def)
    ultimately show ?thesis using evolves_same evolves_trans by metis
  qed
  show "evolves d d'"
  proof (cases "active_transfer_for_code code d1")
    case None
    then show ?thesis using run e1 by (simp add: accept_transfer_tx_def d1_def)
  next
    case (Some row)
    show ?thesis
    proof (cases "t_status row = Pending")
      case False
      then show ?thesis using run Some e1 by (simp add: accept_transfer_tx_def d1_def)
    next
      case True
      then obtain u d2 k d3 where ins: "insert_transfer_device n (clk 1) dev (t_did row) platform key hash d1 = Inr (u, d2)"
          and mk: "mark_transfer_accepted (clk 2) (t_id row) dev d2 = Inr (k, d3)"
          and rest: "(if k \<noteq> 1 then res_bind (delete_transfer_device dev d3)
               (\<lambda>(_, d4). Inr (InvalidOrExpired, expire_pending_transfer_if_elapsed (clk 3) (t_id row) d4))
             else Inr (AcceptedBy (t_id row), d3)) = Inr (x, d')"
        using run Some by (auto simp: accept_transfer_tx_def d1_def Let_def)
      note d2 = insert_device_ok [OF ok1 ins]
      have row: "row \<in> set (db_transfers d1)" using active_transfer_for_codeD [OF Some] by simp
      then have ok3: "db_ok d3"
        using d2 only_row [OF ok1 row] by (intro mark_accepted_ok [OF _ mk]) auto
      have "evolves d d3"
        using e1 evolves_same [of d2 d1] d2 mark [OF mk] evolves_trans by metis
      then show ?thesis
        using rest last [OF _ ok3] evolves_trans by (fastforce split: if_splits)
    qed
  qed
qed

lemma evolves_finish:
  assumes "db_ok d" "row \<in> set (db_transfers d)" "may_become (t_status row) st"
  shows "evolves d (finish (t_id row) st at ev d)"
  by (rule evolves_update [where p = "\<lambda>r. t_id r = t_id row" and f = "finish_row st at"])
    (use assms only_row in \<open>auto simp: finish_def follows_def finish_row_def\<close>)

lemma evolves_complete:
  assumes ok: "db_ok d"
  shows "evolves d (fst (complete_transfer clk event_id tid hash d))"
  unfolding complete_transfer_def
proof (rule evolves_transact)
  fix out d'
  assume run: "complete_transfer_tx clk event_id tid hash d = Inr (out, d')"
  show "evolves d d'"
    using ok run
  proof (rule complete_transfer_cases)
    assume "d' = d"
    then show ?thesis by (simp add: evolves_same)
  next
    fix row dev
    assume row: "transfer_by_id tid d = Some row" "t_status row = Accepted" "d' = completed_db clk event_id row dev d"
    have "evolves d (finish (t_id row) Complete (Some (clk 1)) (complete_event clk event_id row dev) d)"
      using ok transfer_by_idD [OF row(1)] row(2) by (intro evolves_finish) auto
    then show ?thesis
      unfolding row(3) completed_db_def
      by (rule evolves_trans)
        (simp add: evolves_same delete_refresh_tokens_for_did_def delete_sessions_for_did_def revoke_other_transfer_devices_def)
  qed
qed

lemma evolves_cancel:
  assumes ok: "db_ok d"
  shows "evolves d (fst (cancel_transfer clk event_id tid d))"
  unfolding cancel_transfer_def
proof (rule evolves_transact)
  fix out d'
  assume run: "cancel_transfer_tx clk event_id tid d = Inr (out, d')"
  let ?d1 = "expire_pending_transfer_if_elapsed (clk 0) tid d"
  have ok1: "db_ok ?d1" using expire_stmts_ok(3) [OF ok] .
  have e1: "evolves d ?d1" unfolding expire_stmts by (rule evolves_expire [OF ok]) (simp add: active_def)
  show "evolves d d'"
    using ok1 run
  proof (rule cancel_transfer_cases)
    assume "d' = ?d1"
    then show ?thesis using e1 by simp
  next
    fix row
    assume row: "transfer_by_id tid ?d1 = Some row" "active row" "d' = cancelled_db clk event_id row ?d1"
    note r = transfer_by_idD [OF row(1)]
    have "evolves ?d1 (finish (t_id row) Cancelled None (cancel_event clk event_id row) ?d1)"
      using r row(2) not_completing [OF ok1, of row] may_become_expired [of "t_status row"]
      by (intro evolves_finish [OF ok1]) (auto simp: active_def)
    then have "evolves ?d1 d'"
      unfolding row(3) cancelled_db_def
      by (rule evolves_trans) (simp add: evolves_same revoke_accepted_def split: option.splits)
    then show ?thesis using e1 evolves_trans by blast
  qed
qed

lemma tstep_follows:
  assumes step: "tstep d d'" and ok: "db_ok d" and r: "r \<in> set (db_transfers d)" "t_did r \<in> set (db_accounts d')"
  shows "\<exists>r'\<in>set (db_transfers d'). follows r r'"
proof -
  have "evolves d d' \<or> (\<exists>did. d' = purge_transfers did d)"
    using step
  proof (rule tstepE)
    fix now did assume "d' = revoke_credentials now did d"
    then show ?thesis
      by (simp add: evolves_same revoke_credentials_def delete_refresh_tokens_for_did_def delete_sessions_for_did_def Let_def)
  qed (use ok in \<open>auto simp: transfer_initiate_def evolves_initiate evolves_accept evolves_complete evolves_cancel intro: evolves_same\<close>)
  then show ?thesis
  proof
    assume "evolves d d'"
    then show ?thesis using r(1) by (simp add: evolves_def)
  next
    assume "\<exists>did. d' = purge_transfers did d"
    then obtain did where d': "d' = purge_transfers did d" by blast
    then have "r \<in> set (db_transfers d')"
      using r by (auto simp: purge_transfers_def delete_refresh_tokens_for_did_def delete_sessions_for_did_def Let_def)
    then show ?thesis using follows_refl by blast
  qed
qed

section \<open>Properties\<close>

text \<open>
  C1: in every reachable database an account has at most one active transfer and a code names at
  most one, a transfer past acceptance has an accepted device that exists and belongs to its
  account, a completed (cancelled) transfer has exactly one completion (cancellation) event and
  any other has none, and no transfer is ever in the documented state \<open>completing\<close>.
\<close>

theorem reachable_transfers_consistent:
  assumes "reachable d"
  shows "distinct (map t_did (filter active (db_transfers d))) \<and>
    distinct (map t_code (filter active (db_transfers d))) \<and>
    (\<forall>r\<in>set (db_transfers d).
       t_status r \<noteq> Completing \<and>
       (t_status r = Accepted \<or> t_status r = Complete \<longrightarrow>
          (\<exists>dev\<in>set (db_devices d). t_accepted_device_id r = Some (td_id dev) \<and> td_did dev = t_did r)) \<and>
       events_of d ''transfer.complete'' r = (if t_status r = Complete then 1 else 0) \<and>
       events_of d ''transfer.cancelled'' r = (if t_status r = Cancelled then 1 else 0))"
proof -
  have ok: "db_ok d" using reachable_ok [OF assms] .
  have "\<exists>dev\<in>set (db_devices d). t_accepted_device_id r = Some (td_id dev) \<and> td_did dev = t_did r"
    if "r \<in> set (db_transfers d)" "t_status r = Accepted \<or> t_status r = Complete" for r
    using db_okD(3) [OF ok that(1)] that(2) unfolding row_ok_def by auto
  then show ?thesis
    using ok by (auto simp: db_ok_def uniques_ok_def row_ok_def)
qed

text \<open>
  C13: the life of a transfer. However the system runs on while the account exists, a transfer
  keeps its account, code and expiry, its status only moves along the state diagram, so the three
  terminal states are final, and the device that accepted it stays the accepted device.
\<close>

theorem transfer_lifecycle:
  assumes "reachable d" "rtranclp (\<lambda>a b. tstep a b \<and> t_did r \<in> set (db_accounts b)) d d'" "r \<in> set (db_transfers d)"
  shows "\<exists>r'\<in>set (db_transfers d'). follows r r' \<and> (\<not> is_active (t_status r) \<longrightarrow> t_status r' = t_status r)"
proof -
  have "reachable d' \<and> (\<exists>r'\<in>set (db_transfers d'). follows r r')"
    using assms(2)
  proof (induction rule: rtranclp_induct)
    case base
    then show ?case using assms(1,3) follows_refl by blast
  next
    case (step a b)
    then obtain r1 where r1: "r1 \<in> set (db_transfers a)" "follows r r1" by blast
    then have "t_did r1 = t_did r" by (simp add: follows_def)
    then have "\<exists>r'\<in>set (db_transfers b). follows r1 r'"
      using step r1 tstep_follows reachable_ok by metis
    then show ?case using r1(2) follows_trans step reach_step by metis
  qed
  moreover have "t_status r' = t_status r" if "follows r r'" "\<not> is_active (t_status r)" for r'
    using that by (cases "t_status r") (auto simp: follows_def)
  ultimately show ?thesis by blast
qed

lemma complete_accepted:
  assumes ok: "db_ok d" and row: "transfer_by_id tid d = Some row" "t_status row = Accepted" "t_accepted_device_id row = Some dev"
    and run: "complete_transfer clk event_id tid hash d = (d', Inr (Completed tid'))"
  shows "d' = completed_db clk event_id row dev d \<and> \<not> list_ex (\<lambda>e. ae_id e = event_id) (db_audit d)"
proof (cases "session_token_matches_did (clk 0) (t_did row) hash d \<or> transfer_device_token_matches dev hash d")
  case True
  then show ?thesis
    using run complete_transfer_shape [OF ok row(1,3,2), of clk hash event_id]
    by (auto simp: complete_transfer_def transact_def split: if_splits)
next
  case False
  then show ?thesis
    using run row by (simp add: complete_transfer_def transact_def complete_transfer_tx_def)
qed

lemma list_ex_update_rows_off:
  "(\<And>r. p r \<Longrightarrow> \<not> q r \<and> \<not> q (f r)) \<Longrightarrow> list_ex q (update_rows p f rows) = list_ex q rows"
  by (induction rows) (auto simp: update_rows_def)

lemma completed_db_tables:
  "db_sessions (completed_db clk event_id row dev d) = filter (\<lambda>r. s_did r \<noteq> t_did row) (db_sessions d)"
  "db_refresh_tokens (completed_db clk event_id row dev d) = filter (\<lambda>r. rt_did r \<noteq> t_did row) (db_refresh_tokens d)"
  "db_transfers (completed_db clk event_id row dev d) =
     update_rows (\<lambda>r. t_id r = t_id row) (finish_row Complete (Some (clk 1))) (db_transfers d)"
  "db_devices (completed_db clk event_id row dev d) =
     update_rows (\<lambda>r. td_did r = t_did row \<and> td_id r \<noteq> dev \<and> td_revoked_at r = None)
       (\<lambda>r. r\<lparr> td_revoked_at := Some (clk 2) \<rparr>) (db_devices d)"
  by (simp_all add: completed_db_def finish_def delete_refresh_tokens_for_did_def delete_sessions_for_did_def
      revoke_other_transfer_devices_def)

lemma find_updated:
  assumes "db_ok d'" "db_transfers d' = update_rows (\<lambda>r. t_id r = t_id row) (finish_row st at) rows" "row \<in> set rows"
  shows "transfer_by_id (t_id row) d' = Some (finish_row st at row)"
  unfolding transfer_by_id_def find_by_key [OF db_okD(1) [OF assms(1)]]
  using assms(2,3) by (auto simp: set_update_rows)

lemma complete_again:
  assumes "transfer_by_id tid d = Some row" "t_status row = Complete" "t_accepted_device_id row = Some dev"
    "\<forall>s\<in>set (db_sessions d). s_did s \<noteq> t_did row"
  shows "complete_transfer clk event_id tid h d =
    (d, Inr (if transfer_device_token_exists dev h d then Completed (t_id row) else UnauthorizedToken))"
proof -
  have "\<not> session_token_matches_did now (t_did row) h d" for now
    using assms(4) by (auto simp: session_token_matches_did_def list_ex_iff)
  moreover have "transfer_device_token_matches dev h d = transfer_device_token_exists dev h d"
    by (simp add: transfer_device_token_matches_def transfer_device_token_exists_def)
  ultimately show ?thesis
    using assms(1-3) by (simp add: complete_transfer_def transact_def complete_transfer_tx_def)
qed

text \<open>
  C3: the first completion hands the account over: every session and refresh token of the account
  is gone, every other device of the account is revoked, the accepted device keeps the standing it
  had, and a repeated call changes nothing, succeeding exactly for the accepted device.
\<close>

theorem completion_hands_over:
  assumes "reachable d" "transfer_by_id tid d = Some row" "t_status row = Accepted" "t_accepted_device_id row = Some dev"
    "complete_transfer clk event_id tid hash d = (d', Inr (Completed tid))"
  shows "(\<forall>s\<in>set (db_sessions d'). s_did s \<noteq> t_did row) \<and>
    (\<forall>t\<in>set (db_refresh_tokens d'). rt_did t \<noteq> t_did row) \<and>
    (\<forall>x\<in>set (db_devices d'). td_did x = t_did row \<and> td_id x \<noteq> dev \<longrightarrow> td_revoked_at x \<noteq> None) \<and>
    (\<forall>h. transfer_device_token_exists dev h d' \<longleftrightarrow> transfer_device_token_exists dev h d) \<and>
    (\<forall>clk' event_id' h. complete_transfer clk' event_id' tid h d' =
       (d', Inr (if transfer_device_token_exists dev h d' then Completed tid else UnauthorizedToken)))"
proof -
  have ok: "db_ok d" using reachable_ok [OF assms(1)] .
  note r = transfer_by_idD [OF assms(2)]
  have d': "d' = completed_db clk event_id row dev d" and fresh: "\<not> list_ex (\<lambda>e. ae_id e = event_id) (db_audit d)"
    using complete_accepted [OF ok assms(2-5)] by auto
  have ok': "db_ok d'" unfolding d' using r fresh assms(3,4) by (intro completed_db_ok [OF ok]) auto
  have again: "transfer_by_id tid d' = Some (finish_row Complete (Some (clk 1)) row)"
    using find_updated [OF ok', of row Complete "Some (clk 1)" "db_transfers d"] r by (simp add: d' completed_db_tables)
  have sess: "\<forall>s\<in>set (db_sessions d'). s_did s \<noteq> t_did row" by (simp add: d' completed_db_tables)
  have "transfer_device_token_exists dev h d' \<longleftrightarrow> transfer_device_token_exists dev h d" for h
    unfolding transfer_device_token_exists_def d' completed_db_tables by (rule list_ex_update_rows_off) auto
  moreover have "\<forall>x\<in>set (db_devices d'). td_did x = t_did row \<and> td_id x \<noteq> dev \<longrightarrow> td_revoked_at x \<noteq> None"
    by (auto simp: d' completed_db_tables set_update_rows)
  ultimately show ?thesis
    using sess complete_again [OF again] r assms(4) by (simp add: d' completed_db_tables)
qed

lemma cancelled_transfers:
  "db_transfers (cancelled_db clk event_id row d) =
     update_rows (\<lambda>r. t_id r = t_id row) (finish_row Cancelled None) (db_transfers d)"
  by (simp add: cancelled_db_def revoke_accepted_def finish_def split: option.splits)

lemma list_ex_update_none:
  "(\<And>r. p r \<Longrightarrow> \<not> q (f r)) \<Longrightarrow> (\<And>r. \<not> p r \<Longrightarrow> \<not> q r) \<Longrightarrow> \<not> list_ex q (update_rows p f rows)"
  by (induction rows) (simp_all add: update_rows_def)

lemma cancelled_device_dead:
  "t_accepted_device_id row = Some dev \<Longrightarrow> \<not> transfer_device_token_exists dev h (cancelled_db clk event_id row d)"
  unfolding transfer_device_token_exists_def cancelled_db_def revoke_accepted_def
  by (simp, rule list_ex_update_none) auto

lemma active_in_expired: "r \<in> set (db_transfers (expire_where p d)) \<Longrightarrow> active r \<Longrightarrow> r \<in> set (db_transfers d) \<and> \<not> p r"
  unfolding expire_where_def by (auto simp: set_update_rows active_off)

lemma not_accepted:
  assumes "\<forall>x\<in>set (db_transfers d). t_id x = tid \<longrightarrow> \<not> active x"
  shows "active_transfer_for_code code d = Some r \<Longrightarrow> t_id r \<noteq> tid"
    and "snd (accept_transfer n clk code dev platform key h d) \<noteq> Inr (AcceptedBy tid)"
proof -
  show "active_transfer_for_code code d = Some r \<Longrightarrow> t_id r \<noteq> tid"
    using assms active_transfer_for_codeD by blast
  let ?d1 = "expire_pending_code (clk 0) code d"
  have "t_id r \<noteq> tid" if "active_transfer_for_code code ?d1 = Some r" for r
    using active_transfer_for_codeD [OF that] active_in_expired [of r _ d] assms unfolding expire_stmts by blast
  then show "snd (accept_transfer n clk code dev platform key h d) \<noteq> Inr (AcceptedBy tid)"
    by (auto simp: accept_transfer_def transact_def accept_transfer_tx_def Let_def res_bind_def
        split: option.splits sum.splits prod.splits if_splits)
qed

text \<open>
  C4: an operator's cancellation is effective at once: the device that had accepted the transfer
  authenticates with no token any more, the reported flag says whether it could before, the
  transfer is looked up by no code, no acceptance with any code and no completion with any token takes it
  any more, and a second call finds it cancelled.
\<close>

theorem cancellation_cuts_off:
  assumes "reachable d" "cancel_transfer clk event_id tid d = (d', Inr (CancelledNow revoked))"
  shows "\<exists>row\<in>set (db_transfers d). t_id row = tid \<and>
    (\<forall>dev h. t_accepted_device_id row = Some dev \<longrightarrow> \<not> transfer_device_token_exists dev h d') \<and>
    (revoked \<longleftrightarrow> (\<exists>dev h. t_accepted_device_id row = Some dev \<and> transfer_device_token_exists dev h d)) \<and>
    (\<forall>code r. active_transfer_for_code code d' = Some r \<longrightarrow> t_id r \<noteq> tid) \<and>
    (\<forall>n clk' code dev platform key h. snd (accept_transfer n clk' code dev platform key h d') \<noteq> Inr (AcceptedBy tid)) \<and>
    (\<forall>clk' ev h. snd (complete_transfer clk' ev tid h d') \<noteq> Inr (Completed tid)) \<and>
    snd (cancel_transfer clk event_id tid d') = Inr AlreadyCancelled"
proof -
  let ?d1 = "expire_pending_transfer_if_elapsed (clk 0) tid d"
  have ok: "db_ok d" using reachable_ok [OF assms(1)] .
  have ok1: "db_ok ?d1" using expire_stmts_ok(3) [OF ok] .
  have run: "cancel_transfer_tx clk event_id tid d = Inr (CancelledNow revoked, d')"
    using assms(2) by (auto simp: cancel_transfer_def transact_def split: sum.splits prod.splits)
  obtain row where row: "transfer_by_id tid ?d1 = Some row" "active row" "\<not> list_ex (\<lambda>e. ae_id e = event_id) (db_audit ?d1)"
      "d' = cancelled_db clk event_id row ?d1"
      "revoked = (case t_accepted_device_id row of None \<Rightarrow> False
         | Some x \<Rightarrow> list_ex (\<lambda>r. td_id r = x \<and> td_revoked_at r = None) (db_devices ?d1))"
    using ok1 run by (rule cancel_transfer_cases) auto
  have r: "row \<in> set (db_transfers ?d1)" "t_id row = tid" using transfer_by_idD [OF row(1)] by auto
  have row_d: "row \<in> set (db_transfers d)"
    using active_in_expired [of row _ d] r(1) row(2) unfolding expire_stmts by blast
  have devs: "db_devices ?d1 = db_devices d" by (simp add: expire_stmts expire_where_def)
  have ok': "db_ok d'" unfolding row(4) using r row(2,3) by (intro cancelled_db_ok [OF ok1]) auto
  have "db_transfers d' = update_rows (\<lambda>r. t_id r = t_id row) (finish_row Cancelled None) (db_transfers ?d1)"
    unfolding row(4) by (rule cancelled_transfers)
  then have again: "transfer_by_id tid d' = Some (finish_row Cancelled None row)"
    using find_updated [OF ok', of row Cancelled None "db_transfers ?d1"] r by simp
  have "\<not> transfer_device_token_exists dev h d'" if "t_accepted_device_id row = Some dev" for dev h
    unfolding row(4) using that by (rule cancelled_device_dead)
  moreover have "revoked \<longleftrightarrow> (\<exists>dev h. t_accepted_device_id row = Some dev \<and> transfer_device_token_exists dev h d)"
    by (auto simp: row(5) devs transfer_device_token_exists_def list_ex_iff split: option.splits)
  moreover have "\<forall>x\<in>set (db_transfers d'). t_id x = tid \<longrightarrow> \<not> active x"
  proof (intro ballI impI)
    fix x assume "x \<in> set (db_transfers d')" "t_id x = tid"
    then have "x = finish_row Cancelled None row"
      using only_row [OF ok', of "finish_row Cancelled None row" x] transfer_by_idD [OF again] r(2) by metis
    then show "\<not> active x" using finish_row_simps(4) by (simp add: active_def)
  qed
  note not_accepted [OF this]
  moreover have "snd (complete_transfer clk' ev tid h d') \<noteq> Inr (Completed tid)" for clk' ev h
    by (simp add: complete_transfer_def transact_def complete_transfer_tx_def again Let_def split: option.splits)
  moreover have "snd (cancel_transfer clk event_id tid d') = Inr AlreadyCancelled"
  proof -
    have "t_status x = Cancelled" if "x \<in> set (db_transfers d')" "t_id x = tid" for x
      using only_row [OF ok', of "finish_row Cancelled None row" x] transfer_by_idD [OF again] that by simp
    then have "db_transfers (expire_pending_transfer_if_elapsed (clk 0) tid d') = db_transfers d'"
      by (auto simp: expire_pending_transfer_if_elapsed_def update_rows_def intro!: map_idI)
    then have "transfer_by_id tid (expire_pending_transfer_if_elapsed (clk 0) tid d') = Some (finish_row Cancelled None row)"
      using again by (simp add: transfer_by_id_def)
    then show ?thesis by (simp add: cancel_transfer_def transact_def cancel_transfer_tx_def Let_def)
  qed
  ultimately show ?thesis using row_d r(2) by blast
qed

lemma initiate_loop_success:
  "gen k = (n, code, clk) \<Longrightarrow> insert_transfer n clk tid did code transfer_ttl_minutes d = (d1, Inr (Created e)) \<Longrightarrow>
   initiate_loop (Suc k) gen tid did d = (d1, Inr (code, e))"
  by simp

lemma initiate_created:
  assumes "did \<in> set (db_accounts d)" "\<forall>r\<in>set (db_transfers d). t_id r \<noteq> tid \<and> (active r \<longrightarrow> t_did r \<noteq> did \<and> t_code r \<noteq> code)"
  shows "insert_transfer n clk tid did code ttl d =
    (d\<lparr> db_transfers := db_transfers d @ [\<lparr> t_id = tid, t_did = did, t_code = code, t_status = Pending,
        t_expires_at = clk 1 + 60 * ttl, t_created_at = clk 1, t_accepted_device_id = None, t_accepted_at = None,
        t_completed_at = None \<rparr>] \<rparr>, Inr (Created (clk 1 + 60 * ttl)))"
proof -
  have "db_transfers (sweep_expired_did (clk 0) did d) = db_transfers d"
    using assms(2) by (auto simp: sweep_expired_did_def update_rows_def active_def intro!: map_idI)
  then have "sweep_expired_did (clk 0) did d = d" by (simp add: sweep_expired_did_def)
  moreover have "transfer_conflicts \<lparr> t_id = tid, t_did = did, t_code = code, t_status = Pending, t_expires_at = clk 1 + 60 * ttl,
      t_created_at = clk 1, t_accepted_device_id = None, t_accepted_at = None, t_completed_at = None \<rparr> (db_transfers d) = []"
    using assms(2) by (auto simp: transfer_conflicts_def list_ex_iff active_def)
  ultimately show ?thesis using assms(1) by (simp add: insert_transfer_def insert_pending_def)
qed

lemma distinct_map_filterD:
  "distinct (map g (filter a rows)) \<Longrightarrow> r \<in> set rows \<Longrightarrow> s \<in> set rows \<Longrightarrow> a r \<Longrightarrow> a s \<Longrightarrow> g r = g s \<Longrightarrow> r = s"
  by (auto simp: distinct_map inj_on_def)

lemma accept_pending:
  assumes ok: "db_ok d" and row: "row \<in> set (db_transfers d)" "t_status row = Pending" "t_code row = code"
    and time: "clk 0 < t_expires_at row" "clk 2 < t_expires_at row"
    and fresh: "dev \<notin> td_id ` set (db_devices d)" "hash \<notin> td_token_hash ` set (db_devices d)"
  shows "\<exists>d'. accept_transfer n clk code dev platform key hash d = (d', Inr (AcceptedBy (t_id row))) \<and>
    transfer_device_token_exists dev hash d' \<and>
    (\<exists>row'. transfer_by_id (t_id row) d' = Some row' \<and> t_status row' = Accepted \<and> t_accepted_device_id row' = Some dev \<and>
       t_did row' = t_did row) \<and> db_audit d' = db_audit d"
proof -
  define dnew where "dnew = \<lparr> td_id = dev, td_did = t_did row, td_platform = platform, td_public_key = key,
    td_token_hash = hash, td_created_at = clk 1, td_last_seen_at = clk 1, td_revoked_at = None \<rparr>"
  define p :: "transfer \<Rightarrow> bool" where "p = (\<lambda>r. t_id r = t_id row \<and> t_status r = Pending \<and> clk 2 < t_expires_at r)"
  define f :: "transfer \<Rightarrow> transfer"
    where "f = (\<lambda>r. r\<lparr> t_status := Accepted, t_accepted_device_id := Some dev, t_accepted_at := Some (clk 2) \<rparr>)"
  define d1 where "d1 = expire_pending_code (clk 0) code d"
  have act: "active row" using row(2) by (simp add: active_def)
  have codes: "r = row" if "r \<in> set (db_transfers d)" "active r" "t_code r = code" for r
    using ok that row act unfolding db_ok_def uniques_ok_def by (intro distinct_map_filterD [of t_code active]) auto
  have "db_transfers d1 = db_transfers d"
    using codes time(1) by (auto simp: d1_def expire_pending_code_def update_rows_def active_def intro!: map_idI)
  then have d1: "d1 = d" by (simp add: d1_def expire_pending_code_def)
  have found: "active_transfer_for_code code d = Some row"
  proof -
    obtain r where r: "active_transfer_for_code code d = Some r"
      using row act by (cases "active_transfer_for_code code d") (auto simp: active_transfer_for_code_def find_None_iff active_def)
    then show ?thesis using active_transfer_for_codeD [OF r] codes by blast
  qed
  have acc: "t_did row \<in> set (db_accounts d)" using db_okD(3) [OF ok row(1)] by (simp add: row_ok_def)
  have ins: "insert_transfer_device n (clk 1) dev (t_did row) platform key hash d = Inr ((), d\<lparr> db_devices := db_devices d @ [dnew] \<rparr>)"
    using fresh acc by (auto simp: insert_transfer_device_def Let_def dnew_def list_ex_iff image_iff)
  have "count_rows p (db_transfers d) = 1"
    unfolding p_def using count_rows_key [OF db_okD(1) [OF ok] row(1), of "t_id row" "\<lambda>r. t_status r = Pending \<and> clk 2 < t_expires_at r"]
      row(2) time(2) by simp
  then have mark: "mark_transfer_accepted (clk 2) (t_id row) dev (d\<lparr> db_devices := db_devices d @ [dnew] \<rparr>) =
      Inr (1, d\<lparr> db_devices := db_devices d @ [dnew], db_transfers := update_rows p f (db_transfers d) \<rparr>)"
    by (simp add: mark_transfer_accepted_def p_def [symmetric] f_def [symmetric] dnew_def del: One_nat_def)
  let ?d' = "d\<lparr> db_devices := db_devices d @ [dnew], db_transfers := update_rows p f (db_transfers d) \<rparr>"
  have run: "accept_transfer n clk code dev platform key hash d = (?d', Inr (AcceptedBy (t_id row)))"
    using found row(2) ins mark
    by (simp add: accept_transfer_def transact_def accept_transfer_tx_def d1_def [symmetric] d1 del: One_nat_def)
  have ok': "db_ok ?d'" using accept_transfer_ok [OF ok, of n clk code dev platform key hash] run by simp
  have "f row \<in> set (db_transfers ?d')" "t_id (f row) = t_id row"
    using row time(2) by (auto simp: set_update_rows p_def f_def)
  then have "transfer_by_id (t_id row) ?d' = Some (f row)"
    unfolding transfer_by_id_def find_by_key [OF db_okD(1) [OF ok']] by simp
  then show ?thesis using run by (auto simp: f_def transfer_device_token_exists_def dnew_def)
qed

text \<open>
  C14: the hand-over can be carried through: a transfer initiated for an account with no running
  transfer, with an unused code, is accepted by a new device before it expires, and the token
  given to that device then completes it.
\<close>

theorem handoff_can_complete:
  assumes "reachable d" "did \<in> set (db_accounts d)"
    "\<forall>r\<in>set (db_transfers d). t_id r \<noteq> tid \<and> (active r \<longrightarrow> t_did r \<noteq> did \<and> t_code r \<noteq> code)"
    "dev \<notin> td_id ` set (db_devices d)" "hash \<notin> td_token_hash ` set (db_devices d)" "event_id \<notin> ae_id ` set (db_audit d)"
    "gen (max_code_attempts - 1) = (n, code, clk)" "clk2 0 < clk 1 + 900" "clk2 2 < clk 1 + 900"
  shows "\<exists>d1 d2 d3. transfer_initiate gen tid did d = (d1, Inr (code, clk 1 + 900)) \<and>
    accept_transfer n2 clk2 code dev platform key hash d1 = (d2, Inr (AcceptedBy tid)) \<and>
    complete_transfer clk3 event_id tid hash d2 = (d3, Inr (Completed tid))"
proof -
  let ?new = "\<lparr> t_id = tid, t_did = did, t_code = code, t_status = Pending, t_expires_at = clk 1 + 900,
    t_created_at = clk 1, t_accepted_device_id = None, t_accepted_at = None, t_completed_at = None \<rparr>"
  let ?d1 = "d\<lparr> db_transfers := db_transfers d @ [?new] \<rparr>"
  have "max_code_attempts = Suc (max_code_attempts - 1)" by (simp add: max_code_attempts_def)
  then have init: "transfer_initiate gen tid did d = (?d1, Inr (code, clk 1 + 900))"
    using initiate_loop_success [of gen "max_code_attempts - 1" n code clk tid did d ?d1 "clk 1 + 900", OF assms(7)]
      initiate_created [OF assms(2,3), of n clk transfer_ttl_minutes]
    by (simp add: transfer_initiate_def transfer_ttl_minutes_def del: initiate_loop.simps)
  have ok1: "db_ok ?d1"
    using initiate_loop_ok [OF reachable_ok [OF assms(1)], of max_code_attempts gen tid did] init by (simp add: transfer_initiate_def)
  obtain d2 where acc: "accept_transfer n2 clk2 code dev platform key hash ?d1 = (d2, Inr (AcceptedBy tid))"
      "transfer_device_token_exists dev hash d2" "db_audit d2 = db_audit d"
      "\<exists>row'. transfer_by_id tid d2 = Some row' \<and> t_status row' = Accepted \<and> t_accepted_device_id row' = Some dev"
    using accept_pending [OF ok1, of ?new code clk2 dev hash n2 platform key] assms(4,5,8,9) by auto
  then obtain row' where row': "transfer_by_id tid d2 = Some row'" "t_accepted_device_id row' = Some dev" "t_status row' = Accepted" by blast
  have ok2: "db_ok d2" using accept_transfer_ok [OF ok1, of n2 clk2 code dev platform key hash] acc(1) by simp
  have "transfer_device_token_matches dev hash d2"
    using acc(2) by (simp add: transfer_device_token_matches_def transfer_device_token_exists_def)
  then have "complete_transfer_tx clk3 event_id tid hash d2 = Inr (Completed tid, completed_db clk3 event_id row' dev d2)"
    using complete_transfer_shape [OF ok2 row', of clk3 hash event_id] assms(6) acc(3) by (auto simp: list_ex_iff)
  then show ?thesis using init acc(1) by (simp add: complete_transfer_def transact_def)
qed

lemma update_rows_mem: "x \<in> set rows \<Longrightarrow> \<not> p x \<Longrightarrow> x \<in> set (update_rows p f rows)"
  by (auto simp: set_update_rows)

lemma sweep_insert:
  assumes ok: "db_ok d" and row: "row \<in> set (db_transfers d)" "t_status row = Accepted" "t_expires_at row \<le> clk 0"
    and fresh: "\<forall>r\<in>set (db_transfers d). t_id r \<noteq> tid2 \<and> (active r \<longrightarrow> t_code r \<noteq> code)"
  shows "\<exists>d'. insert_transfer n clk tid2 (t_did row) code ttl d = (d', Inr (Created (clk 1 + 60 * ttl))) \<and>
    db_devices d' = db_devices d \<and> row\<lparr> t_status := Expired \<rparr> \<in> set (db_transfers d')"
proof -
  let ?p = "\<lambda>r. t_did r = t_did row \<and> is_active (t_status r) \<and> t_expires_at r \<le> clk 0"
  let ?f = "\<lambda>r. r\<lparr> t_status := Expired \<rparr>"
  define d1 where "d1 = sweep_expired_did (clk 0) (t_did row) d"
  have d1: "db_transfers d1 = update_rows ?p ?f (db_transfers d)" "db_accounts d1 = db_accounts d" "db_devices d1 = db_devices d"
    by (simp_all add: d1_def sweep_expired_did_def)
  have act: "active row" using row(2) by (simp add: active_def)
  have only: "r = row" if "r \<in> set (db_transfers d)" "active r" "t_did r = t_did row" for r
    using ok that row act unfolding db_ok_def uniques_ok_def by (intro distinct_map_filterD [of t_did active]) auto
  have "\<not> list_ex (\<lambda>r. is_active (t_status r) \<and> t_did r = t_did row) (db_transfers d1)"
    unfolding d1 list_ex_iff set_update_rows using only row(3) by (auto simp: active_def)
  moreover have "\<not> list_ex (\<lambda>r. is_active (t_status r) \<and> t_code r = code) (db_transfers d1)"
    unfolding d1 list_ex_iff set_update_rows using fresh by (auto simp: active_def)
  moreover have "\<not> list_ex (\<lambda>r. t_id r = tid2) (db_transfers d1)"
    unfolding d1 by (subst list_ex_update_rows) (use fresh in \<open>auto simp: list_ex_iff\<close>)
  ultimately have clash: "transfer_conflicts \<lparr> t_id = tid2, t_did = t_did row, t_code = code, t_status = Pending, t_expires_at = clk 1 + 60 * ttl,
      t_created_at = clk 1, t_accepted_device_id = None, t_accepted_at = None, t_completed_at = None \<rparr> (db_transfers d1) = []"
    by (simp add: transfer_conflicts_def)
  have acc: "t_did row \<in> set (db_accounts d1)" using db_okD(3) [OF ok row(1)] by (simp add: row_ok_def d1)
  have "row\<lparr> t_status := Expired \<rparr> \<in> set (db_transfers d1)"
    unfolding d1 set_update_rows using row act by (intro image_eqI [of _ _ row]) (simp_all add: active_def)
  then show ?thesis
    using clash acc by (simp add: insert_transfer_def insert_pending_def d1_def [symmetric] d1(3) Let_def)
qed

text \<open>
  Expiry forgets the accepted device. When a transfer was accepted but not completed and its
  expiry has passed, the account's next initiation turns it to \<open>expired\<close>, yet the accepting device's
  token keeps authenticating, and the operator's cancellation of that transfer now answers that it
  is terminal and revokes nothing.
\<close>

theorem expiry_keeps_accepted_device:
  assumes "reachable d" "row \<in> set (db_transfers d)" "t_status row = Accepted" "t_accepted_device_id row = Some dev"
    "transfer_device_token_exists dev h d" "t_expires_at row \<le> clk 0"
    "\<forall>r\<in>set (db_transfers d). t_id r \<noteq> tid2 \<and> (active r \<longrightarrow> t_code r \<noteq> code)"
    "gen (max_code_attempts - 1) = (n, code, clk)"
  shows "\<exists>d' d''. transfer_initiate gen tid2 (t_did row) d = (d', Inr (code, clk 1 + 900)) \<and>
    transfer_by_id (t_id row) d' = Some (row\<lparr> t_status := Expired \<rparr>) \<and> transfer_device_token_exists dev h d' \<and>
    cancel_transfer clk2 event_id (t_id row) d' = (d'', Inr (Terminal Expired)) \<and> transfer_device_token_exists dev h d''"
proof -
  have ok: "db_ok d" using reachable_ok [OF assms(1)] .
  obtain d' where d': "insert_transfer n clk tid2 (t_did row) code transfer_ttl_minutes d = (d', Inr (Created (clk 1 + 900)))"
    "db_devices d' = db_devices d" "row\<lparr> t_status := Expired \<rparr> \<in> set (db_transfers d')"
    using sweep_insert [of d row clk tid2 code n transfer_ttl_minutes, OF ok assms(2,3,6,7)] by (auto simp: transfer_ttl_minutes_def)
  have init: "transfer_initiate gen tid2 (t_did row) d = (d', Inr (code, clk 1 + 900))"
    using initiate_loop_success [of gen "max_code_attempts - 1" n code clk tid2 "t_did row" d d' "clk 1 + 900", OF assms(8) d'(1)]
    by (simp add: transfer_initiate_def max_code_attempts_def del: initiate_loop.simps)
  have ok': "db_ok d'" using insert_transfer_ok [OF ok, of n clk tid2 "t_did row" code transfer_ttl_minutes] d'(1) by simp
  have tok: "transfer_device_token_exists dev h d'" using assms(5) d'(2) by (simp add: transfer_device_token_exists_def)
  let ?d1 = "expire_pending_transfer_if_elapsed (clk2 0) (t_id row) d'"
  have found: "transfer_by_id (t_id row) d' = Some (row\<lparr> t_status := Expired \<rparr>)"
    unfolding transfer_by_id_def find_by_key [OF db_okD(1) [OF ok']] using d'(3) by simp
  have ok1: "db_ok ?d1" using expire_stmts_ok(3) [OF ok'] .
  have "row\<lparr> t_status := Expired \<rparr> \<in> set (db_transfers ?d1)"
    unfolding expire_pending_transfer_if_elapsed_def
    using update_rows_mem [OF d'(3)] by simp
  then have "transfer_by_id (t_id row) ?d1 = Some (row\<lparr> t_status := Expired \<rparr>)"
    unfolding transfer_by_id_def find_by_key [OF db_okD(1) [OF ok1]] by simp
  then have "cancel_transfer clk2 event_id (t_id row) d' = (?d1, Inr (Terminal Expired))"
    by (simp add: cancel_transfer_def transact_def cancel_transfer_tx_def Let_def)
  moreover have "transfer_device_token_exists dev h ?d1"
    using tok by (simp add: transfer_device_token_exists_def expire_pending_transfer_if_elapsed_def)
  ultimately show ?thesis using init found tok by blast
qed

section \<open>A run of the system\<close>

text \<open>One account hands itself over to one device; the witnesses of the properties use its states.\<close>

definition demo_gen :: "nat \<Rightarrow> nat \<times> str \<times> (nat \<Rightarrow> nat)" where
  "demo_gen = (\<lambda>_. (0, ''ABC123'', \<lambda>_. 100))"

definition demo0 :: db where "demo0 = empty_db\<lparr> db_accounts := [''did:plc:a''] \<rparr>"
definition demo1 :: db where "demo1 = fst (transfer_initiate demo_gen ''t1'' ''did:plc:a'' demo0)"
definition demo2 :: db where
  "demo2 = fst (accept_transfer 0 (\<lambda>_. 200) ''ABC123'' ''dev1'' ''ios'' ''key'' ''hash'' demo1)"
definition demo3 :: db where "demo3 = fst (complete_transfer (\<lambda>_. 300) ''ev1'' ''t1'' ''hash'' demo2)"
definition demo4 :: db where "demo4 = fst (cancel_transfer (\<lambda>_. 300) ''ev1'' ''t1'' demo2)"

definition demo_row :: transfer where
  "demo_row = \<lparr> t_id = ''t1'', t_did = ''did:plc:a'', t_code = ''ABC123'', t_status = Accepted, t_expires_at = 1000,
     t_created_at = 100, t_accepted_device_id = Some ''dev1'', t_accepted_at = Some 200, t_completed_at = None \<rparr>"

lemma demo_reachable: "reachable demo0" "reachable demo1" "reachable demo2" "reachable demo3"
proof -
  have eq: "demo0 = empty_db\<lparr> db_accounts := ''did:plc:a'' # db_accounts empty_db \<rparr>" by (simp add: demo0_def empty_db_def)
  show 0: "reachable demo0" unfolding eq by (rule reach_step [OF reach_start step_account])
  show 1: "reachable demo1" unfolding demo1_def using 0 step_initiate by (rule reach_step)
  show 2: "reachable demo2" unfolding demo2_def using 1 step_accept by (rule reach_step)
  show "reachable demo3" unfolding demo3_def using 2 step_complete by (rule reach_step)
qed

lemma demo_facts:
  "transfer_by_id ''t1'' demo2 = Some demo_row" "db_transfers demo2 = [demo_row]"
  "transfer_device_token_exists ''dev1'' ''hash'' demo2"
  "snd (complete_transfer (\<lambda>_. 300) ''ev1'' ''t1'' ''hash'' demo2) = Inr (Completed ''t1'')"
  "snd (cancel_transfer (\<lambda>_. 300) ''ev1'' ''t1'' demo2) = Inr (CancelledNow True)"
  "transfer_device_token_exists ''dev1'' ''other'' demo3 = False"
  by code_simp+

theorem reachable_transfers_consistent_witness: "events_of demo3 ''transfer.complete'' (hd (db_transfers demo3)) = 1"
proof -
  have "db_transfers demo3 \<noteq> []" "t_status (hd (db_transfers demo3)) = Complete" by code_simp+
  then show ?thesis using reachable_transfers_consistent [OF demo_reachable(4)] hd_in_set by fastforce
qed

theorem transfer_lifecycle_witness: "\<exists>r'. r' \<in> set (db_transfers demo3) \<and> follows demo_row r'"
proof -
  have "tstep demo2 demo3" unfolding demo3_def by (rule step_complete)
  moreover have "t_did demo_row \<in> set (db_accounts demo3)" by code_simp
  ultimately have "rtranclp (\<lambda>a b. tstep a b \<and> t_did demo_row \<in> set (db_accounts b)) demo2 demo3" by auto
  then show ?thesis
    using transfer_lifecycle [OF demo_reachable(3), of demo_row demo3] demo_facts(2) by auto
qed

theorem completion_hands_over_witness:
  "complete_transfer (\<lambda>_. 400) ''ev2'' ''t1'' ''other'' demo3 = (demo3, Inr UnauthorizedToken)"
  using completion_hands_over [OF demo_reachable(3), of "''t1''" demo_row "''dev1''" "\<lambda>_. 300" "''ev1''" "''hash''" demo3]
    demo_facts by (simp add: demo_row_def demo3_def prod_eq_iff)

theorem cancellation_cuts_off_witness: "snd (cancel_transfer (\<lambda>_. 300) ''ev1'' ''t1'' demo4) = Inr AlreadyCancelled"
  using cancellation_cuts_off [OF demo_reachable(3), of "\<lambda>_. 300" "''ev1''" "''t1''" demo4 True] demo_facts(5)
  by (auto simp: demo4_def prod_eq_iff)

theorem handoff_can_complete_witness:
  "\<exists>d1 d2 d3. transfer_initiate demo_gen ''t1'' ''did:plc:a'' demo0 = (d1, Inr (''ABC123'', 1000)) \<and>
    accept_transfer 0 (\<lambda>_. 200) ''ABC123'' ''dev1'' ''ios'' ''key'' ''hash'' d1 = (d2, Inr (AcceptedBy ''t1'')) \<and>
    complete_transfer (\<lambda>_. 300) ''ev1'' ''t1'' ''hash'' d2 = (d3, Inr (Completed ''t1''))"
  using handoff_can_complete [OF demo_reachable(1), of "''did:plc:a''" "''t1''" "''ABC123''" "''dev1''" "''hash''" "''ev1''" demo_gen 0
      "\<lambda>_. 100" "\<lambda>_. 200" 0 "''ios''" "''key''" "\<lambda>_. 300"]
  by (simp add: demo0_def empty_db_def demo_gen_def)

theorem expiry_keeps_accepted_device_witness:
  "\<exists>d' d''. cancel_transfer (\<lambda>_. 3000) ''ev1'' ''t1'' d' = (d'', Inr (Terminal Expired)) \<and>
    transfer_device_token_exists ''dev1'' ''hash'' d''"
  using expiry_keeps_accepted_device [OF demo_reachable(3), of demo_row "''dev1''" "''hash''" "\<lambda>_. 2000" "''t2''" "''XYZ789''"
      "\<lambda>_. (0, ''XYZ789'', \<lambda>_. 2000)" 0 "\<lambda>_. 3000" "''ev1''"] demo_facts(2,3)
  by (auto simp: demo_row_def)

end
