(* ===== verification/Data_Model.thy ===== *)
theory Data_Model
  imports Record_Syntax
begin

text \<open>
  The data model of records: JSON values (\<open>serde_json::Value\<close>), the DAG-CBOR value space
  (\<open>Ipld\<close>), the two conversions between them and the blob walk of
  \<open>crates/repo-engine/src/records.rs\<close>, and the acceptance check of
  \<open>crates/repo-engine/src/data_model.rs\<close>. CIDs and base64 come from third-party crates: the type of
  CIDs, their parser and printer and the base64 decoder and encoder are parameters. A JSON object
  and a map are the list of their entries in key order (both are \<open>BTreeMap\<close>s in the code).
\<close>

section \<open>Values\<close>

text \<open>
  A finite \<open>f64\<close> is \<open>m * 2 ^ e\<close>; infinities and NaNs, which JSON cannot hold, are \<open>NotFinite\<close>.
\<close>

datatype f64 = Finite int int | NotFinite

definition f64_is_integral :: "f64 \<Rightarrow> bool" where
  "f64_is_integral f = (case f of Finite m e \<Rightarrow> 0 \<le> e \<or> 2 ^ nat (- e) dvd m | NotFinite \<Rightarrow> False)"

text \<open>\<open>serde_json::Number\<close>: a \<open>u64\<close>, a (negative) \<open>i64\<close> read by \<open>sint\<close>, or a floating value.\<close>

datatype json_number = PosInt "64 word" | NegInt "64 word" | JFloat f64

datatype json =
    JNull
  | JBool bool
  | JNumber json_number
  | JString str
  | JArray "json list"
  | JObject "(str \<times> json) list"

datatype 'cid ipld =
    INull
  | IBool bool
  | IInteger int
  | IFloat f64
  | IString str
  | IBytes "8 word list"
  | IList "'cid ipld list"
  | IMap "(str \<times> 'cid ipld) list"
  | ILink 'cid

text \<open>\<open>Number::as_i64\<close> and \<open>Number::as_u64\<close>: the value of an integral number.\<close>

definition i64_min :: int where "i64_min = - (2 ^ 63)"
definition i64_max :: int where "i64_max = 2 ^ 63 - 1"
definition u64_max_int :: int where "u64_max_int = 2 ^ 64 - 1"

definition as_i64 :: "json_number \<Rightarrow> int option" where
  "as_i64 n = (case n of
      PosInt k \<Rightarrow> if uint k \<le> i64_max then Some (uint k) else None
    | NegInt i \<Rightarrow> Some (sint i)
    | JFloat _ \<Rightarrow> None)"

definition as_u64 :: "json_number \<Rightarrow> int option" where
  "as_u64 n = (case n of PosInt k \<Rightarrow> Some (uint k) | NegInt _ \<Rightarrow> None | JFloat _ \<Rightarrow> None)"

text \<open>\<open>Number::from\<close> of an \<open>i64\<close> and of a \<open>u64\<close>, and \<open>Number::from_f64\<close>.\<close>

definition int_str :: "int \<Rightarrow> str" where
  "int_str i = (if i < 0 then ''-'' @ nat_str (nat (- i)) else nat_str (nat i))"

definition number_from_int :: "int \<Rightarrow> json_number" where
  "number_from_int i = (if i < 0 then NegInt (word_of_int i) else PosInt (word_of_int i))"

definition number_from_f64 :: "f64 \<Rightarrow> json_number option" where
  "number_from_f64 f = (case f of Finite _ _ \<Rightarrow> Some (JFloat f) | NotFinite \<Rightarrow> None)"

section \<open>JSON to the data model and back\<close>

fun json_to_record_value ::
  "(str \<Rightarrow> str + 'cid) \<Rightarrow> (str \<Rightarrow> str + 8 word list) \<Rightarrow> json \<Rightarrow> record_error + 'cid ipld" where
  "json_to_record_value cid dec JNull = Inr INull"
| "json_to_record_value cid dec (JBool b) = Inr (IBool b)"
| "json_to_record_value cid dec (JNumber n) =
     (case as_i64 n of
        Some i \<Rightarrow> Inr (IInteger i)
      | None \<Rightarrow>
          (case as_u64 n of
             Some u \<Rightarrow> Inr (IInteger u)
           | None \<Rightarrow> Inl (InvalidRecord ''floats are not allowed in ATProto records'')))"
| "json_to_record_value cid dec (JString s) = Inr (IString s)"
| "json_to_record_value cid dec (JArray items) =
     res_bind (collect_results (json_to_record_value cid dec) items) (\<lambda>vs. Inr (IList vs))"
| "json_to_record_value cid dec (JObject m) =
     (if length m = 1 then
        (case map_of m ''$link'' of
           Some (JString s) \<Rightarrow>
             res_bind (map_err (\<lambda>e. InvalidRecord (''invalid $link CID: '' @ e)) (cid s)) (\<lambda>c. Inr (ILink c))
         | _ \<Rightarrow>
             (case map_of m ''$bytes'' of
                Some (JString s) \<Rightarrow>
                  res_bind (map_err (\<lambda>e. InvalidRecord (''invalid $bytes base64: '' @ e)) (dec s)) (\<lambda>b. Inr (IBytes b))
              | _ \<Rightarrow>
                  res_bind (collect_results (\<lambda>(k, v). res_bind (json_to_record_value cid dec v) (\<lambda>x. Inr (k, x))) m)
                    (\<lambda>out. Inr (IMap out))))
      else
        res_bind (collect_results (\<lambda>(k, v). res_bind (json_to_record_value cid dec v) (\<lambda>x. Inr (k, x))) m)
          (\<lambda>out. Inr (IMap out)))"

fun record_value_to_json ::
  "('cid \<Rightarrow> str) \<Rightarrow> (8 word list \<Rightarrow> str) \<Rightarrow> 'cid ipld \<Rightarrow> record_error + json" where
  "record_value_to_json show_cid enc INull = Inr JNull"
| "record_value_to_json show_cid enc (IBool b) = Inr (JBool b)"
| "record_value_to_json show_cid enc (IInteger i) =
     (if i64_min \<le> i \<and> i \<le> i64_max \<or> 0 \<le> i \<and> i \<le> u64_max_int then Inr (JNumber (number_from_int i))
      else Inl (InvalidRecord (''integer '' @ int_str i @ '' is outside the JSON-representable range (i64/u64)'')))"
| "record_value_to_json show_cid enc (IFloat f) =
     Inr (case number_from_f64 f of None \<Rightarrow> JNull | Some n \<Rightarrow> JNumber n)"
| "record_value_to_json show_cid enc (IString s) = Inr (JString s)"
| "record_value_to_json show_cid enc (IBytes b) = Inr (JObject [(''$bytes'', JString (enc b))])"
| "record_value_to_json show_cid enc (IList items) =
     res_bind (collect_results (record_value_to_json show_cid enc) items) (\<lambda>js. Inr (JArray js))"
| "record_value_to_json show_cid enc (IMap m) =
     res_bind (collect_results (\<lambda>(k, v). res_bind (record_value_to_json show_cid enc v) (\<lambda>j. Inr (k, j))) m)
       (\<lambda>js. Inr (JObject js))"
| "record_value_to_json show_cid enc (ILink c) = Inr (JObject [(''$link'', JString (show_cid c))])"

section \<open>Blob references\<close>

fun collect_blob_cids :: "'cid ipld \<Rightarrow> 'cid list" where
  "collect_blob_cids (IMap m) =
     (case map_of m ''$type'' of
        Some (IString ty) \<Rightarrow>
          if ty = ''blob'' then
            (case map_of m ''ref'' of
               Some (ILink c) \<Rightarrow> [c]
             | Some (IMap r) \<Rightarrow> (case map_of r ''$link'' of Some (ILink c) \<Rightarrow> [c] | _ \<Rightarrow> [])
             | _ \<Rightarrow> [])
          else []
      | _ \<Rightarrow> []) @ concat (map (\<lambda>(k, v). collect_blob_cids v) m)"
| "collect_blob_cids (IList items) = concat (map collect_blob_cids items)"
| "collect_blob_cids INull = []"
| "collect_blob_cids (IBool b) = []"
| "collect_blob_cids (IInteger i) = []"
| "collect_blob_cids (IFloat f) = []"
| "collect_blob_cids (IString s) = []"
| "collect_blob_cids (IBytes b) = []"
| "collect_blob_cids (ILink c) = []"

definition record_blob_cids :: "'cid ipld \<Rightarrow> 'cid list" where
  "record_blob_cids v = collect_blob_cids v"

section \<open>The acceptance check\<close>

record data_model_error =
  dm_path :: str
  dm_reason :: str

definition dm_err :: "str \<Rightarrow> str \<Rightarrow> data_model_error" where
  "dm_err path reason = \<lparr> dm_path = path, dm_reason = reason \<rparr>"

definition child :: "str \<Rightarrow> str \<Rightarrow> str" where
  "child path key = (if path = [] then key else path @ ''/'' @ key)"

definition validate_number :: "json_number \<Rightarrow> str \<Rightarrow> data_model_error + unit" where
  "validate_number n path =
     (case n of
        JFloat f \<Rightarrow> if f64_is_integral f then Inr ()
                    else Inl (dm_err path ''number must be an integer (the data model has no floats)'')
      | _ \<Rightarrow> Inr ())"

definition validate_cid_link :: "(str \<Rightarrow> str + 'cid) \<Rightarrow> (str \<times> json) list \<Rightarrow> str \<Rightarrow> data_model_error + unit" where
  "validate_cid_link cid m path =
     (if length m \<noteq> 1 then Inl (dm_err path ''a `$link` object must have exactly one key'')
      else case map_of m ''$link'' of
        Some (JString s) \<Rightarrow>
          (case cid s of Inr _ \<Rightarrow> Inr () | Inl e \<Rightarrow> Inl (dm_err path (''`$link` is not a valid CID: '' @ e)))
      | _ \<Rightarrow> Inl (dm_err path ''`$link` must be a string''))"

definition validate_bytes :: "(str \<Rightarrow> str + 8 word list) \<Rightarrow> (str \<times> json) list \<Rightarrow> str \<Rightarrow> data_model_error + unit" where
  "validate_bytes dec m path =
     (if length m \<noteq> 1 then Inl (dm_err path ''a `$bytes` object must have exactly one key'')
      else case map_of m ''$bytes'' of
        Some (JString s) \<Rightarrow>
          (case dec s of Inr _ \<Rightarrow> Inr () | Inl e \<Rightarrow> Inl (dm_err path (''`$bytes` is not valid base64: '' @ e)))
      | _ \<Rightarrow> Inl (dm_err path ''`$bytes` must be a string''))"

definition blob_ref_message :: str where
  "blob_ref_message = ''blob `ref` must be a CID link (`{\"$link\": '' @ [CHR 0xE2, CHR 0x80, CHR 0xA6] @ ''}`)''"

definition validate_blob :: "(str \<Rightarrow> str + 'cid) \<Rightarrow> (str \<times> json) list \<Rightarrow> str \<Rightarrow> data_model_error + unit" where
  "validate_blob cid m path =
     res_bind
       (case map_of m ''ref'' of
          Some (JObject r) \<Rightarrow>
            if map_of r ''$link'' \<noteq> None then validate_cid_link cid r (child path ''ref'')
            else Inl (dm_err path blob_ref_message)
        | Some _ \<Rightarrow> Inl (dm_err path blob_ref_message)
        | None \<Rightarrow> Inl (dm_err path ''blob is missing the `ref` key''))
       (\<lambda>_. res_bind
         (case map_of m ''mimeType'' of
            Some (JString _) \<Rightarrow> Inr ()
          | Some _ \<Rightarrow> Inl (dm_err path ''blob `mimeType` must be a string'')
          | None \<Rightarrow> Inl (dm_err path ''blob is missing the `mimeType` key''))
         (\<lambda>_. case map_of m ''size'' of
            Some (JNumber (PosInt _)) \<Rightarrow> Inr ()
          | Some (JNumber (NegInt _)) \<Rightarrow> Inr ()
          | Some _ \<Rightarrow> Inl (dm_err path ''blob `size` must be an integer'')
          | None \<Rightarrow> Inl (dm_err path ''blob is missing the `size` key'')))"

text \<open>\<open>validate_value\<close> with the loops over array items and object entries.\<close>

fun validate_value ::
    "(str \<Rightarrow> str + 'cid) \<Rightarrow> (str \<Rightarrow> str + 8 word list) \<Rightarrow> json \<Rightarrow> str \<Rightarrow> data_model_error + unit"
  and validate_items ::
    "(str \<Rightarrow> str + 'cid) \<Rightarrow> (str \<Rightarrow> str + 8 word list) \<Rightarrow> nat \<Rightarrow> json list \<Rightarrow> str \<Rightarrow> data_model_error + unit"
  and validate_entries ::
    "(str \<Rightarrow> str + 'cid) \<Rightarrow> (str \<Rightarrow> str + 8 word list) \<Rightarrow> (str \<times> json) list \<Rightarrow> str \<Rightarrow> data_model_error + unit"
where
  "validate_value cid dec JNull path = Inr ()"
| "validate_value cid dec (JBool b) path = Inr ()"
| "validate_value cid dec (JString s) path = Inr ()"
| "validate_value cid dec (JNumber n) path = validate_number n path"
| "validate_value cid dec (JArray items) path = validate_items cid dec 0 items path"
| "validate_value cid dec (JObject m) path =
     (if map_of m ''$link'' \<noteq> None then validate_cid_link cid m path
      else if map_of m ''$bytes'' \<noteq> None then validate_bytes dec m path
      else if map_of m ''$type'' = Some (JString ''blob'') then validate_blob cid m path
      else
        (case map_of m ''$type'' of
           None \<Rightarrow> validate_entries cid dec m path
         | Some (JString s) \<Rightarrow>
             if s \<noteq> [] then validate_entries cid dec m path
             else Inl (dm_err path ''`$type` must be a non-empty string'')
         | Some _ \<Rightarrow> Inl (dm_err path ''`$type` must be a non-empty string'')))"
| "validate_items cid dec i [] path = Inr ()"
| "validate_items cid dec i (v # vs) path =
     res_bind (validate_value cid dec v (child path (nat_str i))) (\<lambda>_. validate_items cid dec (Suc i) vs path)"
| "validate_entries cid dec [] path = Inr ()"
| "validate_entries cid dec ((k, v) # m) path =
     res_bind (validate_value cid dec v (child path k)) (\<lambda>_. validate_entries cid dec m path)"

definition validate_data_model ::
  "(str \<Rightarrow> str + 'cid) \<Rightarrow> (str \<Rightarrow> str + 8 word list) \<Rightarrow> json \<Rightarrow> data_model_error + unit" where
  "validate_data_model cid dec v =
     (case v of JObject _ \<Rightarrow> validate_value cid dec v []
      | _ \<Rightarrow> Inl (dm_err [] ''top-level value must be an object''))"

end
