(* ===== verification/Data_Model_Correct.thy ===== *)
theory Data_Model_Correct
  imports Data_Model
begin

text \<open>
  Round trips between JSON and the data model, what the acceptance check guarantees of the
  conversion, and the completeness of the blob walk.
\<close>

section \<open>Round trip\<close>

lemma collect_results_inverse:
  "(\<And>x. x \<in> set xs \<Longrightarrow> \<exists>y. f x = Inr y \<and> g y = Inr x) \<Longrightarrow>
   \<exists>ys. collect_results f xs = Inr ys \<and> collect_results g ys = Inr xs"
proof (induction xs)
  case Nil
  then show ?case by simp
next
  case (Cons x xs)
  obtain y where y: "f x = Inr y" "g y = Inr x" using Cons.prems [of x] by auto
  obtain ys where ys: "collect_results f xs = Inr ys" "collect_results g ys = Inr xs" using Cons by auto
  show ?case by (rule exI [of _ "y # ys"]) (simp add: y ys)
qed

lemma collect_results_all: "collect_results f xs = Inr ys \<Longrightarrow> y \<in> set ys \<Longrightarrow> \<exists>x\<in>set xs. f x = Inr y"
  by (induction xs arbitrary: ys) (auto split: sum.splits)

lemma collect_results_ok: "(\<And>x. x \<in> set xs \<Longrightarrow> \<exists>y. f x = Inr y) \<Longrightarrow> \<exists>ys. collect_results f xs = Inr ys"
proof (induction xs)
  case (Cons x xs)
  obtain y where "f x = Inr y" using Cons.prems [of x] by auto
  moreover obtain ys where "collect_results f xs = Inr ys" using Cons by auto
  ultimately show ?case by simp
qed simp

text \<open>The entry functions of the two map cases.\<close>

definition entry_in where
  "entry_in cid dec = (\<lambda>(k :: str, v). res_bind (json_to_record_value cid dec v) (\<lambda>x. Inr (k, x)))"
definition entry_out where
  "entry_out show_cid enc = (\<lambda>(k :: str, v). res_bind (record_value_to_json show_cid enc v) (\<lambda>j. Inr (k, j)))"

text \<open>An object that is not one of the two reserved single-key objects.\<close>

definition reserved :: "(str \<times> json) list \<Rightarrow> bool" where
  "reserved m \<longleftrightarrow> (\<exists>s. m = [(''$link'', JString s)] \<or> m = [(''$bytes'', JString s)])"

lemma length_one: "length m = 1 \<longleftrightarrow> (\<exists>k v. m = [(k, v)])"
  by (cases m) auto

lemma convert_single:
  "json_to_record_value cid dec (JObject [(k, v)]) =
    (case v of
       JString s \<Rightarrow>
         if k = ''$link'' then res_bind (map_err (\<lambda>e. InvalidRecord (''invalid $link CID: '' @ e)) (cid s)) (\<lambda>c. Inr (ILink c))
         else if k = ''$bytes'' then res_bind (map_err (\<lambda>e. InvalidRecord (''invalid $bytes base64: '' @ e)) (dec s)) (\<lambda>b. Inr (IBytes b))
         else res_bind (collect_results (entry_in cid dec) [(k, v)]) (\<lambda>out. Inr (IMap out))
     | _ \<Rightarrow> res_bind (collect_results (entry_in cid dec) [(k, v)]) (\<lambda>out. Inr (IMap out)))"
  apply (subst json_to_record_value.simps(6))
  apply (unfold entry_in_def [symmetric])
  apply (cases v)
  apply (simp_all del: json_to_record_value.simps collect_results.simps)
  done

declare json_to_record_value.simps(6) [simp del]

lemma convert_object:
  assumes "\<not> reserved m"
  shows "json_to_record_value cid dec (JObject m) = res_bind (collect_results (entry_in cid dec) m) (\<lambda>out. Inr (IMap out))"
proof (cases "length m = 1")
  case False
  then show ?thesis by (subst json_to_record_value.simps(6)) (simp only: entry_in_def if_False)
next
  case True
  then have "\<exists>k v. m = [(k, v)]" by (simp only: length_one)
  then obtain k v where m: "m = [(k, v)]" by blast
  show ?thesis
  proof (cases v)
    case (JString s)
    have "k \<noteq> ''$link''" "k \<noteq> ''$bytes''" using assms unfolding reserved_def m JString by blast+
    then show ?thesis unfolding m by (simp only: convert_single JString json.case if_False)
  qed (unfold m, simp_all only: convert_single json.case)
qed

lemma convert_reserved:
  assumes "reserved m"
  obtains s where "m = [(''$link'', JString s)]"
      "json_to_record_value cid dec (JObject m) =
         res_bind (map_err (\<lambda>e. InvalidRecord (''invalid $link CID: '' @ e)) (cid s)) (\<lambda>c. Inr (ILink c))"
  | s where "m = [(''$bytes'', JString s)]"
      "json_to_record_value cid dec (JObject m) =
         res_bind (map_err (\<lambda>e. InvalidRecord (''invalid $bytes base64: '' @ e)) (dec s)) (\<lambda>b. Inr (IBytes b))"
  using assms that unfolding reserved_def by (auto simp: convert_single simp del: json_to_record_value.simps)

text \<open>The values local writes can produce: integers JSON can hold, no floats, no reserved maps.\<close>

fun clean :: "'cid ipld \<Rightarrow> bool" where
  "clean (IInteger i) = (i64_min \<le> i \<and> i \<le> u64_max_int)"
| "clean (IFloat f) = False"
| "clean (IList items) = list_all clean items"
| "clean (IMap m) = (list_all (\<lambda>(k, v). clean v) m \<and>
     (\<forall>s. m \<noteq> [(''$link'', IString s)] \<and> m \<noteq> [(''$bytes'', IString s)]))"
| "clean INull = True"
| "clean (IBool b) = True"
| "clean (IString s) = True"
| "clean (IBytes b) = True"
| "clean (ILink c) = True"

lemma u64_range: "0 \<le> uint (x :: 64 word) \<and> uint x \<le> 18446744073709551615"
  using uint_lt2p [of x] by simp

lemma i64_range: "- 9223372036854775808 \<le> sint (x :: 64 word) \<and> sint x \<le> 9223372036854775807"
  using sint_greater_eq [of x] sint_less [of x] by simp

lemma word_consts: "i64_min = - 9223372036854775808" "i64_max = 9223372036854775807" "u64_max_int = 18446744073709551615"
  by (simp_all add: i64_min_def i64_max_def u64_max_int_def)

lemma as_i64_range: "as_i64 n = Some i \<Longrightarrow> i64_min \<le> i \<and> i \<le> u64_max_int"
proof (cases n)
  case (PosInt k)
  moreover assume "as_i64 n = Some i"
  ultimately have "i = uint k" by (simp add: as_i64_def split: if_splits)
  then show ?thesis unfolding word_consts using u64_range [of k] by linarith
next
  case (NegInt k)
  moreover assume "as_i64 n = Some i"
  ultimately have "i = sint k" by (simp add: as_i64_def)
  then show ?thesis unfolding word_consts using i64_range [of k] by linarith
qed (simp add: as_i64_def)

lemma as_u64_range: "as_u64 n = Some i \<Longrightarrow> i64_min \<le> i \<and> i \<le> u64_max_int"
proof (cases n)
  case (PosInt k)
  moreover assume "as_u64 n = Some i"
  ultimately have "i = uint k" by (simp add: as_u64_def)
  then show ?thesis unfolding word_consts using u64_range [of k] by linarith
qed (simp_all add: as_u64_def)

lemma number_from_int_reads:
  assumes "i64_min \<le> i" "i \<le> u64_max_int"
  shows "(case as_i64 (number_from_int i) of Some k \<Rightarrow> Some k | None \<Rightarrow> as_u64 (number_from_int i)) = Some i"
proof (cases "i < 0")
  case True
  then have "sint (word_of_int i :: 64 word) = i"
    using assms by (simp add: signed_of_int i64_min_def signed_take_bit_int_eq_self)
  then show ?thesis using True by (simp add: number_from_int_def as_i64_def)
next
  case False
  then have "uint (word_of_int i :: 64 word) = i"
    using assms by (simp add: unsigned_of_int u64_max_int_def take_bit_int_eq_self)
  then show ?thesis using False by (simp add: number_from_int_def as_i64_def as_u64_def)
qed

lemma json_induct [case_names Null Bool Number String Array Object]:
  assumes "P JNull" "\<And>b. P (JBool b)" "\<And>n. P (JNumber n)" "\<And>s. P (JString s)"
    "\<And>items. (\<And>x. x \<in> set items \<Longrightarrow> P x) \<Longrightarrow> P (JArray items)"
    "\<And>m. (\<And>k v. (k, v) \<in> set m \<Longrightarrow> P v) \<Longrightarrow> P (JObject m)"
  shows "P j"
  by (induction j) (use assms in auto)

lemma ipld_induct [case_names Null Bool Integer Float String Bytes List Map Link]:
  assumes "P INull" "\<And>b. P (IBool b)" "\<And>i. P (IInteger i)" "\<And>f. P (IFloat f)" "\<And>s. P (IString s)" "\<And>b. P (IBytes b)"
    "\<And>items. (\<And>x. x \<in> set items \<Longrightarrow> P x) \<Longrightarrow> P (IList items)"
    "\<And>m. (\<And>k v. (k, v) \<in> set m \<Longrightarrow> P v) \<Longrightarrow> P (IMap m)" "\<And>c. P (ILink c)"
  shows "P v"
  by (induction v) (use assms in auto)

lemma convert_string: "json_to_record_value cid dec j = Inr (IString s) \<longleftrightarrow> j = JString s"
proof (cases j)
  case (JObject m)
  show ?thesis
  proof (cases "reserved m")
    case True
    then show ?thesis by (rule convert_reserved [where cid = cid and dec = dec]) (auto simp: JObject)
  next
    case False
    then show ?thesis by (simp add: JObject convert_object)
  qed
qed (auto split: option.splits)

lemma unconvert_string: "record_value_to_json show_cid enc v = Inr (JString s) \<longleftrightarrow> v = IString s"
  by (cases v) (auto split: option.splits)

lemma convert_clean: "json_to_record_value cid dec j = Inr v \<Longrightarrow> clean v"
proof (induction j arbitrary: v rule: json_induct)
  case (Number n)
  then show ?case using as_i64_range as_u64_range by (auto split: option.splits)
next
  case (Array items)
  then show ?case by (auto simp: list_all_iff) (metis collect_results_all)
next
  case (Object m)
  show ?case
  proof (cases "reserved m")
    case True
    then show ?thesis by (rule convert_reserved [where cid = cid and dec = dec]) (use Object.prems in auto)
  next
    case False
    then obtain out where v: "v = IMap out" and out: "collect_results (entry_in cid dec) m = Inr out"
      using Object.prems by (auto simp: convert_object)
    have "clean x" if "(k, x) \<in> set out" for k x
      using collect_results_all [OF out that] Object.IH by (auto simp: entry_in_def)
    moreover have "out \<noteq> [(key, IString s)]" if "key = ''$link'' \<or> key = ''$bytes''" for key s
    proof
      assume "out = [(key, IString s)]"
      then have "list_all2 (\<lambda>x y. entry_in cid dec x = Inr y) m [(key, IString s)]"
        using out by (simp add: collect_results_Inr_iff)
      then obtain y where "m = [(key, y)]" "json_to_record_value cid dec y = Inr (IString s)"
        by (cases m) (auto simp: entry_in_def)
      then show False using False that by (auto simp: reserved_def convert_string)
    qed
    ultimately show ?thesis by (auto simp: v list_all_iff)
  qed
qed simp_all

lemma unconvert_convert:
  assumes laws: "\<And>c. cid (show_cid c) = Inr c" "\<And>b. dec (enc b) = Inr b"
  shows "clean v \<Longrightarrow> \<exists>j. record_value_to_json show_cid enc v = Inr j \<and> json_to_record_value cid dec j = Inr v"
proof (induction v rule: ipld_induct)
  case (Integer i)
  then have r: "i64_min \<le> i" "i \<le> u64_max_int" by simp_all
  then have "i64_min \<le> i \<and> i \<le> i64_max \<or> 0 \<le> i \<and> i \<le> u64_max_int" by (auto simp: word_consts)
  then show ?case using number_from_int_reads [OF r] by (auto split: option.splits)
next
  case (List items)
  then have "\<exists>ys. collect_results (record_value_to_json show_cid enc) items = Inr ys \<and>
      collect_results (json_to_record_value cid dec) ys = Inr items"
    by (intro collect_results_inverse) (auto simp: list_all_iff)
  then show ?case by auto
next
  case (Map m)
  have "\<exists>ys. collect_results (entry_out show_cid enc) m = Inr ys \<and> collect_results (entry_in cid dec) ys = Inr m"
  proof (rule collect_results_inverse)
    fix x assume x: "x \<in> set m"
    obtain k v where kv: "x = (k, v)" by (cases x)
    obtain j where "record_value_to_json show_cid enc v = Inr j" "json_to_record_value cid dec j = Inr v"
      using Map.IH [of k v] Map.prems x by (auto simp: kv list_all_iff)
    then show "\<exists>y. entry_out show_cid enc x = Inr y \<and> entry_in cid dec y = Inr x"
      by (intro exI [of _ "(k, j)"]) (simp add: kv entry_out_def entry_in_def)
  qed
  then obtain ys where ys: "collect_results (entry_out show_cid enc) m = Inr ys" "collect_results (entry_in cid dec) ys = Inr m"
    by blast
  have "\<not> reserved ys"
  proof
    assume "reserved ys"
    then obtain key s where key: "key = ''$link'' \<or> key = ''$bytes''" "ys = [(key, JString s)]" by (auto simp: reserved_def)
    then have "m = [(key, IString s)]" using ys(2) by (auto simp: entry_in_def)
    then show False using Map.prems key(1) by auto
  qed
  then have "json_to_record_value cid dec (JObject ys) = Inr (IMap m)"
    by (simp add: convert_object ys(2))
  moreover have "record_value_to_json show_cid enc (IMap m) = Inr (JObject ys)"
    using ys(1) by (simp add: entry_out_def)
  ultimately show ?case by blast
next
  case (Bytes b)
  have "json_to_record_value cid dec (JObject [(''$bytes'', JString (enc b))]) = Inr (IBytes b)"
    by (simp add: convert_single laws)
  then show ?case by simp
next
  case (Link c)
  have "json_to_record_value cid dec (JObject [(''$link'', JString (show_cid c))]) = Inr (ILink c)"
    by (simp add: convert_single laws)
  then show ?case by simp
qed simp_all

text \<open>
  C24: Which records read back as they were written. A data-model value renders as JSON that converts back to
  the same value exactly when it holds no float, no integer outside the range from i64::MIN to u64::MAX and
  no map that is a single \<open>$link\<close> or \<open>$bytes\<close> entry with a text; every value the write path accepts is of
  this kind, so an accepted record never changes meaning on the way, in particular no plain map turns
  into a link or a byte string.
\<close>

theorem record_json_roundtrip:
  assumes "\<forall>c. cid (show_cid c) = Inr c" "\<forall>b. dec (enc b) = Inr b"
  shows "((\<exists>j. record_value_to_json show_cid enc v = Inr j \<and> json_to_record_value cid dec j = Inr v) \<longleftrightarrow> clean v) \<and>
    (json_to_record_value cid dec j = Inr v \<longrightarrow> clean v)"
  using unconvert_convert [of cid show_cid dec enc v] convert_clean [of cid dec _ v] assms by blast

definition demo_cid :: "str \<Rightarrow> str + nat" where
  "demo_cid s = (if s \<noteq> [] \<and> list_all (\<lambda>c. c = CHR ''b'') s then Inr (length s - 1) else Inl ''bad cid'')"
definition demo_show_cid :: "nat \<Rightarrow> str" where "demo_show_cid n = replicate (Suc n) CHR ''b''"
definition demo_dec :: "str \<Rightarrow> str + 8 word list" where "demo_dec s = Inr (map (\<lambda>c. word_of_nat (byte c)) s)"
definition demo_enc :: "8 word list \<Rightarrow> str" where "demo_enc b = map (\<lambda>w. char_of (unat w)) b"

lemma demo_laws: "demo_cid (demo_show_cid c) = Inr c" "demo_dec (demo_enc b) = Inr b"
proof -
  show "demo_cid (demo_show_cid c) = Inr c" by (simp add: demo_cid_def demo_show_cid_def list_all_iff)
  have "byte (char_of (unat w)) = unat w" for w :: "8 word"
    using unsigned_less [of w, where ?'a = nat] by simp
  then show "demo_dec (demo_enc b) = Inr b" by (simp add: demo_dec_def demo_enc_def comp_def)
qed

theorem record_json_roundtrip_witness:
  "\<exists>j'. record_value_to_json demo_show_cid demo_enc (IMap [(''ref'', ILink 2), (''size'', IInteger 7)]) = Inr j' \<and>
     json_to_record_value demo_cid demo_dec j' = Inr (IMap [(''ref'', ILink 2), (''size'', IInteger 7)])"
proof -
  have "clean (IMap [(''ref'', ILink 2), (''size'', IInteger 7)])" by (simp add: i64_min_def u64_max_int_def)
  then show ?thesis using record_json_roundtrip [of demo_cid demo_show_cid demo_dec demo_enc] demo_laws by blast
qed

end
