(* ===== verification/Data_Model_Blobs.thy ===== *)
theory Data_Model_Blobs
  imports Data_Model_Correct
begin

text \<open>
  The acceptance check compared with the conversion of the write path, and the completeness of the
  blob walk on converted records.
\<close>

section \<open>The acceptance check\<close>

fun float_free :: "json \<Rightarrow> bool" where
  "float_free (JNumber n) = (case n of JFloat _ \<Rightarrow> False | _ \<Rightarrow> True)"
| "float_free (JArray items) = list_all float_free items"
| "float_free (JObject m) = list_all (\<lambda>(k, v). float_free v) m"
| "float_free _ = True"

definition is_blob_object :: "(str \<times> json) list \<Rightarrow> bool" where
  "is_blob_object m \<longleftrightarrow> map_of m ''$link'' = None \<and> map_of m ''$bytes'' = None \<and> map_of m ''$type'' = Some (JString ''blob'')"

definition link_ok :: "(str \<Rightarrow> str + 'cid) \<Rightarrow> (str \<times> json) list \<Rightarrow> bool" where
  "link_ok cid m \<longleftrightarrow> (\<exists>s. m = [(''$link'', JString s)] \<and> is_ok (cid s))"

definition bytes_ok :: "(str \<Rightarrow> str + 8 word list) \<Rightarrow> (str \<times> json) list \<Rightarrow> bool" where
  "bytes_ok dec m \<longleftrightarrow> (\<exists>s. m = [(''$bytes'', JString s)] \<and> is_ok (dec s))"

definition blob_ok :: "(str \<Rightarrow> str + 'cid) \<Rightarrow> (str \<times> json) list \<Rightarrow> bool" where
  "blob_ok cid m \<longleftrightarrow> (\<exists>r. map_of m ''ref'' = Some (JObject r) \<and> link_ok cid r) \<and>
     (\<exists>s. map_of m ''mimeType'' = Some (JString s)) \<and>
     (\<exists>k. map_of m ''size'' = Some (JNumber (PosInt k)) \<or> map_of m ''size'' = Some (JNumber (NegInt k)))"

text \<open>What the check accepts, without paths and error messages.\<close>

fun acceptable :: "(str \<Rightarrow> str + 'cid) \<Rightarrow> (str \<Rightarrow> str + 8 word list) \<Rightarrow> json \<Rightarrow> bool" where
  "acceptable cid dec (JNumber n) = (case n of JFloat f \<Rightarrow> f64_is_integral f | _ \<Rightarrow> True)"
| "acceptable cid dec (JArray items) = list_all (acceptable cid dec) items"
| "acceptable cid dec (JObject m) =
     (if map_of m ''$link'' \<noteq> None then link_ok cid m
      else if map_of m ''$bytes'' \<noteq> None then bytes_ok dec m
      else if map_of m ''$type'' = Some (JString ''blob'') then blob_ok cid m
      else (case map_of m ''$type'' of None \<Rightarrow> True | Some (JString s) \<Rightarrow> s \<noteq> [] | Some _ \<Rightarrow> False) \<and>
        list_all (\<lambda>(k, v). acceptable cid dec v) m)"
| "acceptable cid dec _ = True"

lemma is_ok_bind: "is_ok (res_bind r f) \<longleftrightarrow> (\<exists>x. r = Inr x \<and> is_ok (f x))"
  by (cases r) simp_all

lemma is_ok_unit: "is_ok r \<longleftrightarrow> r = Inr ()"
  by (cases r) auto

lemma bind_ok_unit: "is_ok (res_bind r (\<lambda>_. s)) \<longleftrightarrow> is_ok r \<and> is_ok (s :: 'e + unit)" for r :: "'e + unit"
  by (cases r) simp_all

lemma single_key: "length m = 1 \<Longrightarrow> map_of m k = Some v \<longleftrightarrow> m = [(k, v)]"
  by (cases m) auto

lemma validate_link_ok: "is_ok (validate_cid_link cid m p) \<longleftrightarrow> link_ok cid m"
proof (cases "length m = 1")
  case True
  then show ?thesis
    unfolding validate_cid_link_def link_ok_def
    by (auto simp: single_key [OF True] is_ok_iff split: option.splits json.splits sum.splits)
next
  case False
  then show ?thesis by (auto simp: validate_cid_link_def link_ok_def)
qed

lemma validate_bytes_ok: "is_ok (validate_bytes dec m p) \<longleftrightarrow> bytes_ok dec m"
proof (cases "length m = 1")
  case True
  then show ?thesis
    unfolding validate_bytes_def bytes_ok_def
    by (auto simp: single_key [OF True] is_ok_iff split: option.splits json.splits sum.splits)
next
  case False
  then show ?thesis by (auto simp: validate_bytes_def bytes_ok_def)
qed

lemma link_ok_key: "link_ok cid r \<Longrightarrow> map_of r ''$link'' \<noteq> None"
  by (auto simp: link_ok_def)

lemma validate_blob_ok: "is_ok (validate_blob cid m p) \<longleftrightarrow> blob_ok cid m"
  unfolding validate_blob_def bind_ok_unit blob_ok_def
  by (intro arg_cong2 [where f = "(\<and>)"])
    (auto simp: validate_link_ok dest: link_ok_key split: option.splits json.splits json_number.splits)

lemma validate_number_ok: "is_ok (validate_number n p) \<longleftrightarrow> (case n of JFloat f \<Rightarrow> f64_is_integral f | _ \<Rightarrow> True)"
  by (simp add: validate_number_def split: json_number.splits)

lemma validate_acceptable:
  fixes cid :: "str \<Rightarrow> str + 'cid"
  shows "is_ok (validate_value cid dec j p) \<longleftrightarrow> acceptable cid dec j"
    and "is_ok (validate_items cid dec i js p) \<longleftrightarrow> list_all (acceptable cid dec) js"
    and "is_ok (validate_entries cid dec m p) \<longleftrightarrow> list_all (\<lambda>(k, v). acceptable cid dec v) m"
proof (induction cid dec j p and cid dec i js p and cid dec m p
    rule: validate_value_validate_items_validate_entries.induct)
  case (6 cid dec m path)
  then show ?case
    by (auto simp: validate_link_ok validate_bytes_ok validate_blob_ok split: option.splits json.splits)
qed (simp_all add: validate_number_ok bind_ok_unit)

lemma accepts_iff: "is_ok (validate_data_model cid dec j) \<longleftrightarrow> (\<exists>m. j = JObject m) \<and> acceptable cid dec j"
  by (cases j) (simp_all only: validate_data_model_def json.case validate_acceptable, simp_all)

fun strict_blobs :: "(str \<Rightarrow> str + 'cid) \<Rightarrow> (str \<Rightarrow> str + 8 word list) \<Rightarrow> json \<Rightarrow> bool" where
  "strict_blobs cid dec (JArray items) = list_all (strict_blobs cid dec) items"
| "strict_blobs cid dec (JObject m) =
     ((is_blob_object m \<longrightarrow> list_all (\<lambda>(k, v). acceptable cid dec v) m) \<and> list_all (\<lambda>(k, v). strict_blobs cid dec v) m)"
| "strict_blobs cid dec _ = True"

lemma not_reserved: "map_of m ''$link'' = None \<Longrightarrow> map_of m ''$bytes'' = None \<Longrightarrow> \<not> reserved m"
  by (auto simp: reserved_def)

lemma convert_entries:
  assumes "\<not> reserved m" "\<And>k v. (k, v) \<in> set m \<Longrightarrow> is_ok (json_to_record_value cid dec v)"
  shows "is_ok (json_to_record_value cid dec (JObject m))"
proof -
  have "\<exists>out. collect_results (entry_in cid dec) m = Inr out"
  proof (rule collect_results_ok)
    fix x assume x: "x \<in> set m"
    obtain k v where kv: "x = (k, v)" by (cases x)
    obtain y where "json_to_record_value cid dec v = Inr y" using assms(2) [of k v] x by (auto simp: kv is_ok_iff)
    then show "\<exists>y. entry_in cid dec x = Inr y" by (simp add: kv entry_in_def)
  qed
  then show ?thesis by (auto simp: convert_object [OF assms(1)])
qed

lemma acceptable_converts:
  "acceptable cid dec j \<Longrightarrow> float_free j \<Longrightarrow> strict_blobs cid dec j \<Longrightarrow> is_ok (json_to_record_value cid dec j)"
proof (induction j rule: json_induct)
  case (Number n)
  then show ?case by (auto simp: as_i64_def as_u64_def split: json_number.splits option.splits)
next
  case (Array items)
  have "\<exists>vs. collect_results (json_to_record_value cid dec) items = Inr vs"
    using Array by (intro collect_results_ok) (auto simp: list_all_iff is_ok_iff)
  then show ?case by auto
next
  case (Object m)
  consider "map_of m ''$link'' \<noteq> None" | "map_of m ''$link'' = None" "map_of m ''$bytes'' \<noteq> None"
    | "map_of m ''$link'' = None" "map_of m ''$bytes'' = None" by blast
  then show ?case
  proof cases
    case 1
    then have "link_ok cid m" using Object.prems(1) by simp
    then show ?thesis unfolding link_ok_def is_ok_iff by (auto simp: convert_single)
  next
    case 2
    then have "bytes_ok dec m" using Object.prems(1) by simp
    then show ?thesis unfolding bytes_ok_def is_ok_iff by (auto simp: convert_single)
  next
    case 3
    have "acceptable cid dec v" if "(k, v) \<in> set m" for k v
      using 3 Object.prems(1,3) that by (auto simp: list_all_iff is_blob_object_def split: if_splits)
    moreover have "float_free v \<and> strict_blobs cid dec v" if "(k, v) \<in> set m" for k v
      using Object.prems(2,3) that by (auto simp: list_all_iff)
    ultimately show ?thesis
      using Object.IH by (intro convert_entries not_reserved 3) blast
  qed
qed simp_all

text \<open>
  C26: what the acceptance check accepts, the write path can store. The check accepts exactly the
  objects described by \<open>acceptable\<close>; and an accepted record without floats whose blob objects have
  acceptable contents converts to the data model.
\<close>

theorem accepted_records_convert:
  fixes cid :: "str \<Rightarrow> str + 'cid"
  shows "(is_ok (validate_data_model cid dec j) \<longleftrightarrow> (\<exists>m. j = JObject m) \<and> acceptable cid dec j) \<and>
    (is_ok (validate_data_model cid dec j) \<and> float_free j \<and> strict_blobs cid dec j \<longrightarrow>
       is_ok (json_to_record_value cid dec j))"
  using accepts_iff acceptable_converts by blast

theorem accepted_records_convert_witness:
  "is_ok (json_to_record_value demo_cid demo_dec
     (JObject [(''$type'', JString ''blob''), (''mimeType'', JString ''image/png''),
       (''ref'', JObject [(''$link'', JString ''b'')]), (''size'', JNumber (PosInt 7))]))"
  using accepted_records_convert [of demo_cid demo_dec
      "JObject [(''$type'', JString ''blob''), (''mimeType'', JString ''image/png''),
       (''ref'', JObject [(''$link'', JString ''b'')]), (''size'', JNumber (PosInt 7))]"]
  by (auto simp: blob_ok_def link_ok_def is_blob_object_def demo_cid_def)

text \<open>
  The acceptance check does not look at the remaining fields of a blob object: one that carries
  a fractional number, which the data model excludes, is accepted, while the write path refuses it.
\<close>

theorem blob_fields_unchecked:
  assumes "is_ok (cid s)"
  shows "let j = JObject [(''$type'', JString ''blob''), (''aspect'', JNumber (JFloat (Finite 1 (-1)))),
              (''mimeType'', JString ''image/png''), (''ref'', JObject [(''$link'', JString s)]), (''size'', JNumber (PosInt 7))]
         in is_ok (validate_data_model cid dec j) \<and>
            json_to_record_value cid dec j = Inl (InvalidRecord ''floats are not allowed in ATProto records'') \<and>
            \<not> is_ok (validate_value cid dec (JNumber (JFloat (Finite 1 (-1)))) [])"
  using assms
  by (simp add: Let_def accepts_iff validate_acceptable blob_ok_def link_ok_def f64_is_integral_def convert_object
      reserved_def entry_in_def as_i64_def as_u64_def validate_number_ok)

theorem blob_fields_unchecked_witness:
  "is_ok (validate_data_model demo_cid demo_dec
     (JObject [(''$type'', JString ''blob''), (''aspect'', JNumber (JFloat (Finite 1 (-1)))),
        (''mimeType'', JString ''image/png''), (''ref'', JObject [(''$link'', JString ''b'')]), (''size'', JNumber (PosInt 7))]))"
  using blob_fields_unchecked [of demo_cid "''b''" demo_dec] by (simp add: Let_def demo_cid_def)

section \<open>The blob walk\<close>

fun nodes :: "'cid ipld \<Rightarrow> 'cid ipld list" where
  "nodes (IMap m) = IMap m # concat (map (\<lambda>(k, v). nodes v) m)"
| "nodes (IList items) = IList items # concat (map nodes items)"
| "nodes v = [v]"

fun json_nodes :: "json \<Rightarrow> json list" where
  "json_nodes (JObject m) = JObject m # concat (map (\<lambda>(k, v). json_nodes v) m)"
| "json_nodes (JArray items) = JArray items # concat (map json_nodes items)"
| "json_nodes j = [j]"

text \<open>The CID a single value refers to as a blob.\<close>

definition blob_target :: "'cid ipld \<Rightarrow> 'cid option" where
  "blob_target v =
     (case v of
        IMap m \<Rightarrow>
          if map_of m ''$type'' = Some (IString ''blob'') then
            (case map_of m ''ref'' of
               Some (ILink c) \<Rightarrow> Some c
             | Some (IMap r) \<Rightarrow> (case map_of r ''$link'' of Some (ILink c) \<Rightarrow> Some c | _ \<Rightarrow> None)
             | _ \<Rightarrow> None)
          else None
      | _ \<Rightarrow> None)"

lemma map_filter_concat: "List.map_filter f (concat xss) = concat (map (List.map_filter f) xss)"
  by (induction xss) (simp_all add: List.map_filter_def)

lemma map_filter_Cons: "List.map_filter f (x # xs) = (case f x of None \<Rightarrow> [] | Some y \<Rightarrow> [y]) @ List.map_filter f xs"
  by (simp add: List.map_filter_def split: option.splits)

lemma blob_walk: "collect_blob_cids v = List.map_filter blob_target (nodes v)"
proof (induction v rule: ipld_induct)
  case (List items)
  have "concat (map collect_blob_cids items) = concat (map (List.map_filter blob_target \<circ> nodes) items)"
    using List by (intro arg_cong [where f = concat] map_cong) simp_all
  moreover have "blob_target (IList items) = None" by (simp add: blob_target_def)
  ultimately show ?case by (simp add: map_filter_Cons map_filter_concat)
next
  case (Map m)
  have "concat (map (\<lambda>(k, v). collect_blob_cids v) m) = concat (map (List.map_filter blob_target \<circ> (\<lambda>(k, v). nodes v)) m)"
    using Map by (intro arg_cong [where f = concat] map_cong) auto
  moreover have "(case map_of m ''$type'' of Some (IString ty) \<Rightarrow>
      if ty = ''blob'' then (case map_of m ''ref'' of Some (ILink c) \<Rightarrow> [c]
        | Some (IMap r) \<Rightarrow> (case map_of r ''$link'' of Some (ILink c) \<Rightarrow> [c] | _ \<Rightarrow> []) | _ \<Rightarrow> []) else [] | _ \<Rightarrow> []) =
      (case blob_target (IMap m) of None \<Rightarrow> [] | Some y \<Rightarrow> [y])"
    by (auto simp: blob_target_def split: option.splits ipld.splits)
  ultimately show ?case
    unfolding collect_blob_cids.simps nodes.simps map_filter_Cons map_filter_concat map_map by simp
qed (simp_all add: map_filter_Cons blob_target_def List.map_filter_def)

lemma blob_listed: "n \<in> set (nodes v) \<Longrightarrow> blob_target n = Some c \<Longrightarrow> c \<in> set (record_blob_cids v)"
  by (force simp: record_blob_cids_def blob_walk List.map_filter_def)

lemma nodes_self: "v \<in> set (nodes v)"
  by (cases v) simp_all

lemma convert_nodes:
  "json_to_record_value cid dec j = Inr v \<Longrightarrow> JObject m \<in> set (json_nodes j) \<Longrightarrow>
   \<exists>w\<in>set (nodes v). json_to_record_value cid dec (JObject m) = Inr w"
proof (induction j arbitrary: v rule: json_induct)
  case (Array items)
  then obtain j vs where j: "j \<in> set items" "JObject m \<in> set (json_nodes j)"
      and vs: "collect_results (json_to_record_value cid dec) items = Inr vs" "v = IList vs" by auto
  then obtain w where "w \<in> set vs" "json_to_record_value cid dec j = Inr w"
    unfolding collect_results_Inr_iff list_all2_conv_all_nth by (metis in_set_conv_nth)
  with Array.IH [OF j(1)] j(2) vs(2) show ?case by fastforce
next
  case (Object m')
  show ?case
  proof (cases "m = m'")
    case True
    then show ?thesis using Object.prems(1) nodes_self by auto
  next
    case False
    then obtain k j where j: "(k, j) \<in> set m'" "JObject m \<in> set (json_nodes j)" using Object.prems(2) by auto
    have nr: "\<not> reserved m'"
      using j by (auto simp: reserved_def)
    obtain out where out: "collect_results (entry_in cid dec) m' = Inr out" "v = IMap out"
      using Object.prems(1) by (auto simp: convert_object [OF nr])
    then obtain e where e: "e \<in> set out" "entry_in cid dec (k, j) = Inr e"
      using j(1) unfolding collect_results_Inr_iff list_all2_conv_all_nth by (metis in_set_conv_nth)
    then obtain w where w: "json_to_record_value cid dec j = Inr w" "e = (k, w)" by (auto simp: entry_in_def)
    obtain w' where "w' \<in> set (nodes w)" "json_to_record_value cid dec (JObject m) = Inr w'"
      using Object.IH [OF j(1) w(1) j(2)] by blast
    then show ?thesis using e(1) w(2) out(2) by (auto intro!: bexI [of _ "(k, w)"])
  qed
qed simp_all

lemma convert_lookup:
  "collect_results (entry_in cid dec) m = Inr out \<Longrightarrow> map_of m k = Some j \<Longrightarrow>
   \<exists>w. map_of out k = Some w \<and> json_to_record_value cid dec j = Inr w"
  by (induction m arbitrary: out) (auto simp: entry_in_def split: sum.splits if_splits)

text \<open>
  C25: no uploaded blob is missed. If a stored record came from JSON containing, at any depth, a blob
  object that the acceptance check accepts, then its \<open>ref\<close> is a CID link and that CID is among the
  blobs the walk reports; and the walk reports nothing but the targets of the record's blob values.
\<close>

theorem stored_blobs_are_listed:
  fixes cid :: "str \<Rightarrow> str + 'cid"
  assumes "json_to_record_value cid dec j = Inr v" "JObject m \<in> set (json_nodes j)"
    "map_of m ''$type'' = Some (JString ''blob'')" "validate_blob cid m p = Inr ()"
  shows "(\<exists>s c. map_of m ''ref'' = Some (JObject [(''$link'', JString s)]) \<and> cid s = Inr c \<and> c \<in> set (record_blob_cids v)) \<and>
    record_blob_cids v = List.map_filter blob_target (nodes v)"
proof -
  have "blob_ok cid m" using assms(4) validate_blob_ok [of cid m p] by simp
  then obtain s c size where ref: "map_of m ''ref'' = Some (JObject [(''$link'', JString s)])" "cid s = Inr c"
    by (auto simp: blob_ok_def link_ok_def is_ok_iff)
  have nr: "\<not> reserved m" using ref(1) by (auto simp: reserved_def)
  obtain w where w: "w \<in> set (nodes v)" "json_to_record_value cid dec (JObject m) = Inr w"
    using convert_nodes [OF assms(1,2)] by blast
  obtain out where out: "collect_results (entry_in cid dec) m = Inr out" "w = IMap out"
    using w(2) by (auto simp: convert_object [OF nr])
  have "map_of out ''$type'' = Some (IString ''blob'')" "map_of out ''ref'' = Some (ILink c)"
    using convert_lookup [OF out(1) assms(3)] convert_lookup [OF out(1) ref(1)] ref(2) by (auto simp: convert_single)
  then have "blob_target w = Some c" by (simp add: blob_target_def out(2))
  then show ?thesis using ref blob_listed [OF w(1)] blob_walk by (auto simp: record_blob_cids_def)
qed

theorem stored_blobs_are_listed_witness:
  "0 \<in> set (record_blob_cids (IList [IMap [(''$type'', IString ''blob''), (''mimeType'', IString ''image/png''),
     (''ref'', ILink (0 :: nat)), (''size'', IInteger 7)]]))"
proof -
  let ?m = "[(''$type'', JString ''blob''), (''mimeType'', JString ''image/png''),
       (''ref'', JObject [(''$link'', JString ''b'')]), (''size'', JNumber (PosInt 7))]"
  have "json_to_record_value demo_cid demo_dec (JArray [JObject ?m]) =
      Inr (IList [IMap [(''$type'', IString ''blob''), (''mimeType'', IString ''image/png''),
     (''ref'', ILink (0 :: nat)), (''size'', IInteger 7)]])"
    by (simp add: json_to_record_value.simps(6) demo_cid_def as_i64_def i64_max_def)
  moreover have "validate_blob demo_cid ?m [] = Inr ()"
    by (simp add: validate_blob_def validate_cid_link_def demo_cid_def)
  ultimately show ?thesis
    using stored_blobs_are_listed [of demo_cid demo_dec "JArray [JObject ?m]" _ ?m "[]"] by (auto simp: demo_cid_def)
qed

end
