(* ===== verification/Formats.thy ===== *)
theory Formats
  imports Uri_Syntax Scope_Syntax Data_Model
begin

text \<open>
  The string formats of lexicons (\<open>validate_format\<close> of
  \<open>crates/custos-core/src/lexicon/formats.rs\<close>), the datetime grammar of
  \<open>crates/repo-engine/src/datetime.rs\<close>, and the write-time format check of records in
  \<open>crates/custos-core/src/auth/validation.rs\<close>. The CID parser and chrono's RFC 3339 parser are
  parameters; of the latter the code uses the UTC year of the parsed instant.
\<close>

section \<open>Datetimes\<close>

datatype datetime_error = InvalidSyntax | Unparseable

definition byte_at :: "str \<Rightarrow> nat \<Rightarrow> char option" where
  "byte_at s i = (if i < length s then Some (s ! i) else None)"

text \<open>\<open>digits(bytes, from..to)\<close>: false when the range leaves the string.\<close>

definition digits :: "str \<Rightarrow> nat \<Rightarrow> nat \<Rightarrow> bool" where
  "digits s from to = (to \<le> length s \<and> list_all is_digit (take (to - from) (drop from s)))"

text \<open>The loop over the fraction digits.\<close>

function skip_digits :: "str \<Rightarrow> nat \<Rightarrow> nat" where
  "skip_digits s cursor =
     (case byte_at s cursor of
        Some c \<Rightarrow> if is_digit c then skip_digits s (cursor + 1) else cursor
      | None \<Rightarrow> cursor)"
  by pat_completeness auto
termination
  by (relation "measure (\<lambda>(s, cursor). length s - cursor)") (auto simp: byte_at_def split: if_splits)

declare skip_digits.simps [simp del]

definition zone_ok :: "str \<Rightarrow> nat \<Rightarrow> bool" where
  "zone_ok s cursor =
     (case byte_at s cursor of
        None \<Rightarrow> False
      | Some c \<Rightarrow>
          if c = CHR ''Z'' then cursor + 1 = length s
          else if c = CHR ''+'' \<or> c = CHR ''-'' then
            (let offset = drop cursor s
             in length offset = 6 \<and> offset ! 3 = CHR '':'' \<and> digits offset 1 3 \<and> digits offset 4 6 \<and>
                \<not> (c = CHR ''-'' \<and> drop 1 offset = ''00:00''))
          else False)"

definition has_valid_syntax :: "str \<Rightarrow> bool" where
  "has_valid_syntax s =
     (if length s < 20 \<or> byte_at s 4 \<noteq> Some CHR ''-'' \<or> byte_at s 7 \<noteq> Some CHR ''-'' \<or> byte_at s 10 \<noteq> Some CHR ''T'' \<or>
         byte_at s 13 \<noteq> Some CHR '':'' \<or> byte_at s 16 \<noteq> Some CHR '':'' \<or>
         \<not> digits s 0 4 \<or> \<not> digits s 5 7 \<or> \<not> digits s 8 10 \<or> \<not> digits s 11 13 \<or> \<not> digits s 14 16 \<or> \<not> digits s 17 19
      then False
      else if byte_at s 19 = Some CHR ''.'' then
        (let cursor = skip_digits s 20 in if cursor = 20 then False else zone_ok s cursor)
      else zone_ok s 19)"

definition validate_datetime :: "(str \<Rightarrow> int option) \<Rightarrow> str \<Rightarrow> datetime_error + unit" where
  "validate_datetime utc_year value =
     (if \<not> has_valid_syntax value then Inl InvalidSyntax
      else case utc_year value of
        None \<Rightarrow> Inl Unparseable
      | Some y \<Rightarrow> if y < 0 then Inl Unparseable else Inr ())"

definition is_valid_datetime :: "(str \<Rightarrow> int option) \<Rightarrow> str \<Rightarrow> bool" where
  "is_valid_datetime utc_year value = is_ok (validate_datetime utc_year value)"

section \<open>String formats\<close>

datatype string_format =
    FAtIdentifier | FAtUri | FCid | FDatetime | FDid | FHandle | FLanguage | FNsid | FRecordKey | FSpaceRef | FTid | FUri

definition subtag_ok :: "str \<Rightarrow> bool \<Rightarrow> bool" where
  "subtag_ok t alpha_only \<longleftrightarrow>
     t \<noteq> [] \<and> length t \<le> 8 \<and> list_all (\<lambda>b. is_alnum b \<and> (\<not> alpha_only \<or> is_alpha b)) t"

definition is_valid_language :: "str \<Rightarrow> bool" where
  "is_valid_language value =
     (if value = [] then False
      else case split_on CHR ''-'' value of
        [] \<Rightarrow> False
      | first # subtags \<Rightarrow> subtag_ok first True \<and> list_all (\<lambda>t. subtag_ok t False) subtags)"

fun any_whitespace :: "str \<Rightarrow> bool" where
  "any_whitespace [] = False"
| "any_whitespace (c # s) = (ws_len (c # s) \<noteq> 0 \<or> any_whitespace s)"

definition is_valid_uri :: "str \<Rightarrow> bool" where
  "is_valid_uri value =
     (case find_char CHR '':'' value of
        None \<Rightarrow> False
      | Some colon \<Rightarrow>
          if colon = 0 \<or> length value = colon + 1 then False
          else
            (case take colon value of
               [] \<Rightarrow> False
             | b # scheme_bytes \<Rightarrow>
                 is_alpha b \<and>
                 list_all (\<lambda>b. is_alnum b \<or> b = CHR ''+'' \<or> b = CHR ''.'' \<or> b = CHR ''-'') scheme_bytes \<and>
                 \<not> any_whitespace value))"

definition is_valid_handle :: "str \<Rightarrow> bool" where
  "is_valid_handle value = is_ok (validate_handle_structure value)"

definition format_ok :: "(str \<Rightarrow> str + 'cid) \<Rightarrow> (str \<Rightarrow> int option) \<Rightarrow> string_format \<Rightarrow> str \<Rightarrow> bool" where
  "format_ok cid utc_year fmt value =
     (case fmt of
        FAtIdentifier \<Rightarrow> if starts_with ''did:'' value then is_valid_did value else is_valid_handle value
      | FAtUri \<Rightarrow> is_ok (at_uri_parse value) \<or> is_space_at_uri value
      | FCid \<Rightarrow> is_ok (cid value)
      | FDatetime \<Rightarrow> is_valid_datetime utc_year value
      | FDid \<Rightarrow> is_valid_did value
      | FHandle \<Rightarrow> is_valid_handle value
      | FLanguage \<Rightarrow> is_valid_language value
      | FNsid \<Rightarrow> is_ok (validate_collection value)
      | FRecordKey \<Rightarrow> is_valid_record_key value
      | FSpaceRef \<Rightarrow> is_valid_space_ref value
      | FTid \<Rightarrow> is_valid_tid value
      | FUri \<Rightarrow> is_valid_uri value)"

primrec format_message :: "string_format \<Rightarrow> str" where
  "format_message FAtIdentifier = ''must be a valid did or a handle''"
| "format_message FAtUri = ''must be a valid at-uri''"
| "format_message FCid = ''must be a cid string''"
| "format_message FDatetime = ''must be an valid atproto datetime (both RFC-3339 and ISO-8601)''"
| "format_message FDid = ''must be a valid did''"
| "format_message FHandle = ''must be a valid handle''"
| "format_message FLanguage = ''must be a well-formed BCP 47 language tag''"
| "format_message FNsid = ''must be a valid nsid''"
| "format_message FRecordKey = ''must be a valid Record Key''"
| "format_message FSpaceRef = ''must be a valid space ref''"
| "format_message FTid = ''must be a valid TID''"
| "format_message FUri = ''must be a uri''"

definition validate_format :: "(str \<Rightarrow> str + 'cid) \<Rightarrow> (str \<Rightarrow> int option) \<Rightarrow> string_format \<Rightarrow> str \<Rightarrow> str + unit" where
  "validate_format cid utc_year fmt value =
     (if format_ok cid utc_year fmt value then Inr () else Inl (format_message fmt))"

section \<open>The write-time check of records\<close>

definition max_device_public_key_len :: nat where "max_device_public_key_len = 512"

definition validate_device_public_key :: "str \<Rightarrow> str + unit" where
  "validate_device_public_key public_key =
     (if public_key = [] then Inl ''devicePublicKey must not be empty''
      else if max_device_public_key_len < length public_key
      then Inl (''devicePublicKey must be at most '' @ nat_str max_device_public_key_len @ '' characters'')
      else Inr ())"

text \<open>\<open>chars().take(n)\<close>: whole characters, a continuation byte belongs to the character before it.\<close>

fun take_chars :: "nat \<Rightarrow> str \<Rightarrow> str" where
  "take_chars n [] = []"
| "take_chars n (c # s) =
     (if in_bytes 128 191 c then c # take_chars n s
      else if n = 0 then [] else c # take_chars (n - 1) s)"

definition check_at_uri :: "str \<Rightarrow> str + unit" where
  "check_at_uri s =
     (if starts_with ''at://'' s \<and> \<not> is_ok (at_uri_parse s) \<and> \<not> is_space_at_uri s
      then Inl (''record contains a malformed AT-URI: '' @ take_chars 96 s)
      else Inr ())"

text \<open>\<open>validate_at_uris\<close>, with \<open>try_for_each\<close> as a sequence of checks that stops at the first error.\<close>

fun validate_at_uris :: "json \<Rightarrow> str + unit"
  and validate_each :: "json list \<Rightarrow> str + unit"
  and validate_values :: "(str \<times> json) list \<Rightarrow> str + unit"
where
  "validate_at_uris (JString s) = check_at_uri s"
| "validate_at_uris (JArray items) = validate_each items"
| "validate_at_uris (JObject m) = validate_values m"
| "validate_at_uris JNull = Inr ()"
| "validate_at_uris (JBool b) = Inr ()"
| "validate_at_uris (JNumber n) = Inr ()"
| "validate_each [] = Inr ()"
| "validate_each (v # vs) = res_bind (validate_at_uris v) (\<lambda>_. validate_each vs)"
| "validate_values [] = Inr ()"
| "validate_values ((k, v) # m) = res_bind (validate_at_uris v) (\<lambda>_. validate_values m)"

definition validate_record_formats :: "(str \<Rightarrow> int option) \<Rightarrow> json \<Rightarrow> str + unit" where
  "validate_record_formats utc_year record =
     res_bind
       (case record of
          JObject m \<Rightarrow>
            (case map_of m ''createdAt'' of
               Some (JString created_at) \<Rightarrow>
                 if \<not> is_valid_datetime utc_year created_at
                 then Inl (''createdAt is not a valid ATProto datetime: '' @ created_at)
                 else Inr ()
             | _ \<Rightarrow> Inr ())
        | _ \<Rightarrow> Inr ())
       (\<lambda>_. validate_at_uris record)"

end
