(* ===== verification/Formats_Correct.thy ===== *)
theory Formats_Correct
  imports Formats
begin

text \<open>
  The datetime grammar the index-based check implements, how the string formats contain each
  other, and what the write-time check guarantees of a record.
\<close>

section \<open>The datetime grammar\<close>

definition digs :: "nat \<Rightarrow> str \<Rightarrow> bool" where
  "digs n w \<longleftrightarrow> length w = n \<and> list_all is_digit w"

definition zone_text :: "str \<Rightarrow> bool" where
  "zone_text z \<longleftrightarrow> z = ''Z'' \<or>
     (\<exists>sign hh mm. z = sign # hh @ '':'' @ mm \<and> (sign = CHR ''+'' \<or> sign = CHR ''-'') \<and> digs 2 hh \<and> digs 2 mm \<and>
        \<not> (sign = CHR ''-'' \<and> hh = ''00'' \<and> mm = ''00''))"

definition fraction_text :: "str \<Rightarrow> bool" where
  "fraction_text f \<longleftrightarrow> f = [] \<or> (\<exists>ds. f = CHR ''.'' # ds \<and> ds \<noteq> [] \<and> list_all is_digit ds)"

definition tail_text :: "str \<Rightarrow> bool" where
  "tail_text r \<longleftrightarrow> (\<exists>frac zone. r = frac @ zone \<and> fraction_text frac \<and> zone_text zone)"

text \<open>\<open>n\<close> digits, a separator, and a rest that satisfies \<open>P\<close>.\<close>

definition field :: "nat \<Rightarrow> char \<Rightarrow> (str \<Rightarrow> bool) \<Rightarrow> str \<Rightarrow> bool" where
  "field n sep P t \<longleftrightarrow> (\<exists>w r. t = w @ sep # r \<and> digs n w \<and> P r)"

definition last_field :: "nat \<Rightarrow> (str \<Rightarrow> bool) \<Rightarrow> str \<Rightarrow> bool" where
  "last_field n P t \<longleftrightarrow> (\<exists>w r. t = w @ r \<and> digs n w \<and> P r)"

definition datetime_grammar :: "str \<Rightarrow> bool" where
  "datetime_grammar =
     field 4 CHR ''-'' (field 2 CHR ''-'' (field 2 CHR ''T'' (field 2 CHR '':'' (field 2 CHR '':''
       (last_field 2 tail_text)))))"

lemma skip_digits_eq:
  "cursor \<le> length s \<Longrightarrow> skip_digits s cursor = cursor + length (takeWhile is_digit (drop cursor s))"
proof (induction s cursor rule: skip_digits.induct)
  case (1 s cursor)
  show ?case
  proof (cases "cursor < length s \<and> is_digit (s ! cursor)")
    case True
    then have "drop cursor s = s ! cursor # drop (Suc cursor) s" by (simp add: Cons_nth_drop_Suc)
    then show ?thesis using True 1 by (subst skip_digits.simps) (simp add: byte_at_def)
  next
    case False
    then have "takeWhile is_digit (drop cursor s) = []"
      by (cases "drop cursor s") (auto simp: hd_drop_conv_nth [symmetric] dest: list.discI)
    then show ?thesis using False by (subst skip_digits.simps) (auto simp: byte_at_def)
  qed
qed

lemma digs2: "digs 2 w \<longleftrightarrow> (\<exists>a b. w = [a, b] \<and> is_digit a \<and> is_digit b)"
  by (auto simp: digs_def numeral_eq_Suc length_Suc_conv)

lemma digs4: "digs 4 w \<longleftrightarrow> (\<exists>a b c d. w = [a, b, c, d] \<and> is_digit a \<and> is_digit b \<and> is_digit c \<and> is_digit d)"
  by (auto simp: digs_def numeral_eq_Suc length_Suc_conv)

lemma zone_text_chars:
  "zone_text [c, h1, h2, k, m1, m2] \<longleftrightarrow>
     (c = CHR ''+'' \<or> c = CHR ''-'') \<and> k = CHR '':'' \<and> is_digit h1 \<and> is_digit h2 \<and> is_digit m1 \<and> is_digit m2 \<and>
     \<not> (c = CHR ''-'' \<and> [h1, h2, k, m1, m2] = ''00:00'')" (is "?L \<longleftrightarrow> ?R")
proof
  assume ?L
  then show ?R unfolding zone_text_def digs2 by auto
next
  assume ?R
  then show ?L
    unfolding zone_text_def digs2
    by (intro disjI2 exI [of _ c] exI [of _ "[h1, h2]"] exI [of _ "[m1, m2]"]) auto
qed

lemma zone_text_length: "zone_text (c # z) \<Longrightarrow> c = CHR ''Z'' \<and> z = [] \<or> length z = 5 \<and> (c = CHR ''+'' \<or> c = CHR ''-'')"
  unfolding zone_text_def digs2 by auto

lemma zone_text_Z: "zone_text ''Z''"
  by (simp add: zone_text_def)

lemma zone_ok_eq:
  assumes "cursor \<le> length s"
  shows "zone_ok s cursor \<longleftrightarrow> zone_text (drop cursor s)"
proof (cases "drop cursor s")
  case Nil
  then show ?thesis using assms by (auto simp: zone_ok_def byte_at_def zone_text_def)
next
  case (Cons c z)
  then have c: "byte_at s cursor = Some c"
    by (metis byte_at_def drop_eq_Nil2 hd_drop_conv_nth leI list.discI list.sel(1))
  have len: "length s = cursor + Suc (length z)"
    using arg_cong [OF Cons, of length] assms by simp
  show ?thesis
  proof (cases "length z = 5")
    case True
    then obtain h1 h2 k m1 m2 where z: "z = [h1, h2, k, m1, m2]"
      by (auto simp: numeral_eq_Suc length_Suc_conv)
    have d: "digits [c, h1, h2, k, m1, m2] 1 3 = (is_digit h1 \<and> is_digit h2)"
      "digits [c, h1, h2, k, m1, m2] 4 6 = (is_digit m1 \<and> is_digit m2)"
      by (simp_all add: digits_def)
    have "zone_ok s cursor \<longleftrightarrow> (c = CHR ''+'' \<or> c = CHR ''-'') \<and> k = CHR '':'' \<and> (is_digit h1 \<and> is_digit h2) \<and>
        (is_digit m1 \<and> is_digit m2) \<and> \<not> (c = CHR ''-'' \<and> [h1, h2, k, m1, m2] = ''00:00'')"
      unfolding zone_ok_def c option.case Cons z Let_def d using len z by simp
    then show ?thesis unfolding Cons z zone_text_chars by blast
  next
    case False
    have "zone_ok s cursor \<longleftrightarrow> c = CHR ''Z'' \<and> z = []"
      unfolding zone_ok_def c Cons using len False by (auto simp: Let_def)
    moreover have "zone_text (c # z) \<longleftrightarrow> c = CHR ''Z'' \<and> z = []"
      using False zone_text_length [of c z] zone_text_Z by blast
    ultimately show ?thesis by (simp add: Cons)
  qed
qed

lemma zone_text_head: "zone_text z \<Longrightarrow> \<exists>c z'. z = c # z' \<and> \<not> is_digit c \<and> c \<noteq> CHR ''.''"
proof -
  have "\<not> is_digit CHR ''Z''" "\<not> is_digit CHR ''+''" "\<not> is_digit CHR ''-''" by code_simp+
  moreover assume "zone_text z"
  then obtain c z' where "z = c # z'" "c = CHR ''Z'' \<or> c = CHR ''+'' \<or> c = CHR ''-''"
    unfolding zone_text_def by blast
  ultimately show ?thesis by force
qed

lemma digits_zone:
  "(\<exists>ds zone. r = ds @ zone \<and> ds \<noteq> [] \<and> list_all is_digit ds \<and> zone_text zone) \<longleftrightarrow>
   takeWhile is_digit r \<noteq> [] \<and> zone_text (dropWhile is_digit r)" (is "?L \<longleftrightarrow> ?R")
proof
  assume ?L
  then obtain ds zone where r: "r = ds @ zone" "ds \<noteq> []" "list_all is_digit ds" "zone_text zone" by blast
  obtain d z where "zone = d # z" "\<not> is_digit d" using zone_text_head [OF r(4)] by blast
  then show ?R using r by (simp add: list_all_iff)
next
  assume ?R
  moreover have "list_all is_digit (takeWhile is_digit r)" by (auto simp: list_all_iff dest: set_takeWhileD)
  ultimately show ?L using takeWhile_dropWhile_id [of is_digit r] by metis
qed

lemma tail_text_Cons:
  "tail_text (c # r) \<longleftrightarrow>
     (if c = CHR ''.'' then takeWhile is_digit r \<noteq> [] \<and> zone_text (dropWhile is_digit r) else zone_text (c # r))"
proof -
  have "tail_text (c # r) \<longleftrightarrow> zone_text (c # r) \<or> c = CHR ''.'' \<and> (\<exists>ds zone. r = ds @ zone \<and> ds \<noteq> [] \<and> list_all is_digit ds \<and> zone_text zone)"
    unfolding tail_text_def fraction_text_def by (auto simp: Cons_eq_append_conv)
  then show ?thesis using zone_text_head [of "c # r"] by (auto simp: digits_zone)
qed

lemma tail_text_Nil: "\<not> tail_text []"
  using zone_text_head by (fastforce simp: tail_text_def)

lemma field_eq: "field n sep P t \<longleftrightarrow> digits t 0 n \<and> byte_at t n = Some sep \<and> P (drop (Suc n) t)"
proof
  assume "field n sep P t"
  then show "digits t 0 n \<and> byte_at t n = Some sep \<and> P (drop (Suc n) t)"
    by (auto simp: field_def digs_def digits_def byte_at_def)
next
  assume r: "digits t 0 n \<and> byte_at t n = Some sep \<and> P (drop (Suc n) t)"
  then have "t = take n t @ sep # drop (Suc n) t"
    by (auto simp: byte_at_def id_take_nth_drop split: if_splits)
  then show "field n sep P t"
    unfolding field_def using r by (intro exI [of _ "take n t"] exI [of _ "drop (Suc n) t"]) (auto simp: digs_def digits_def)
qed

lemma last_field_eq: "last_field n P t \<longleftrightarrow> digits t 0 n \<and> P (drop n t)"
proof
  assume "last_field n P t"
  then show "digits t 0 n \<and> P (drop n t)" by (auto simp: last_field_def digs_def digits_def)
next
  assume r: "digits t 0 n \<and> P (drop n t)"
  then show "last_field n P t"
    unfolding last_field_def by (intro exI [of _ "take n t"] exI [of _ "drop n t"]) (auto simp: digs_def digits_def)
qed

lemma digits_drop: "k \<le> length t \<Longrightarrow> digits (drop k t) a b = digits t (k + a) (k + b)"
  by (auto simp: digits_def add.commute)

lemma byte_at_drop: "byte_at (drop k t) i = byte_at t (k + i)"
  by (auto simp: byte_at_def)

lemma has_valid_syntax_grammar: "has_valid_syntax s \<longleftrightarrow> datetime_grammar s"
proof (cases "20 \<le> length s")
  case False
  have "length s = 19" if "digits s 17 19" using that False by (simp add: digits_def)
  then have "\<not> datetime_grammar s"
    unfolding datetime_grammar_def field_eq last_field_eq byte_at_drop drop_drop
    using False tail_text_Nil by (auto simp: digits_drop byte_at_def digits_def)
  then show ?thesis using False by (simp add: has_valid_syntax_def)
next
  case True
  define t where "t = drop 19 s"
  obtain c r where t: "t = c # r" using True by (cases t) (auto simp: t_def)
  have c: "byte_at s 19 = Some c" using t True by (simp add: t_def byte_at_def) (metis hd_drop_conv_nth list.sel(1) nth_via_drop)
  have "drop 20 s = drop 1 t" by (simp add: t_def)
  then have r: "drop 20 s = r" by (simp add: t)
  have tail: "(if byte_at s 19 = Some CHR ''.'' then (let cursor = skip_digits s 20 in if cursor = 20 then False else zone_ok s cursor)
      else zone_ok s 19) \<longleftrightarrow> tail_text t"
  proof (cases "c = CHR ''.''")
    case dot: True
    have skip: "skip_digits s 20 = 20 + length (takeWhile is_digit r)" using skip_digits_eq [of 20 s] True r by simp
    have le: "20 + length (takeWhile is_digit r) \<le> length s"
      using length_takeWhile_le [of is_digit r] arg_cong [OF r, of length] True by simp
    have "drop (20 + length (takeWhile is_digit r)) s = dropWhile is_digit r"
      using r by (metis add.commute drop_drop dropWhile_eq_drop)
    then show ?thesis using zone_ok_eq [OF le] dot by (simp add: c skip t tail_text_Cons Let_def)
  next
    case False
    have "zone_ok s 19 \<longleftrightarrow> zone_text t" using zone_ok_eq [of 19 s] True by (simp add: t_def)
    then show ?thesis using False by (simp add: c t tail_text_Cons)
  qed
  have "datetime_grammar s \<longleftrightarrow> digits s 0 4 \<and> byte_at s 4 = Some CHR ''-'' \<and> digits s 5 7 \<and> byte_at s 7 = Some CHR ''-'' \<and>
      digits s 8 10 \<and> byte_at s 10 = Some CHR ''T'' \<and> digits s 11 13 \<and> byte_at s 13 = Some CHR '':'' \<and>
      digits s 14 16 \<and> byte_at s 16 = Some CHR '':'' \<and> digits s 17 19 \<and> tail_text t"
    unfolding datetime_grammar_def field_eq last_field_eq byte_at_drop drop_drop
    using True by (simp add: digits_drop t_def)
  then show ?thesis
    using True tail unfolding has_valid_syntax_def by auto
qed

text \<open>
  A datetime is accepted exactly when it matches the grammar (four-digit year, upper-case
  \<open>T\<close>, seconds, an optional non-empty fraction, \<open>Z\<close> or a numeric offset other than
  \<open>-00:00\<close>) and denotes an instant whose UTC year is not negative; the error says which of the
  two failed.
\<close>

theorem datetime_accepts_grammar:
  "validate_datetime utc_year s =
     (if \<not> datetime_grammar s then Inl InvalidSyntax
      else if \<exists>y. utc_year s = Some y \<and> 0 \<le> y then Inr () else Inl Unparseable)"
  by (auto simp: validate_datetime_def has_valid_syntax_grammar split: option.splits)

section \<open>Formats that contain each other\<close>

lemma tid_chars_are_key_chars:
  "c \<in> set base32_sortable \<Longrightarrow> is_alnum c"
proof -
  have "list_all is_alnum base32_sortable" by code_simp
  then show "c \<in> set base32_sortable \<Longrightarrow> is_alnum c" by (simp add: list_all_iff)
qed

lemma tid_is_record_key: "is_valid_tid s \<Longrightarrow> is_valid_record_key s"
  by (auto simp: is_valid_tid_def is_valid_record_key_def list_all_iff tid_chars_are_key_chars split: if_splits)

lemma space_ref_is_at_uri: "is_valid_space_ref s \<Longrightarrow> is_space_at_uri s"
  by (auto simp: is_valid_space_ref_def is_space_at_uri_def parse_space_ref_def split: option.splits)

lemma any_whitespace_printable: "list_all (in_bytes 33 126) s \<Longrightarrow> \<not> any_whitespace s"
  by (induction s) (auto simp: ws_len_printable)

lemma did_printable:
  assumes "is_valid_did d"
  shows "list_all (in_bytes 33 126) d"
  unfolding list_all_iff
proof
  fix c assume "c \<in> set d"
  have "is_alnum c \<Longrightarrow> in_bytes 33 126 c" by (auto simp: ascii_simps in_bytes_def)
  moreover have "c \<in> {CHR ''.'', CHR ''-'', CHR ''_'', CHR '':'', CHR ''%''} \<Longrightarrow> in_bytes 33 126 c"
    by (auto simp: in_bytes_def)
  ultimately show "in_bytes 33 126 c" by (rule disjE [OF is_valid_did_chars [OF assms \<open>c \<in> set d\<close>]])
qed

lemma did_is_uri:
  assumes "is_valid_did d"
  shows "is_valid_uri d"
proof -
  obtain r where d: "d = ''did'' @ CHR '':'' # r" "r \<noteq> []" using assms by (auto simp: is_valid_did_iff)
  have "find_char CHR '':'' d = Some 3" using find_char_app [of "CHR '':''" "''did''" r] d by simp
  moreover have "take 3 d = ''did''" using d by simp
  moreover have "is_alpha CHR ''d''" "is_alnum CHR ''i''" "is_alnum CHR ''d''" by code_simp+
  ultimately show ?thesis
    using d any_whitespace_printable [OF did_printable [OF assms]] by (simp add: is_valid_uri_def)
qed

lemma handle_no_colon:
  assumes "is_valid_handle h"
  shows "CHR '':'' \<notin> set h"
proof
  assume "CHR '':'' \<in> set h"
  moreover have "\<forall>l\<in>set (split_on CHR ''.'' h). valid_label l"
    using assms by (auto simp: is_valid_handle_def is_ok_iff validate_handle_structure_ok_iff)
  moreover have "set h \<subseteq> (\<Union>l\<in>set (split_on CHR ''.'' h). set l) \<union> {CHR ''.''}"
    by (rule set_via_split_on)
  moreover have "CHR '':'' \<noteq> CHR ''.''" by simp
  ultimately obtain l where "valid_label l" "CHR '':'' \<in> set l" by blast
  then have "is_alnum CHR '':''" unfolding valid_label_def by fastforce
  moreover have "\<not> is_alnum CHR '':''" by code_simp
  ultimately show False by blast
qed

lemma handle_is_no_did: "is_valid_handle h \<Longrightarrow> \<not> starts_with ''did:'' h"
  using handle_no_colon [of h] by (auto simp: starts_with_iff)

text \<open>
  How the string formats contain each other: an AT identifier is a DID or a handle, never
  both; every DID is a URI; every TID is a record key; the AT-URIs are the public ones and the
  space URIs, which exclude each other, and every space reference is among them. A rejection
  carries the message of the format asked for.
\<close>

theorem format_inclusions:
  "(format_ok cid utc_year FAtIdentifier s \<longleftrightarrow> format_ok cid utc_year FDid s \<or> format_ok cid utc_year FHandle s) \<and>
   \<not> (format_ok cid utc_year FDid s \<and> format_ok cid utc_year FHandle s) \<and>
   (format_ok cid utc_year FDid s \<longrightarrow> format_ok cid utc_year FUri s) \<and>
   (format_ok cid utc_year FTid s \<longrightarrow> format_ok cid utc_year FRecordKey s) \<and>
   (format_ok cid utc_year FSpaceRef s \<longrightarrow> format_ok cid utc_year FAtUri s \<and> \<not> is_ok (at_uri_parse s)) \<and>
   (\<forall>fmt. validate_format cid utc_year fmt s = Inr () \<longleftrightarrow> format_ok cid utc_year fmt s) \<and>
   (\<forall>fmt m. validate_format cid utc_year fmt s = Inl m \<longrightarrow> m = format_message fmt)"
proof -
  have did: "is_valid_did s \<Longrightarrow> starts_with ''did:'' s" by (auto simp: is_valid_did_iff starts_with_iff)
  have "\<not> is_ok (at_uri_parse s)" if "is_space_at_uri s"
    using that by (auto simp: is_space_at_uri_def split_space_uri_def at_uri_parse_def is_ok_iff
        split: option.splits if_splits list.splits)
  then show ?thesis
    using did handle_is_no_did [of s] did_is_uri [of s] tid_is_record_key [of s] space_ref_is_at_uri [of s]
    unfolding format_ok_def validate_format_def by auto
qed

theorem format_inclusions_witness:
  "is_valid_uri ''did:plc:abc'' \<and> is_valid_record_key ''3jzfcijpj2z2a''"
proof -
  have "is_valid_did ''did:plc:abc''" "is_valid_tid ''3jzfcijpj2z2a''" by code_simp+
  then show ?thesis
    using format_inclusions [of "\<lambda>s. Inr s" "\<lambda>_. None" "''did:plc:abc''"]
      format_inclusions [of "\<lambda>s. Inr s" "\<lambda>_. None" "''3jzfcijpj2z2a''"]
    unfolding format_ok_def string_format.case by blast
qed

section \<open>Records that are written\<close>

fun string_leaves :: "json \<Rightarrow> str list" where
  "string_leaves (JString s) = [s]"
| "string_leaves (JArray items) = concat (map string_leaves items)"
| "string_leaves (JObject m) = concat (map (\<lambda>(k, v). string_leaves v) m)"
| "string_leaves _ = []"

definition uri_leaf_ok :: "str \<Rightarrow> bool" where
  "uri_leaf_ok s \<longleftrightarrow> (starts_with ''at://'' s \<longrightarrow> is_ok (at_uri_parse s) \<or> is_space_at_uri s)"

lemma check_at_uri_iff: "check_at_uri s = (if uri_leaf_ok s then Inr () else Inl (''record contains a malformed AT-URI: '' @ take_chars 96 s))"
  by (auto simp: check_at_uri_def uri_leaf_ok_def)

text \<open>The error of the walk is the one of the first bad string in document order.\<close>

definition first_bad :: "str list \<Rightarrow> str + unit" where
  "first_bad ss = (case find (\<lambda>s. \<not> uri_leaf_ok s) ss of None \<Rightarrow> Inr () | Some s \<Rightarrow> check_at_uri s)"

lemma first_bad_simps [simp]:
  "first_bad [] = Inr ()" "first_bad (s # ss) = res_bind (check_at_uri s) (\<lambda>_. first_bad ss)"
  by (auto simp: first_bad_def check_at_uri_iff)

lemma first_bad_single: "first_bad [s] = check_at_uri s"
  by (cases "check_at_uri s") simp_all

lemma res_bind_assoc: "res_bind (res_bind r f) g = res_bind r (\<lambda>x. res_bind (f x) g)"
  by (cases r) simp_all

lemma res_bind_unit: "res_bind r (\<lambda>_. Inr ()) = r" for r :: "'e + unit"
  by (cases r) simp_all

lemma first_bad_append: "first_bad (xs @ ys) = res_bind (first_bad xs) (\<lambda>_. first_bad ys)"
  by (induction xs) (simp_all add: res_bind_assoc)

lemma first_bad_iff: "first_bad ss = Inr () \<longleftrightarrow> list_all uri_leaf_ok ss"
  by (induction ss) (auto simp: check_at_uri_iff)

lemma validate_at_uris_first_bad:
  "validate_at_uris j = first_bad (string_leaves j)"
  "validate_each vs = first_bad (concat (map string_leaves vs))"
  "validate_values m = first_bad (concat (map (\<lambda>(k, v). string_leaves v) m))"
  by (induction j and vs and m rule: validate_at_uris_validate_each_validate_values.induct)
    (simp_all add: first_bad_append first_bad_single del: first_bad_simps(2))

definition created_at :: "json \<Rightarrow> str option" where
  "created_at j = (case j of JObject m \<Rightarrow> (case map_of m ''createdAt'' of Some (JString s) \<Rightarrow> Some s | _ \<Rightarrow> None) | _ \<Rightarrow> None)"

text \<open>
  The write-time check passes exactly when a string \<open>createdAt\<close> of the record root is an AT
  datetime and every \<open>at://\<close> string, at any depth, is a public AT-URI or a space URI; otherwise
  the error is the datetime's, or that of the first bad string in document order. A
  \<open>createdAt\<close> that is not a string, and one below the root, is not checked.
\<close>

theorem record_formats_accept_iff:
  "(validate_record_formats utc_year j = Inr () \<longleftrightarrow>
     pred_option (is_valid_datetime utc_year) (created_at j) \<and> list_all uri_leaf_ok (string_leaves j)) \<and>
   validate_record_formats utc_year j =
     (case created_at j of
        Some c \<Rightarrow> if is_valid_datetime utc_year c then first_bad (string_leaves j)
                  else Inl (''createdAt is not a valid ATProto datetime: '' @ c)
      | None \<Rightarrow> first_bad (string_leaves j))"
proof -
  have "validate_record_formats utc_year j =
     (case created_at j of
        Some c \<Rightarrow> if is_valid_datetime utc_year c then first_bad (string_leaves j)
                  else Inl (''createdAt is not a valid ATProto datetime: '' @ c)
      | None \<Rightarrow> first_bad (string_leaves j))"
    unfolding validate_record_formats_def created_at_def validate_at_uris_first_bad
    by (auto split: json.splits option.splits)
  then show ?thesis by (auto simp: first_bad_iff split: option.splits)
qed

end
