(* ===== verification/Plc_Ops.thy ===== *)
theory Plc_Ops
  imports Shamir Data_Model "HOL-Library.Product_Lexorder"
begin

text \<open>
  The did:plc operations of \<open>crates/crypto/src/plc.rs\<close>: building and verifying genesis, rotation and
  tombstone operations, their identifiers, and the audit log. CBOR, JSON text, base32, base64,
  multibase, SHA-256 and the two elliptic curves are third-party crates; they are the fields of a
  record \<open>plc_lib\<close> that every operation takes. What the code hands to the CBOR and JSON encoders
  is modelled: the serde value of each struct, with its fields and map entries in emission order. A
  \<open>BTreeMap\<close> is the list of its entries in key order.
\<close>

datatype did_key_uri = DidKeyUri (key_uri: str)

section \<open>Operations\<close>

record plc_service =
  svc_type :: str
  svc_endpoint :: str

record unsigned_plc_op =
  op_prev :: "str option"
  op_type :: str
  op_services :: "(str \<times> plc_service) list"
  op_also_known_as :: "str list"
  op_rotation_keys :: "str list"
  op_verification_methods :: "(str \<times> str) list"

record signed_plc_op = unsigned_plc_op +
  op_sig :: str

record unsigned_tombstone =
  ts_prev :: str
  ts_type :: str

record signed_tombstone = unsigned_tombstone +
  ts_sig :: str

text \<open>\<open>AuditEntry\<close>; the raw operation is a JSON value.\<close>

record audit_entry =
  le_did :: str
  le_cid :: str
  le_created_at :: str
  le_nullified :: bool
  le_operation :: json

section \<open>The serde values of the operations\<close>

datatype sval = SNull | SText str | SList "sval list" | SMap "(str \<times> sval) list"

text \<open>\<open>CanonicalMap\<close>: shortest key first, then bytewise.\<close>

definition canonical_entries :: "(str \<times> 'v) list \<Rightarrow> (str \<times> 'v) list" where
  "canonical_entries m = sort_key (\<lambda>(k, _). (length k, k)) m"

definition canonical_map :: "('v \<Rightarrow> sval) \<Rightarrow> (str \<times> 'v) list \<Rightarrow> sval" where
  "canonical_map f m = SMap (map (\<lambda>(k, v). (k, f v)) (canonical_entries m))"

definition service_value :: "plc_service \<Rightarrow> sval" where
  "service_value s = SMap [(''type'', SText (svc_type s)), (''endpoint'', SText (svc_endpoint s))]"

definition option_value :: "str option \<Rightarrow> sval" where
  "option_value p = (case p of None \<Rightarrow> SNull | Some s \<Rightarrow> SText s)"

definition op_fields :: "'a unsigned_plc_op_scheme \<Rightarrow> (str \<times> sval) list" where
  "op_fields op =
     [(''prev'', option_value (op_prev op)),
      (''type'', SText (op_type op)),
      (''services'', canonical_map service_value (op_services op)),
      (''alsoKnownAs'', SList (map SText (op_also_known_as op))),
      (''rotationKeys'', SList (map SText (op_rotation_keys op))),
      (''verificationMethods'', canonical_map SText (op_verification_methods op))]"

definition unsigned_value :: "unsigned_plc_op \<Rightarrow> sval" where
  "unsigned_value op = SMap (op_fields op)"

definition signed_value :: "signed_plc_op \<Rightarrow> sval" where
  "signed_value op = SMap ((''sig'', SText (op_sig op)) # op_fields op)"

definition tombstone_fields :: "'a unsigned_tombstone_scheme \<Rightarrow> (str \<times> sval) list" where
  "tombstone_fields op = [(''prev'', SText (ts_prev op)), (''type'', SText (ts_type op))]"

definition unsigned_tombstone_value :: "unsigned_tombstone \<Rightarrow> sval" where
  "unsigned_tombstone_value op = SMap (tombstone_fields op)"

definition signed_tombstone_value :: "signed_tombstone \<Rightarrow> sval" where
  "signed_tombstone_value op = SMap ((''sig'', SText (ts_sig op)) # tombstone_fields op)"

section \<open>The libraries\<close>

text \<open>
  One elliptic curve: signatures from 64 raw bytes and back, \<open>normalize_s\<close> (a result when the
  signature was not low-S), public keys from SEC1 bytes, and verification.
\<close>

record ('g, 'k) curve =
  cv_signature :: "bytes \<Rightarrow> str + 'g"
  cv_sig_bytes :: "'g \<Rightarrow> bytes"
  cv_normalize_s :: "'g \<Rightarrow> 'g option"
  cv_key :: "bytes \<Rightarrow> str + 'k"
  cv_verify :: "'k \<Rightarrow> bytes \<Rightarrow> 'g \<Rightarrow> str + unit"

record ('g, 'k, 's) plc_lib =
  lib_cbor :: "sval \<Rightarrow> str + bytes"
  lib_sha256 :: "bytes \<Rightarrow> bytes"
  lib_b32_encode :: "bytes \<Rightarrow> str"
  lib_b32_decode :: "str \<Rightarrow> str + bytes"
  lib_b64_encode :: "bytes \<Rightarrow> str"
  lib_b64_decode :: "str \<Rightarrow> str + bytes"
  lib_multibase_decode :: "str \<Rightarrow> str + bytes"
  lib_p256 :: "('g, 'k) curve"
  lib_k256 :: "('g, 'k) curve"
  lib_secret_key :: "bytes \<Rightarrow> str + 's"
  lib_sign :: "'s \<Rightarrow> bytes \<Rightarrow> 'g"
  lib_op_json :: "signed_plc_op \<Rightarrow> str + str"
  lib_op_parse :: "str \<Rightarrow> str + signed_plc_op"
  lib_ts_json :: "signed_tombstone \<Rightarrow> str + str"
  lib_ts_parse :: "str \<Rightarrow> str + signed_tombstone"
  lib_json_text :: "json \<Rightarrow> str + str"
  lib_log_parse :: "str \<Rightarrow> str + audit_entry list"
  lib_debug :: "str \<Rightarrow> str"

section \<open>Identifiers\<close>

definition cidv1_prefix :: bytes where "cidv1_prefix = [0x01, 0x71, 0x12, 0x20]"

definition trim_end_eq :: "str \<Rightarrow> str" where
  "trim_end_eq s = rev (dropWhile (\<lambda>c. c = CHR ''='') (rev s))"

definition compute_cid :: "('g, 'k, 's) plc_lib \<Rightarrow> bytes \<Rightarrow> crypto_error + str" where
  "compute_cid L signed_cbor =
     Inr (''b'' @ trim_end_eq (lib_b32_encode L (cidv1_prefix @ lib_sha256 L signed_cbor)))"

definition is_valid_cidv1_dag_cbor_sha256 :: "('g, 'k, 's) plc_lib \<Rightarrow> str \<Rightarrow> bool" where
  "is_valid_cidv1_dag_cbor_sha256 L cid =
     (case strip_prefix ''b'' cid of
        None \<Rightarrow> False
      | Some body \<Rightarrow>
          (case lib_b32_decode L body of
             Inl e \<Rightarrow> False
           | Inr bs \<Rightarrow> length bs = 36 \<and> take 4 bs = cidv1_prefix))"

text \<open>The base32 text of a 32-byte hash has more than 24 characters, so the slice is in range.\<close>

definition did_of_cbor :: "('g, 'k, 's) plc_lib \<Rightarrow> bytes \<Rightarrow> str" where
  "did_of_cbor L signed_cbor = ''did:plc:'' @ take 24 (lib_b32_encode L (lib_sha256 L signed_cbor))"

definition cbor_encode :: "('g, 'k, 's) plc_lib \<Rightarrow> str \<Rightarrow> sval \<Rightarrow> crypto_error + bytes" where
  "cbor_encode L what v = map_err (\<lambda>e. PlcOperation (''cbor encode '' @ what @ '': '' @ e)) (lib_cbor L v)"

section \<open>Signatures\<close>

definition p256_multicodec_prefix :: bytes where "p256_multicodec_prefix = [0x80, 0x24]"
definition secp256k1_multicodec_prefix :: bytes where "secp256k1_multicodec_prefix = [0xe7, 0x01]"

definition ensure_low_s_callback_signature :: "('g, 'k, 's) plc_lib \<Rightarrow> bytes \<Rightarrow> crypto_error + unit" where
  "ensure_low_s_callback_signature L sig_bytes =
     res_bind (map_err (\<lambda>e. PlcOperation (''signing callback returned invalid signature bytes: '' @ e))
                 (cv_signature (lib_p256 L) sig_bytes))
       (\<lambda>g. if cv_normalize_s (lib_p256 L) g \<noteq> None
            then Inl (PlcOperation
              ''signing callback returned a non-canonical high-S signature (atproto requires low-S)'')
            else Inr ())"

definition decode_did_key_multikey :: "('g, 'k, 's) plc_lib \<Rightarrow> did_key_uri \<Rightarrow> str + bytes" where
  "decode_did_key_multikey L key =
     res_bind (ok_or (strip_prefix ''did:key:'' (key_uri key)) ''public key missing did:key: prefix'')
       (\<lambda>key_str. map_err (\<lambda>e. ''decode public key multibase: '' @ e) (lib_multibase_decode L key_str))"

text \<open>\<open>verify_p256_sec1\<close> and \<open>verify_k256_sec1\<close> differ in the curve and its name.\<close>

definition verify_sec1 :: "str \<Rightarrow> ('g, 'k) curve \<Rightarrow> bytes \<Rightarrow> bytes \<Rightarrow> bytes \<Rightarrow> str + unit" where
  "verify_sec1 name C sec1 msg sig_bytes =
     res_bind (map_err (\<lambda>e. ''invalid ECDSA signature bytes: '' @ e) (cv_signature C sig_bytes))
       (\<lambda>g. if cv_normalize_s C g \<noteq> None
            then Inl ''signature is not low-S canonical (atproto requires low-S)''
            else res_bind (map_err (\<lambda>e. ''invalid '' @ name @ '' public key: '' @ e) (cv_key C sec1))
                   (\<lambda>vk. map_err (\<lambda>e. ''signature verification failed: '' @ e) (cv_verify C vk msg g)))"

definition verify_p256_sec1 :: "('g, 'k, 's) plc_lib \<Rightarrow> bytes \<Rightarrow> bytes \<Rightarrow> bytes \<Rightarrow> str + unit" where
  "verify_p256_sec1 L = verify_sec1 ''P-256'' (lib_p256 L)"

definition verify_k256_sec1 :: "('g, 'k, 's) plc_lib \<Rightarrow> bytes \<Rightarrow> bytes \<Rightarrow> bytes \<Rightarrow> str + unit" where
  "verify_k256_sec1 L = verify_sec1 ''secp256k1'' (lib_k256 L)"

text \<open>\<open>get(..2)\<close>: no prefix when there are fewer than two bytes.\<close>

definition multicodec :: "bytes \<Rightarrow> bytes option" where
  "multicodec bs = (if 2 \<le> length bs then Some (take 2 bs) else None)"

definition verify_signature_with_key ::
  "('g, 'k, 's) plc_lib \<Rightarrow> did_key_uri \<Rightarrow> bytes \<Rightarrow> bytes \<Rightarrow> str + unit" where
  "verify_signature_with_key L key msg sig_bytes =
     res_bind (decode_did_key_multikey L key)
       (\<lambda>mk. if multicodec mk = Some p256_multicodec_prefix then verify_p256_sec1 L (drop 2 mk) msg sig_bytes
             else if multicodec mk = Some secp256k1_multicodec_prefix
             then verify_k256_sec1 L (drop 2 mk) msg sig_bytes
             else Inl ''unsupported did:key type (multicodec prefix is neither P-256 nor secp256k1)'')"

definition verify_p256_signature ::
  "('g, 'k, 's) plc_lib \<Rightarrow> did_key_uri \<Rightarrow> bytes \<Rightarrow> bytes \<Rightarrow> crypto_error + unit" where
  "verify_p256_signature L key msg signature =
     res_bind (map_err SignatureVerification (decode_did_key_multikey L key))
       (\<lambda>mk. if multicodec mk \<noteq> Some p256_multicodec_prefix
             then Inl (SignatureVerification ''public key is not a P-256 key (wrong multicodec prefix)'')
             else map_err SignatureVerification (verify_p256_sec1 L (drop 2 mk) msg signature))"

definition verify_p256_signature_any_s ::
  "('g, 'k, 's) plc_lib \<Rightarrow> did_key_uri \<Rightarrow> bytes \<Rightarrow> bytes \<Rightarrow> crypto_error + unit" where
  "verify_p256_signature_any_s L key msg signature =
     res_bind (map_err (\<lambda>e. SignatureVerification (''invalid ECDSA signature bytes: '' @ e))
                 (cv_signature (lib_p256 L) signature))
       (\<lambda>parsed.
          let low_s = (case cv_normalize_s (lib_p256 L) parsed of None \<Rightarrow> parsed | Some g \<Rightarrow> g)
          in verify_p256_signature L key msg (cv_sig_bytes (lib_p256 L) low_s))"

datatype did_key_curve_kind = P256 | Secp256k1

definition did_key_curve :: "('g, 'k, 's) plc_lib \<Rightarrow> did_key_uri \<Rightarrow> crypto_error + did_key_curve_kind" where
  "did_key_curve L key =
     res_bind (map_err SignatureVerification (decode_did_key_multikey L key))
       (\<lambda>mk. if multicodec mk = Some p256_multicodec_prefix then Inr P256
             else if multicodec mk = Some secp256k1_multicodec_prefix then Inr Secp256k1
             else Inl (SignatureVerification
               ''unsupported did:key type (multicodec prefix is neither P-256 nor secp256k1)''))"

definition verify_did_key_signature ::
  "('g, 'k, 's) plc_lib \<Rightarrow> did_key_uri \<Rightarrow> bytes \<Rightarrow> bytes \<Rightarrow> crypto_error + unit" where
  "verify_did_key_signature L key msg signature =
     map_err SignatureVerification (verify_signature_with_key L key msg signature)"

section \<open>Building operations\<close>

type_synonym signer = "bytes \<Rightarrow> crypto_error + bytes"

text \<open>The callback's bytes, checked for their length and the low-S form.\<close>

definition signed_bytes :: "('g, 'k, 's) plc_lib \<Rightarrow> signer \<Rightarrow> bytes \<Rightarrow> crypto_error + bytes" where
  "signed_bytes L sign unsigned_cbor =
     res_bind (sign unsigned_cbor)
       (\<lambda>sig_bytes.
          if length sig_bytes \<noteq> 64
          then Inl (PlcOperation (''signing callback returned '' @ nat_str (length sig_bytes) @ '' bytes, expected 64''))
          else res_bind (ensure_low_s_callback_signature L sig_bytes) (\<lambda>_. Inr sig_bytes))"

definition json_of_op :: "('g, 'k, 's) plc_lib \<Rightarrow> signed_plc_op \<Rightarrow> crypto_error + str" where
  "json_of_op L op = map_err (\<lambda>e. PlcOperation (''json serialize signed op: '' @ e)) (lib_op_json L op)"

record plc_genesis_op =
  gen_did :: str
  gen_json :: str

definition with_sig :: "unsigned_plc_op \<Rightarrow> str \<Rightarrow> signed_plc_op" where
  "with_sig op s = unsigned_plc_op.extend op (signed_plc_op.fields s)"

definition build_genesis_op_core ::
  "('g, 'k, 's) plc_lib \<Rightarrow> str list \<Rightarrow> did_key_uri \<Rightarrow> str \<Rightarrow> str \<Rightarrow> signer \<Rightarrow> crypto_error + plc_genesis_op" where
  "build_genesis_op_core L rotation_keys signing_key handle service_endpoint sign =
     (let unsigned_op =
            \<lparr> op_prev = None, op_type = ''plc_operation'',
              op_services = [(''atproto_pds'',
                \<lparr> svc_type = ''AtprotoPersonalDataServer'', svc_endpoint = service_endpoint \<rparr>)],
              op_also_known_as = [''at://'' @ handle],
              op_rotation_keys = rotation_keys,
              op_verification_methods = [(''atproto'', key_uri signing_key)] \<rparr>
      in res_bind (cbor_encode L ''unsigned op'' (unsigned_value unsigned_op)) (\<lambda>unsigned_cbor.
         res_bind (signed_bytes L sign unsigned_cbor) (\<lambda>sig_bytes.
         let signed_op = with_sig unsigned_op (lib_b64_encode L sig_bytes)
         in res_bind (cbor_encode L ''signed op'' (signed_value signed_op)) (\<lambda>signed_cbor.
            res_bind (json_of_op L signed_op) (\<lambda>signed_op_json.
            Inr \<lparr> gen_did = did_of_cbor L signed_cbor, gen_json = signed_op_json \<rparr>)))))"

definition build_did_plc_genesis_op_with_external_signer ::
  "('g, 'k, 's) plc_lib \<Rightarrow> did_key_uri \<Rightarrow> did_key_uri \<Rightarrow> str \<Rightarrow> str \<Rightarrow> signer \<Rightarrow> crypto_error + plc_genesis_op" where
  "build_did_plc_genesis_op_with_external_signer L rotation_key signing_key =
     build_genesis_op_core L [key_uri rotation_key, key_uri signing_key] signing_key"

definition build_did_plc_genesis_op_multi_rotation_with_external_signer ::
  "('g, 'k, 's) plc_lib \<Rightarrow> did_key_uri list \<Rightarrow> did_key_uri \<Rightarrow> str \<Rightarrow> str \<Rightarrow> signer \<Rightarrow> crypto_error + plc_genesis_op" where
  "build_did_plc_genesis_op_multi_rotation_with_external_signer L rotation_keys signing_key handle endpoint sign =
     (if rotation_keys = [] \<or> 5 < length rotation_keys
      then Inl (PlcOperation (''rotation_keys must contain between 1 and 5 keys, got '' @ nat_str (length rotation_keys)))
      else build_genesis_op_core L (map key_uri rotation_keys) signing_key handle endpoint sign)"

text \<open>Signing with the raw private key: \<open>normalize_s\<close> gives a result only for a high-S signature.\<close>

definition key_signer :: "('g, 'k, 's) plc_lib \<Rightarrow> 's \<Rightarrow> signer" where
  "key_signer L sk msg =
     (let g = lib_sign L sk msg
      in Inr (cv_sig_bytes (lib_p256 L) (case cv_normalize_s (lib_p256 L) g of None \<Rightarrow> g | Some n \<Rightarrow> n)))"

definition signing_key_from_bytes :: "('g, 'k, 's) plc_lib \<Rightarrow> bytes \<Rightarrow> crypto_error + 's" where
  "signing_key_from_bytes L scalar = map_err (\<lambda>e. PlcOperation (''invalid signing key: '' @ e)) (lib_secret_key L scalar)"

definition build_did_plc_genesis_op_multi_rotation ::
  "('g, 'k, 's) plc_lib \<Rightarrow> did_key_uri list \<Rightarrow> did_key_uri \<Rightarrow> bytes \<Rightarrow> str \<Rightarrow> str \<Rightarrow> crypto_error + plc_genesis_op" where
  "build_did_plc_genesis_op_multi_rotation L rotation_keys signing_key signing_private_key handle endpoint =
     res_bind (signing_key_from_bytes L signing_private_key) (\<lambda>sk.
       build_did_plc_genesis_op_multi_rotation_with_external_signer L rotation_keys signing_key handle endpoint
         (key_signer L sk))"

definition build_did_plc_genesis_op ::
  "('g, 'k, 's) plc_lib \<Rightarrow> did_key_uri \<Rightarrow> did_key_uri \<Rightarrow> bytes \<Rightarrow> str \<Rightarrow> str \<Rightarrow> crypto_error + plc_genesis_op" where
  "build_did_plc_genesis_op L rotation_key signing_key signing_private_key handle endpoint =
     res_bind (signing_key_from_bytes L signing_private_key) (\<lambda>sk.
       build_did_plc_genesis_op_with_external_signer L rotation_key signing_key handle endpoint (key_signer L sk))"

record signed_plc_operation =
  spo_cid :: str
  spo_json :: str

definition build_did_plc_rotation_op ::
  "('g, 'k, 's) plc_lib \<Rightarrow> str \<Rightarrow> str list \<Rightarrow> (str \<times> str) list \<Rightarrow> str list \<Rightarrow> (str \<times> plc_service) list \<Rightarrow> signer
     \<Rightarrow> crypto_error + signed_plc_operation" where
  "build_did_plc_rotation_op L prev_cid rotation_keys verification_methods also_known_as services sign =
     (let unsigned_op =
            \<lparr> op_prev = Some prev_cid, op_type = ''plc_operation'', op_services = services,
              op_also_known_as = also_known_as, op_rotation_keys = rotation_keys,
              op_verification_methods = verification_methods \<rparr>
      in res_bind (cbor_encode L ''unsigned op'' (unsigned_value unsigned_op)) (\<lambda>unsigned_cbor.
         res_bind (signed_bytes L sign unsigned_cbor) (\<lambda>sig_bytes.
         let signed_op = with_sig unsigned_op (lib_b64_encode L sig_bytes)
         in res_bind (cbor_encode L ''signed op'' (signed_value signed_op)) (\<lambda>signed_cbor.
            res_bind (compute_cid L signed_cbor) (\<lambda>cid.
            res_bind (json_of_op L signed_op) (\<lambda>signed_op_json.
            Inr \<lparr> spo_cid = cid, spo_json = signed_op_json \<rparr>))))))"

definition build_did_plc_tombstone_op ::
  "('g, 'k, 's) plc_lib \<Rightarrow> str \<Rightarrow> signer \<Rightarrow> crypto_error + signed_plc_operation" where
  "build_did_plc_tombstone_op L prev_cid sign =
     (if \<not> is_valid_cidv1_dag_cbor_sha256 L prev_cid
      then Inl (PlcOperation (''tombstone prev is not a valid CIDv1 (dag-cbor, sha-256): '' @ lib_debug L prev_cid))
      else
        let unsigned_op = \<lparr> ts_prev = prev_cid, ts_type = ''plc_tombstone'' \<rparr>
        in res_bind (cbor_encode L ''unsigned tombstone'' (unsigned_tombstone_value unsigned_op)) (\<lambda>unsigned_cbor.
           res_bind (signed_bytes L sign unsigned_cbor) (\<lambda>sig_bytes.
           let signed_op = \<lparr> ts_prev = prev_cid, ts_type = ''plc_tombstone'', ts_sig = lib_b64_encode L sig_bytes \<rparr>
           in res_bind (cbor_encode L ''signed tombstone'' (signed_tombstone_value signed_op)) (\<lambda>signed_cbor.
              res_bind (compute_cid L signed_cbor) (\<lambda>cid.
              res_bind (map_err (\<lambda>e. PlcOperation (''json serialize signed tombstone: '' @ e)) (lib_ts_json L signed_op))
                (\<lambda>signed_op_json. Inr \<lparr> spo_cid = cid, spo_json = signed_op_json \<rparr>))))))"

section \<open>Verifying operations\<close>

text \<open>The loop over the authorized keys: success at the first key that verifies, else all errors.\<close>

fun try_keys :: "('g, 'k, 's) plc_lib \<Rightarrow> bytes \<Rightarrow> bytes \<Rightarrow> nat \<Rightarrow> did_key_uri list \<Rightarrow> str list \<Rightarrow> str list + unit" where
  "try_keys L msg sig_bytes i [] key_errors = Inl key_errors"
| "try_keys L msg sig_bytes i (key # ks) key_errors =
     (case verify_signature_with_key L key msg sig_bytes of
        Inr _ \<Rightarrow> Inr ()
      | Inl e \<Rightarrow> try_keys L msg sig_bytes (i + 1) ks (key_errors @ [''key['' @ nat_str i @ '']: '' @ e]))"

record verified_plc_op =
  v_did :: "str option"
  v_cid :: str
  v_prev :: "str option"
  v_rotation_keys :: "str list"
  v_also_known_as :: "str list"
  v_verification_methods :: "(str \<times> str) list"
  v_services :: "(str \<times> plc_service) list"

definition parse_signed_op :: "('g, 'k, 's) plc_lib \<Rightarrow> str \<Rightarrow> crypto_error + signed_plc_op" where
  "parse_signed_op L txt = map_err (\<lambda>e. PlcOperation (''invalid signed op JSON: '' @ e)) (lib_op_parse L txt)"

definition decode_sig :: "('g, 'k, 's) plc_lib \<Rightarrow> str \<Rightarrow> crypto_error + bytes" where
  "decode_sig L s = map_err (\<lambda>e. PlcOperation (''invalid sig base64url: '' @ e)) (lib_b64_decode L s)"

definition expect_type :: "str \<Rightarrow> str \<Rightarrow> crypto_error + unit" where
  "expect_type expected actual =
     (if actual \<noteq> expected
      then Inl (PlcOperation (''expected type '' @ [CHR 0x27] @ expected @ [CHR 0x27] @ '', got '' @ [CHR 0x27] @ actual @ [CHR 0x27]))
      else Inr ())"

definition verify_plc_operation ::
  "('g, 'k, 's) plc_lib \<Rightarrow> str \<Rightarrow> did_key_uri list \<Rightarrow> crypto_error + verified_plc_op" where
  "verify_plc_operation L signed_op_json authorized_rotation_keys =
     (if authorized_rotation_keys = [] then Inl (PlcOperation ''authorized_rotation_keys must not be empty'')
      else
        res_bind (parse_signed_op L signed_op_json) (\<lambda>signed_op.
        res_bind (expect_type ''plc_operation'' (op_type signed_op)) (\<lambda>_.
        res_bind (decode_sig L (op_sig signed_op)) (\<lambda>sig_bytes.
        res_bind (cbor_encode L ''unsigned op'' (unsigned_value (unsigned_plc_op.truncate signed_op))) (\<lambda>unsigned_cbor.
        case try_keys L unsigned_cbor sig_bytes 0 authorized_rotation_keys [] of
          Inl key_errors \<Rightarrow> Inl (PlcOperation (''no authorized rotation key verified the signature: '' @ join_with ''; '' key_errors))
        | Inr _ \<Rightarrow>
            res_bind (cbor_encode L ''signed op'' (signed_value signed_op)) (\<lambda>signed_cbor.
            res_bind (compute_cid L signed_cbor) (\<lambda>cid.
            Inr \<lparr> v_did = (if op_prev signed_op = None then Some (did_of_cbor L signed_cbor) else None),
                   v_cid = cid, v_prev = op_prev signed_op, v_rotation_keys = op_rotation_keys signed_op,
                   v_also_known_as = op_also_known_as signed_op,
                   v_verification_methods = op_verification_methods signed_op,
                   v_services = op_services signed_op \<rparr>)))))))"

record verified_tombstone_op =
  vt_cid :: str
  vt_prev :: str

definition verify_plc_tombstone_op ::
  "('g, 'k, 's) plc_lib \<Rightarrow> str \<Rightarrow> did_key_uri list \<Rightarrow> crypto_error + verified_tombstone_op" where
  "verify_plc_tombstone_op L signed_op_json authorized_rotation_keys =
     (if authorized_rotation_keys = [] then Inl (PlcOperation ''authorized_rotation_keys must not be empty'')
      else
        res_bind (map_err (\<lambda>e. PlcOperation (''invalid signed tombstone JSON: '' @ e)) (lib_ts_parse L signed_op_json)) (\<lambda>signed_op.
        res_bind (expect_type ''plc_tombstone'' (ts_type signed_op)) (\<lambda>_.
        if \<not> is_valid_cidv1_dag_cbor_sha256 L (ts_prev signed_op)
        then Inl (PlcOperation (''tombstone prev is not a valid CIDv1 (dag-cbor, sha-256): '' @ lib_debug L (ts_prev signed_op)))
        else
          res_bind (decode_sig L (ts_sig signed_op)) (\<lambda>sig_bytes.
          res_bind (cbor_encode L ''unsigned tombstone'' (unsigned_tombstone_value (unsigned_tombstone.truncate signed_op))) (\<lambda>unsigned_cbor.
          case try_keys L unsigned_cbor sig_bytes 0 authorized_rotation_keys [] of
            Inl key_errors \<Rightarrow> Inl (PlcOperation (''no authorized rotation key verified the tombstone signature: '' @ join_with ''; '' key_errors))
          | Inr _ \<Rightarrow>
              res_bind (cbor_encode L ''signed tombstone'' (signed_tombstone_value signed_op)) (\<lambda>signed_cbor.
              res_bind (compute_cid L signed_cbor) (\<lambda>cid.
              Inr \<lparr> vt_cid = cid, vt_prev = ts_prev signed_op \<rparr>)))))))"

record verified_genesis_op =
  vg_did :: str
  vg_rotation_keys :: "str list"
  vg_also_known_as :: "str list"
  vg_verification_methods :: "(str \<times> str) list"
  vg_atproto_pds_endpoint :: "str option"
  vg_services :: "(str \<times> plc_service) list"

definition verify_genesis_op ::
  "('g, 'k, 's) plc_lib \<Rightarrow> str \<Rightarrow> did_key_uri \<Rightarrow> crypto_error + verified_genesis_op" where
  "verify_genesis_op L signed_op_json rotation_key =
     res_bind (parse_signed_op L signed_op_json) (\<lambda>signed_op.
     if op_prev signed_op \<noteq> None then Inl (PlcOperation ''genesis op must have prev = null'')
     else
       res_bind (expect_type ''plc_operation'' (op_type signed_op)) (\<lambda>_.
       res_bind (decode_sig L (op_sig signed_op)) (\<lambda>sig_bytes.
       res_bind (cbor_encode L ''unsigned op'' (unsigned_value (unsigned_plc_op.truncate signed_op))) (\<lambda>unsigned_cbor.
       res_bind (map_err PlcOperation (verify_signature_with_key L rotation_key unsigned_cbor sig_bytes)) (\<lambda>_.
       res_bind (cbor_encode L ''signed op'' (signed_value signed_op)) (\<lambda>signed_cbor.
       Inr \<lparr> vg_did = did_of_cbor L signed_cbor, vg_rotation_keys = op_rotation_keys signed_op,
              vg_also_known_as = op_also_known_as signed_op,
              vg_verification_methods = op_verification_methods signed_op,
              vg_atproto_pds_endpoint = map_option svc_endpoint (map_of (op_services signed_op) ''atproto_pds''),
              vg_services = op_services signed_op \<rparr>))))))"

section \<open>The audit log\<close>

definition parse_audit_log :: "('g, 'k, 's) plc_lib \<Rightarrow> str \<Rightarrow> crypto_error + audit_entry list" where
  "parse_audit_log L txt = map_err (\<lambda>e. PlcOperation (''parse audit log: '' @ e)) (lib_log_parse L txt)"

definition diff_audit_logs :: "audit_entry list \<Rightarrow> audit_entry list \<Rightarrow> audit_entry list" where
  "diff_audit_logs cached current = filter (\<lambda>e. le_cid e \<notin> set (map le_cid cached)) current"

end
