(* ===== verification/Plc_Correct.thy ===== *)
theory Plc_Correct
  imports Plc_Ops
begin

text \<open>
  Correctness of the did:plc operations: the bytes handed to the encoder are canonical and cover
  every field, what the builders produce the verifiers accept with the same identifiers, and what a
  verifier accepts is signed in low-S form by one of the authorized keys.
\<close>

section \<open>Canonical values\<close>

definition length_first :: "str \<Rightarrow> str \<Rightarrow> bool" where
  "length_first a b \<longleftrightarrow> length a < length b \<or> length a = length b \<and> a < b"

text \<open>Every map strictly in length-first key order: the DAG-CBOR canonical form.\<close>

fun canonical :: "sval \<Rightarrow> bool" where
  "canonical SNull = True"
| "canonical (SText s) = True"
| "canonical (SList vs) = list_all canonical vs"
| "canonical (SMap m) = (sorted_wrt length_first (map fst m) \<and> list_all (\<lambda>(k, v). canonical v) m)"

text \<open>A \<open>BTreeMap\<close>: strictly increasing keys.\<close>

definition btree :: "(str \<times> 'v) list \<Rightarrow> bool" where
  "btree m \<longleftrightarrow> sorted_wrt (<) (map fst m)"

definition wf_op :: "'a unsigned_plc_op_scheme \<Rightarrow> bool" where
  "wf_op op \<longleftrightarrow> btree (op_services op) \<and> btree (op_verification_methods op)"

lemma btree_distinct: "btree m \<Longrightarrow> distinct (map fst m)"
  using strict_sorted_iff by (auto simp: btree_def)

lemma set_canonical_entries [simp]: "set (canonical_entries m) = set m"
  by (simp add: canonical_entries_def)

lemma length_first_sorted:
  "sorted (map (\<lambda>k. (length k, k)) ks) \<Longrightarrow> distinct ks \<Longrightarrow> sorted_wrt length_first ks"
  by (induction ks) (auto simp: length_first_def less_eq_prod_def order_le_less)

lemma sorted_length_first:
  "sorted_wrt length_first ks \<Longrightarrow> sorted (map (\<lambda>k. (length k, k)) ks)"
  by (induction ks) (auto simp: length_first_def less_eq_prod_def)

lemma key_of_entry: "map (\<lambda>(k, _). (length k, k)) m = map (\<lambda>k. (length k, k)) (map fst m)"
  by (induction m) auto

lemma distinct_canonical_entries: "distinct (map fst m) \<Longrightarrow> distinct (map fst (canonical_entries m))"
  by (simp add: canonical_entries_def distinct_map)

lemma canonical_entries_sorted:
  assumes "distinct (map fst m)"
  shows "sorted_wrt length_first (map fst (canonical_entries m))"
proof (rule length_first_sorted)
  show "sorted (map (\<lambda>k. (length k, k)) (map fst (canonical_entries m)))"
    unfolding key_of_entry [symmetric] canonical_entries_def by (rule sorted_sort_key)
qed (rule distinct_canonical_entries [OF assms])

lemma canonical_entries_id:
  assumes "sorted_wrt length_first (map fst m)"
  shows "canonical_entries m = m"
  unfolding canonical_entries_def
  by (rule sort_key_id_if_sorted) (simp only: key_of_entry sorted_length_first [OF assms])

lemma canonical_canonical_map:
  "distinct (map fst m) \<Longrightarrow> (\<And>v. canonical (f v)) \<Longrightarrow> canonical (canonical_map f m)"
  using canonical_entries_sorted [of m]
  by (simp add: canonical_map_def comp_def case_prod_beta list_all_iff)

lemma btree_unique:
  assumes "btree a" "btree b" "set a = set b"
  shows "a = b"
proof (rule map_sorted_distinct_set_unique [where f = fst])
  show "inj_on fst (set a \<union> set b)" using btree_distinct [OF assms(1)] assms(3) by (simp add: distinct_map)
qed (use assms in \<open>auto simp: btree_def strict_sorted_iff\<close>)

lemma canonical_entries_inj:
  "btree a \<Longrightarrow> btree b \<Longrightarrow> canonical_entries a = canonical_entries b \<Longrightarrow> a = b"
  by (metis btree_unique set_canonical_entries)

lemma canonical_map_inj:
  assumes "btree a" "btree b" "inj f" "canonical_map f a = canonical_map f b"
  shows "a = b"
proof -
  have "inj (\<lambda>(k :: str, v). (k, f v))" using assms(3) by (auto simp: inj_def)
  then have "canonical_entries a = canonical_entries b"
    using assms(4) by (simp add: canonical_map_def inj_map_eq_map)
  then show ?thesis using canonical_entries_inj assms(1,2) by blast
qed

lemma inj_values: "inj SText" "inj service_value" "inj option_value"
  by (auto simp: inj_def service_value_def option_value_def split: option.splits intro: plc_service.equality)

lemma canonical_fields: "canonical (SMap m) \<longleftrightarrow> sorted_wrt length_first (map fst m) \<and> (\<forall>v\<in>snd ` set m. canonical v)"
  by (auto simp: list_all_iff)

lemma op_fields_canonical:
  assumes "wf_op op"
  shows "canonical (SMap (op_fields op))" "canonical (SMap ((''sig'', SText s) # op_fields op))"
proof -
  have "canonical (service_value v)" for v
    by (simp add: service_value_def length_first_def)
  then have "canonical (canonical_map service_value (op_services op))"
      "canonical (canonical_map SText (op_verification_methods op))"
    using assms by (simp_all add: canonical_canonical_map btree_distinct wf_op_def)
  then have "\<forall>v\<in>snd ` set (op_fields op). canonical v"
    by (auto simp: op_fields_def option_value_def list_all_iff split: option.splits)
  moreover have "sorted_wrt length_first [''sig'', ''prev'', ''type'', ''services'', ''alsoKnownAs'', ''rotationKeys'', ''verificationMethods'']"
    by code_simp
  moreover have "map fst (op_fields op) = [''prev'', ''type'', ''services'', ''alsoKnownAs'', ''rotationKeys'', ''verificationMethods'']"
    by (simp add: op_fields_def)
  ultimately show "canonical (SMap (op_fields op))" "canonical (SMap ((''sig'', SText s) # op_fields op))"
    unfolding canonical_fields by simp_all
qed

lemma op_fields_inj:
  assumes "wf_op a" "wf_op b" "op_fields a = op_fields b"
  shows "unsigned_plc_op.truncate a = unsigned_plc_op.truncate b"
proof -
  have "op_services a = op_services b" "op_verification_methods a = op_verification_methods b"
    using assms canonical_map_inj inj_values by (auto simp: op_fields_def wf_op_def)
  moreover have "op_prev a = op_prev b" "map SText (op_rotation_keys a) = map SText (op_rotation_keys b)"
    "map SText (op_also_known_as a) = map SText (op_also_known_as b)" "op_type a = op_type b"
    using assms(3) inj_values(3) by (auto simp: op_fields_def inj_def)
  ultimately show ?thesis by (simp add: unsigned_plc_op.truncate_def inj_map_eq_map inj_values)
qed

lemma op_fields_truncate: "op_fields (unsigned_plc_op.truncate op) = op_fields op"
  by (simp add: op_fields_def unsigned_plc_op.truncate_def)

text \<open>
  C27: The bytes that are signed and hashed come from canonical DAG-CBOR values (every map, at
  every level, strictly in length-first key order), and the signed value determines every field
  of the operation: two operations of equal value are equal.
\<close>

theorem plc_values_canonical:
  fixes op :: signed_plc_op
  assumes "wf_op op"
  shows "canonical (unsigned_value (unsigned_plc_op.truncate op)) \<and> canonical (signed_value op) \<and>
    (\<forall>op' :: signed_plc_op. wf_op op' \<and> unsigned_value (unsigned_plc_op.truncate op') = unsigned_value (unsigned_plc_op.truncate op) \<longrightarrow>
       unsigned_plc_op.truncate op' = unsigned_plc_op.truncate op)"
  unfolding unsigned_value_def signed_value_def op_fields_truncate
  using op_fields_canonical [OF assms] op_fields_inj [OF _ assms] by blast

definition demo_op :: signed_plc_op where
  "demo_op = \<lparr> op_prev = None, op_type = ''plc_operation'',
     op_services = [(''atproto_labeler'', \<lparr> svc_type = ''L'', svc_endpoint = ''https://l'' \<rparr>),
                    (''atproto_pds'', \<lparr> svc_type = ''P'', svc_endpoint = ''https://p'' \<rparr>)],
     op_also_known_as = [''at://a.example''], op_rotation_keys = [''did:key:z1''],
     op_verification_methods = [(''atproto'', ''did:key:z1'')], op_sig = ''s'' \<rparr>"

lemma wf_demo_op: "wf_op demo_op"
  by (simp add: wf_op_def btree_def demo_op_def)

theorem plc_values_canonical_witness:
  "canonical (signed_value demo_op)"
  using plc_values_canonical [OF wf_demo_op] by blast

section \<open>Verification\<close>

lemma try_keys_iff: "try_keys L msg s i keys errs = Inr () \<longleftrightarrow> (\<exists>k\<in>set keys. verify_signature_with_key L k msg s = Inr ())"
  by (induction keys arbitrary: i errs) (auto split: sum.splits)

lemma try_keys_cases: "(\<exists>e. try_keys L msg s i keys errs = Inl e) \<or> try_keys L msg s i keys errs = Inr ()"
  by (cases "try_keys L msg s i keys errs") auto

text \<open>What an accepted operation yields, whichever key accepted it.\<close>

definition verified_of :: "('g, 'k, 's) plc_lib \<Rightarrow> signed_plc_op \<Rightarrow> bytes \<Rightarrow> verified_plc_op" where
  "verified_of L op signed_cbor =
     \<lparr> v_did = (if op_prev op = None then Some (did_of_cbor L signed_cbor) else None),
       v_cid = ''b'' @ trim_end_eq (lib_b32_encode L (cidv1_prefix @ lib_sha256 L signed_cbor)), v_prev = op_prev op,
       v_rotation_keys = op_rotation_keys op, v_also_known_as = op_also_known_as op,
       v_verification_methods = op_verification_methods op, v_services = op_services op \<rparr>"

text \<open>The operation of a text, the message it signs and the signature.\<close>

definition op_message :: "('g, 'k, 's) plc_lib \<Rightarrow> str \<Rightarrow> signed_plc_op \<Rightarrow> bytes \<Rightarrow> bytes \<Rightarrow> bytes \<Rightarrow> bool" where
  "op_message L doc op msg sig_bytes signed_cbor \<longleftrightarrow>
     lib_op_parse L doc = Inr op \<and> op_type op = ''plc_operation'' \<and> lib_b64_decode L (op_sig op) = Inr sig_bytes \<and>
     lib_cbor L (unsigned_value (unsigned_plc_op.truncate op)) = Inr msg \<and> lib_cbor L (signed_value op) = Inr signed_cbor"

lemma expect_type_iff: "expect_type e a = Inr () \<longleftrightarrow> a = e"
  by (simp add: expect_type_def)

lemma verify_plc_operation_iff:
  "verify_plc_operation L doc keys = Inr v \<longleftrightarrow>
     (\<exists>op msg sb cb. op_message L doc op msg sb cb \<and>
        (\<exists>k\<in>set keys. verify_signature_with_key L k msg sb = Inr ()) \<and> v = verified_of L op cb)"
proof (cases "keys = []")
  case True
  then show ?thesis by (simp add: verify_plc_operation_def)
next
  case False
  have tk: "(case try_keys L msg sb 0 keys [] of Inl e \<Rightarrow> Inl (f e) | Inr _ \<Rightarrow> r) = Inr v \<longleftrightarrow>
      (\<exists>k\<in>set keys. verify_signature_with_key L k msg sb = Inr ()) \<and> r = Inr v" for msg sb f and r :: "crypto_error + verified_plc_op"
    using try_keys_iff [of L msg sb 0 keys "[]"] try_keys_cases [of L msg sb 0 keys "[]"] by auto
  show ?thesis
    unfolding verify_plc_operation_def
    using False
    by (auto simp: tk op_message_def parse_signed_op_def expect_type_iff decode_sig_def cbor_encode_def
        compute_cid_def verified_of_def)
qed

lemma verify_genesis_op_iff:
  "verify_genesis_op L doc key = Inr v \<longleftrightarrow>
     (\<exists>op msg sb cb. op_message L doc op msg sb cb \<and> op_prev op = None \<and>
        verify_signature_with_key L key msg sb = Inr () \<and>
        v = \<lparr> vg_did = did_of_cbor L cb, vg_rotation_keys = op_rotation_keys op,
              vg_also_known_as = op_also_known_as op, vg_verification_methods = op_verification_methods op,
              vg_atproto_pds_endpoint = map_option svc_endpoint (map_of (op_services op) ''atproto_pds''),
              vg_services = op_services op \<rparr>)"
  unfolding verify_genesis_op_def
  by (auto simp: op_message_def parse_signed_op_def expect_type_iff decode_sig_def cbor_encode_def)

lemma verify_tombstone_iff:
  "verify_plc_tombstone_op L doc keys = Inr v \<longleftrightarrow>
     (\<exists>op msg sb cb. lib_ts_parse L doc = Inr op \<and> ts_type op = ''plc_tombstone'' \<and>
        is_valid_cidv1_dag_cbor_sha256 L (ts_prev op) \<and> lib_b64_decode L (ts_sig op) = Inr sb \<and>
        lib_cbor L (unsigned_tombstone_value (unsigned_tombstone.truncate op)) = Inr msg \<and>
        lib_cbor L (signed_tombstone_value op) = Inr cb \<and>
        (\<exists>k\<in>set keys. verify_signature_with_key L k msg sb = Inr ()) \<and>
        v = \<lparr> vt_cid = ''b'' @ trim_end_eq (lib_b32_encode L (cidv1_prefix @ lib_sha256 L cb)), vt_prev = ts_prev op \<rparr>)"
proof (cases "keys = []")
  case True
  then show ?thesis by (simp add: verify_plc_tombstone_op_def)
next
  case False
  have tk: "(case try_keys L msg sb 0 keys [] of Inl e \<Rightarrow> Inl (f e) | Inr _ \<Rightarrow> r) = Inr v \<longleftrightarrow>
      (\<exists>k\<in>set keys. verify_signature_with_key L k msg sb = Inr ()) \<and> r = Inr v" for msg sb f and r :: "crypto_error + verified_tombstone_op"
    using try_keys_iff [of L msg sb 0 keys "[]"] try_keys_cases [of L msg sb 0 keys "[]"] by auto
  show ?thesis
    unfolding verify_plc_tombstone_op_def
    using False
    by (auto simp: tk expect_type_iff decode_sig_def cbor_encode_def compute_cid_def)
qed

text \<open>
  C28: An operation is accepted for a list of keys exactly when it is accepted for one of them
  alone, with the same result; and an accepted operation is typed \<open>plc_operation\<close> and carries a
  signature in low-S form over the canonical unsigned value under a P-256 or secp256k1 key, so the
  malleated twin of a signature is never accepted.
\<close>

theorem verification_is_keywise:
  "(verify_plc_operation L doc keys = Inr v \<longleftrightarrow> (\<exists>k\<in>set keys. verify_plc_operation L doc [k] = Inr v)) \<and>
   (verify_plc_operation L doc keys = Inr v \<longrightarrow>
      (\<exists>op msg sb cb k C g. op_message L doc op msg sb cb \<and> k \<in> set keys \<and> v = verified_of L op cb \<and>
         verify_signature_with_key L k msg sb = Inr () \<and>
         (C = lib_p256 L \<or> C = lib_k256 L) \<and> cv_signature C sb = Inr g \<and> cv_normalize_s C g = None))"
proof -
  have low: "\<exists>C g. (C = lib_p256 L \<or> C = lib_k256 L) \<and> cv_signature C sb = Inr g \<and> cv_normalize_s C g = None"
    if "verify_signature_with_key L k msg sb = Inr ()" for k msg sb
    using that by (auto simp: verify_signature_with_key_def verify_p256_sec1_def verify_k256_sec1_def verify_sec1_def
        split: if_splits)
  have keywise: "verify_plc_operation L doc keys = Inr v \<longleftrightarrow> (\<exists>k\<in>set keys. verify_plc_operation L doc [k] = Inr v)"
    unfolding verify_plc_operation_iff by (simp, blast)
  have "\<exists>op msg sb cb k C g. op_message L doc op msg sb cb \<and> k \<in> set keys \<and> v = verified_of L op cb \<and>
         verify_signature_with_key L k msg sb = Inr () \<and>
         (C = lib_p256 L \<or> C = lib_k256 L) \<and> cv_signature C sb = Inr g \<and> cv_normalize_s C g = None"
    if "verify_plc_operation L doc keys = Inr v"
  proof -
    from that obtain op msg sb cb k where r: "op_message L doc op msg sb cb" "k \<in> set keys" "v = verified_of L op cb"
        "verify_signature_with_key L k msg sb = Inr ()"
      unfolding verify_plc_operation_iff by blast
    with low [OF r(4)] show ?thesis by blast
  qed
  with keywise show ?thesis by blast
qed

section \<open>What the builders produce\<close>

text \<open>The documented behaviour of the libraries the round trips rely on.\<close>

definition lawful :: "('g, 'k, 's) plc_lib \<Rightarrow> bool" where
  "lawful L \<longleftrightarrow>
     (\<forall>op t. wf_op op \<and> lib_op_json L op = Inr t \<longrightarrow> lib_op_parse L t = Inr op) \<and>
     (\<forall>op t. lib_ts_json L op = Inr t \<longrightarrow> lib_ts_parse L t = Inr op) \<and>
     (\<forall>b. lib_b64_decode L (lib_b64_encode L b) = Inr b) \<and>
     (\<forall>b. CHR ''='' \<notin> set (lib_b32_encode L b) \<and> lib_b32_decode L (lib_b32_encode L b) = Inr b) \<and>
     (\<forall>b. length (lib_sha256 L b) = 32)"

text \<open>The callback signs for the key: whatever it returns verifies.\<close>

definition signs_for :: "('g, 'k, 's) plc_lib \<Rightarrow> did_key_uri \<Rightarrow> signer \<Rightarrow> bool" where
  "signs_for L key sign \<longleftrightarrow> (\<forall>m s. sign m = Inr s \<longrightarrow> verify_signature_with_key L key m s = Inr ())"

lemma with_sig_sel [simp]:
  "op_sig (with_sig u s) = s" "op_prev (with_sig u s) = op_prev u" "op_type (with_sig u s) = op_type u"
  "op_services (with_sig u s) = op_services u" "op_also_known_as (with_sig u s) = op_also_known_as u"
  "op_rotation_keys (with_sig u s) = op_rotation_keys u"
  "op_verification_methods (with_sig u s) = op_verification_methods u"
  "unsigned_plc_op.truncate (with_sig u s) = u" "wf_op (with_sig u s) = wf_op u"
  by (cases u; simp add: with_sig_def unsigned_plc_op.defs signed_plc_op.defs wf_op_def)+

lemma signed_bytes_Inr: "signed_bytes L sign m = Inr sb \<Longrightarrow> sign m = Inr sb \<and> length sb = 64"
  by (auto simp: signed_bytes_def split: if_splits)

lemma built_op_message:
  assumes "lawful L" "wf_op u" "op_type u = ''plc_operation''"
    "lib_cbor L (unsigned_value u) = Inr m" "signed_bytes L sign m = Inr sb"
    "lib_cbor L (signed_value (with_sig u (lib_b64_encode L sb))) = Inr cb"
    "json_of_op L (with_sig u (lib_b64_encode L sb)) = Inr t"
  shows "op_message L t (with_sig u (lib_b64_encode L sb)) m sb cb"
  using assms by (auto simp: op_message_def lawful_def json_of_op_def)

lemma single_btree: "btree [x]"
  by (simp add: btree_def)

lemma built_genesis:
  assumes "lawful L" "build_genesis_op_core L ks sk handle endpoint sign = Inr g"
  obtains op msg sb cb where "op_message L (gen_json g) op msg sb cb" "op_prev op = None" "sign msg = Inr sb"
    "gen_did g = did_of_cbor L cb" "op_rotation_keys op = ks" "op_also_known_as op = [''at://'' @ handle]"
    "op_verification_methods op = [(''atproto'', key_uri sk)]"
    "op_services op = [(''atproto_pds'', \<lparr> svc_type = ''AtprotoPersonalDataServer'', svc_endpoint = endpoint \<rparr>)]"
proof -
  define u where "u = \<lparr> op_prev = None, op_type = ''plc_operation'',
              op_services = [(''atproto_pds'', \<lparr> svc_type = ''AtprotoPersonalDataServer'', svc_endpoint = endpoint \<rparr>)],
              op_also_known_as = [''at://'' @ handle], op_rotation_keys = ks,
              op_verification_methods = [(''atproto'', key_uri sk)] \<rparr>"
  from assms(2) obtain m sb cb t where r:
    "lib_cbor L (unsigned_value u) = Inr m" "signed_bytes L sign m = Inr sb"
    "lib_cbor L (signed_value (with_sig u (lib_b64_encode L sb))) = Inr cb"
    "json_of_op L (with_sig u (lib_b64_encode L sb)) = Inr t" "g = \<lparr> gen_did = did_of_cbor L cb, gen_json = t \<rparr>"
    by (auto simp: build_genesis_op_core_def Let_def cbor_encode_def u_def)
  have "wf_op u" by (simp add: wf_op_def u_def single_btree)
  from built_op_message [OF assms(1) this _ r(1-4)] that [of "with_sig u (lib_b64_encode L sb)" m sb cb]
    signed_bytes_Inr [OF r(2)] r(5)
  show thesis by (simp add: u_def)
qed

text \<open>
  C29: What the genesis builder returns, the verifier accepts under the key that signed it, with the
  DID the builder reported, the given rotation keys, handle, signing key and server endpoint.
\<close>

theorem genesis_op_roundtrip:
  assumes "lawful L" "build_genesis_op_core L ks sk handle endpoint sign = Inr g" "signs_for L key sign"
  shows "verify_genesis_op L (gen_json g) key =
      Inr \<lparr> vg_did = gen_did g, vg_rotation_keys = ks, vg_also_known_as = [''at://'' @ handle],
            vg_verification_methods = [(''atproto'', key_uri sk)], vg_atproto_pds_endpoint = Some endpoint,
            vg_services = [(''atproto_pds'', \<lparr> svc_type = ''AtprotoPersonalDataServer'', svc_endpoint = endpoint \<rparr>)] \<rparr> \<and>
    (\<exists>v. verify_plc_operation L (gen_json g) [key] = Inr v \<and> v_did v = Some (gen_did g) \<and> v_prev v = None)"
proof -
  from built_genesis [OF assms(1,2)] obtain op msg sb cb where r:
    "op_message L (gen_json g) op msg sb cb" "op_prev op = None" "sign msg = Inr sb"
    "gen_did g = did_of_cbor L cb" "op_rotation_keys op = ks" "op_also_known_as op = [''at://'' @ handle]"
    "op_verification_methods op = [(''atproto'', key_uri sk)]"
    "op_services op = [(''atproto_pds'', \<lparr> svc_type = ''AtprotoPersonalDataServer'', svc_endpoint = endpoint \<rparr>)]" .
  have k: "verify_signature_with_key L key msg sb = Inr ()" using assms(3) r(3) by (simp add: signs_for_def)
  show ?thesis
  proof
    show "verify_genesis_op L (gen_json g) key = Inr \<lparr> vg_did = gen_did g, vg_rotation_keys = ks, vg_also_known_as = [''at://'' @ handle],
            vg_verification_methods = [(''atproto'', key_uri sk)], vg_atproto_pds_endpoint = Some endpoint,
            vg_services = [(''atproto_pds'', \<lparr> svc_type = ''AtprotoPersonalDataServer'', svc_endpoint = endpoint \<rparr>)] \<rparr>"
      unfolding verify_genesis_op_iff using r k by (intro exI conjI) auto
  next
    have "verify_plc_operation L (gen_json g) [key] = Inr (verified_of L op cb)"
      unfolding verify_plc_operation_iff using r k by auto
    then show "\<exists>v. verify_plc_operation L (gen_json g) [key] = Inr v \<and> v_did v = Some (gen_did g) \<and> v_prev v = None"
      using r(2,4) by (auto simp: verified_of_def)
  qed
qed

text \<open>
  What the rotation builder returns, the verifier accepts for any authorized list that holds
  the signing key, with the reported CID, the given predecessor and exactly the given state.
\<close>

theorem rotation_op_roundtrip:
  assumes "lawful L" "build_did_plc_rotation_op L prev ks vms akas svcs sign = Inr r" "signs_for L key sign"
    "key \<in> set keys" "btree vms" "btree svcs"
  shows "verify_plc_operation L (spo_json r) keys =
      Inr \<lparr> v_did = None, v_cid = spo_cid r, v_prev = Some prev, v_rotation_keys = ks, v_also_known_as = akas,
            v_verification_methods = vms, v_services = svcs \<rparr>"
proof -
  define u where "u = \<lparr> op_prev = Some prev, op_type = ''plc_operation'', op_services = svcs, op_also_known_as = akas,
              op_rotation_keys = ks, op_verification_methods = vms \<rparr>"
  from assms(2) obtain m sb cb t where r:
    "lib_cbor L (unsigned_value u) = Inr m" "signed_bytes L sign m = Inr sb"
    "lib_cbor L (signed_value (with_sig u (lib_b64_encode L sb))) = Inr cb"
    "json_of_op L (with_sig u (lib_b64_encode L sb)) = Inr t"
    "r = \<lparr> spo_cid = ''b'' @ trim_end_eq (lib_b32_encode L (cidv1_prefix @ lib_sha256 L cb)), spo_json = t \<rparr>"
    by (auto simp: build_did_plc_rotation_op_def Let_def cbor_encode_def u_def compute_cid_def)
  have "wf_op u" using assms(5,6) by (simp add: wf_op_def u_def)
  from built_op_message [OF assms(1) this _ r(1-4)]
  have "op_message L t (with_sig u (lib_b64_encode L sb)) m sb cb" by (simp add: u_def)
  moreover have "verify_signature_with_key L key m sb = Inr ()"
    using assms(3) signed_bytes_Inr [OF r(2)] by (simp add: signs_for_def)
  ultimately have "verify_plc_operation L t keys = Inr (verified_of L (with_sig u (lib_b64_encode L sb)) cb)"
    unfolding verify_plc_operation_iff using assms(4) by blast
  then show ?thesis by (simp add: r(5) verified_of_def u_def)
qed

lemma trim_end_eq_id: "CHR ''='' \<notin> set s \<Longrightarrow> trim_end_eq s = s"
proof -
  assume "CHR ''='' \<notin> set s"
  then have "dropWhile (\<lambda>c. c = CHR ''='') (rev s) = rev s" by (cases "rev s") (auto simp: dropWhile_eq_self_iff)
  then show ?thesis by (simp add: trim_end_eq_def)
qed

lemma computed_cid_valid:
  assumes "lawful L" "compute_cid L cb = Inr c"
  shows "is_valid_cidv1_dag_cbor_sha256 L c"
proof -
  let ?b = "cidv1_prefix @ lib_sha256 L cb"
  have "c = ''b'' @ lib_b32_encode L ?b"
    using assms by (auto simp: compute_cid_def lawful_def trim_end_eq_id)
  then show ?thesis
    using assms(1) by (simp add: is_valid_cidv1_dag_cbor_sha256_def lawful_def cidv1_prefix_def)
qed

lemma truncate_tombstone: "unsigned_tombstone.truncate \<lparr> ts_prev = p, ts_type = y, ts_sig = s \<rparr> = \<lparr> ts_prev = p, ts_type = y \<rparr>"
  by (simp add: unsigned_tombstone.truncate_def)

lemma tombstone_roundtrip:
  assumes "lawful L" "build_did_plc_tombstone_op L prev sign = Inr t" "signs_for L key sign" "key \<in> set keys"
  shows "verify_plc_tombstone_op L (spo_json t) keys = Inr \<lparr> vt_cid = spo_cid t, vt_prev = prev \<rparr>"
proof -
  from assms(2) have valid: "is_valid_cidv1_dag_cbor_sha256 L prev"
    by (auto simp: build_did_plc_tombstone_op_def split: if_splits)
  from assms(2) obtain m sb cb doc where r:
    "lib_cbor L (unsigned_tombstone_value \<lparr> ts_prev = prev, ts_type = ''plc_tombstone'' \<rparr>) = Inr m"
    "signed_bytes L sign m = Inr sb"
    "lib_cbor L (signed_tombstone_value \<lparr> ts_prev = prev, ts_type = ''plc_tombstone'', ts_sig = lib_b64_encode L sb \<rparr>) = Inr cb"
    "lib_ts_json L \<lparr> ts_prev = prev, ts_type = ''plc_tombstone'', ts_sig = lib_b64_encode L sb \<rparr> = Inr doc"
    "t = \<lparr> spo_cid = ''b'' @ trim_end_eq (lib_b32_encode L (cidv1_prefix @ lib_sha256 L cb)), spo_json = doc \<rparr>"
    using valid by (auto simp: build_did_plc_tombstone_op_def Let_def cbor_encode_def compute_cid_def)
  have "lib_ts_parse L doc = Inr \<lparr> ts_prev = prev, ts_type = ''plc_tombstone'', ts_sig = lib_b64_encode L sb \<rparr>"
    "lib_b64_decode L (lib_b64_encode L sb) = Inr sb"
    using assms(1) r(4) unfolding lawful_def by blast+
  moreover have "verify_signature_with_key L key m sb = Inr ()"
    using assms(3) signed_bytes_Inr [OF r(2)] by (simp add: signs_for_def)
  ultimately show ?thesis
    unfolding verify_tombstone_iff using r valid assms(4)
    by (intro exI [of _ "\<lparr> ts_prev = prev, ts_type = ''plc_tombstone'', ts_sig = lib_b64_encode L sb \<rparr>"]
        exI [of _ m] exI [of _ sb] exI [of _ cb]) (auto simp: truncate_tombstone)
qed

text \<open>
  The CID of every built operation is a valid predecessor for a tombstone; a tombstone built on
  it is accepted with that predecessor and its own CID. A malformed predecessor is refused by the
  builder and by the verifier, whatever the signature.
\<close>

theorem tombstone_chains_onto_head:
  assumes "lawful L"
  shows "(build_did_plc_rotation_op L p0 ks vms akas svcs sign0 = Inr r \<longrightarrow> is_valid_cidv1_dag_cbor_sha256 L (spo_cid r)) \<and>
    (build_did_plc_tombstone_op L prev sign = Inr t \<and> signs_for L key sign \<and> key \<in> set keys \<longrightarrow>
       verify_plc_tombstone_op L (spo_json t) keys = Inr \<lparr> vt_cid = spo_cid t, vt_prev = prev \<rparr>) \<and>
    (\<not> is_valid_cidv1_dag_cbor_sha256 L prev \<longrightarrow>
       \<not> is_ok (build_did_plc_tombstone_op L prev sign) \<and>
       (\<forall>doc v. verify_plc_tombstone_op L doc keys = Inr v \<longrightarrow> vt_prev v \<noteq> prev))"
proof (intro conjI impI allI)
  assume "build_did_plc_rotation_op L p0 ks vms akas svcs sign0 = Inr r"
  then obtain cb where "compute_cid L cb = Inr (spo_cid r)"
    by (auto simp: build_did_plc_rotation_op_def Let_def)
  then show "is_valid_cidv1_dag_cbor_sha256 L (spo_cid r)" by (rule computed_cid_valid [OF assms])
next
  assume "build_did_plc_tombstone_op L prev sign = Inr t \<and> signs_for L key sign \<and> key \<in> set keys"
  then show "verify_plc_tombstone_op L (spo_json t) keys = Inr \<lparr> vt_cid = spo_cid t, vt_prev = prev \<rparr>"
    using tombstone_roundtrip [OF assms] by blast
next
  assume "\<not> is_valid_cidv1_dag_cbor_sha256 L prev"
  then show "\<not> is_ok (build_did_plc_tombstone_op L prev sign)"
    by (simp add: build_did_plc_tombstone_op_def)
next
  fix doc v
  assume "\<not> is_valid_cidv1_dag_cbor_sha256 L prev" "verify_plc_tombstone_op L doc keys = Inr v"
  then show "vt_prev v \<noteq> prev" by (auto simp: verify_tombstone_iff)
qed

section \<open>A concrete library\<close>

text \<open>
  The hypotheses above hold of a small concrete library: hexadecimal letters for base32 and base64,
  truncation to 32 bytes for the hash, and signatures that repeat the start of key and message. Its
  JSON encoders write one operation each.
\<close>

definition letters :: "bytes \<Rightarrow> str" where
  "letters b = concat (map (\<lambda>w. [char_of (97 + unat w div 16), char_of (97 + unat w mod 16)]) b)"

fun unletters :: "str \<Rightarrow> str + bytes" where
  "unletters [] = Inr []"
| "unletters [c] = Inl ''odd''"
| "unletters (c # d # s) =
     res_bind (unletters s) (\<lambda>bs. Inr (word_of_nat (16 * ((of_char c :: nat) - 97) + (of_char d - 97)) # bs))"

definition pad :: "nat \<Rightarrow> bytes \<Rightarrow> bytes" where
  "pad n b = take n (b @ replicate n 0)"

definition demo_curve :: "(bytes, bytes) curve" where
  "demo_curve = \<lparr> cv_signature = Inr, cv_sig_bytes = (\<lambda>g. g), cv_normalize_s = (\<lambda>_. None), cv_key = Inr,
     cv_verify = (\<lambda>k m g. if g = pad 64 (k @ m) then Inr () else Inl ''no'') \<rparr>"

fun flat :: "sval \<Rightarrow> bytes" where
  "flat SNull = [0xf6]"
| "flat (SText s) = 0x60 # map (\<lambda>c. word_of_nat (of_char c)) s"
| "flat (SList vs) = 0x80 # concat (map flat vs)"
| "flat (SMap m) = 0xa0 # concat (map (\<lambda>(k, v). map (\<lambda>c. word_of_nat (of_char c)) k @ flat v) m)"

definition demo_lib :: "signed_plc_op \<Rightarrow> signed_tombstone \<Rightarrow> (bytes, bytes, bytes) plc_lib" where
  "demo_lib o1 t1 = \<lparr> lib_cbor = (\<lambda>v. Inr (flat v)), lib_sha256 = pad 32, lib_b32_encode = letters,
     lib_b32_decode = unletters, lib_b64_encode = letters, lib_b64_decode = unletters,
     lib_multibase_decode = (\<lambda>s. unletters (drop 1 s)), lib_p256 = demo_curve, lib_k256 = demo_curve,
     lib_secret_key = Inr, lib_sign = (\<lambda>sk m. pad 64 (sk @ m)),
     lib_op_json = (\<lambda>op. if op = o1 then Inr ''op'' else Inl ''other''),
     lib_op_parse = (\<lambda>t. if t = ''op'' then Inr o1 else Inl ''unknown''),
     lib_ts_json = (\<lambda>op. if op = t1 then Inr ''tombstone'' else Inl ''other''),
     lib_ts_parse = (\<lambda>t. if t = ''tombstone'' then Inr t1 else Inl ''unknown''),
     lib_json_text = (\<lambda>j. if j = JString ''op'' then Inr ''op'' else Inr ''other''), lib_log_parse = (\<lambda>_. Inr []), lib_debug = (\<lambda>s. s) \<rparr>"

lemma letter_range: "n < 16 \<Longrightarrow> (of_char (char_of (97 + n)) :: nat) = 97 + n"
  by (simp add: of_char_of)

lemma nibbles: "unat (w :: 8 word) div 16 < 16" "unat (w :: 8 word) mod 16 < 16"
  using unsigned_less [of w, where ?'a = nat] by auto

lemma unletters_letters: "unletters (letters b) = Inr b"
proof (induction b)
  case (Cons w b)
  have "word_of_nat (16 * (unat w div 16) + unat w mod 16) = w" by simp
  then show ?case using Cons nibbles [of w] by (simp add: letters_def letter_range)
qed (simp add: letters_def)

lemma letters_codes: "c \<in> set (letters b) \<Longrightarrow> 97 \<le> (of_char c :: nat)"
proof (induction b)
  case (Cons w b)
  have "set (letters (w # b)) = {char_of (97 + unat w div 16), char_of (97 + unat w mod 16)} \<union> set (letters b)"
    by (auto simp: letters_def)
  then show ?case using Cons letter_range nibbles [of w]
    by (metis UnE insertE le_add1 singletonD)
qed (simp add: letters_def)

lemma letters_no_eq: "CHR ''='' \<notin> set (letters b)"
  using letters_codes [of "CHR ''=''" b] by auto

lemma lawful_demo: "lawful (demo_lib o1 t1)"
  by (auto simp: lawful_def demo_lib_def unletters_letters letters_no_eq pad_def)

definition demo_key :: did_key_uri where
  "demo_key = DidKeyUri (''did:key:z'' @ letters (p256_multicodec_prefix @ [7]))"

definition demo_sign :: signer where "demo_sign m = Inr (pad 64 (7 # m))"

lemma length_pad [simp]: "length (pad n b) = n"
  by (simp add: pad_def)

lemma demo_sign_verifies: "verify_signature_with_key (demo_lib o1 t1) demo_key m (pad 64 (7 # m)) = Inr ()"
  by (simp add: verify_signature_with_key_def decode_did_key_multikey_def demo_key_def demo_lib_def ok_or_def
      unletters_letters multicodec_def p256_multicodec_prefix_def verify_p256_sec1_def verify_sec1_def demo_curve_def)

lemma signs_for_demo: "signs_for (demo_lib o1 t1) demo_key demo_sign"
  using demo_sign_verifies by (auto simp: signs_for_def demo_sign_def)

lemma demo_signed_bytes: "signed_bytes (demo_lib o1 t1) demo_sign m = Inr (pad 64 (7 # m))"
  by (simp add: signed_bytes_def demo_sign_def ensure_low_s_callback_signature_def demo_lib_def demo_curve_def)

lemma demo_lib_sel [simp]:
  "lib_cbor (demo_lib o1 t1) v = Inr (flat v)" "lib_b64_encode (demo_lib o1 t1) = letters"
  "lib_op_json (demo_lib o1 t1) op = (if op = o1 then Inr ''op'' else Inl ''other'')"
  "lib_ts_json (demo_lib o1 t1) ts = (if ts = t1 then Inr ''tombstone'' else Inl ''other'')"
  "lib_json_text (demo_lib o1 t1) = (\<lambda>j. if j = JString ''op'' then Inr ''op'' else Inr ''other'')"
  by (simp_all add: demo_lib_def)

definition demo_sealed :: "unsigned_plc_op \<Rightarrow> signed_plc_op" where
  "demo_sealed u = with_sig u (letters (pad 64 (7 # flat (unsigned_value u))))"

definition demo_genesis :: unsigned_plc_op where
  "demo_genesis = \<lparr> op_prev = None, op_type = ''plc_operation'',
     op_services = [(''atproto_pds'', \<lparr> svc_type = ''AtprotoPersonalDataServer'', svc_endpoint = ''https://pds.example'' \<rparr>)],
     op_also_known_as = [''at://alice.example''], op_rotation_keys = [key_uri demo_key],
     op_verification_methods = [(''atproto'', key_uri demo_key)] \<rparr>"

definition demo_tombstone :: "str \<Rightarrow> signed_tombstone" where
  "demo_tombstone prev = \<lparr> ts_prev = prev, ts_type = ''plc_tombstone'',
     ts_sig = letters (pad 64 (7 # flat (unsigned_tombstone_value \<lparr> ts_prev = prev, ts_type = ''plc_tombstone'' \<rparr>))) \<rparr>"

abbreviation demo_genesis_lib :: "(bytes, bytes, bytes) plc_lib" where
  "demo_genesis_lib \<equiv> demo_lib (demo_sealed demo_genesis) (demo_tombstone [])"

lemma demo_genesis_builds:
  "\<exists>g. build_genesis_op_core demo_genesis_lib [key_uri demo_key] demo_key ''alice.example'' ''https://pds.example'' demo_sign = Inr g"
  unfolding build_genesis_op_core_def
  by (simp add: Let_def cbor_encode_def demo_signed_bytes json_of_op_def demo_sealed_def demo_genesis_def)

theorem genesis_op_roundtrip_witness:
  "\<exists>g v. build_genesis_op_core demo_genesis_lib [key_uri demo_key] demo_key ''alice.example'' ''https://pds.example'' demo_sign = Inr g \<and>
     verify_genesis_op demo_genesis_lib (gen_json g) demo_key = Inr v \<and> vg_did v = gen_did g"
proof -
  obtain g where g: "build_genesis_op_core demo_genesis_lib [key_uri demo_key] demo_key ''alice.example'' ''https://pds.example'' demo_sign = Inr g"
    using demo_genesis_builds by blast
  then show ?thesis using genesis_op_roundtrip [OF lawful_demo g signs_for_demo] by auto
qed

theorem verification_is_keywise_witness:
  "\<exists>(g :: plc_genesis_op) v. verify_plc_operation demo_genesis_lib (gen_json g) [DidKeyUri [], demo_key] = Inr v"
proof -
  obtain g where g: "build_genesis_op_core demo_genesis_lib [key_uri demo_key] demo_key ''alice.example'' ''https://pds.example'' demo_sign = Inr g"
    using demo_genesis_builds by blast
  from built_genesis [OF lawful_demo g] obtain op msg sb cb where
    r: "op_message demo_genesis_lib (gen_json g) op msg sb cb" "demo_sign msg = Inr sb" by metis
  then have "verify_plc_operation demo_genesis_lib (gen_json g) [demo_key] = Inr (verified_of demo_genesis_lib op cb)"
    unfolding verify_plc_operation_iff using demo_sign_verifies by (fastforce simp: demo_sign_def)
  then have "\<exists>k\<in>set [DidKeyUri [], demo_key].
      verify_plc_operation demo_genesis_lib (gen_json g) [k] = Inr (verified_of demo_genesis_lib op cb)" by simp
  then have "verify_plc_operation demo_genesis_lib (gen_json g) [DidKeyUri [], demo_key] = Inr (verified_of demo_genesis_lib op cb)"
    by (rule verification_is_keywise [THEN conjunct1, THEN iffD2])
  then show ?thesis by (intro exI)
qed

definition demo_rotation :: unsigned_plc_op where
  "demo_rotation = \<lparr> op_prev = Some ''bafy'', op_type = ''plc_operation'', op_services = [],
     op_also_known_as = [''at://alice.example''], op_rotation_keys = [key_uri demo_key], op_verification_methods = [] \<rparr>"

abbreviation demo_rotation_lib :: "(bytes, bytes, bytes) plc_lib" where
  "demo_rotation_lib \<equiv> demo_lib (demo_sealed demo_rotation) (demo_tombstone (''b'' @ letters (cidv1_prefix @ replicate 32 0)))"

lemma demo_rotation_builds:
  "\<exists>r. build_did_plc_rotation_op demo_rotation_lib ''bafy'' [key_uri demo_key] [] [''at://alice.example''] [] demo_sign = Inr r"
  unfolding build_did_plc_rotation_op_def
  by (simp add: Let_def cbor_encode_def demo_signed_bytes json_of_op_def demo_sealed_def demo_rotation_def compute_cid_def)

theorem rotation_op_roundtrip_witness:
  "\<exists>r v. build_did_plc_rotation_op demo_rotation_lib ''bafy'' [key_uri demo_key] [] [''at://alice.example''] [] demo_sign = Inr r \<and>
     verify_plc_operation demo_rotation_lib (spo_json r) [demo_key] = Inr v \<and> v_prev v = Some ''bafy''"
proof -
  obtain r where r: "build_did_plc_rotation_op demo_rotation_lib ''bafy'' [key_uri demo_key] [] [''at://alice.example''] [] demo_sign = Inr r"
    using demo_rotation_builds by blast
  then show ?thesis using rotation_op_roundtrip [OF lawful_demo r signs_for_demo, of "[demo_key]"] by (auto simp: btree_def)
qed

theorem tombstone_chains_onto_head_witness:
  "\<exists>t :: signed_plc_operation. verify_plc_tombstone_op demo_rotation_lib (spo_json t) [demo_key] =
     Inr \<lparr> vt_cid = spo_cid t, vt_prev = ''b'' @ letters (cidv1_prefix @ replicate 32 0) \<rparr>"
proof -
  let ?prev = "''b'' @ letters (cidv1_prefix @ replicate 32 0)"
  have "is_valid_cidv1_dag_cbor_sha256 demo_rotation_lib ?prev"
    by (simp add: is_valid_cidv1_dag_cbor_sha256_def demo_lib_def unletters_letters cidv1_prefix_def)
  then have "\<exists>t. build_did_plc_tombstone_op demo_rotation_lib ?prev demo_sign = Inr t"
    unfolding build_did_plc_tombstone_op_def
    by (simp add: Let_def cbor_encode_def demo_signed_bytes compute_cid_def demo_tombstone_def)
  then obtain t where t: "build_did_plc_tombstone_op demo_rotation_lib ?prev demo_sign = Inr t" by blast
  have "verify_plc_tombstone_op demo_rotation_lib (spo_json t) [demo_key] = Inr \<lparr> vt_cid = spo_cid t, vt_prev = ?prev \<rparr>"
    by (rule tombstone_chains_onto_head [OF lawful_demo, THEN conjunct2, THEN conjunct1, THEN mp])
      (use t signs_for_demo in auto)
  then show ?thesis by (intro exI)
qed

end
