(* ===== verification/Plc_Monitor.thy ===== *)
theory Plc_Monitor
  imports Plc_Ops
begin

text \<open>
  The wallet's watch over the public PLC log, \<open>crates/obsign-core/src/plc_monitor.rs\<close>, with the
  parts of \<open>identity_store.rs\<close> it uses: the cached logs of the managed identities, one check of an
  identity, the sweep over all of them, and the bounded history of sweeps. The directory, the
  Keychain's failures and the device keys are the fields of \<open>check_env\<close>; a time is an \<open>int\<close> of
  nanoseconds, its RFC 3339 text and parser are parameters.
\<close>

section \<open>Error texts\<close>

text \<open>The \<open>Display\<close> of \<open>CryptoError\<close>.\<close>

fun crypto_error_text :: "crypto_error \<Rightarrow> str" where
  "crypto_error_text (KeyGeneration m) = ''key generation failed: '' @ m"
| "crypto_error_text (Encryption m) = ''encryption failed: '' @ m"
| "crypto_error_text (Decryption m) = ''decryption failed: '' @ m"
| "crypto_error_text (SecretSharing m) = ''secret sharing failed: '' @ m"
| "crypto_error_text (SecretReconstruction m) = ''secret reconstruction failed: '' @ m"
| "crypto_error_text (ShareVersion m) = ''share envelope has unsupported version: '' @ m"
| "crypto_error_text (ShareChecksum m) = ''share envelope checksum mismatch: '' @ m"
| "crypto_error_text (ShareFormat m) = ''share envelope malformed: '' @ m"
| "crypto_error_text (PlcOperation m) = ''plc operation failed: '' @ m"
| "crypto_error_text (SignatureVerification m) = ''signature verification failed: '' @ m"
| "crypto_error_text (SpacePrimitive m) = ''space primitive failed: '' @ m"

datatype identity_store_error =
    IdentityNotFound | IdentityAlreadyExists | KeychainError str | KeyGenerationFailed | SerializationError str
  | DeviceKeyUnusable | DelegationSeedConflict

fun store_error_text :: "identity_store_error \<Rightarrow> str" where
  "store_error_text IdentityNotFound = ''identity not found''"
| "store_error_text IdentityAlreadyExists = ''identity already exists''"
| "store_error_text (KeychainError m) = ''keychain error: '' @ m"
| "store_error_text KeyGenerationFailed = ''key generation failed''"
| "store_error_text (SerializationError m) = ''serialization error: '' @ m"
| "store_error_text DeviceKeyUnusable = ''device key is no longer usable on this device''"
| "store_error_text DelegationSeedConflict = ''a different delegation seed is already stored for this identity''"

datatype monitor_error = NetworkError str | IdentityStoreError str | ParseError str

section \<open>The identity store\<close>

text \<open>What the surroundings answer during one sweep.\<close>

record check_env =
  ce_managed :: "identity_store_error + str list"
  ce_fetch :: "str \<Rightarrow> str + str"
  ce_read_log :: "str \<Rightarrow> identity_store_error option"
  ce_write_log :: "str \<Rightarrow> identity_store_error option"
  ce_device_key :: "str \<Rightarrow> identity_store_error + did_key_uri"

type_synonym plc_logs = "str \<Rightarrow> str option"

definition is_managed :: "check_env \<Rightarrow> str \<Rightarrow> identity_store_error + bool" where
  "is_managed E did = res_bind (ce_managed E) (\<lambda>dids. Inr (did \<in> set dids))"

definition get_plc_log :: "check_env \<Rightarrow> plc_logs \<Rightarrow> str \<Rightarrow> identity_store_error + str option" where
  "get_plc_log E logs did =
     res_bind (is_managed E did) (\<lambda>managed.
       if \<not> managed then Inl IdentityNotFound
       else case ce_read_log E did of Some e \<Rightarrow> Inl e | None \<Rightarrow> Inr (logs did))"

definition store_plc_log :: "check_env \<Rightarrow> str \<Rightarrow> str \<Rightarrow> plc_logs \<Rightarrow> identity_store_error + plc_logs" where
  "store_plc_log E did log_json logs =
     res_bind (is_managed E did) (\<lambda>managed.
       if \<not> managed then Inl IdentityNotFound
       else case ce_write_log E did of Some e \<Rightarrow> Inl e | None \<Rightarrow> Inr (logs(did \<mapsto> log_json)))"

definition get_or_create_device_key :: "check_env \<Rightarrow> str \<Rightarrow> identity_store_error + did_key_uri" where
  "get_or_create_device_key E did =
     res_bind (is_managed E did) (\<lambda>managed. if \<not> managed then Inl IdentityNotFound else ce_device_key E did)"

section \<open>One check\<close>

record unauthorized_change =
  uc_cid :: str
  uc_created_at :: str
  uc_signing_key :: "str option"
  uc_operation :: json

text \<open>\<open>Value::get\<close> with a string, and \<open>from_value\<close> into a list of strings.\<close>

definition json_get :: "str \<Rightarrow> json \<Rightarrow> json option" where
  "json_get k j = (case j of JObject m \<Rightarrow> map_of m k | _ \<Rightarrow> None)"

fun json_strings :: "json list \<Rightarrow> str list option" where
  "json_strings [] = Some []"
| "json_strings (JString s # js) = map_option ((#) s) (json_strings js)"
| "json_strings (j # js) = None"

definition string_list :: "json \<Rightarrow> str list option" where
  "string_list j = (case j of JArray js \<Rightarrow> json_strings js | _ \<Rightarrow> None)"

definition identify_signing_key ::
  "('g, 'k, 's) plc_lib \<Rightarrow> str \<Rightarrow> audit_entry list \<Rightarrow> audit_entry \<Rightarrow> str option" where
  "identify_signing_key L op_json all_entries target =
     (case takeWhile (\<lambda>e. le_cid e \<noteq> le_cid target) all_entries of
        [] \<Rightarrow> None
      | before \<Rightarrow>
          let rotation_keys =
                (case json_get ''rotationKeys'' (le_operation (last before)) of
                   Some v \<Rightarrow> (case string_list v of Some ks \<Rightarrow> ks | None \<Rightarrow> [])
                 | None \<Rightarrow> [])
          in List.find (\<lambda>key. is_ok (verify_plc_operation L op_json [DidKeyUri key])) rotation_keys)"

text \<open>The classification loop: entries the device key signed are skipped.\<close>

fun classify ::
  "('g, 'k, 's) plc_lib \<Rightarrow> did_key_uri \<Rightarrow> audit_entry list \<Rightarrow> audit_entry list \<Rightarrow> monitor_error + unauthorized_change list" where
  "classify L device_key all_entries [] = Inr []"
| "classify L device_key all_entries (entry # es) =
     res_bind (map_err ParseError (lib_json_text L (le_operation entry))) (\<lambda>op_json.
       if is_ok (verify_plc_operation L op_json [device_key]) then classify L device_key all_entries es
       else res_bind (classify L device_key all_entries es) (\<lambda>rest.
         Inr (\<lparr> uc_cid = le_cid entry, uc_created_at = le_created_at entry,
                 uc_signing_key = identify_signing_key L op_json all_entries entry,
                 uc_operation = le_operation entry \<rparr> # rest)))"

definition cached_entries :: "('g, 'k, 's) plc_lib \<Rightarrow> str option \<Rightarrow> audit_entry list" where
  "cached_entries L cached =
     (case cached of
        Some cached_json \<Rightarrow> (case parse_audit_log L cached_json of Inr entries \<Rightarrow> entries | Inl _ \<Rightarrow> [])
      | None \<Rightarrow> [])"

definition check_for_changes ::
  "('g, 'k, 's) plc_lib \<Rightarrow> check_env \<Rightarrow> str \<Rightarrow> plc_logs \<Rightarrow> plc_logs \<times> (monitor_error + unauthorized_change list)" where
  "check_for_changes L E did logs =
     (case ce_fetch E did of
        Inl e \<Rightarrow> (logs, Inl (NetworkError e))
      | Inr current_json \<Rightarrow>
     (case parse_audit_log L current_json of
        Inl e \<Rightarrow> (logs, Inl (ParseError (crypto_error_text e)))
      | Inr current \<Rightarrow>
     (case get_plc_log E logs did of
        Inl e \<Rightarrow> (logs, Inl (IdentityStoreError (store_error_text e)))
      | Inr cached \<Rightarrow>
          let new_entries = diff_audit_logs (cached_entries L cached) current
          in if new_entries = [] then (logs, Inr [])
             else
     (case get_or_create_device_key E did of
        Inl e \<Rightarrow> (logs, Inl (IdentityStoreError (store_error_text e)))
      | Inr device_key \<Rightarrow>
     (case classify L device_key current new_entries of
        Inl e \<Rightarrow> (logs, Inl e)
      | Inr unauthorized \<Rightarrow>
          ((case store_plc_log E did current_json logs of Inl _ \<Rightarrow> logs | Inr logs' \<Rightarrow> logs'), Inr unauthorized))))))"

section \<open>The sweep\<close>

record identity_status =
  st_did :: str
  st_check_failed :: bool
  st_unauthorized_changes :: "unauthorized_change list"

definition is_monitorable :: "str \<Rightarrow> bool" where
  "is_monitorable did = starts_with ''did:plc:'' did"

fun check_each ::
  "('g, 'k, 's) plc_lib \<Rightarrow> check_env \<Rightarrow> str list \<Rightarrow> plc_logs \<Rightarrow> plc_logs \<times> identity_status list" where
  "check_each L E [] logs = (logs, [])"
| "check_each L E (did # dids) logs =
     (if \<not> is_monitorable did then check_each L E dids logs
      else case check_for_changes L E did logs of
        (logs1, r) \<Rightarrow>
          (case check_each L E dids logs1 of
             (logs2, rest) \<Rightarrow>
               (logs2,
                (case r of
                   Inr unauthorized \<Rightarrow>
                     \<lparr> st_did = did, st_check_failed = False, st_unauthorized_changes = unauthorized \<rparr>
                 | Inl _ \<Rightarrow> \<lparr> st_did = did, st_check_failed = True, st_unauthorized_changes = [] \<rparr>) # rest)))"

definition check_all ::
  "('g, 'k, 's) plc_lib \<Rightarrow> check_env \<Rightarrow> plc_logs \<Rightarrow> plc_logs \<times> (monitor_error + identity_status list)" where
  "check_all L E logs =
     (case ce_managed E of
        Inl e \<Rightarrow> (logs, Inl (IdentityStoreError (store_error_text e)))
      | Inr dids \<Rightarrow> (case check_each L E dids logs of (logs', statuses) \<Rightarrow> (logs', Inr statuses)))"

section \<open>The history of sweeps\<close>

datatype sweep_trigger = Background | Foreground

record sweep_record =
  sw_at :: str
  sw_trigger :: sweep_trigger
  sw_checked :: "32 word"
  sw_failed :: "32 word"
  sw_unauthorized :: "32 word"

record last_checked =
  lc_did :: str
  lc_verified_at :: "str option"

record monitor_history =
  mh_sweeps :: "sweep_record list"
  mh_identities :: "last_checked list"
  mh_interval_secs :: nat

definition monitor_interval_secs :: nat where "monitor_interval_secs = 15 * 60"
definition max_sweep_records :: nat where "max_sweep_records = 20"
definition coalesce_secs :: int where "coalesce_secs = 5 * 60"

definition empty_history :: monitor_history where
  "empty_history = \<lparr> mh_sweeps = [], mh_identities = [], mh_interval_secs = 0 \<rparr>"

text \<open>\<open>num_seconds\<close> of a duration truncates toward zero.\<close>

definition num_seconds :: "int \<Rightarrow> int" where
  "num_seconds d = (if 0 \<le> d then d div 10 ^ 9 else - ((- d) div 10 ^ 9))"

record clock_text =
  ct_format :: "int \<Rightarrow> str"
  ct_parse :: "str \<Rightarrow> int option"

definition coalesces_into :: "clock_text \<Rightarrow> sweep_record option \<Rightarrow> sweep_record \<Rightarrow> int \<Rightarrow> bool" where
  "coalesces_into T newest nxt now =
     (case newest of
        None \<Rightarrow> False
      | Some r \<Rightarrow>
          if sw_trigger r \<noteq> sw_trigger nxt \<or> sw_checked r \<noteq> sw_checked nxt \<or> sw_failed r \<noteq> sw_failed nxt \<or>
             sw_unauthorized r \<noteq> sw_unauthorized nxt
          then False
          else (case ct_parse T (sw_at r) of Some prev_at \<Rightarrow> num_seconds (now - prev_at) < coalesce_secs | None \<Rightarrow> False))"

definition sweep_of :: "clock_text \<Rightarrow> identity_status list \<Rightarrow> sweep_trigger \<Rightarrow> int \<Rightarrow> sweep_record" where
  "sweep_of T statuses trigger now =
     \<lparr> sw_at = ct_format T now, sw_trigger = trigger, sw_checked = word_of_nat (length statuses),
       sw_failed = word_of_nat (length (filter st_check_failed statuses)),
       sw_unauthorized = sum_list (map (\<lambda>s. word_of_nat (length (st_unauthorized_changes s))) statuses) \<rparr>"

definition fold_sweep ::
  "clock_text \<Rightarrow> monitor_history \<Rightarrow> identity_status list \<Rightarrow> sweep_trigger \<Rightarrow> int \<Rightarrow> monitor_history" where
  "fold_sweep T prev statuses trigger now =
     (let record = sweep_of T statuses trigger now;
          identities = map (\<lambda>s. \<lparr> lc_did = st_did s,
            lc_verified_at =
              (if st_check_failed s
               then Option.bind (List.find (\<lambda>e. lc_did e = st_did s) (mh_identities prev)) lc_verified_at
               else Some (ct_format T now)) \<rparr>) statuses;
          sweeps = mh_sweeps prev
      in \<lparr> mh_sweeps =
             (if coalesces_into T (case sweeps of [] \<Rightarrow> None | r # _ \<Rightarrow> Some r) record now then sweeps[0 := record]
              else take max_sweep_records (record # sweeps)),
           mh_identities = identities, mh_interval_secs = monitor_interval_secs \<rparr>)"

text \<open>The stored history: \<open>None\<close> when it is missing or unreadable.\<close>

definition load_history :: "monitor_history option \<Rightarrow> monitor_history" where
  "load_history stored = (case stored of Some h \<Rightarrow> h | None \<Rightarrow> empty_history)"

definition record_sweep ::
  "clock_text \<Rightarrow> bool \<Rightarrow> identity_status list \<Rightarrow> sweep_trigger \<Rightarrow> int \<Rightarrow> monitor_history option \<Rightarrow> monitor_history option" where
  "record_sweep T write_ok statuses trigger now stored =
     (if write_ok then Some (fold_sweep T (load_history stored) statuses trigger now) else stored)"

definition get_monitor_history :: "monitor_history option \<Rightarrow> monitor_history" where
  "get_monitor_history stored = (load_history stored)\<lparr> mh_interval_secs := monitor_interval_secs \<rparr>"

section \<open>The monitor\<close>

record monitor =
  mo_logs :: plc_logs
  mo_history :: "monitor_history option"

text \<open>One call: the surroundings, whether the history can be written, and the time.\<close>

record sweep_input =
  si_env :: check_env
  si_write_ok :: bool
  si_now :: int

definition run_monitoring_cycle ::
  "('g, 'k, 's) plc_lib \<Rightarrow> clock_text \<Rightarrow> sweep_input \<Rightarrow> monitor \<Rightarrow> monitor \<times> identity_status list" where
  "run_monitoring_cycle L T i m =
     (case check_all L (si_env i) (mo_logs m) of
        (logs, Inr statuses) \<Rightarrow>
          (\<lparr> mo_logs = logs, mo_history = record_sweep T (si_write_ok i) statuses Background (si_now i) (mo_history m) \<rparr>,
           statuses)
      | (logs, Inl _) \<Rightarrow> (m\<lparr> mo_logs := logs \<rparr>, []))"

text \<open>\<open>emit_if_alerts\<close>: the payload of the alert event, when there is one.\<close>

definition emit_if_alerts :: "identity_status list \<Rightarrow> identity_status list option" where
  "emit_if_alerts statuses =
     (if list_ex (\<lambda>s. st_unauthorized_changes s \<noteq> []) statuses then Some statuses else None)"

definition run_monitoring_cycle_and_alert ::
  "('g, 'k, 's) plc_lib \<Rightarrow> clock_text \<Rightarrow> sweep_input \<Rightarrow> monitor \<Rightarrow> monitor \<times> identity_status list option" where
  "run_monitoring_cycle_and_alert L T i m =
     (case run_monitoring_cycle L T i m of (m', statuses) \<Rightarrow> (m', emit_if_alerts statuses))"

definition check_identity_status ::
  "('g, 'k, 's) plc_lib \<Rightarrow> clock_text \<Rightarrow> sweep_input \<Rightarrow> monitor \<Rightarrow>
     monitor \<times> identity_status list option \<times> (monitor_error + identity_status list)" where
  "check_identity_status L T i m =
     (case check_all L (si_env i) (mo_logs m) of
        (logs, Inr statuses) \<Rightarrow>
          (\<lparr> mo_logs = logs, mo_history = record_sweep T (si_write_ok i) statuses Foreground (si_now i) (mo_history m) \<rparr>,
           emit_if_alerts statuses, Inr statuses)
      | (logs, Inl e) \<Rightarrow> (m\<lparr> mo_logs := logs \<rparr>, None, Inl e))"

end
