(* ===== verification/Plc_Monitor_Correct.thy ===== *)
theory Plc_Monitor_Correct
  imports Plc_Monitor Plc_Correct
begin

text \<open>
  What the wallet's monitor guarantees: over any sequence of checks of a growing log no operation the device
  key did not sign goes unreported, and each is reported once unless a write of the log fails; the
  identities of a sweep do not influence each other; and the stored history shows the passes that the next
  one did not repeat. The consequence for the user is also shown: the report is consumed by the check that
  finds it.
\<close>

section \<open>One check\<close>

definition foreign :: "('g, 'k, 's) plc_lib \<Rightarrow> did_key_uri \<Rightarrow> json \<Rightarrow> bool" where
  "foreign L device_key operation \<longleftrightarrow>
     (\<forall>doc. lib_json_text L operation = Inr doc \<longrightarrow> \<not> is_ok (verify_plc_operation L doc [device_key]))"

text \<open>Rendering a JSON value as text does not fail.\<close>

definition json_total :: "('g, 'k, 's) plc_lib \<Rightarrow> bool" where
  "json_total L \<longleftrightarrow> (\<forall>j. is_ok (lib_json_text L j))"

definition cids :: "audit_entry list \<Rightarrow> str set" where
  "cids es = le_cid ` set es"

text \<open>The log a check sees, if the directory answers with a readable one.\<close>

definition view :: "('g, 'k, 's) plc_lib \<Rightarrow> str \<Rightarrow> check_env \<Rightarrow> audit_entry list option" where
  "view L did E =
     (case ce_fetch E did of Inl _ \<Rightarrow> None | Inr doc \<Rightarrow> (case lib_log_parse L doc of Inl _ \<Rightarrow> None | Inr es \<Rightarrow> Some es))"

text \<open>The Keychain works and the identity has its device key.\<close>

definition steady :: "did_key_uri \<Rightarrow> str \<Rightarrow> check_env \<Rightarrow> bool" where
  "steady device_key did E \<longleftrightarrow>
     (\<exists>dids. ce_managed E = Inr dids \<and> did \<in> set dids) \<and> ce_read_log E did = None \<and> ce_write_log E did = None \<and>
     ce_device_key E did = Inr device_key"

definition cached :: "('g, 'k, 's) plc_lib \<Rightarrow> str \<Rightarrow> plc_logs \<Rightarrow> audit_entry list" where
  "cached L did logs = cached_entries L (logs did)"

lemma classify_reports:
  assumes "json_total L"
  shows "\<exists>us. classify L device_key all_entries es = Inr us \<and>
    map (\<lambda>u. (uc_cid u, uc_operation u)) us = map (\<lambda>e. (le_cid e, le_operation e)) (filter (\<lambda>e. foreign L device_key (le_operation e)) es)"
proof (induction es)
  case (Cons e es)
  obtain doc where "lib_json_text L (le_operation e) = Inr doc"
    using assms by (auto simp: json_total_def is_ok_iff)
  with Cons show ?case by (auto simp: foreign_def)
qed simp

lemma check_unanswered:
  assumes "view L did E = None"
  shows "fst (check_for_changes L E did logs) = logs \<and> \<not> is_ok (snd (check_for_changes L E did logs))"
  using assms by (auto simp: check_for_changes_def view_def parse_audit_log_def map_err_def split: sum.splits)

lemma check_answered:
  assumes "json_total L" "steady device_key did E" "view L did E = Some es"
  shows "\<exists>us. snd (check_for_changes L E did logs) = Inr us \<and>
      map uc_cid us = map le_cid (filter (\<lambda>e. foreign L device_key (le_operation e) \<and> le_cid e \<notin> cids (cached L did logs)) es)" (is ?reports)
    and "cached L did (fst (check_for_changes L E did logs)) =
      (if cids es \<subseteq> cids (cached L did logs) then cached L did logs else es)" (is ?cached)
proof -
  obtain doc where doc: "ce_fetch E did = Inr doc" "lib_log_parse L doc = Inr es"
    using assms(3) by (auto simp: view_def split: sum.splits)
  have get: "get_plc_log E logs did = Inr (logs did)" "get_or_create_device_key E did = Inr device_key"
    "store_plc_log E did doc logs = Inr (logs(did \<mapsto> doc))"
    using assms(2) by (auto simp: steady_def get_plc_log_def get_or_create_device_key_def store_plc_log_def is_managed_def)
  let ?new = "filter (\<lambda>e. le_cid e \<notin> cids (cached L did logs)) es"
  have diff: "diff_audit_logs (cached_entries L (logs did)) es = ?new"
    by (simp add: diff_audit_logs_def cids_def cached_def)
  obtain us where us: "classify L device_key es ?new = Inr us"
    "map (\<lambda>u. (uc_cid u, uc_operation u)) us = map (\<lambda>e. (le_cid e, le_operation e)) (filter (\<lambda>e. foreign L device_key (le_operation e)) ?new)"
    using classify_reports [OF assms(1)] by blast
  have check: "check_for_changes L E did logs = (if ?new = [] then (logs, Inr []) else (logs(did \<mapsto> doc), Inr us))"
    unfolding check_for_changes_def
    by (simp add: doc get diff us(1) parse_audit_log_def Let_def)
  have "map uc_cid us = map fst (map (\<lambda>u. (uc_cid u, uc_operation u)) us)" by (simp add: comp_def)
  also have "\<dots> = map le_cid (filter (\<lambda>e. foreign L device_key (le_operation e) \<and> le_cid e \<notin> cids (cached L did logs)) es)"
    unfolding us(2) by (simp add: comp_def conj_commute)
  finally have "map uc_cid us = map le_cid (filter (\<lambda>e. foreign L device_key (le_operation e) \<and> le_cid e \<notin> cids (cached L did logs)) es)" .
  moreover have "?new = [] \<Longrightarrow> filter (\<lambda>e. foreign L device_key (le_operation e) \<and> le_cid e \<notin> cids (cached L did logs)) es = []"
    by (auto simp: filter_empty_conv)
  ultimately show ?reports by (auto simp: check)
  have "?new = [] \<longleftrightarrow> cids es \<subseteq> cids (cached L did logs)" by (auto simp: filter_empty_conv cids_def)
  then show ?cached by (simp add: check) (simp add: cached_def cached_entries_def parse_audit_log_def doc(2))
qed

section \<open>A sequence of checks\<close>

text \<open>A later log holds the entries of an earlier one, under the same CIDs with the same operations.\<close>

definition extends :: "audit_entry list \<Rightarrow> audit_entry list \<Rightarrow> bool" where
  "extends old new \<longleftrightarrow> (\<forall>e\<in>set old. \<exists>e'\<in>set new. le_cid e' = le_cid e \<and> le_operation e' = le_operation e)"

fun growing :: "audit_entry list \<Rightarrow> audit_entry list option list \<Rightarrow> bool" where
  "growing known [] = True"
| "growing known (None # vs) = growing known vs"
| "growing known (Some es # vs) = (distinct (map le_cid es) \<and> extends known es \<and> growing es vs)"

fun latest :: "audit_entry list \<Rightarrow> audit_entry list option list \<Rightarrow> audit_entry list" where
  "latest known [] = known"
| "latest known (None # vs) = latest known vs"
| "latest known (Some es # vs) = latest es vs"

definition reported :: "(monitor_error + unauthorized_change list) list \<Rightarrow> str list" where
  "reported outs = concat (map (\<lambda>r. case r of Inl _ \<Rightarrow> [] | Inr us \<Rightarrow> map uc_cid us) outs)"

lemma extends_refl: "extends es es"
  by (auto simp: extends_def)

lemma extends_trans: "extends a b \<Longrightarrow> extends b c \<Longrightarrow> extends a c"
  unfolding extends_def by metis

lemma extends_latest: "growing known vs \<Longrightarrow> extends known (latest known vs)"
  by (induction known vs rule: growing.induct) (auto intro: extends_refl extends_trans)

lemma distinct_latest: "growing known vs \<Longrightarrow> distinct (map le_cid known) \<Longrightarrow> distinct (map le_cid (latest known vs))"
  by (induction known vs rule: growing.induct) auto

lemma extends_same_operation:
  assumes "extends es later" "distinct (map le_cid later)" "e \<in> set es" "e' \<in> set later" "le_cid e' = le_cid e"
  shows "le_operation e' = le_operation e"
proof -
  obtain e'' where "e'' \<in> set later" "le_cid e'' = le_cid e" "le_operation e'' = le_operation e"
    using assms(1,3) by (auto simp: extends_def)
  then show ?thesis using assms(2,4,5) by (metis distinct_map inj_onD)
qed

lemma cids_extends:
  assumes "extends a b"
  shows "cids a \<subseteq> cids b"
proof
  fix c assume "c \<in> cids a"
  then show "c \<in> cids b" using assms unfolding extends_def cids_def image_iff by metis
qed

definition foreign_cids :: "('g, 'k, 's) plc_lib \<Rightarrow> did_key_uri \<Rightarrow> audit_entry list \<Rightarrow> str set" where
  "foreign_cids L device_key es = le_cid ` {e \<in> set es. foreign L device_key (le_operation e)}"

lemma in_foreign_cids:
  "c \<in> foreign_cids L k es \<longleftrightarrow> (\<exists>e\<in>set es. le_cid e = c \<and> foreign L k (le_operation e))"
  by (auto simp: foreign_cids_def)

lemma foreign_cids_sub: "foreign_cids L k es \<subseteq> cids es"
  by (auto simp: foreign_cids_def cids_def)

lemma foreign_cids_stable:
  assumes "extends es later" "distinct (map le_cid later)" "c \<in> cids es"
  shows "c \<in> foreign_cids L k later \<longleftrightarrow> c \<in> foreign_cids L k es"
proof -
  from assms(3) obtain e where e: "e \<in> set es" "c = le_cid e" by (auto simp: cids_def)
  obtain e' where e': "e' \<in> set later" "le_cid e' = c" "le_operation e' = le_operation e"
    using assms(1) e by (auto simp: extends_def)
  show ?thesis
  proof
    assume "c \<in> foreign_cids L k later"
    then obtain x where x: "x \<in> set later" "le_cid x = c" "foreign L k (le_operation x)" by (auto simp: in_foreign_cids)
    then have "le_operation x = le_operation e"
      using extends_same_operation [OF assms(1,2) e(1) x(1)] e(2) by simp
    then show "c \<in> foreign_cids L k es" using e x(3) by (auto simp: in_foreign_cids)
  next
    assume "c \<in> foreign_cids L k es"
    then obtain x where x: "x \<in> set es" "le_cid x = c" "foreign L k (le_operation x)" by (auto simp: in_foreign_cids)
    then have "le_operation e' = le_operation x"
      using extends_same_operation [OF assms(1,2) x(1) e'(1)] e'(2) by simp
    then show "c \<in> foreign_cids L k later" using e' x(3) by (auto simp: in_foreign_cids)
  qed
qed

lemma reported_Cons: "reported (r # outs) = (case r of Inl _ \<Rightarrow> [] | Inr us \<Rightarrow> map uc_cid us) @ reported outs"
  by (simp add: reported_def)

text \<open>The key of the identity, whenever the Keychain gives one, is the same.\<close>

definition same_key :: "did_key_uri \<Rightarrow> str \<Rightarrow> check_env \<Rightarrow> bool" where
  "same_key k did E \<longleftrightarrow> (\<forall>k'. ce_device_key E did = Inr k' \<longrightarrow> k' = k)"

text \<open>The logs of the checks that came back without an error.\<close>

definition seen_log :: "('g, 'k, 's) plc_lib \<Rightarrow> str \<Rightarrow> check_env \<Rightarrow> monitor_error + unauthorized_change list \<Rightarrow> audit_entry list option" where
  "seen_log L did E out = (if is_ok out then view L did E else None)"

lemma check_cases:
  assumes "json_total L" "same_key k did E"
  obtains (failed) e where "snd (check_for_changes L E did logs) = Inl e" "fst (check_for_changes L E did logs) = logs"
  | (known) es where "view L did E = Some es" "cids es \<subseteq> cids (cached L did logs)" "check_for_changes L E did logs = (logs, Inr [])"
  | (found) es us where "view L did E = Some es" "snd (check_for_changes L E did logs) = Inr us"
      "map uc_cid us = map le_cid (filter (\<lambda>e. foreign L k (le_operation e) \<and> le_cid e \<notin> cids (cached L did logs)) es)"
      "cached L did (fst (check_for_changes L E did logs)) = (if ce_write_log E did = None then es else cached L did logs)"
proof -
  let ?r = "check_for_changes L E did logs"
  show thesis
  proof (cases "snd ?r")
    case (Inl e)
    then show thesis using failed [of e] by (auto simp: check_for_changes_def Let_def split: sum.splits if_splits)
  next
    case (Inr us)
    then obtain doc es where doc: "ce_fetch E did = Inr doc" "lib_log_parse L doc = Inr es" and v: "view L did E = Some es"
      by (auto simp: check_for_changes_def view_def parse_audit_log_def split: sum.splits)
    then obtain dids where m: "ce_managed E = Inr dids" "did \<in> set dids" "ce_read_log E did = None"
      using Inr by (auto simp: check_for_changes_def parse_audit_log_def get_plc_log_def is_managed_def split: sum.splits if_splits option.splits)
    then have get: "get_plc_log E logs did = Inr (logs did)" by (simp add: get_plc_log_def is_managed_def)
    let ?new = "filter (\<lambda>e. le_cid e \<notin> cids (cached L did logs)) es"
    have diff: "diff_audit_logs (cached_entries L (logs did)) es = ?new" by (simp add: diff_audit_logs_def cids_def cached_def)
    have sub: "?new = [] \<longleftrightarrow> cids es \<subseteq> cids (cached L did logs)" by (auto simp: filter_empty_conv cids_def)
    show thesis
    proof (cases "?new = []")
      case True
      then show thesis using known [OF v] sub by (simp add: check_for_changes_def doc parse_audit_log_def get diff Let_def)
    next
      case False
      then obtain k' where "ce_device_key E did = Inr k'"
        using Inr m by (cases "ce_device_key E did") (auto simp: check_for_changes_def doc parse_audit_log_def get diff Let_def get_or_create_device_key_def is_managed_def)
      then have key: "get_or_create_device_key E did = Inr k"
        using assms(2) m by (auto simp: same_key_def get_or_create_device_key_def is_managed_def)
      obtain us' where us': "classify L k es ?new = Inr us'"
        "map (\<lambda>u. (uc_cid u, uc_operation u)) us' = map (\<lambda>e. (le_cid e, le_operation e)) (filter (\<lambda>e. foreign L k (le_operation e)) ?new)"
        using classify_reports [OF assms(1)] by blast
      have store: "(case store_plc_log E did doc logs of Inl _ \<Rightarrow> logs | Inr logs' \<Rightarrow> logs') =
          (if ce_write_log E did = None then logs(did \<mapsto> doc) else logs)"
        using m by (auto simp: store_plc_log_def is_managed_def split: option.splits)
      have r: "?r = (if ce_write_log E did = None then logs(did \<mapsto> doc) else logs, Inr us')"
        unfolding check_for_changes_def using False
        by (simp add: doc parse_audit_log_def get diff Let_def key us'(1) store)
      have "map uc_cid us' = map fst (map (\<lambda>u. (uc_cid u, uc_operation u)) us')" by (simp add: comp_def)
      also have "\<dots> = map le_cid (filter (\<lambda>e. foreign L k (le_operation e) \<and> le_cid e \<notin> cids (cached L did logs)) es)"
        unfolding us'(2) by (simp add: comp_def conj_commute)
      finally have reports: "map uc_cid us' = map le_cid (filter (\<lambda>e. foreign L k (le_operation e) \<and> le_cid e \<notin> cids (cached L did logs)) es)" .
      have "cached L did (logs(did \<mapsto> doc)) = es" by (simp add: cached_def cached_entries_def parse_audit_log_def doc(2))
      then show thesis using found [OF v _ reports] by (simp add: r)
    qed
  qed
qed

lemma growing_later: "growing es vs \<Longrightarrow> extends known es \<Longrightarrow> growing known vs"
  by (induction es vs rule: growing.induct) (auto intro: extends_trans)

lemma latest_shift: "latest es vs = (if set vs \<subseteq> {None} then es else latest known vs)"
  by (induction es vs rule: latest.induct) auto

abbreviation run_checks where "run_checks L did logs Es \<equiv> snd (run (\<lambda>s E. check_for_changes L E did s) logs Es)"

lemma run_checks_Cons:
  "run_checks L did logs (E # Es) = snd (check_for_changes L E did logs) # run_checks L did (fst (check_for_changes L E did logs)) Es"
  by (simp add: case_prod_beta)

lemma growing_seen:
  "growing known (map (view L did) Es) \<Longrightarrow> growing known (map2 (seen_log L did) Es outs)"
proof (induction Es arbitrary: known outs)
  case (Cons E Es)
  show ?case
  proof (cases outs)
    case (Cons r rs)
    then show ?thesis using Cons.IH [of _ rs] Cons.prems growing_later
      by (cases "view L did E") (auto simp: seen_log_def)
  qed simp
qed simp

lemma checks_report:
  assumes "json_total L" "\<forall>E\<in>set Es. same_key k did E" "growing known (map (view L did) Es)"
    "distinct (map le_cid known)" "cids (cached L did logs) = cids known"
  shows "set (reported (run_checks L did logs Es)) =
      foreign_cids L k (latest known (map2 (seen_log L did) Es (run_checks L did logs Es))) - cids known \<and>
    ((\<forall>E\<in>set Es. ce_write_log E did = None) \<longrightarrow> distinct (reported (run_checks L did logs Es)))"
  using assms(2-)
proof (induction Es arbitrary: known logs)
  case Nil
  then show ?case using foreign_cids_sub [of L k known] by (auto simp: reported_def)
next
  case (Cons E Es)
  let ?logs1 = "fst (check_for_changes L E did logs)"
  let ?outs = "run_checks L did ?logs1 Es"
  let ?seen = "map2 (seen_log L did) Es ?outs"
  have key: "same_key k did E" "\<forall>E\<in>set Es. same_key k did E" using Cons.prems(1) by simp_all
  have rest: "growing known (map (view L did) Es)"
    using Cons.prems(2) by (cases "view L did E") (auto intro: growing_later)
  from assms(1) key(1) show ?case
  proof (cases rule: check_cases [of L k did E logs])
    case (failed e)
    then show ?thesis using Cons.IH [OF key(2) rest Cons.prems(3,4)]
      unfolding run_checks_Cons by (simp add: reported_Cons seen_log_def)
  next
    case (known es)
    have g: "distinct (map le_cid es)" "extends known es" "growing es (map (view L did) Es)" using Cons.prems(2) known(1) by auto
    have "cids (cached L did logs) = cids es" using known(2) Cons.prems(4) cids_extends [OF g(2)] by auto
    then have same: "cids es = cids known" using Cons.prems(4) by simp
    show ?thesis using Cons.IH [OF key(2) g(3,1), of logs] known Cons.prems(4) same
      unfolding run_checks_Cons by (simp add: reported_Cons seen_log_def)
  next
    case (found es us)
    have g: "distinct (map le_cid es)" "extends known es" "growing es (map (view L did) Es)" using Cons.prems(2) found(1) by auto
    have now: "set (map uc_cid us) = foreign_cids L k es - cids known" "distinct (map uc_cid us)"
      unfolding found(3) using g(1) Cons.prems(4) by (auto simp: in_foreign_cids distinct_map inj_on_def)
    let ?final = "latest es ?seen"
    have gs: "growing es ?seen" by (rule growing_seen [OF g(3)])
    have stable: "c \<in> foreign_cids L k ?final \<longleftrightarrow> c \<in> foreign_cids L k es" if "c \<in> cids es" for c
      using foreign_cids_stable extends_latest [OF gs] distinct_latest [OF gs g(1)] that by blast
    have outs: "run_checks L did logs (E # Es) = Inr us # ?outs" unfolding run_checks_Cons found(2) ..
    have seen: "map2 (seen_log L did) (E # Es) (Inr us # ?outs) = Some es # ?seen" using found(1) by (simp add: seen_log_def)
    show ?thesis
    proof (cases "ce_write_log E did = None")
      case True
      then have "cids (cached L did ?logs1) = cids es" using found(4) by simp
      note IH = Cons.IH [OF key(2) g(3,1) this]
      have "set (map uc_cid us) \<union> (foreign_cids L k ?final - cids es) = foreign_cids L k ?final - cids known"
        unfolding now(1) using foreign_cids_sub [of L k es] cids_extends [OF g(2)] stable by blast
      moreover have "set (map uc_cid us) \<inter> (foreign_cids L k ?final - cids es) = {}"
        unfolding now(1) using foreign_cids_sub [of L k es] by blast
      ultimately show ?thesis unfolding outs seen using IH now(2) by (auto simp: reported_Cons)
    next
      case False
      then have "cids (cached L did ?logs1) = cids known" using found(4) Cons.prems(4) by auto
      note IH = Cons.IH [OF key(2) rest Cons.prems(3) this]
      have "foreign_cids L k es - cids known \<union> (foreign_cids L k (latest known ?seen) - cids known) = foreign_cids L k ?final - cids known"
      proof (cases "set ?seen \<subseteq> {None}")
        case True
        then have "latest known ?seen = known" "?final = es"
          using latest_shift [of known ?seen known] latest_shift [of es ?seen known] by simp_all
        then show ?thesis using foreign_cids_sub [of L k known] by auto
      next
        case False
        then have "latest known ?seen = ?final" using latest_shift [of es ?seen known] by simp
        moreover have "foreign_cids L k es \<subseteq> foreign_cids L k ?final" using stable foreign_cids_sub [of L k es] by blast
        ultimately show ?thesis by auto
      qed
      then show ?thesis unfolding outs seen using IH now(1) False by (auto simp: reported_Cons)
    qed
  qed
qed

text \<open>
  C30: No foreign operation is lost. Over any sequence of checks of an identity, whatever fetch, parse or
  Keychain access fails in between, in which the answered logs grow and the device key, when it can be
  read, is the same: the operations reported as unauthorized are exactly those of the last log a check
  came back with that the device key did not sign and that were not in the cache at the start. When every
  write of the log succeeds, each is reported once; a check whose write fails reports again later.
\<close>

theorem foreign_operations_reported_once:
  assumes "json_total L" "\<forall>E\<in>set Es. same_key k did E" "distinct (map le_cid (cached L did logs))"
    "growing (cached L did logs) (map (view L did) Es)"
  shows "let outs = snd (run (\<lambda>s E. check_for_changes L E did s) logs Es);
             final = latest (cached L did logs) (map2 (seen_log L did) Es outs)
         in set (reported outs) = foreign_cids L k final - cids (cached L did logs) \<and>
            ((\<forall>E\<in>set Es. ce_write_log E did = None) \<longrightarrow> distinct (reported outs))"
  unfolding Let_def by (rule checks_report [OF assms(1,2,4,3) refl])

definition demo_log :: "audit_entry list" where
  "demo_log =
     [\<lparr> le_did = ''did:plc:a'', le_cid = ''c1'', le_created_at = ''t1'', le_nullified = False, le_operation = JString ''op'' \<rparr>,
      \<lparr> le_did = ''did:plc:a'', le_cid = ''c2'', le_created_at = ''t2'', le_nullified = False, le_operation = JString ''foreign'' \<rparr>]"

definition demo_wallet_lib :: "(bytes, bytes, bytes) plc_lib" where
  "demo_wallet_lib = demo_genesis_lib\<lparr> lib_log_parse := (\<lambda>doc. if doc = ''log'' then Inr demo_log else Inl ''bad log'') \<rparr>"

definition demo_env :: "str + str \<Rightarrow> check_env" where
  "demo_env answer = \<lparr> ce_managed = Inr [''did:plc:a''], ce_fetch = (\<lambda>_. answer), ce_read_log = (\<lambda>_. None),
     ce_write_log = (\<lambda>_. None), ce_device_key = (\<lambda>_. Inr demo_key) \<rparr>"

lemma demo_json_total: "json_total demo_wallet_lib"
  by (simp add: json_total_def demo_wallet_lib_def)

lemma demo_wallet_ok: "is_ok (verify_plc_operation demo_wallet_lib doc keys) = is_ok (verify_plc_operation demo_genesis_lib doc keys)"
proof -
  have same: "verify_p256_sec1 demo_wallet_lib = verify_p256_sec1 demo_genesis_lib"
    "verify_k256_sec1 demo_wallet_lib = verify_k256_sec1 demo_genesis_lib"
    "decode_did_key_multikey demo_wallet_lib = decode_did_key_multikey demo_genesis_lib"
    by (simp_all add: demo_wallet_lib_def verify_p256_sec1_def verify_k256_sec1_def decode_did_key_multikey_def fun_eq_iff)
  have "verify_signature_with_key demo_wallet_lib = verify_signature_with_key demo_genesis_lib"
    unfolding verify_signature_with_key_def [abs_def] same ..
  moreover have "op_message demo_wallet_lib = op_message demo_genesis_lib"
    by (intro ext) (simp add: demo_wallet_lib_def op_message_def)
  moreover have "verified_of demo_wallet_lib = verified_of demo_genesis_lib"
    by (intro ext) (simp add: demo_wallet_lib_def verified_of_def did_of_cbor_def)
  ultimately have "verify_plc_operation demo_wallet_lib doc keys = Inr v \<longleftrightarrow> verify_plc_operation demo_genesis_lib doc keys = Inr v" for v
    by (simp only: verify_plc_operation_iff)
  then show ?thesis by (simp add: is_ok_iff)
qed

lemma demo_op_verifies: "is_ok (verify_plc_operation demo_genesis_lib ''op'' [demo_key])"
proof -
  let ?m = "flat (unsigned_value demo_genesis)"
  have "op_message demo_genesis_lib ''op'' (demo_sealed demo_genesis) ?m (pad 64 (7 # ?m)) (flat (signed_value (demo_sealed demo_genesis)))"
    by (simp add: op_message_def demo_lib_def demo_sealed_def unletters_letters) (simp add: demo_genesis_def)
  moreover have "\<exists>k\<in>set [demo_key]. verify_signature_with_key demo_genesis_lib k ?m (pad 64 (7 # ?m)) = Inr ()"
    using demo_sign_verifies by simp
  ultimately show ?thesis
    unfolding is_ok_iff verify_plc_operation_iff by blast
qed

lemma demo_foreign: "foreign demo_wallet_lib demo_key (JString ''foreign'')" "\<not> foreign demo_wallet_lib demo_key (JString ''op'')"
proof -
  have "lib_op_parse demo_genesis_lib ''other'' = Inl ''unknown''" by (simp add: demo_lib_def)
  then have "\<not> is_ok (verify_plc_operation demo_genesis_lib ''other'' [demo_key])"
    by (simp add: is_ok_iff verify_plc_operation_iff op_message_def)
  then show "foreign demo_wallet_lib demo_key (JString ''foreign'')"
    unfolding foreign_def demo_wallet_ok by (simp add: demo_wallet_lib_def)
  show "\<not> foreign demo_wallet_lib demo_key (JString ''op'')"
    unfolding foreign_def demo_wallet_ok using demo_op_verifies by (simp add: demo_wallet_lib_def)
qed

lemma demo_steady: "steady demo_key ''did:plc:a'' (demo_env a)"
  by (simp add: steady_def demo_env_def)

lemma demo_view: "view demo_wallet_lib ''did:plc:a'' (demo_env (Inl e)) = None" "view demo_wallet_lib ''did:plc:a'' (demo_env (Inr ''log'')) = Some demo_log"
  by (simp_all add: view_def demo_env_def demo_wallet_lib_def)

lemma demo_foreign_cids: "foreign_cids demo_wallet_lib demo_key demo_log = {''c2''}"
  using demo_foreign by (auto simp: set_eq_iff in_foreign_cids demo_log_def)

definition unwritable :: "check_env \<Rightarrow> check_env" where
  "unwritable E = E\<lparr> ce_write_log := (\<lambda>_. Some IdentityNotFound) \<rparr>"

lemma demo_same_key: "same_key demo_key ''did:plc:a'' (demo_env a)" "same_key demo_key ''did:plc:a'' (unwritable (demo_env a))"
  by (simp_all add: same_key_def demo_env_def unwritable_def)

lemma unwritable_view: "view L did (unwritable E) = view L did E" by (simp add: view_def unwritable_def)

theorem foreign_operations_reported_once_witness:
  "set (reported (snd (run (\<lambda>s E. check_for_changes demo_wallet_lib E ''did:plc:a'' s) (\<lambda>_. None)
     [demo_env (Inl ''unreachable''), unwritable (demo_env (Inr ''log'')), demo_env (Inr ''log'')]))) = {''c2''}"
proof -
  let ?Es = "[demo_env (Inl ''unreachable''), unwritable (demo_env (Inr ''log'')), demo_env (Inr ''log'')]"
  let ?outs = "run_checks demo_wallet_lib ''did:plc:a'' (\<lambda>_. None) ?Es"
  have c: "cached demo_wallet_lib ''did:plc:a'' logs = []" if "logs = (\<lambda>_. None)" for logs
    using that by (simp add: cached_def cached_entries_def)
  have g: "growing [] (map (view demo_wallet_lib ''did:plc:a'') ?Es)"
    by (simp add: demo_view unwritable_view extends_refl) (simp add: extends_def demo_log_def)
  have ok: "is_ok (snd (check_for_changes demo_wallet_lib (demo_env (Inr ''log'')) ''did:plc:a'' logs))" for logs
    using check_answered(1) [OF demo_json_total demo_steady demo_view(2), of logs] by (elim exE conjE) simp
  have "run_checks demo_wallet_lib ''did:plc:a'' logs [E1, E2, E3] = [snd (check_for_changes demo_wallet_lib E1 ''did:plc:a'' logs),
      snd (check_for_changes demo_wallet_lib E2 ''did:plc:a'' (fst (check_for_changes demo_wallet_lib E1 ''did:plc:a'' logs))),
      snd (check_for_changes demo_wallet_lib E3 ''did:plc:a'' (fst (check_for_changes demo_wallet_lib E2 ''did:plc:a''
        (fst (check_for_changes demo_wallet_lib E1 ''did:plc:a'' logs)))))]" for logs E1 E2 E3
    unfolding run_checks_Cons by simp
  then obtain r1 r2 logs2 where outs: "?outs = [r1, r2, snd (check_for_changes demo_wallet_lib (demo_env (Inr ''log'')) ''did:plc:a'' logs2)]"
    by blast
  have "latest [] (map2 (seen_log demo_wallet_lib ''did:plc:a'') ?Es ?outs) = demo_log"
    unfolding outs using ok by (simp add: seen_log_def demo_view unwritable_view)
  then show ?thesis
    using foreign_operations_reported_once [OF demo_json_total, of ?Es demo_key "''did:plc:a''" "\<lambda>_. None"] demo_same_key c g
    by (simp add: Let_def demo_foreign_cids cids_def del: run.simps)
qed

text \<open>
  C31: The report is consumed by the check that finds it. When the unattended cycle has found foreign
  operations, and reported them in its alert, the next check of the same public log, also the one the
  user sees on opening the app, reports none, does not count as failed, and records a sweep without
  findings.
\<close>

theorem background_check_consumes_the_alert:
  assumes "json_total L" "steady k did E" "view L did E = Some es" "ce_managed E = Inr [did]" "is_monitorable did"
    "foreign_cids L k es - cids (cached L did (mo_logs m)) \<noteq> {}"
    "run_monitoring_cycle_and_alert L T \<lparr> si_env = E, si_write_ok = True, si_now = t1 \<rparr> m = (m', alert)"
    "check_identity_status L T \<lparr> si_env = E, si_write_ok = True, si_now = t2 \<rparr> m' = (m'', alert', r)"
  shows "(\<exists>s. alert = Some [s] \<and> st_unauthorized_changes s \<noteq> []) \<and> alert' = None \<and>
    r = Inr [\<lparr> st_did = did, st_check_failed = False, st_unauthorized_changes = [] \<rparr>] \<and>
    (\<exists>w ws. mh_sweeps (get_monitor_history (mo_history m'')) = w # ws \<and> sw_trigger w = Foreground \<and>
       sw_failed w = 0 \<and> sw_unauthorized w = 0)"
proof -
  let ?r1 = "check_for_changes L E did (mo_logs m)"
  obtain us where us: "snd ?r1 = Inr us"
    "map uc_cid us = map le_cid (filter (\<lambda>e. foreign L k (le_operation e) \<and> le_cid e \<notin> cids (cached L did (mo_logs m))) es)"
    using check_answered(1) [OF assms(1,2,3)] by blast
  then have "set (map uc_cid us) = foreign_cids L k es - cids (cached L did (mo_logs m))"
    by (auto simp: in_foreign_cids)
  then have ne: "us \<noteq> []" using assms(6) by auto
  obtain logs1 where r1: "?r1 = (logs1, Inr us)" using us(1) by (cases ?r1) simp
  have "\<not> cids es \<subseteq> cids (cached L did (mo_logs m))" using assms(6) foreign_cids_sub [of L k es] by blast
  then have "cached L did logs1 = es" using check_answered(2) [OF assms(1,2,3), of "mo_logs m"] r1 by simp
  then obtain us2 where us2: "snd (check_for_changes L E did logs1) = Inr us2" "map uc_cid us2 = []"
    using check_answered(1) [OF assms(1,2,3), of logs1] by (auto simp: cids_def)
  have m': "mo_logs m' = logs1" "alert = Some [\<lparr> st_did = did, st_check_failed = False, st_unauthorized_changes = us \<rparr>]"
    using assms(7) r1 ne
    by (auto simp: run_monitoring_cycle_and_alert_def run_monitoring_cycle_def check_all_def assms(4,5) emit_if_alerts_def)
  obtain logs2 where r2: "check_for_changes L E did logs1 = (logs2, Inr [])"
    using us2 by (cases "check_for_changes L E did logs1") auto
  define st where "st = \<lparr> st_did = did, st_check_failed = False, st_unauthorized_changes = [] \<rparr>"
  have out: "alert' = None" "r = Inr [st]"
    "mo_history m'' = Some (fold_sweep T (load_history (mo_history m')) [st] Foreground t2)"
    using assms(8) r2 m'(1)
    by (auto simp: check_identity_status_def check_all_def assms(4,5) emit_if_alerts_def record_sweep_def st_def)
  have "\<exists>ws. mh_sweeps (fold_sweep T h [st] Foreground t2) = sweep_of T [st] Foreground t2 # ws" for h
    by (auto simp: fold_sweep_def Let_def max_sweep_records_def coalesces_into_def split: list.splits)
  then have "\<exists>ws. mh_sweeps (get_monitor_history (mo_history m'')) = sweep_of T [st] Foreground t2 # ws"
    by (simp add: out(3) get_monitor_history_def load_history_def)
  moreover have "sw_trigger (sweep_of T [st] Foreground t2) = Foreground" "sw_failed (sweep_of T [st] Foreground t2) = 0"
    "sw_unauthorized (sweep_of T [st] Foreground t2) = 0"
    by (simp_all add: sweep_of_def st_def)
  ultimately show ?thesis using m'(2) ne out(1,2) by (auto simp: st_def)
qed

definition demo_clock :: clock_text where
  "demo_clock = \<lparr> ct_format = (\<lambda>t. int_str t), ct_parse = (\<lambda>_. None) \<rparr>"

theorem background_check_consumes_the_alert_witness:
  "let E = demo_env (Inr ''log'');
       (m', alert) = run_monitoring_cycle_and_alert demo_wallet_lib demo_clock
         \<lparr> si_env = E, si_write_ok = True, si_now = 0 \<rparr> \<lparr> mo_logs = (\<lambda>_. None), mo_history = None \<rparr>;
       (m'', alert', r) = check_identity_status demo_wallet_lib demo_clock \<lparr> si_env = E, si_write_ok = True, si_now = 1 \<rparr> m'
   in alert \<noteq> None \<and> alert' = None"
proof -
  let ?E = "demo_env (Inr ''log'')" and ?m = "\<lparr> mo_logs = (\<lambda>_. None), mo_history = None \<rparr> :: monitor"
  obtain m' alert where 1: "run_monitoring_cycle_and_alert demo_wallet_lib demo_clock
      \<lparr> si_env = ?E, si_write_ok = True, si_now = 0 \<rparr> ?m = (m', alert)" by fastforce
  obtain m'' alert' r where 2: "check_identity_status demo_wallet_lib demo_clock
      \<lparr> si_env = ?E, si_write_ok = True, si_now = 1 \<rparr> m' = (m'', alert', r)" by (metis prod_cases3)
  have "ce_managed ?E = Inr [''did:plc:a'']" "is_monitorable ''did:plc:a''"
    by (simp_all add: demo_env_def is_monitorable_def starts_with_iff)
  moreover have "foreign_cids demo_wallet_lib demo_key demo_log - cids (cached demo_wallet_lib ''did:plc:a'' (mo_logs ?m)) \<noteq> {}"
    by (simp add: demo_foreign_cids cached_def cached_entries_def cids_def)
  ultimately have "(\<exists>s. alert = Some [s] \<and> st_unauthorized_changes s \<noteq> []) \<and> alert' = None"
    using background_check_consumes_the_alert [OF demo_json_total demo_steady demo_view(2) _ _ _ 1 2] by blast
  then show ?thesis unfolding Let_def 1 prod.case 2 by auto
qed

section \<open>The sweep\<close>

definition status_of :: "('g, 'k, 's) plc_lib \<Rightarrow> check_env \<Rightarrow> plc_logs \<Rightarrow> str \<Rightarrow> identity_status" where
  "status_of L E logs did =
     (case snd (check_for_changes L E did logs) of
        Inr us \<Rightarrow> \<lparr> st_did = did, st_check_failed = False, st_unauthorized_changes = us \<rparr>
      | Inl _ \<Rightarrow> \<lparr> st_did = did, st_check_failed = True, st_unauthorized_changes = [] \<rparr>)"

text \<open>A check reads and writes the cache of its own identity only.\<close>

lemma store_uniform:
  "(\<exists>e. \<forall>logs. store_plc_log E did doc logs = Inl e) \<or> (\<forall>logs. store_plc_log E did doc logs = Inr (logs(did \<mapsto> doc)))"
  by (cases "is_managed E did"; cases "ce_write_log E did") (auto simp: store_plc_log_def)

lemma check_local:
  assumes "logs did = logs' did"
  shows "snd (check_for_changes L E did logs) = snd (check_for_changes L E did logs') \<and>
     fst (check_for_changes L E did logs) did = fst (check_for_changes L E did logs') did"
proof -
  have get: "get_plc_log E logs did = get_plc_log E logs' did" unfolding get_plc_log_def assms ..
  show ?thesis
  proof (cases "ce_fetch E did")
    case (Inr doc)
    show ?thesis
      using store_uniform [of E did doc] assms
      by (auto simp: check_for_changes_def Inr get Let_def split: sum.splits)
  qed (simp add: check_for_changes_def assms)
qed

lemma check_frame: "d \<noteq> did \<Longrightarrow> fst (check_for_changes L E did logs) d = logs d"
  by (auto simp: check_for_changes_def store_plc_log_def is_managed_def Let_def split: sum.splits option.splits)

lemma check_each_eq:
  assumes "distinct dids" "\<forall>d\<in>set dids. logs d = logs0 d"
  shows "snd (check_each L E dids logs) = map (status_of L E logs0) (filter is_monitorable dids) \<and>
    (\<forall>d. fst (check_each L E dids logs) d =
       (if d \<in> set dids \<and> is_monitorable d then fst (check_for_changes L E d logs0) d else logs d))"
  using assms
proof (induction dids arbitrary: logs)
  case (Cons did dids)
  show ?case
  proof (cases "is_monitorable did")
    case False
    then show ?thesis using Cons.IH [of logs] Cons.prems by auto
  next
    case True
    obtain logs1 r where c: "check_for_changes L E did logs = (logs1, r)" by fastforce
    obtain logs2 rest where e: "check_each L E dids logs1 = (logs2, rest)" by fastforce
    have frame: "logs1 d = logs d" if "d \<noteq> did" for d using check_frame [OF that, of L E logs] c by simp
    have "logs1 d = logs0 d" if "d \<in> set dids" for d using frame [of d] that Cons.prems by auto
    then have IH: "rest = map (status_of L E logs0) (filter is_monitorable dids)"
      "\<forall>d. logs2 d = (if d \<in> set dids \<and> is_monitorable d then fst (check_for_changes L E d logs0) d else logs1 d)"
      using Cons.IH [of logs1] Cons.prems(1) e by auto
    have own: "r = snd (check_for_changes L E did logs0)" "logs1 did = fst (check_for_changes L E did logs0) did"
      using check_local [of logs did logs0 L E] Cons.prems(2) c by auto
    have "check_each L E (did # dids) logs =
        (logs2, status_of L E logs0 did # rest)"
      using True by (simp add: c e status_of_def own(1))
    moreover have "logs2 d = (if d \<in> set (did # dids) \<and> is_monitorable d then fst (check_for_changes L E d logs0) d else logs d)" for d
      using IH(2) own(2) frame [of d] True Cons.prems(1) by (cases "d = did") auto
    ultimately show ?thesis using IH(1) True by simp
  qed
qed simp

text \<open>
  A sweep reports every managed did:plc identity, in order and no other, with the verdict its own
  check gives on the state before the sweep: no identity's failure or finding changes another's
  verdict or cache, and an identity whose directory did not answer is reported as failed, without
  findings, its cache untouched.
\<close>

theorem sweep_is_per_identity:
  assumes "ce_managed E = Inr dids" "distinct dids"
  shows "snd (check_all L E logs) = Inr (map (status_of L E logs) (filter is_monitorable dids)) \<and>
    (\<forall>d. fst (check_all L E logs) d =
       (if d \<in> set dids \<and> is_monitorable d then fst (check_for_changes L E d logs) d else logs d)) \<and>
    (\<forall>d. view L d E = None \<longrightarrow>
       status_of L E logs d = \<lparr> st_did = d, st_check_failed = True, st_unauthorized_changes = [] \<rparr> \<and>
       fst (check_all L E logs) d = logs d)"
proof -
  obtain logs' statuses where e: "check_each L E dids logs = (logs', statuses)" by fastforce
  have all: "check_all L E logs = (logs', Inr statuses)" by (simp add: check_all_def assms(1) e)
  have eq: "statuses = map (status_of L E logs) (filter is_monitorable dids)"
    "\<forall>d. logs' d = (if d \<in> set dids \<and> is_monitorable d then fst (check_for_changes L E d logs) d else logs d)"
    using check_each_eq [OF assms(2), of logs logs L E] e by auto
  have "status_of L E logs d = \<lparr> st_did = d, st_check_failed = True, st_unauthorized_changes = [] \<rparr> \<and>
      fst (check_for_changes L E d logs) d = logs d" if "view L d E = None" for d
    using check_unanswered [OF that, of logs] by (auto simp: status_of_def split: sum.splits)
  then show ?thesis using eq by (simp add: all)
qed

theorem sweep_is_per_identity_witness:
  "snd (check_all demo_wallet_lib (demo_env (Inl ''unreachable'')) (\<lambda>_. None)) =
     Inr [\<lparr> st_did = ''did:plc:a'', st_check_failed = True, st_unauthorized_changes = [] \<rparr>]"
proof -
  have "ce_managed (demo_env (Inl ''unreachable'')) = Inr [''did:plc:a'']" "distinct [''did:plc:a'']" "is_monitorable ''did:plc:a''"
    by (simp_all add: demo_env_def is_monitorable_def starts_with_iff)
  from sweep_is_per_identity [OF this(1,2), of demo_wallet_lib "\<lambda>_. None"] this(3) demo_view(1)
  show ?thesis by simp
qed

section \<open>The history\<close>

text \<open>
  The reference: every sweep that was recorded, newest first, with the instant it ran at; nothing is merged
  or cut off. Counts are natural numbers.
\<close>

type_synonym pass = "identity_status list \<times> sweep_trigger \<times> int"

definition unauthorized_total :: "identity_status list \<Rightarrow> nat" where
  "unauthorized_total statuses = sum_list (map (\<lambda>s. length (st_unauthorized_changes s)) statuses)"

definition failures :: "identity_status list \<Rightarrow> nat" where
  "failures statuses = length (filter st_check_failed statuses)"

definition secs :: "int \<Rightarrow> int" where "secs t = t div 10 ^ 9"

text \<open>A pass repeats the one before it: same trigger and counts, less than five minutes later on the clock of seconds.\<close>

definition repeats :: "pass \<Rightarrow> pass \<Rightarrow> bool" where
  "repeats newer older \<longleftrightarrow> (case (newer, older) of ((ss, trigger, t), (ss', trigger', t')) \<Rightarrow>
     trigger = trigger' \<and> length ss = length ss' \<and> failures ss = failures ss' \<and>
     unauthorized_total ss = unauthorized_total ss' \<and> secs t - secs t' < 300)"

text \<open>The passes that the next one does not repeat, and the newest.\<close>

definition standing :: "pass list \<Rightarrow> pass list" where
  "standing ps = take 1 ps @ map snd (filter (\<lambda>(newer, older). \<not> repeats newer older) (zip ps (tl ps)))"

definition shown_pass :: "clock_text \<Rightarrow> pass \<Rightarrow> str \<times> sweep_trigger \<times> nat \<times> nat \<times> nat" where
  "shown_pass T p = (case p of (ss, trigger, t) \<Rightarrow> (ct_format T t, trigger, length ss, failures ss, unauthorized_total ss))"

text \<open>When an identity was last checked with success, over the passes since it was last absent.\<close>

fun verified_at :: "clock_text \<Rightarrow> str \<Rightarrow> pass list \<Rightarrow> str option" where
  "verified_at T did [] = None"
| "verified_at T did ((ss, _, t) # ps) = (case List.find (\<lambda>s. st_did s = did) ss of
     None \<Rightarrow> None
   | Some s \<Rightarrow> if st_check_failed s then verified_at T did ps else Some (ct_format T t))"

fun shown_identities :: "clock_text \<Rightarrow> pass list \<Rightarrow> (str \<times> str option) list" where
  "shown_identities T [] = []"
| "shown_identities T ((ss, _, t) # ps) =
     map (\<lambda>s. (st_did s, if st_check_failed s then verified_at T (st_did s) ps else Some (ct_format T t))) ss"

text \<open>
  What a caller of \<open>get_monitor_history\<close> is shown, after each sweep; a sweep whose write fails is not
  recorded. The counts fit their 32 bits, and the clock's text reads back to its second.
\<close>

definition pass_fits :: "clock_text \<Rightarrow> pass \<Rightarrow> bool" where
  "pass_fits T p \<longleftrightarrow> (case p of (ss, _, t) \<Rightarrow>
     length ss < 2 ^ 32 \<and> unauthorized_total ss < 2 ^ 32 \<and> ct_parse T (ct_format T t) = Some (secs t * 10 ^ 9))"

type_synonym shown = "(str \<times> sweep_trigger \<times> nat \<times> nat \<times> nat) list \<times> (str \<times> str option) list"

definition shown_record :: "sweep_record \<Rightarrow> str \<times> sweep_trigger \<times> nat \<times> nat \<times> nat" where
  "shown_record r = (sw_at r, sw_trigger r, unat (sw_checked r), unat (sw_failed r), unat (sw_unauthorized r))"

definition history_step :: "clock_text \<Rightarrow> monitor_history option \<Rightarrow> bool \<times> pass \<Rightarrow> monitor_history option \<times> shown" where
  "history_step T stored c = (case c of (write_ok, ss, trigger, t) \<Rightarrow>
     let stored' = record_sweep T write_ok ss trigger t stored; h = get_monitor_history stored'
     in (stored', map shown_record (mh_sweeps h), map (\<lambda>e. (lc_did e, lc_verified_at e)) (mh_identities h)))"

definition passes_step :: "clock_text \<Rightarrow> pass list \<Rightarrow> bool \<times> pass \<Rightarrow> pass list \<times> shown" where
  "passes_step T ps c = (case c of (write_ok, p) \<Rightarrow>
     let ps' = (if write_ok then p # ps else ps)
     in (ps', map (shown_pass T) (take 20 (standing ps')), shown_identities T ps'))"

definition record_of :: "clock_text \<Rightarrow> pass \<Rightarrow> sweep_record" where
  "record_of T p = (case p of (ss, trigger, t) \<Rightarrow> sweep_of T ss trigger t)"

definition history_rel :: "clock_text \<Rightarrow> monitor_history option \<Rightarrow> pass list \<Rightarrow> bool" where
  "history_rel T stored ps \<longleftrightarrow> list_all (pass_fits T) ps \<and>
     mh_sweeps (load_history stored) = map (record_of T) (take 20 (standing ps)) \<and>
     map (\<lambda>e. (lc_did e, lc_verified_at e)) (mh_identities (load_history stored)) = shown_identities T ps"

lemma unat_count: "n < 2 ^ 32 \<Longrightarrow> unat (word_of_nat n :: 32 word) = n"
  by (simp add: unat_of_nat)

lemma failures_le: "failures ss \<le> length ss" by (simp add: failures_def)

lemma sum_words: "sum_list (map (\<lambda>s. word_of_nat (f s)) ss) = (word_of_nat (sum_list (map f ss)) :: 32 word)"
  by (induction ss) simp_all

lemma record_fields:
  "sw_at (record_of T (ss, trigger, t)) = ct_format T t"
  "sw_trigger (record_of T (ss, trigger, t)) = trigger"
  "sw_checked (record_of T (ss, trigger, t)) = word_of_nat (length ss)"
  "sw_failed (record_of T (ss, trigger, t)) = word_of_nat (failures ss)"
  "sw_unauthorized (record_of T (ss, trigger, t)) = word_of_nat (unauthorized_total ss)"
  unfolding record_of_def sweep_of_def prod.case unauthorized_total_def sum_words [symmetric] by (simp_all add: failures_def)

lemma pass_fitsD:
  assumes "pass_fits T (ss, trigger, t)"
  shows "length ss < 2 ^ 32" "failures ss < 2 ^ 32" "unauthorized_total ss < 2 ^ 32"
    "ct_parse T (ct_format T t) = Some (secs t * 10 ^ 9)"
  using assms failures_le [of ss] unfolding pass_fits_def by auto

lemma shown_record_of: "pass_fits T p \<Longrightarrow> shown_record (record_of T p) = shown_pass T p"
proof -
  assume f: "pass_fits T p"
  obtain ss trigger t where p: "p = (ss, trigger, t)" by (cases p)
  show ?thesis
    unfolding p shown_record_def record_fields shown_pass_def prod.case pass_fitsD(1-3) [OF f [unfolded p], THEN unat_count] ..
qed

lemma count_eq:
  assumes "a < 2 ^ 32" "b < 2 ^ 32"
  shows "(word_of_nat a :: 32 word) = word_of_nat b \<longleftrightarrow> a = b"
proof
  assume "(word_of_nat a :: 32 word) = word_of_nat b"
  from arg_cong [OF this, of unat] show "a = b" unfolding unat_count [OF assms(1)] unat_count [OF assms(2)] .
qed simp

lemma whole_seconds: "num_seconds (t - secs t' * 10 ^ 9) < coalesce_secs \<longleftrightarrow> secs t - secs t' < 300"
proof -
  have split: "t = secs t * 10 ^ 9 + t mod 10 ^ 9" "0 \<le> t mod 10 ^ 9" "t mod 10 ^ 9 < 10 ^ 9"
    by (simp_all add: secs_def)
  let ?d = "t - secs t' * 10 ^ 9"
  have d: "?d = (secs t - secs t') * 10 ^ 9 + t mod 10 ^ 9" using split(1) by (simp add: left_diff_distrib)
  show ?thesis
  proof (cases "0 \<le> ?d")
    case True
    have "?d div 10 ^ 9 = secs t - secs t'" unfolding d using split(2,3) by simp
    then show ?thesis using True by (simp add: num_seconds_def coalesce_secs_def)
  next
    case False
    then have "num_seconds ?d \<le> 0" by (simp add: num_seconds_def)
    moreover have "secs t - secs t' < 300" using False d split(2) by (smt (verit) mult_nonneg_nonneg zero_le_power)
    ultimately show ?thesis by (simp add: coalesce_secs_def)
  qed
qed

lemma coalesces_iff:
  assumes "pass_fits T (ss, trigger, t)" "pass_fits T p'"
  shows "coalesces_into T (Some (record_of T p')) (record_of T (ss, trigger, t)) t \<longleftrightarrow> repeats (ss, trigger, t) p'"
proof -
  obtain ss' trigger' t' where p': "p' = (ss', trigger', t')" by (cases p')
  note f = pass_fitsD [OF assms(1)] and f' = pass_fitsD [OF assms(2) [unfolded p']]
  note eqs = count_eq [OF f'(1) f(1)] count_eq [OF f'(2) f(2)] count_eq [OF f'(3) f(3)]
  show ?thesis
    unfolding p' coalesces_into_def option.case record_fields repeats_def prod.case eqs f'(4) whole_seconds by auto
qed

lemma standing_Cons: "standing (p # q # ps) = p # (if repeats p q then tl (standing (q # ps)) else standing (q # ps))"
  by (simp add: standing_def)

lemma standing_head: "standing (q # ps) = q # tl (standing (q # ps))"
  by (simp add: standing_def)

lemma fold_standing:
  assumes "list_all (pass_fits T) (p # ps)" and p: "p = (ss, trigger, t)" and "mh_sweeps h = map (record_of T) (take 20 (standing ps))"
  shows "mh_sweeps (fold_sweep T h ss trigger t) = map (record_of T) (take 20 (standing (p # ps)))"
proof (cases ps)
  case Nil
  then show ?thesis using assms(2,3)
    by (simp add: p fold_sweep_def Let_def coalesces_into_def standing_def record_of_def max_sweep_records_def)
next
  case (Cons q qs)
  obtain rest where st: "standing (q # qs) = q # rest" using standing_head by blast
  have h: "mh_sweeps h = record_of T q # map (record_of T) (take 19 rest)" using assms(3) by (simp add: Cons st)
  have "coalesces_into T (Some (record_of T q)) (record_of T p) t \<longleftrightarrow> repeats p q"
    unfolding p using assms(1) Cons by (intro coalesces_iff) (auto simp: p)
  then have c: "coalesces_into T (Some (record_of T q)) (sweep_of T ss trigger t) t \<longleftrightarrow> repeats p q" by (simp add: record_of_def assms(2))
  have r: "record_of T p = sweep_of T ss trigger t" by (simp add: record_of_def assms(2))
  have "take 20 (record_of T p # record_of T q # map (record_of T) (take 19 rest)) =
      map (record_of T) (take 20 (p # q # rest))" by (simp add: take_map)
  moreover have "map (record_of T) (take 20 (p # rest)) = record_of T p # map (record_of T) (take 19 rest)" by simp
  ultimately show ?thesis
    by (simp add: Cons standing_Cons st fold_sweep_def Let_def h c max_sweep_records_def r)
qed

lemma find_row:
  "map (\<lambda>e. (lc_did e, lc_verified_at e)) es = shown_identities T ps \<Longrightarrow>
   Option.bind (List.find (\<lambda>e. lc_did e = did) es) lc_verified_at = verified_at T did ps"
proof (induction ps rule: shown_identities.induct)
  case (2 T ss trigger t ps)
  have "Option.bind (List.find (\<lambda>e. lc_did e = did) es) lc_verified_at =
      Option.bind (List.find (\<lambda>e. fst e = did) (map (\<lambda>e. (lc_did e, lc_verified_at e)) es)) snd"
    by (induction es) simp_all
  also have "\<dots> = Option.bind (List.find (\<lambda>e. fst e = did)
      (map (\<lambda>s. (st_did s, if st_check_failed s then verified_at T (st_did s) ps else Some (ct_format T t))) ss)) snd"
    using 2 by simp
  also have "\<dots> = verified_at T did ((ss, trigger, t) # ps)" by (induction ss) simp_all
  finally show ?case .
qed simp

lemma fold_identities:
  assumes "map (\<lambda>e. (lc_did e, lc_verified_at e)) (mh_identities h) = shown_identities T ps"
  shows "map (\<lambda>e. (lc_did e, lc_verified_at e)) (mh_identities (fold_sweep T h ss trigger t)) = shown_identities T ((ss, trigger, t) # ps)"
  using find_row [OF assms] by (simp add: fold_sweep_def Let_def comp_def)

lemma record_rel:
  assumes "history_rel T stored ps" "pass_fits T p" "p = (ss, trigger, t)"
  shows "history_rel T (record_sweep T write_ok ss trigger t stored) (if write_ok then p # ps else ps)"
  using assms fold_standing [of T p ps ss trigger t "load_history stored"] fold_identities [of "load_history stored" T ps]
  by (simp add: history_rel_def record_sweep_def load_history_def)

lemma rel_shown:
  assumes "history_rel T stored ps"
  shows "map shown_record (mh_sweeps (get_monitor_history stored)) = map (shown_pass T) (take 20 (standing ps))"
proof -
  have "set (standing ps) \<subseteq> set ps"
    by (cases ps) (auto simp: standing_def dest: set_zip_rightD)
  then have "\<forall>p\<in>set (take 20 (standing ps)). pass_fits T p"
    using assms by (auto simp: history_rel_def list_all_iff dest: in_set_takeD)
  then show ?thesis using assms by (simp add: history_rel_def get_monitor_history_def shown_record_of)
qed

interpretation sweep_history: simulation "history_step T" "passes_step T" "history_rel T" "\<lambda>_ c. pass_fits T (snd c)"
proof unfold_locales
  fix stored ps and c :: "bool \<times> pass"
  assume rel: "history_rel T stored ps" and fits: "pass_fits T (snd c)"
  obtain write_ok ss trigger t where c: "c = (write_ok, ss, trigger, t)" by (cases c)
  have r: "history_rel T (record_sweep T write_ok ss trigger t stored) (if write_ok then (ss, trigger, t) # ps else ps)"
    using record_rel [OF rel] fits by (simp add: c)
  then show "history_rel T (fst (history_step T stored c)) (fst (passes_step T ps c))"
    by (simp add: c history_step_def passes_step_def Let_def)
  show "snd (history_step T stored c) = snd (passes_step T ps c)"
    using rel_shown [OF r] r by (simp add: c history_step_def passes_step_def Let_def history_rel_def get_monitor_history_def)
qed

lemma sweep_history_guarded: "\<forall>c\<in>set calls. pass_fits T (snd c) \<Longrightarrow> sweep_history.guarded T ps calls"
  by (induction calls arbitrary: ps) (simp_all add: sweep_history.guarded.simps)

text \<open>
  C32: The stored history shows the passes that stand. After every sweep, over any sequence of sweeps from
  an empty or unreadable store, some of whose writes fail, a reader is shown the newest twenty recorded
  passes that the next recorded pass does not repeat, with the text of their instants and their counts; a
  pass repeats the one before when trigger and counts agree and the clock of seconds moved by less than
  300. Each identity of the newest pass, and no other, is shown with the time of its last successful check
  since it was last absent. Counts fit their 32 bits and the clock's text reads back to its second.
\<close>

theorem history_refines_log:
  assumes "\<forall>c\<in>set calls. pass_fits T (snd c)"
  shows "snd (run (history_step T) None calls) = snd (run (passes_step T) [] calls)"
proof -
  have "history_rel T None []" by (simp add: history_rel_def load_history_def empty_history_def standing_def)
  from sweep_history.run_simulates [OF this sweep_history_guarded [OF assms]] show ?thesis by simp
qed

definition second_clock :: clock_text where
  "second_clock = \<lparr> ct_format = (\<lambda>t. replicate (nat (secs t)) CHR ''s''), ct_parse = (\<lambda>s. Some (int (length s) * 10 ^ 9)) \<rparr>"

definition demo_pass :: "sweep_trigger \<Rightarrow> int \<Rightarrow> bool \<times> pass" where
  "demo_pass trigger t = (True, [\<lparr> st_did = ''did:plc:a'', st_check_failed = False, st_unauthorized_changes = [] \<rparr>], trigger, t)"

theorem history_refines_log_witness:
  "map (map fst \<circ> fst) (snd (run (history_step second_clock) None
     [demo_pass Background (1 * 10 ^ 9 + 5), demo_pass Background (3 * 10 ^ 9), demo_pass Foreground (4 * 10 ^ 9)])) =
   [[''s''], [''sss''], [''ssss'', ''sss'']]"
proof -
  let ?calls = "[demo_pass Background (1 * 10 ^ 9 + 5), demo_pass Background (3 * 10 ^ 9), demo_pass Foreground (4 * 10 ^ 9)]"
  have "\<forall>c\<in>set ?calls. pass_fits second_clock (snd c)"
    by (simp add: demo_pass_def pass_fits_def second_clock_def secs_def unauthorized_total_def)
  note shown = history_refines_log [OF this]
  show ?thesis unfolding shown by code_simp
qed

end
