(* ===== verification/Firehose_Events.thy ===== *)
theory Firehose_Events
  imports Data_Model
begin

text \<open>
  The events of the firehose, \<open>crates/custos-core/src/firehose/events.rs\<close>: their fields, the payload
  stored for replay and its decoding, the checks made before an event may enter the log, and the
  frames of \<open>crates/custos-firehose/src/routes/sync_subscribe_repos.rs\<close>. DAG-CBOR and the CID parser
  are third-party crates and fields of a record \<open>event_lib\<close>: encoding a value, decoding bytes to a
  value, the CID of a text, Rust's \<open>{:?}\<close> of a string, and the text of a serde error about a field.
  What the code hands to the encoder, and how it reads the decoded map, is modelled.
\<close>

record 'cid event_lib =
  el_put :: "'cid ipld \<Rightarrow> str + 8 word list"
  el_get :: "8 word list \<Rightarrow> str + 'cid ipld"
  el_cid :: "str \<Rightarrow> str + 'cid"
  el_debug :: "str \<Rightarrow> str"
  el_serde :: "str \<Rightarrow> str"

section \<open>Events\<close>

datatype seq_db_error = SeqProtocol str | SeqUnique | SeqIo str

datatype firehose_error = FhEncode str | FhDecode str | FhDb seq_db_error

datatype op_action = ActCreate | ActUpdate | ActDelete

definition op_action_str :: "op_action \<Rightarrow> str" where
  "op_action_str a = (case a of ActCreate \<Rightarrow> ''create'' | ActUpdate \<Rightarrow> ''update'' | ActDelete \<Rightarrow> ''delete'')"

definition op_action_from_wire :: "str \<Rightarrow> op_action option" where
  "op_action_from_wire s =
     (if s = ''create'' then Some ActCreate else if s = ''update'' then Some ActUpdate
      else if s = ''delete'' then Some ActDelete else None)"

record repo_op =
  ro_action :: op_action
  ro_collection :: str
  ro_rkey :: str
  ro_cid :: "str option"
  ro_prev :: "str option"
  ro_value :: "json option"

definition repo_op_path :: "repo_op \<Rightarrow> str" where
  "repo_op_path r = ro_collection r @ ''/'' @ ro_rkey r"

definition repo_op_at_uri :: "repo_op \<Rightarrow> str \<Rightarrow> str" where
  "repo_op_at_uri r did = ''at://'' @ did @ ''/'' @ ro_collection r @ ''/'' @ ro_rkey r"

text \<open>\<open>CommitInput\<close>, \<open>SyncInput\<close> and the events; an event adds the sequence number and the time.\<close>

record commit_input =
  cm_repo :: str
  cm_commit :: str
  cm_rev :: str
  cm_since :: "str option"
  cm_prev_data :: "str option"
  cm_ops :: "repo_op list"
  cm_blocks :: "8 word list"

record commit_event = commit_input +
  cm_seq :: nat
  cm_time :: str

record account_event =
  ac_seq :: nat
  ac_time :: str
  ac_did :: str
  ac_active :: bool
  ac_status :: "str option"

record identity_event =
  ie_seq :: nat
  ie_time :: str
  ie_did :: str
  ie_handle :: "str option"

record sync_input =
  sn_did :: str
  sn_rev :: str
  sn_blocks :: "8 word list"

record sync_event = sync_input +
  sn_seq :: nat
  sn_time :: str

datatype firehose_event =
    FhCommit commit_event
  | FhAccount account_event
  | FhIdentity identity_event
  | FhSync sync_event

definition event_seq :: "firehose_event \<Rightarrow> nat" where
  "event_seq e = (case e of FhCommit c \<Rightarrow> cm_seq c | FhAccount a \<Rightarrow> ac_seq a | FhIdentity i \<Rightarrow> ie_seq i | FhSync s \<Rightarrow> sn_seq s)"

definition frame_label :: "firehose_event \<Rightarrow> str" where
  "frame_label e = (case e of FhCommit _ \<Rightarrow> ''commit'' | FhAccount _ \<Rightarrow> ''account''
     | FhIdentity _ \<Rightarrow> ''identity'' | FhSync _ \<Rightarrow> ''sync'')"

definition commit_event_of :: "nat \<Rightarrow> str \<Rightarrow> commit_input \<Rightarrow> commit_event" where
  "commit_event_of seq time input = commit_input.extend input (commit_event.fields seq time)"

definition sync_event_of :: "nat \<Rightarrow> str \<Rightarrow> sync_input \<Rightarrow> sync_event" where
  "sync_event_of seq time input = sync_input.extend input (sync_event.fields seq time)"

section \<open>Checks before an event is logged\<close>

definition max_sync_blocks_bytes :: nat where "max_sync_blocks_bytes = 10000"

definition parse_cid :: "'cid event_lib \<Rightarrow> str \<Rightarrow> str \<Rightarrow> str + 'cid" where
  "parse_cid L what s = map_err (\<lambda>e. ''invalid '' @ what @ '' CID '' @ el_debug L s @ '': '' @ e) (el_cid L s)"

definition parse_opt_cid :: "'cid event_lib \<Rightarrow> str \<Rightarrow> str option \<Rightarrow> str + 'cid option" where
  "parse_opt_cid L what s =
     (case s of None \<Rightarrow> Inr None | Some t \<Rightarrow> res_bind (parse_cid L what t) (\<lambda>c. Inr (Some c)))"

fun validate_op_cids :: "'cid event_lib \<Rightarrow> repo_op list \<Rightarrow> str + unit" where
  "validate_op_cids L [] = Inr ()"
| "validate_op_cids L (r # rs) =
     res_bind (parse_opt_cid L ''op'' (ro_cid r)) (\<lambda>_.
     res_bind (parse_opt_cid L ''op prev'' (ro_prev r)) (\<lambda>_. validate_op_cids L rs))"

definition validate_commit_cids :: "'cid event_lib \<Rightarrow> commit_input \<Rightarrow> firehose_error + unit" where
  "validate_commit_cids L input = map_err FhEncode
     (res_bind (parse_cid L ''commit'' (cm_commit input)) (\<lambda>_.
      res_bind (parse_opt_cid L ''prevData'' (cm_prev_data input)) (\<lambda>_. validate_op_cids L (cm_ops input))))"

definition validate_sync_blocks :: "8 word list \<Rightarrow> firehose_error + unit" where
  "validate_sync_blocks blocks =
     (if max_sync_blocks_bytes < length blocks
      then Inl (FhEncode (''#sync blocks CAR is '' @ nat_str (length blocks) @ '' bytes, over the '' @
                          nat_str max_sync_blocks_bytes @ ''-byte lexicon cap''))
      else Inr ())"

section \<open>Stored payloads\<close>

text \<open>The \<open>Stored*Ref\<close> structs as serde values.\<close>

definition opt_value :: "str option \<Rightarrow> 'cid ipld" where
  "opt_value s = (case s of None \<Rightarrow> INull | Some t \<Rightarrow> IString t)"

definition stored_op_value :: "repo_op \<Rightarrow> 'cid ipld" where
  "stored_op_value r = IMap
     [(''action'', IString (op_action_str (ro_action r))), (''collection'', IString (ro_collection r)),
      (''rkey'', IString (ro_rkey r)), (''cid'', opt_value (ro_cid r)), (''prev'', opt_value (ro_prev r))]"

definition stored_commit_value :: "commit_input \<Rightarrow> str \<Rightarrow> 'cid ipld" where
  "stored_commit_value input time = IMap
     [(''repo'', IString (cm_repo input)), (''commit'', IString (cm_commit input)), (''rev'', IString (cm_rev input)),
      (''since'', opt_value (cm_since input)), (''prev_data'', opt_value (cm_prev_data input)),
      (''time'', IString time), (''ops'', IList (map stored_op_value (cm_ops input))),
      (''blocks'', IBytes (cm_blocks input))]"

definition stored_account_value :: "str \<Rightarrow> str \<Rightarrow> bool \<Rightarrow> str option \<Rightarrow> 'cid ipld" where
  "stored_account_value did time active status = IMap
     [(''did'', IString did), (''time'', IString time), (''active'', IBool active), (''status'', opt_value status)]"

definition stored_identity_value :: "str \<Rightarrow> str \<Rightarrow> str option \<Rightarrow> 'cid ipld" where
  "stored_identity_value did time handle = IMap
     [(''did'', IString did), (''time'', IString time), (''handle'', opt_value handle)]"

definition stored_sync_value :: "sync_input \<Rightarrow> str \<Rightarrow> 'cid ipld" where
  "stored_sync_value input time = IMap
     [(''did'', IString (sn_did input)), (''time'', IString time), (''rev'', IString (sn_rev input)),
      (''blocks'', IBytes (sn_blocks input))]"

text \<open>
  Decoding into the \<open>Stored*Owned\<close> structs: a field by its name, an absent or null optional field is
  \<open>None\<close>, unknown fields are ignored. Of several offending fields the first in declaration order is
  reported; the error's text is a parameter.
\<close>

definition struct_fields :: "'cid event_lib \<Rightarrow> 'cid ipld \<Rightarrow> str + (str \<times> 'cid ipld) list" where
  "struct_fields L v = (case v of IMap m \<Rightarrow> Inr m | _ \<Rightarrow> Inl (el_serde L ''''))"

definition str_field :: "'cid event_lib \<Rightarrow> (str \<times> 'cid ipld) list \<Rightarrow> str \<Rightarrow> str + str" where
  "str_field L m k = (case map_of m k of Some (IString s) \<Rightarrow> Inr s | _ \<Rightarrow> Inl (el_serde L k))"

definition opt_field :: "'cid event_lib \<Rightarrow> (str \<times> 'cid ipld) list \<Rightarrow> str \<Rightarrow> str + str option" where
  "opt_field L m k = (case map_of m k of None \<Rightarrow> Inr None | Some INull \<Rightarrow> Inr None
     | Some (IString s) \<Rightarrow> Inr (Some s) | _ \<Rightarrow> Inl (el_serde L k))"

definition bool_field :: "'cid event_lib \<Rightarrow> (str \<times> 'cid ipld) list \<Rightarrow> str \<Rightarrow> str + bool" where
  "bool_field L m k = (case map_of m k of Some (IBool b) \<Rightarrow> Inr b | _ \<Rightarrow> Inl (el_serde L k))"

definition bytes_field :: "'cid event_lib \<Rightarrow> (str \<times> 'cid ipld) list \<Rightarrow> str \<Rightarrow> str + 8 word list" where
  "bytes_field L m k = (case map_of m k of Some (IBytes b) \<Rightarrow> Inr b | _ \<Rightarrow> Inl (el_serde L k))"

definition list_field :: "'cid event_lib \<Rightarrow> (str \<times> 'cid ipld) list \<Rightarrow> str \<Rightarrow> str + 'cid ipld list" where
  "list_field L m k = (case map_of m k of Some (IList xs) \<Rightarrow> Inr xs | _ \<Rightarrow> Inl (el_serde L k))"

text \<open>\<open>StoredOpOwned\<close>, its action still a text.\<close>

record stored_op =
  so_action :: str
  so_collection :: str
  so_rkey :: str
  so_cid :: "str option"
  so_prev :: "str option"

definition stored_op_of :: "'cid event_lib \<Rightarrow> 'cid ipld \<Rightarrow> str + stored_op" where
  "stored_op_of L v =
     res_bind (struct_fields L v) (\<lambda>m.
     res_bind (str_field L m ''action'') (\<lambda>action.
     res_bind (str_field L m ''collection'') (\<lambda>collection.
     res_bind (str_field L m ''rkey'') (\<lambda>rkey.
     res_bind (opt_field L m ''cid'') (\<lambda>cid.
     res_bind (opt_field L m ''prev'') (\<lambda>prev.
     Inr \<lparr> so_action = action, so_collection = collection, so_rkey = rkey, so_cid = cid, so_prev = prev \<rparr>))))))"

definition repo_op_of_stored :: "'cid event_lib \<Rightarrow> stored_op \<Rightarrow> firehose_error + repo_op" where
  "repo_op_of_stored L s =
     res_bind (ok_or (op_action_from_wire (so_action s)) (FhDecode (''unknown op action '' @ el_debug L (so_action s))))
       (\<lambda>action. Inr \<lparr> ro_action = action, ro_collection = so_collection s, ro_rkey = so_rkey s,
                       ro_cid = so_cid s, ro_prev = so_prev s, ro_value = None \<rparr>)"

definition decode_commit :: "'cid event_lib \<Rightarrow> nat \<Rightarrow> (str \<times> 'cid ipld) list \<Rightarrow> firehose_error + commit_event" where
  "decode_commit L seq m =
     res_bind (map_err FhDecode (str_field L m ''repo'')) (\<lambda>repo.
     res_bind (map_err FhDecode (str_field L m ''commit'')) (\<lambda>commit.
     res_bind (map_err FhDecode (str_field L m ''rev'')) (\<lambda>rev.
     res_bind (map_err FhDecode (opt_field L m ''since'')) (\<lambda>since.
     res_bind (map_err FhDecode (opt_field L m ''prev_data'')) (\<lambda>prev_data.
     res_bind (map_err FhDecode (str_field L m ''time'')) (\<lambda>time.
     res_bind (map_err FhDecode (res_bind (list_field L m ''ops'') (collect_results (stored_op_of L)))) (\<lambda>stored.
     res_bind (map_err FhDecode (bytes_field L m ''blocks'')) (\<lambda>blocks.
     res_bind (collect_results (repo_op_of_stored L) stored) (\<lambda>ops.
     Inr \<lparr> cm_repo = repo, cm_commit = commit, cm_rev = rev, cm_since = since, cm_prev_data = prev_data,
            cm_ops = ops, cm_blocks = blocks, cm_seq = seq, cm_time = time \<rparr>)))))))))"

definition decode_account :: "'cid event_lib \<Rightarrow> nat \<Rightarrow> (str \<times> 'cid ipld) list \<Rightarrow> str + account_event" where
  "decode_account L seq m =
     res_bind (str_field L m ''did'') (\<lambda>did.
     res_bind (str_field L m ''time'') (\<lambda>time.
     res_bind (bool_field L m ''active'') (\<lambda>active.
     res_bind (opt_field L m ''status'') (\<lambda>status.
     Inr \<lparr> ac_seq = seq, ac_time = time, ac_did = did, ac_active = active, ac_status = status \<rparr>))))"

definition decode_identity :: "'cid event_lib \<Rightarrow> nat \<Rightarrow> (str \<times> 'cid ipld) list \<Rightarrow> str + identity_event" where
  "decode_identity L seq m =
     res_bind (str_field L m ''did'') (\<lambda>did.
     res_bind (str_field L m ''time'') (\<lambda>time.
     res_bind (opt_field L m ''handle'') (\<lambda>handle.
     Inr \<lparr> ie_seq = seq, ie_time = time, ie_did = did, ie_handle = handle \<rparr>)))"

definition decode_sync :: "'cid event_lib \<Rightarrow> nat \<Rightarrow> (str \<times> 'cid ipld) list \<Rightarrow> str + sync_event" where
  "decode_sync L seq m =
     res_bind (str_field L m ''did'') (\<lambda>did.
     res_bind (str_field L m ''time'') (\<lambda>time.
     res_bind (str_field L m ''rev'') (\<lambda>rev.
     res_bind (bytes_field L m ''blocks'') (\<lambda>blocks.
     Inr \<lparr> sn_did = did, sn_rev = rev, sn_blocks = blocks, sn_seq = seq, sn_time = time \<rparr>))))"

definition stored_fields :: "'cid event_lib \<Rightarrow> 8 word list \<Rightarrow> firehose_error + (str \<times> 'cid ipld) list" where
  "stored_fields L blob = map_err FhDecode (res_bind (el_get L blob) (struct_fields L))"

definition decode_stored_event ::
  "'cid event_lib \<Rightarrow> nat \<Rightarrow> str \<Rightarrow> 8 word list \<Rightarrow> firehose_error + firehose_event" where
  "decode_stored_event L seq event_type blob =
     (if event_type = ''commit'' then
        res_bind (stored_fields L blob) (\<lambda>m. res_bind (decode_commit L seq m) (\<lambda>c. Inr (FhCommit c)))
      else if event_type = ''account'' then
        res_bind (stored_fields L blob) (\<lambda>m. res_bind (map_err FhDecode (decode_account L seq m)) (\<lambda>a. Inr (FhAccount a)))
      else if event_type = ''identity'' then
        res_bind (stored_fields L blob) (\<lambda>m. res_bind (map_err FhDecode (decode_identity L seq m)) (\<lambda>i. Inr (FhIdentity i)))
      else if event_type = ''sync'' then
        res_bind (stored_fields L blob) (\<lambda>m. res_bind (map_err FhDecode (decode_sync L seq m)) (\<lambda>s. Inr (FhSync s)))
      else Inl (FhDecode (''unknown event_type '' @ el_debug L event_type)))"

section \<open>Frames\<close>

text \<open>A frame is a header and a body; \<open>None\<close> stands for the panic of \<open>expect\<close>.\<close>

definition header_value :: "int \<Rightarrow> str option \<Rightarrow> 'cid ipld" where
  "header_value oper t = IMap ((''op'', IInteger oper) # (case t of None \<Rightarrow> [] | Some s \<Rightarrow> [(''t'', IString s)]))"

definition frame :: "'cid event_lib \<Rightarrow> int \<Rightarrow> str option \<Rightarrow> 'cid ipld \<Rightarrow> 8 word list option" where
  "frame L oper t body =
     (case (el_put L (header_value oper t), el_put L body) of (Inr h, Inr b) \<Rightarrow> Some (h @ b) | _ \<Rightarrow> None)"

definition link_value :: "'cid option \<Rightarrow> 'cid ipld" where
  "link_value c = (case c of None \<Rightarrow> INull | Some l \<Rightarrow> ILink l)"

definition skip_none :: "str \<Rightarrow> str option \<Rightarrow> (str \<times> 'cid ipld) list" where
  "skip_none k s = (case s of None \<Rightarrow> [] | Some t \<Rightarrow> [(k, IString t)])"

definition wire_op :: "'cid event_lib \<Rightarrow> repo_op \<Rightarrow> str + 'cid ipld" where
  "wire_op L r =
     res_bind (parse_opt_cid L ''op'' (ro_cid r)) (\<lambda>cid.
     res_bind (parse_opt_cid L ''op prev'' (ro_prev r)) (\<lambda>prev.
     Inr (IMap [(''action'', IString (op_action_str (ro_action r))), (''path'', IString (repo_op_path r)),
                (''cid'', link_value cid), (''prev'', link_value prev)])))"

definition commit_body :: "'cid event_lib \<Rightarrow> commit_event \<Rightarrow> str + 'cid ipld" where
  "commit_body L c =
     res_bind (parse_cid L ''commit'' (cm_commit c)) (\<lambda>commit_cid.
     res_bind (parse_opt_cid L ''prevData'' (cm_prev_data c)) (\<lambda>prev_data.
     res_bind (collect_results (wire_op L) (cm_ops c)) (\<lambda>ops.
     Inr (IMap
       [(''seq'', IInteger (int (cm_seq c))), (''rebase'', IBool False), (''tooBig'', IBool False),
        (''repo'', IString (cm_repo c)), (''commit'', ILink commit_cid), (''rev'', IString (cm_rev c)),
        (''since'', opt_value (cm_since c)), (''prevData'', link_value prev_data), (''blocks'', IBytes (cm_blocks c)),
        (''ops'', IList ops), (''blobs'', IList []), (''time'', IString (cm_time c))]))))"

definition encode_commit_frame :: "'cid event_lib \<Rightarrow> commit_event \<Rightarrow> str + 8 word list option" where
  "encode_commit_frame L c = res_bind (commit_body L c) (\<lambda>body. Inr (frame L 1 (Some ''#commit'') body))"

definition account_body :: "account_event \<Rightarrow> 'cid ipld" where
  "account_body a = IMap
     ([(''seq'', IInteger (int (ac_seq a))), (''did'', IString (ac_did a)), (''time'', IString (ac_time a)),
       (''active'', IBool (ac_active a))] @ skip_none ''status'' (ac_status a))"

definition identity_body :: "identity_event \<Rightarrow> 'cid ipld" where
  "identity_body i = IMap
     ([(''seq'', IInteger (int (ie_seq i))), (''did'', IString (ie_did i)), (''time'', IString (ie_time i))] @
      skip_none ''handle'' (ie_handle i))"

definition sync_body :: "sync_event \<Rightarrow> 'cid ipld" where
  "sync_body s = IMap
     [(''seq'', IInteger (int (sn_seq s))), (''did'', IString (sn_did s)), (''blocks'', IBytes (sn_blocks s)),
      (''rev'', IString (sn_rev s)), (''time'', IString (sn_time s))]"

definition encode_account_frame :: "'cid event_lib \<Rightarrow> account_event \<Rightarrow> 8 word list option" where
  "encode_account_frame L a = frame L 1 (Some ''#account'') (account_body a)"

definition encode_identity_frame :: "'cid event_lib \<Rightarrow> identity_event \<Rightarrow> 8 word list option" where
  "encode_identity_frame L i = frame L 1 (Some ''#identity'') (identity_body i)"

definition encode_sync_frame :: "'cid event_lib \<Rightarrow> sync_event \<Rightarrow> 8 word list option" where
  "encode_sync_frame L s = frame L 1 (Some ''#sync'') (sync_body s)"

definition encode_error_frame :: "'cid event_lib \<Rightarrow> str \<Rightarrow> str \<Rightarrow> 8 word list option" where
  "encode_error_frame L err message =
     frame L (- 1) None (IMap [(''error'', IString err), (''message'', IString message)])"

text \<open>The encoding part of \<open>send_event\<close>.\<close>

definition encode_event :: "'cid event_lib \<Rightarrow> firehose_event \<Rightarrow> str + 8 word list option" where
  "encode_event L e = (case e of
     FhCommit c \<Rightarrow> encode_commit_frame L c
   | FhAccount a \<Rightarrow> Inr (encode_account_frame L a)
   | FhIdentity i \<Rightarrow> Inr (encode_identity_frame L i)
   | FhSync s \<Rightarrow> Inr (encode_sync_frame L s))"

end
