(* ===== verification/Firehose_Log.thy ===== *)
theory Firehose_Log
  imports Firehose_Events
begin

text \<open>
  The durable event log and its sequencer: the table \<open>repo_seq\<close> of migration V028 with the statements
  of \<open>crates/custos-db/src/firehose_seq.rs\<close>, the sequencer of
  \<open>crates/custos-core/src/firehose/mod.rs\<close> with its direct and its staged emissions, and the retention
  sweep of \<open>crates/custos-firehose/src/firehose_gc.rs\<close>. The table is the list of its rows in
  primary-key order. A statement that can fail for reasons outside the table takes the failure as an
  argument. Times are their fixed-width RFC 3339 text, compared bytewise as SQLite does. Metrics, the
  crawler notification and logging are left out.
\<close>

section \<open>The table\<close>

record event_row =
  er_seq :: int
  er_type :: str
  er_event :: "8 word list"

record stored_row = event_row +
  sr_did :: str
  sr_at :: str

type_synonym repo_seq = "stored_row list"

text \<open>\<open>SELECT COALESCE(MAX(seq), 0)\<close>, then \<open>max(0)\<close>.\<close>

definition max_seq :: "repo_seq \<Rightarrow> nat" where
  "max_seq log = nat (foldr (\<lambda>r. max (er_seq r)) log 0)"

definition seq_i64 :: "str \<Rightarrow> nat \<Rightarrow> seq_db_error + int" where
  "seq_i64 msg n = (if int n \<le> i64_max then Inr (int n) else Inl (SeqProtocol msg))"

definition insert_event ::
  "str option \<Rightarrow> nat \<Rightarrow> str \<Rightarrow> str \<Rightarrow> 8 word list \<Rightarrow> str \<Rightarrow> repo_seq \<Rightarrow> seq_db_error + repo_seq" where
  "insert_event fault seq did event_type event sequenced_at log =
     res_bind (seq_i64 ''firehose seq exceeds i64 range'' seq) (\<lambda>s.
       case fault of Some e \<Rightarrow> Inl (SeqIo e)
       | None \<Rightarrow>
           if s \<in> set (map er_seq log) then Inl SeqUnique
           else Inr (insort_key er_seq \<lparr> er_seq = s, er_type = event_type, er_event = event, sr_did = did, sr_at = sequenced_at \<rparr> log))"

text \<open>\<open>SELECT MIN(seq) FROM repo_seq WHERE sequenced_at >= ?\<close>.\<close>

definition retained_boundary_seq :: "str \<Rightarrow> repo_seq \<Rightarrow> seq_db_error + nat option" where
  "retained_boundary_seq cutoff log =
     (case map er_seq (filter (\<lambda>r. cutoff \<le> sr_at r) log) of
        [] \<Rightarrow> Inr None
      | s # ss \<Rightarrow>
          let m = foldr min ss s
          in if m < 0 then Inl (SeqProtocol ''stored firehose seq is negative'') else Inr (Some (nat m)))"

definition oldest_sequenced_at :: "repo_seq \<Rightarrow> str option" where
  "oldest_sequenced_at log = (case map sr_at log of [] \<Rightarrow> None | t # ts \<Rightarrow> Some (foldr min ts t))"

definition sequenced_at_for_seq :: "nat \<Rightarrow> repo_seq \<Rightarrow> str option" where
  "sequenced_at_for_seq seq log =
     (case seq_i64 [] seq of Inl _ \<Rightarrow> None | Inr s \<Rightarrow> map_option sr_at (List.find (\<lambda>r. er_seq r = s) log))"

definition events_in_range :: "nat \<Rightarrow> nat \<Rightarrow> nat \<Rightarrow> repo_seq \<Rightarrow> seq_db_error + event_row list" where
  "events_in_range after upper limit log =
     res_bind (seq_i64 ''firehose cursor exceeds i64 range'' after) (\<lambda>a.
     res_bind (seq_i64 ''firehose frontier exceeds i64 range'' upper) (\<lambda>u.
     Inr (map event_row.truncate (take limit (filter (\<lambda>r. a < er_seq r \<and> er_seq r \<le> u) log)))))"

text \<open>The first page carries the answer of \<open>EXISTS(seq <= cursor)\<close> on its rows.\<close>

definition first_events_in_range_with_cursor_presence ::
  "nat \<Rightarrow> nat \<Rightarrow> nat \<Rightarrow> repo_seq \<Rightarrow> seq_db_error + event_row list \<times> bool" where
  "first_events_in_range_with_cursor_presence cursor upper limit log =
     res_bind (seq_i64 ''firehose cursor exceeds i64 range'' cursor) (\<lambda>c.
     res_bind (seq_i64 ''firehose frontier exceeds i64 range'' upper) (\<lambda>u.
     let rows = take limit (filter (\<lambda>r. c < er_seq r \<and> er_seq r \<le> u) log)
     in Inr (map event_row.truncate rows, rows \<noteq> [] \<and> (\<exists>r\<in>set log. er_seq r \<le> c))))"

definition prune_below :: "nat \<Rightarrow> repo_seq \<Rightarrow> seq_db_error + nat \<times> repo_seq" where
  "prune_below low_water_mark log =
     res_bind (seq_i64 ''firehose prune watermark exceeds i64 range'' low_water_mark) (\<lambda>low.
     Inr (length (filter (\<lambda>r. er_seq r \<le> low) log), filter (\<lambda>r. \<not> er_seq r \<le> low) log))"

definition recent_commits_for_did :: "str \<Rightarrow> nat \<Rightarrow> repo_seq \<Rightarrow> event_row list" where
  "recent_commits_for_did did limit log =
     map event_row.truncate (take limit (rev (filter (\<lambda>r. sr_did r = did \<and> er_type r = ''commit'') log)))"

section \<open>The sequencer\<close>

text \<open>
  \<open>Firehose\<close>: the log, the last assigned number, the prune floor, and what the broadcast channel was
  sent since the process started. Sequence numbers are \<open>u64\<close> in the code; an insertion refuses those
  above \<open>i64::MAX\<close>, so they do not wrap and are natural numbers here.
\<close>

record firehose =
  fh_log :: repo_seq
  fh_last_seq :: nat
  fh_prune_floor :: nat
  fh_sent :: "firehose_event list"

definition firehose_new :: "repo_seq \<Rightarrow> firehose" where
  "firehose_new log = \<lparr> fh_log = log, fh_last_seq = max_seq log, fh_prune_floor = 0, fh_sent = [] \<rparr>"

definition broadcast :: "firehose_event \<Rightarrow> firehose \<Rightarrow> firehose" where
  "broadcast e fh = fh\<lparr> fh_sent := fh_sent fh @ [e] \<rparr>"

definition note_pruned :: "nat \<Rightarrow> firehose \<Rightarrow> firehose" where
  "note_pruned watermark fh = fh\<lparr> fh_prune_floor := max (fh_prune_floor fh) watermark \<rparr>"

definition insert_at_frontier ::
  "(nat \<Rightarrow> str option) \<Rightarrow> nat \<Rightarrow> str \<Rightarrow> str \<Rightarrow> 8 word list \<Rightarrow> str \<Rightarrow> repo_seq \<Rightarrow> firehose_error + nat \<times> repo_seq" where
  "insert_at_frontier fault last_seq did event_type blob time log =
     (let seq = last_seq + 1 in
      case insert_event (fault 0) seq did event_type blob time log of
        Inr log' \<Rightarrow> Inr (seq, log')
      | Inl SeqUnique \<Rightarrow>
          (case fault 1 of
             Some e \<Rightarrow> Inl (FhDb (SeqIo e))
           | None \<Rightarrow>
               (let healed_seq = max_seq log + 1 in
                res_bind (map_err FhDb (insert_event (fault 2) healed_seq did event_type blob time log))
                  (\<lambda>log'. Inr (healed_seq, log'))))
      | Inl e \<Rightarrow> Inl (FhDb e))"

text \<open>
  What happens around one emission: the time read under the lock and the failures of its statements, by
  their number: the insert, the query for the newest number after a collision, and the second insert.
\<close>

record emission =
  em_time :: str
  em_fault :: "nat \<Rightarrow> str option"

definition encode_payload :: "'cid event_lib \<Rightarrow> 'cid ipld \<Rightarrow> firehose_error + 8 word list" where
  "encode_payload L v = map_err FhEncode (el_put L v)"

text \<open>The common part of the emissions: insert, advance the counter, broadcast.\<close>

definition log_and_broadcast ::
  "emission \<Rightarrow> str \<Rightarrow> str \<Rightarrow> 8 word list \<Rightarrow> (nat \<Rightarrow> firehose_event) \<Rightarrow> firehose \<Rightarrow> firehose_error + nat \<times> firehose" where
  "log_and_broadcast em did event_type blob event fh =
     res_bind (insert_at_frontier (em_fault em) (fh_last_seq fh) did event_type blob (em_time em) (fh_log fh))
       (\<lambda>(seq, log). Inr (seq, broadcast (event seq) (fh\<lparr> fh_log := log, fh_last_seq := seq \<rparr>)))"

definition account_event_of :: "str \<Rightarrow> bool \<Rightarrow> str option \<Rightarrow> str \<Rightarrow> nat \<Rightarrow> account_event" where
  "account_event_of did active status time seq =
     \<lparr> ac_seq = seq, ac_time = time, ac_did = did, ac_active = active, ac_status = status \<rparr>"

definition emit_commit :: "'cid event_lib \<Rightarrow> emission \<Rightarrow> commit_input \<Rightarrow> firehose \<Rightarrow> firehose_error + nat \<times> firehose" where
  "emit_commit L em input fh =
     res_bind (validate_commit_cids L input) (\<lambda>_.
     res_bind (encode_payload L (stored_commit_value input (em_time em))) (\<lambda>blob.
     log_and_broadcast em (cm_repo input) ''commit'' blob
       (\<lambda>seq. FhCommit (commit_event_of seq (em_time em) input)) fh))"

definition emit_account ::
  "'cid event_lib \<Rightarrow> emission \<Rightarrow> str \<Rightarrow> bool \<Rightarrow> str option \<Rightarrow> firehose \<Rightarrow> firehose_error + nat \<times> firehose" where
  "emit_account L em did active status fh =
     res_bind (encode_payload L (stored_account_value did (em_time em) active status)) (\<lambda>blob.
     log_and_broadcast em did ''account'' blob
       (\<lambda>seq. FhAccount (account_event_of did active status (em_time em) seq)) fh)"

definition emit_identity ::
  "'cid event_lib \<Rightarrow> emission \<Rightarrow> str \<Rightarrow> str option \<Rightarrow> firehose \<Rightarrow> firehose_error + nat \<times> firehose" where
  "emit_identity L em did handle fh =
     res_bind (encode_payload L (stored_identity_value did (em_time em) handle)) (\<lambda>blob.
     log_and_broadcast em did ''identity'' blob
       (\<lambda>seq. FhIdentity \<lparr> ie_seq = seq, ie_time = em_time em, ie_did = did, ie_handle = handle \<rparr>) fh)"

definition emit_sync :: "'cid event_lib \<Rightarrow> emission \<Rightarrow> sync_input \<Rightarrow> firehose \<Rightarrow> firehose_error + nat \<times> firehose" where
  "emit_sync L em input fh =
     res_bind (validate_sync_blocks (sn_blocks input)) (\<lambda>_.
     res_bind (encode_payload L (stored_sync_value input (em_time em))) (\<lambda>blob.
     log_and_broadcast em (sn_did input) ''sync'' blob
       (\<lambda>seq. FhSync (sync_event_of seq (em_time em) input)) fh))"

section \<open>Staged emissions\<close>

text \<open>
  A handle for rows inserted into the caller's transaction: \<open>PendingCommit\<close>, \<open>PendingAccount\<close> or
  \<open>PendingWithSync\<close>. The transaction's table is threaded through; the caller's commit makes it the
  log, a rollback forgets it.
\<close>

datatype pending =
    PendingCommit nat str commit_input
  | PendingAccount nat str str bool "str option"
  | PendingWithSync firehose_event nat str sync_input

definition stage_commit ::
  "'cid event_lib \<Rightarrow> emission \<Rightarrow> nat \<Rightarrow> commit_input \<Rightarrow> repo_seq \<Rightarrow> firehose_error + pending \<times> repo_seq" where
  "stage_commit L em last_seq input tx =
     res_bind (validate_commit_cids L input) (\<lambda>_.
     res_bind (encode_payload L (stored_commit_value input (em_time em))) (\<lambda>blob.
     res_bind (insert_at_frontier (em_fault em) last_seq (cm_repo input) ''commit'' blob (em_time em) tx)
       (\<lambda>(seq, tx'). Inr (PendingCommit seq (em_time em) input, tx'))))"

definition stage_account ::
  "'cid event_lib \<Rightarrow> emission \<Rightarrow> nat \<Rightarrow> str \<Rightarrow> bool \<Rightarrow> str option \<Rightarrow> repo_seq \<Rightarrow> firehose_error + pending \<times> repo_seq" where
  "stage_account L em last_seq did active status tx =
     res_bind (encode_payload L (stored_account_value did (em_time em) active status)) (\<lambda>blob.
     res_bind (insert_at_frontier (em_fault em) last_seq did ''account'' blob (em_time em) tx)
       (\<lambda>(seq, tx'). Inr (PendingAccount seq (em_time em) did active status, tx')))"

definition stage_sync_row ::
  "'cid event_lib \<Rightarrow> emission \<Rightarrow> sync_input \<Rightarrow> nat \<Rightarrow> repo_seq \<Rightarrow> firehose_error + repo_seq" where
  "stage_sync_row L em input seq tx =
     res_bind (validate_sync_blocks (sn_blocks input)) (\<lambda>_.
     res_bind (encode_payload L (stored_sync_value input (em_time em))) (\<lambda>blob.
     map_err FhDb (insert_event (em_fault em 0) seq (sn_did input) ''sync'' blob (em_time em) tx)))"

text \<open>\<open>stage_sync\<close> of the two single handles; there is none on a pair.\<close>

fun stage_sync ::
  "'cid event_lib \<Rightarrow> emission \<Rightarrow> pending \<Rightarrow> sync_input \<Rightarrow> repo_seq \<Rightarrow> firehose_error + pending \<times> repo_seq" where
  "stage_sync L em (PendingCommit seq time input) sync tx =
     res_bind (stage_sync_row L em sync (seq + 1) tx) (\<lambda>tx'.
       Inr (PendingWithSync (FhCommit (commit_event_of seq time input)) (seq + 1) (em_time em) sync, tx'))"
| "stage_sync L em (PendingAccount seq time did active status) sync tx =
     res_bind (stage_sync_row L em sync (seq + 1) tx) (\<lambda>tx'.
       Inr (PendingWithSync (FhAccount (account_event_of did active status time seq)) (seq + 1) (em_time em) sync, tx'))"
| "stage_sync L em (PendingWithSync e seq time s) sync tx = Inr (PendingWithSync e seq time s, tx)"

text \<open>\<open>finish\<close>, after the transaction has committed.\<close>

fun finish :: "pending \<Rightarrow> firehose \<Rightarrow> firehose" where
  "finish (PendingCommit seq time input) fh =
     broadcast (FhCommit (commit_event_of seq time input)) (fh\<lparr> fh_last_seq := seq \<rparr>)"
| "finish (PendingAccount seq time did active status) fh =
     broadcast (FhAccount (account_event_of did active status time seq)) (fh\<lparr> fh_last_seq := seq \<rparr>)"
| "finish (PendingWithSync primary sync_seq sync_time sync) fh =
     broadcast (FhSync (sync_event_of sync_seq sync_time sync))
       (broadcast primary (fh\<lparr> fh_last_seq := sync_seq \<rparr>))"

section \<open>Retention\<close>

record gc_stats =
  gs_pruned :: nat
  gs_skipped :: bool
  gs_failed :: bool

definition gc_inert :: gc_stats where "gc_inert = \<lparr> gs_pruned = 0, gs_skipped = True, gs_failed = False \<rparr>"
definition gc_failed_pass :: gc_stats where "gc_failed_pass = \<lparr> gs_pruned = 0, gs_skipped = True, gs_failed = True \<rparr>"

record firehose_config =
  log_retention_secs :: nat
  log_retention_count :: nat

text \<open>
  The age cutoff: the two checked conversions (\<open>i64\<close>, then chrono's bound on seconds), then the
  clock's subtraction, which may overflow.
\<close>

definition gc_cutoff :: "(nat \<Rightarrow> str option) \<Rightarrow> nat \<Rightarrow> str option" where
  "gc_cutoff now_minus secs =
     (if int secs > i64_max then None
      else if int secs > i64_max div 1000 then None
      else now_minus secs)"

text \<open>
  The watermark of a pass that read \<open>max_seq\<close> as \<open>m\<close>; \<open>Inl\<close> is a pass that ends early with its tally.
\<close>

definition gc_age_watermark :: "(nat \<Rightarrow> str option) \<Rightarrow> firehose_config \<Rightarrow> nat \<Rightarrow> repo_seq \<Rightarrow> gc_stats + nat" where
  "gc_age_watermark now_minus cfg m log =
     (if 0 < log_retention_secs cfg then
        (case gc_cutoff now_minus (log_retention_secs cfg) of
           None \<Rightarrow> Inl gc_failed_pass
         | Some cutoff \<Rightarrow>
             (case retained_boundary_seq cutoff log of
                Inl _ \<Rightarrow> Inl gc_failed_pass
              | Inr (Some first_retained) \<Rightarrow> Inr (first_retained - 1)
              | Inr None \<Rightarrow> Inr m))
      else Inr 0)"

definition gc_watermark :: "(nat \<Rightarrow> str option) \<Rightarrow> firehose_config \<Rightarrow> nat \<Rightarrow> repo_seq \<Rightarrow> gc_stats + nat" where
  "gc_watermark now_minus cfg m log =
     res_bind (gc_age_watermark now_minus cfg m log) (\<lambda>age.
       let watermark = (if 0 < log_retention_count cfg then max age (m - log_retention_count cfg) else age)
       in if watermark = 0 then Inl gc_inert
          else let clamped = min watermark (m - 1)
               in if clamped = 0 then Inl gc_inert else Inr clamped)"

text \<open>
  One pass: read \<open>max_seq\<close>, compute the watermark from it and the log, publish the floor, delete.
  Emissions may run between these, so the parts are separate operations; \<open>gc_sweep\<close> is the pass when
  nothing runs in between.
\<close>

definition gc_plan :: "(nat \<Rightarrow> str option) \<Rightarrow> firehose_config \<Rightarrow> nat \<Rightarrow> repo_seq \<Rightarrow> gc_stats + nat" where
  "gc_plan now_minus cfg m log =
     (if log_retention_secs cfg = 0 \<and> log_retention_count cfg = 0 then Inl gc_inert
      else if m = 0 then Inl gc_inert
      else gc_watermark now_minus cfg m log)"

definition gc_delete :: "nat \<Rightarrow> firehose \<Rightarrow> firehose \<times> gc_stats" where
  "gc_delete watermark fh =
     (case prune_below watermark (fh_log fh) of
        Inl _ \<Rightarrow> (fh, gc_failed_pass)
      | Inr (n, log) \<Rightarrow> (fh\<lparr> fh_log := log \<rparr>, \<lparr> gs_pruned = n, gs_skipped = False, gs_failed = False \<rparr>))"

definition gc_sweep :: "(nat \<Rightarrow> str option) \<Rightarrow> firehose_config \<Rightarrow> firehose \<Rightarrow> firehose \<times> gc_stats" where
  "gc_sweep now_minus cfg fh =
     (case gc_plan now_minus cfg (max_seq (fh_log fh)) (fh_log fh) of
        Inl stats \<Rightarrow> (fh, stats)
      | Inr watermark \<Rightarrow> gc_delete watermark (note_pruned watermark fh))"

end
