(* ===== verification/Firehose_Replay.thy ===== *)
theory Firehose_Replay
  imports Firehose_Log
begin

text \<open>
  Cursor replay (\<open>crates/custos-core/src/firehose/replay.rs\<close>), the subscription handshake
  (\<open>Firehose::subscribe_from\<close>) and the socket loop of
  \<open>crates/custos-firehose/src/routes/sync_subscribe_repos.rs\<close>. A page read is one SQL statement and
  the floor is read after it, so \<open>next_batch\<close> is a read of the log followed by a step on its result.
  Tokio's bounded broadcast channel is third-party: a receiver is the number of events sent before
  its next one, and it observes a lag when more than the capacity lie ahead.
\<close>

definition replay_batch :: nat where "replay_batch = 256"

record replay_reader =
  rd_cursor :: nat
  rd_upper :: nat
  rd_after :: nat
  rd_anchored :: bool
  rd_first_page :: bool
  rd_cursor_present :: bool
  rd_done :: bool

definition replay_reader_new :: "nat \<Rightarrow> nat \<Rightarrow> replay_reader" where
  "replay_reader_new cursor upper =
     \<lparr> rd_cursor = cursor, rd_upper = upper, rd_after = cursor, rd_anchored = False, rd_first_page = True,
       rd_cursor_present = False, rd_done = (upper \<le> cursor) \<rparr>"

text \<open>The page query: the rows and, on the first page, the cursor-presence bit.\<close>

definition read_page :: "replay_reader \<Rightarrow> repo_seq \<Rightarrow> seq_db_error + event_row list \<times> replay_reader" where
  "read_page r log =
     (if rd_first_page r then
        res_bind (first_events_in_range_with_cursor_presence (rd_cursor r) (rd_upper r) replay_batch log)
          (\<lambda>(rows, present). Inr (rows, r\<lparr> rd_first_page := False, rd_cursor_present := present \<rparr>))
      else res_bind (events_in_range (rd_after r) (rd_upper r) replay_batch log) (\<lambda>rows. Inr (rows, r)))"

definition replay_gap :: "nat \<Rightarrow> nat \<Rightarrow> firehose_error" where
  "replay_gap after seq = FhDecode (''firehose replay gap: expected seq '' @ nat_str (after + 1) @ '', found '' @ nat_str seq)"

definition replay_short :: "replay_reader \<Rightarrow> firehose_error" where
  "replay_short r = FhDecode (''firehose replay backlog ended at seq '' @ nat_str (rd_after r) @
                              '' before the frontier '' @ nat_str (rd_upper r))"

text \<open>The loop over the rows of a page.\<close>

fun take_rows ::
  "'cid event_lib \<Rightarrow> nat \<Rightarrow> replay_reader \<Rightarrow> event_row list \<Rightarrow> replay_reader \<times> (firehose_error + firehose_event list)" where
  "take_rows L prune_floor r [] = (r, Inr [])"
| "take_rows L prune_floor r (row # rows) =
     (if er_seq row < 0
      then (r, Inl (FhDecode (''negative stored firehose seq '' @ int_str (er_seq row))))
      else
        let seq = nat (er_seq row) in
        if seq \<noteq> rd_after r + 1 \<and> \<not> rd_after r < prune_floor \<and> (rd_anchored r \<or> rd_cursor_present r)
        then (r, Inl (replay_gap (rd_after r) seq))
        else
          let r' = r\<lparr> rd_anchored := True, rd_after := seq \<rparr> in
          case decode_stored_event L seq (er_type row) (er_event row) of
            Inl e \<Rightarrow> (r', Inl e)
          | Inr event \<Rightarrow>
              (case take_rows L prune_floor r' rows of
                 (r'', result) \<Rightarrow> (r'', res_bind result (\<lambda>events. Inr (event # events)))))"

definition take_page ::
  "'cid event_lib \<Rightarrow> nat \<Rightarrow> replay_reader \<Rightarrow> event_row list \<Rightarrow> replay_reader \<times> (firehose_error + firehose_event list)" where
  "take_page L prune_floor r batch =
     (if batch = [] then
        (r\<lparr> rd_done := True \<rparr>,
         if rd_after r < rd_upper r \<and> \<not> rd_after r < prune_floor then Inl (replay_short r) else Inr [])
      else
        (case take_rows L prune_floor r batch of
           (r', Inl e) \<Rightarrow> (r', Inl e)
         | (r', Inr events) \<Rightarrow>
             if rd_upper r' \<le> rd_after r' then (r'\<lparr> rd_done := True \<rparr>, Inr events)
             else if length batch < replay_batch then
               (r'\<lparr> rd_done := True \<rparr>, if prune_floor \<le> rd_after r' then Inl (replay_short r') else Inr events)
             else (r', Inr events)))"

text \<open>
  \<open>next_batch\<close>: the query, then the floor and the rest. Emissions and a sweep may run in between.
\<close>

datatype page_read = NothingLeft replay_reader | PageFailed replay_reader seq_db_error | PageRows replay_reader "event_row list"

definition begin_batch :: "replay_reader \<Rightarrow> repo_seq \<Rightarrow> page_read" where
  "begin_batch r log =
     (if rd_done r then NothingLeft r
      else case read_page r log of Inl e \<Rightarrow> PageFailed r e | Inr (rows, r') \<Rightarrow> PageRows r' rows)"

definition end_batch :: "'cid event_lib \<Rightarrow> nat \<Rightarrow> page_read \<Rightarrow> replay_reader \<times> (firehose_error + firehose_event list)" where
  "end_batch L prune_floor p =
     (case p of
        NothingLeft r \<Rightarrow> (r, Inr [])
      | PageFailed r e \<Rightarrow> (r, Inl (FhDb e))
      | PageRows r rows \<Rightarrow> take_page L prune_floor r rows)"

definition next_batch ::
  "'cid event_lib \<Rightarrow> firehose \<Rightarrow> replay_reader \<Rightarrow> replay_reader \<times> (firehose_error + firehose_event list)" where
  "next_batch L fh r = end_batch L (fh_prune_floor fh) (begin_batch r (fh_log fh))"

section \<open>Subscribing\<close>

text \<open>A subscription: the reader, if a cursor was given, and the receiver's position in the channel.\<close>

datatype subscribe_outcome = Subscribed "replay_reader option" nat | FutureCursor nat

definition subscribe_from :: "nat option \<Rightarrow> firehose \<Rightarrow> subscribe_outcome" where
  "subscribe_from cursor fh =
     (let rx = length (fh_sent fh); upper = fh_last_seq fh in
      case cursor of
        Some c \<Rightarrow> if upper < c then FutureCursor upper else Subscribed (Some (replay_reader_new c upper)) rx
      | None \<Rightarrow> Subscribed None rx)"

definition default_capacity :: nat where "default_capacity = 1024"

datatype recv_result = RecvOk firehose_event | RecvLagged | RecvPending

definition recv :: "nat \<Rightarrow> firehose_event list \<Rightarrow> nat \<Rightarrow> recv_result" where
  "recv capacity sent rx =
     (if capacity < length sent - rx then RecvLagged
      else if rx < length sent then RecvOk (sent ! rx)
      else RecvPending)"

section \<open>The socket loop\<close>

text \<open>
  What the loop of \<open>handle_socket\<close> holds: the reader between page reads, a read in flight, the queue of
  one page, the receiver, and when the peer was last heard of. A frame of the peer is what it is sent.
\<close>

record conn =
  cn_reader :: "replay_reader option"
  cn_reading :: bool
  cn_queue :: "firehose_event list"
  cn_replay_done :: bool
  cn_rx :: nat
  cn_last_seen :: nat
  cn_open :: bool

datatype wire_output = OutEvent firehose_event | OutError str str | OutPing

definition heartbeat_interval :: nat where "heartbeat_interval = 10"
definition read_timeout :: nat where "read_timeout = 30"

definition close_conn :: "conn \<Rightarrow> conn" where "close_conn c = c\<lparr> cn_open := False \<rparr>"

text \<open>The set-up of \<open>handle_socket\<close>: the subscription or an error frame.\<close>

definition open_conn :: "nat option \<Rightarrow> nat \<Rightarrow> firehose \<Rightarrow> conn \<times> wire_output list" where
  "open_conn cursor now fh =
     (case subscribe_from cursor fh of
        Subscribed replay rx \<Rightarrow>
          (\<lparr> cn_reader = replay, cn_reading = False, cn_queue = [], cn_replay_done = (replay = None), cn_rx = rx,
             cn_last_seen = now, cn_open = True \<rparr>, [])
      | FutureCursor current \<Rightarrow>
          (\<lparr> cn_reader = None, cn_reading = False, cn_queue = [], cn_replay_done = False, cn_rx = 0,
             cn_last_seen = now, cn_open = False \<rparr>, [OutError ''FutureCursor'' ''cursor is in the future'']))"

text \<open>
  \<open>send_event\<close>: an event that does not encode, or a write that fails, closes the socket. The argument
  says whether the write succeeds in time.
\<close>

definition send_event :: "'cid event_lib \<Rightarrow> bool \<Rightarrow> firehose_event \<Rightarrow> conn \<Rightarrow> conn \<times> wire_output list" where
  "send_event L ok event c =
     (case encode_event L event of
        Inr (Some bytes) \<Rightarrow> if ok then (c, [OutEvent event]) else (close_conn c, [])
      | _ \<Rightarrow> (close_conn c, []))"

text \<open>The start of an iteration: a read is started when the queue is empty and none is in flight.\<close>

definition start_read :: "conn \<Rightarrow> conn" where
  "start_read c = (if \<not> cn_replay_done c \<and> cn_queue c = [] \<and> \<not> cn_reading c then c\<lparr> cn_reading := True \<rparr> else c)"

text \<open>
  The branches of \<open>select!\<close>. A page read answers with the reader and its result; \<open>None\<close> is a branch
  that is disabled.
\<close>

definition on_queue :: "'cid event_lib \<Rightarrow> bool \<Rightarrow> conn \<Rightarrow> (conn \<times> wire_output list) option" where
  "on_queue L ok c =
     (if cn_replay_done c then None
      else case cn_queue c of [] \<Rightarrow> None | event # queue \<Rightarrow> Some (send_event L ok event (c\<lparr> cn_queue := queue \<rparr>)))"

definition on_batch ::
  "replay_reader \<times> (firehose_error + firehose_event list) \<Rightarrow> conn \<Rightarrow> (conn \<times> wire_output list) option" where
  "on_batch batch c =
     (if \<not> cn_reading c then None
      else case batch of
        (reader, Inr []) \<Rightarrow> Some (c\<lparr> cn_reading := False, cn_replay_done := True, cn_reader := None \<rparr>, [])
      | (reader, Inr (e # es)) \<Rightarrow>
          Some (c\<lparr> cn_reading := False, cn_reader := Some reader, cn_queue := cn_queue c @ e # es \<rparr>, [])
      | (reader, Inl _) \<Rightarrow>
          Some (close_conn (c\<lparr> cn_reading := False \<rparr>), [OutError ''InternalError'' ''failed to read replay backlog'']))"

definition on_live :: "'cid event_lib \<Rightarrow> nat \<Rightarrow> bool \<Rightarrow> firehose_event list \<Rightarrow> conn \<Rightarrow> (conn \<times> wire_output list) option" where
  "on_live L capacity ok sent c =
     (if \<not> cn_replay_done c then None
      else case recv capacity sent (cn_rx c) of
        RecvPending \<Rightarrow> None
      | RecvOk event \<Rightarrow> Some (send_event L ok event (c\<lparr> cn_rx := cn_rx c + 1 \<rparr>))
      | RecvLagged \<Rightarrow>
          Some (close_conn c,
            [OutError ''ConsumerTooSlow'' ''consumer fell too far behind the firehose; reconnect with your last cursor'']))"

definition on_heartbeat :: "bool \<Rightarrow> nat \<Rightarrow> conn \<Rightarrow> conn \<times> wire_output list" where
  "on_heartbeat ok now c =
     (if read_timeout \<le> now - cn_last_seen c then (close_conn c, [])
      else if ok then (c, [OutPing]) else (close_conn c, []))"

definition on_incoming :: "bool \<Rightarrow> nat \<Rightarrow> conn \<Rightarrow> conn \<times> wire_output list" where
  "on_incoming closed now c = (if closed then (close_conn c, []) else (c\<lparr> cn_last_seen := now \<rparr>, []))"

end
