(* ===== verification/Firehose_Correct.thy ===== *)
theory Firehose_Correct
  imports Firehose_Replay
begin

text \<open>
  Lemmas about the firehose's parts: stored payloads decode to the event they were made from, what is
  checked before an event is logged makes its frame encodable, and the statements on a dense log.
\<close>

section \<open>The DAG-CBOR interface\<close>

text \<open>A decoded map is a \<open>BTreeMap\<close>: its entries come in key order.\<close>

fun sort_maps :: "'cid ipld \<Rightarrow> 'cid ipld" where
  "sort_maps (IList xs) = IList (map sort_maps xs)"
| "sort_maps (IMap m) = IMap (sort_key fst (map (\<lambda>(k, v). (k, sort_maps v)) m))"
| "sort_maps v = v"

fun encodable :: "'cid ipld \<Rightarrow> bool" where
  "encodable (IFloat f) = False"
| "encodable (IInteger i) = (i64_min \<le> i \<and> i \<le> u64_max_int)"
| "encodable (IList xs) = (\<forall>x\<in>set xs. encodable x)"
| "encodable (IMap m) = (\<forall>(k, v)\<in>set m. encodable v)"
| "encodable v = True"

text \<open>
  Values without floats, their integers in the range of \<open>i64\<close> and \<open>u64\<close>, encode, and decode to themselves
  with their maps in key order.
\<close>

definition event_codec :: "'cid event_lib \<Rightarrow> bool" where
  "event_codec L \<longleftrightarrow> (\<forall>v. encodable v \<longrightarrow> (\<exists>b. el_put L v = Inr b \<and> el_get L b = Inr (sort_maps v)))"

lemma event_codecD: "event_codec L \<Longrightarrow> encodable v \<Longrightarrow> el_put L v = Inr b \<Longrightarrow> el_get L b = Inr (sort_maps v)"
  unfolding event_codec_def by fastforce

lemma event_codec_puts: "event_codec L \<Longrightarrow> encodable v \<Longrightarrow> \<exists>b. el_put L v = Inr b"
  unfolding event_codec_def by blast

lemma map_of_sort_key:
  assumes "distinct (map fst m)"
  shows "map_of (sort_key fst m) = map_of m"
proof -
  have "distinct (map fst (sort_key fst m))"
    using assms by (metis distinct_map distinct_sort set_sort inj_on_def)
  then show ?thesis
    using assms by (intro map_of_inject_set [THEN iffD2]) simp_all
qed

lemma map_of_map_snd: "map_of (map (\<lambda>(k, v). (k, f v)) m) k = map_option f (map_of m k)"
  by (induction m) auto

text \<open>The fields of a decoded struct, by name.\<close>

lemma sort_maps_fields:
  assumes "distinct (map fst m)"
  shows "\<exists>m'. sort_maps (IMap m) = IMap m' \<and> (\<forall>k. map_of m' k = map_option sort_maps (map_of m k))"
proof -
  have "distinct (map fst (map (\<lambda>(k, v). (k, sort_maps v)) m))"
    using assms by (simp add: comp_def case_prod_beta)
  from map_of_sort_key [OF this] show ?thesis by (simp add: map_of_map_snd)
qed

lemma stored_fields_eq:
  assumes "event_codec L" "encodable (IMap m)" "el_put L (IMap m) = Inr blob" "distinct (map fst m)"
  shows "\<exists>m'. stored_fields L blob = Inr m' \<and> (\<forall>k. map_of m' k = map_option sort_maps (map_of m k))"
  using event_codecD [OF assms(1-3)] sort_maps_fields [OF assms(4)]
  by (auto simp del: sort_maps.simps simp: stored_fields_def struct_fields_def)

section \<open>Stored payloads\<close>

text \<open>The stored value of an event, and the event without the record values, which are not stored.\<close>

definition event_value :: "firehose_event \<Rightarrow> 'cid ipld" where
  "event_value e = (case e of
     FhCommit c \<Rightarrow> stored_commit_value (commit_input.truncate c) (cm_time c)
   | FhAccount a \<Rightarrow> stored_account_value (ac_did a) (ac_time a) (ac_active a) (ac_status a)
   | FhIdentity i \<Rightarrow> stored_identity_value (ie_did i) (ie_time i) (ie_handle i)
   | FhSync s \<Rightarrow> stored_sync_value (sync_input.truncate s) (sn_time s))"

definition without_values :: "firehose_event \<Rightarrow> firehose_event" where
  "without_values e = (case e of
     FhCommit c \<Rightarrow> FhCommit (c\<lparr> cm_ops := map (\<lambda>r. r\<lparr> ro_value := None \<rparr>) (cm_ops c) \<rparr>) | _ \<Rightarrow> e)"

lemma op_action_roundtrip [simp]: "op_action_from_wire (op_action_str a) = Some a"
  by (cases a) (simp_all add: op_action_from_wire_def op_action_str_def)

lemma sort_maps_opt [simp]: "sort_maps (opt_value s) = opt_value s"
  by (simp add: opt_value_def split: option.split)

lemma encodable_opt [simp]: "encodable (opt_value s)"
  by (simp add: opt_value_def split: option.split)

lemma encodable_op: "encodable (stored_op_value r)"
  by (simp add: stored_op_value_def)

lemma encodable_event: "encodable (event_value e)"
  by (cases e) (simp_all add: event_value_def stored_commit_value_def stored_account_value_def
      stored_identity_value_def stored_sync_value_def encodable_op)

lemma opt_field_opt [simp]:
  "map_of m k = Some (opt_value s) \<Longrightarrow> opt_field L m k = Inr s"
  by (simp add: opt_field_def opt_value_def split: option.split)

lemma stored_op_of_sorted: "stored_op_of L (sort_maps (stored_op_value r)) =
  Inr \<lparr> so_action = op_action_str (ro_action r), so_collection = ro_collection r, so_rkey = ro_rkey r,
        so_cid = ro_cid r, so_prev = ro_prev r \<rparr>"
proof -
  let ?m = "[(''action'', IString (op_action_str (ro_action r))), (''collection'', IString (ro_collection r)),
        (''rkey'', IString (ro_rkey r)), (''cid'', opt_value (ro_cid r)), (''prev'', opt_value (ro_prev r))]"
  have "distinct (map fst ?m)" by simp
  from sort_maps_fields [OF this] obtain m
    where m: "sort_maps (IMap ?m) = IMap m" "\<And>k. map_of m k = map_option sort_maps (map_of ?m k)" by auto
  show ?thesis
    unfolding stored_op_value_def m(1) stored_op_of_def by (simp add: struct_fields_def str_field_def m(2))
qed

lemma stored_ops_decode:
  "collect_results (stored_op_of L) (map (sort_maps \<circ> stored_op_value) rs) =
   Inr (map (\<lambda>r. \<lparr> so_action = op_action_str (ro_action r), so_collection = ro_collection r, so_rkey = ro_rkey r,
                   so_cid = ro_cid r, so_prev = ro_prev r \<rparr>) rs)"
  by (induction rs) (simp_all add: stored_op_of_sorted)

lemma repo_ops_decode:
  "collect_results (repo_op_of_stored L)
     (map (\<lambda>r. \<lparr> so_action = op_action_str (ro_action r), so_collection = ro_collection r, so_rkey = ro_rkey r,
                so_cid = ro_cid r, so_prev = ro_prev r \<rparr>) rs) = Inr (map (\<lambda>r. r\<lparr> ro_value := None \<rparr>) rs)"
  by (induction rs) (simp_all add: repo_op_of_stored_def)

lemma decode_stored_commit:
  assumes "event_codec L" "el_put L (stored_commit_value input time) = Inr blob"
  shows "decode_stored_event L seq ''commit'' blob =
    Inr (FhCommit (commit_event_of seq time (input\<lparr> cm_ops := map (\<lambda>r. r\<lparr> ro_value := None \<rparr>) (cm_ops input) \<rparr>)))"
proof -
  have "encodable (stored_commit_value input time)" by (simp add: stored_commit_value_def encodable_op)
  from stored_fields_eq [OF assms(1) this [unfolded stored_commit_value_def] assms(2) [unfolded stored_commit_value_def]]
  obtain m where "stored_fields L blob = Inr m"
    "map_of m ''repo'' = Some (IString (cm_repo input))" "map_of m ''commit'' = Some (IString (cm_commit input))"
    "map_of m ''rev'' = Some (IString (cm_rev input))" "map_of m ''since'' = Some (opt_value (cm_since input))"
    "map_of m ''prev_data'' = Some (opt_value (cm_prev_data input))" "map_of m ''time'' = Some (IString time)"
    "map_of m ''ops'' = Some (IList (map (sort_maps \<circ> stored_op_value) (cm_ops input)))"
    "map_of m ''blocks'' = Some (IBytes (cm_blocks input))"
    by auto
  then show ?thesis
    by (simp add: decode_stored_event_def decode_commit_def str_field_def list_field_def bytes_field_def
        stored_ops_decode repo_ops_decode commit_event_of_def commit_event.defs commit_input.defs)
qed

lemma decode_stored_account:
  assumes "event_codec L" "el_put L (stored_account_value did time active status) = Inr blob"
  shows "decode_stored_event L seq ''account'' blob = Inr (FhAccount (account_event_of did active status time seq))"
proof -
  have "encodable (stored_account_value did time active status)" by (simp add: stored_account_value_def)
  from stored_fields_eq [OF assms(1) this [unfolded stored_account_value_def] assms(2) [unfolded stored_account_value_def]]
  obtain m where "stored_fields L blob = Inr m"
    "map_of m ''did'' = Some (IString did)" "map_of m ''time'' = Some (IString time)"
    "map_of m ''active'' = Some (IBool active)" "map_of m ''status'' = Some (opt_value status)"
    by auto
  then show ?thesis
    by (simp add: decode_stored_event_def decode_account_def str_field_def bool_field_def account_event_of_def)
qed

lemma decode_stored_identity:
  assumes "event_codec L" "el_put L (stored_identity_value did time handle) = Inr blob"
  shows "decode_stored_event L seq ''identity'' blob =
    Inr (FhIdentity \<lparr> ie_seq = seq, ie_time = time, ie_did = did, ie_handle = handle \<rparr>)"
proof -
  have "encodable (stored_identity_value did time handle)" by (simp add: stored_identity_value_def)
  from stored_fields_eq [OF assms(1) this [unfolded stored_identity_value_def] assms(2) [unfolded stored_identity_value_def]]
  obtain m where "stored_fields L blob = Inr m"
    "map_of m ''did'' = Some (IString did)" "map_of m ''time'' = Some (IString time)"
    "map_of m ''handle'' = Some (opt_value handle)"
    by auto
  then show ?thesis by (simp add: decode_stored_event_def decode_identity_def str_field_def)
qed

lemma decode_stored_sync:
  assumes "event_codec L" "el_put L (stored_sync_value input time) = Inr blob"
  shows "decode_stored_event L seq ''sync'' blob = Inr (FhSync (sync_event_of seq time input))"
proof -
  have "encodable (stored_sync_value input time)" by (simp add: stored_sync_value_def)
  from stored_fields_eq [OF assms(1) this [unfolded stored_sync_value_def] assms(2) [unfolded stored_sync_value_def]]
  obtain m where "stored_fields L blob = Inr m"
    "map_of m ''did'' = Some (IString (sn_did input))" "map_of m ''time'' = Some (IString time)"
    "map_of m ''rev'' = Some (IString (sn_rev input))" "map_of m ''blocks'' = Some (IBytes (sn_blocks input))"
    by auto
  then show ?thesis
    by (simp add: decode_stored_event_def decode_sync_def str_field_def bytes_field_def sync_event_of_def
        sync_event.defs sync_input.defs)
qed

lemma decode_event_value:
  assumes "event_codec L" "el_put L (event_value e) = Inr blob"
  shows "decode_stored_event L (event_seq e) (frame_label e) blob = Inr (without_values e)"
proof (cases e)
  case (FhCommit c)
  then show ?thesis
    using decode_stored_commit [OF assms(1), of "commit_input.truncate c" "cm_time c" blob "cm_seq c"] assms(2)
    by (cases c) (simp add: event_value_def event_seq_def frame_label_def without_values_def commit_event_of_def
        commit_event.defs commit_input.defs)
next
  case (FhAccount a)
  then show ?thesis
    using decode_stored_account [OF assms(1)] assms(2)
    by (cases a) (simp add: event_value_def event_seq_def frame_label_def without_values_def account_event_of_def)
next
  case (FhIdentity i)
  then show ?thesis
    using decode_stored_identity [OF assms(1)] assms(2)
    by (cases i) (simp add: event_value_def event_seq_def frame_label_def without_values_def)
next
  case (FhSync s)
  then show ?thesis
    using decode_stored_sync [OF assms(1), of "sync_input.truncate s" "sn_time s" blob "sn_seq s"] assms(2)
    by (cases s) (simp add: event_value_def event_seq_def frame_label_def without_values_def sync_event_of_def
        sync_event.defs sync_input.defs)
qed

section \<open>Frames\<close>

lemma wire_op_without_value [simp]: "wire_op L (r\<lparr> ro_value := v \<rparr>) = wire_op L r"
  by (simp add: wire_op_def repo_op_path_def)

lemma collect_wire_ops [simp]:
  "collect_results (wire_op L) (map (\<lambda>r. r\<lparr> ro_value := None \<rparr>) rs) = collect_results (wire_op L) rs"
  by (induction rs) (simp_all cong: sum.case_cong)

lemma encode_without_values [simp]: "encode_event L (without_values e) = encode_event L e"
  by (cases e) (simp_all add: encode_event_def without_values_def encode_commit_frame_def commit_body_def)

text \<open>The checks before an event is logged; the table holds its number as an \<open>i64\<close>.\<close>

definition loggable :: "'cid event_lib \<Rightarrow> firehose_event \<Rightarrow> bool" where
  "loggable L e = (int (event_seq e) \<le> i64_max \<and> (case e of
     FhCommit c \<Rightarrow> is_ok (validate_commit_cids L (commit_input.truncate c))
   | FhSync s \<Rightarrow> is_ok (validate_sync_blocks (sn_blocks s))
   | _ \<Rightarrow> True))"

lemma parse_opt_cid_ok:
  "is_ok (parse_opt_cid L what s) \<longleftrightarrow> (\<forall>t. s = Some t \<longrightarrow> is_ok (el_cid L t))"
  by (cases s) (auto simp: parse_opt_cid_def parse_cid_def is_ok_iff)

lemma validate_ops_encode:
  "is_ok (validate_op_cids L rs) \<Longrightarrow> \<exists>vs. collect_results (wire_op L) rs = Inr vs \<and> list_all encodable vs"
proof (induction rs)
  case (Cons r rs)
  then obtain c p where "parse_opt_cid L ''op'' (ro_cid r) = Inr c" "parse_opt_cid L ''op prev'' (ro_prev r) = Inr p"
    "is_ok (validate_op_cids L rs)" by (auto simp: is_ok_iff)
  then show ?case
    using Cons.IH by (auto simp: wire_op_def link_value_def split: option.splits)
qed simp

lemma seq_encodable: "int n \<le> i64_max \<Longrightarrow> encodable (IInteger (int n))"
  by (simp add: i64_min_def i64_max_def u64_max_int_def)

lemma frame_encodes:
  assumes "event_codec L" "encodable body" "encodable (IInteger oper)"
  shows "\<exists>b. frame L oper t body = Some b"
proof -
  have "encodable (header_value oper t)" by (cases t) (use assms(3) in \<open>simp_all add: header_value_def\<close>)
  then obtain h b where "el_put L (header_value oper t) = Inr h" "el_put L body = Inr b"
    using event_codec_puts [OF assms(1)] assms(2) by blast
  then show ?thesis by (simp add: frame_def)
qed

lemma loggable_encodes:
  assumes "event_codec L" "loggable L e"
  shows "\<exists>bytes. encode_event L e = Inr (Some bytes)"
proof -
  have oper: "encodable (IInteger 1)" by (simp add: i64_min_def u64_max_int_def)
  have seq: "encodable (IInteger (int (event_seq e)))" using assms(2) by (intro seq_encodable) (simp add: loggable_def)
  show ?thesis
  proof (cases e)
    case (FhCommit c)
    from assms(2) FhCommit obtain k p where "parse_cid L ''commit'' (cm_commit c) = Inr k"
      "parse_opt_cid L ''prevData'' (cm_prev_data c) = Inr p" "is_ok (validate_op_cids L (cm_ops c))"
      by (auto simp: loggable_def validate_commit_cids_def is_ok_iff commit_input.defs)
    then obtain body where "commit_body L c = Inr body" "encodable body"
      using validate_ops_encode [of L "cm_ops c"] seq
      by (auto simp: FhCommit event_seq_def commit_body_def link_value_def list_all_iff split: option.splits)
    then show ?thesis
      using frame_encodes [OF assms(1) _ oper] FhCommit by (fastforce simp: encode_event_def encode_commit_frame_def)
  qed (use seq in \<open>auto simp: encode_event_def encode_account_frame_def encode_identity_frame_def encode_sync_frame_def
        account_body_def identity_body_def sync_body_def skip_none_def event_seq_def
        intro!: frame_encodes [OF assms(1) _ oper] split: option.split\<close>)
qed

end
