(* ===== verification/Firehose_System.thy ===== *)
theory Firehose_System
  imports Firehose_Correct
begin

text \<open>
  The firehose as a system: emissions, staged transactions, the retention sweep, one subscriber's
  socket and restarts of the server, in any order. An action is one step of a task between two of its
  suspension points, so a page query, the read of the floor, the parts of a sweep and the parts of a
  staged emission interleave. The emission lock is held from a staged commit to its \<open>finish\<close>:
  emissions and subscriptions wait for it, sweeps and page reads do not.
\<close>

section \<open>States and actions\<close>

datatype new_event =
    NewCommit commit_input
  | NewAccount str bool "str option"
  | NewIdentity str "str option"
  | NewSync sync_input

definition emit :: "'cid event_lib \<Rightarrow> emission \<Rightarrow> new_event \<Rightarrow> firehose \<Rightarrow> firehose_error + nat \<times> firehose" where
  "emit L em new fh = (case new of
     NewCommit input \<Rightarrow> emit_commit L em input fh
   | NewAccount did active status \<Rightarrow> emit_account L em did active status fh
   | NewIdentity did handle \<Rightarrow> emit_identity L em did handle fh
   | NewSync input \<Rightarrow> emit_sync L em input fh)"

text \<open>The two kinds of event that are staged, with or without a chained \<open>#sync\<close>.\<close>

datatype staged_event = StagedCommit commit_input | StagedAccount str bool "str option"

definition stage ::
  "'cid event_lib \<Rightarrow> emission \<Rightarrow> emission \<Rightarrow> staged_event \<Rightarrow> sync_input option \<Rightarrow> nat \<Rightarrow> repo_seq \<Rightarrow>
     firehose_error + pending \<times> repo_seq" where
  "stage L em em_sync new sync last_seq tx =
     res_bind (case new of
         StagedCommit input \<Rightarrow> stage_commit L em last_seq input tx
       | StagedAccount did active status \<Rightarrow> stage_account L em last_seq did active status tx)
       (\<lambda>(p, tx'). case sync of None \<Rightarrow> Inr (p, tx') | Some input \<Rightarrow> stage_sync L em_sync p input tx')"

datatype gc_phase = GcIdle | GcHasMax nat | GcNoted nat

datatype action =
    Emit emission new_event
  | StageAndCommit emission emission staged_event "sync_input option"
  | Finish
  | Cancelled
  | GcReadMax
  | GcNote "nat \<Rightarrow> str option" firehose_config
  | GcPrune
  | Connect "nat option" nat
  | ReadPage
  | TakePage
  | SendQueued bool
  | SendLive bool
  | Heartbeat bool nat
  | Incoming bool nat
  | Restart

text \<open>
  The last five fields are not in the program: every event made durable so far, how far the log has been
  pruned, how far it had been when the process started, the cursor of the subscriber (for a
  live-only one, the frontier it attached at), and what it was sent.
\<close>

record sys =
  sy_fh :: firehose
  sy_pending :: "pending option"
  sy_gc :: gc_phase
  sy_conn :: "conn option"
  sy_page :: "page_read option"
  sy_hist :: "firehose_event list"
  sy_pruned :: nat
  sy_boot :: nat
  sy_from :: nat
  sy_out :: "wire_output list"

definition sys_init :: sys where
  "sys_init = \<lparr> sy_fh = firehose_new [], sy_pending = None, sy_gc = GcIdle, sy_conn = None, sy_page = None,
     sy_hist = [], sy_pruned = 0, sy_boot = 0, sy_from = 0, sy_out = [] \<rparr>"

text \<open>The events a handle will broadcast.\<close>

fun pending_events :: "pending \<Rightarrow> firehose_event list" where
  "pending_events (PendingCommit seq time input) = [FhCommit (commit_event_of seq time input)]"
| "pending_events (PendingAccount seq time did active status) = [FhAccount (account_event_of did active status time seq)]"
| "pending_events (PendingWithSync primary seq time sync) = [primary, FhSync (sync_event_of seq time sync)]"

definition with_conn :: "sys \<Rightarrow> (conn \<Rightarrow> (conn \<times> wire_output list) option) \<Rightarrow> sys option" where
  "with_conn s f =
     (case sy_conn s of
        None \<Rightarrow> None
      | Some c \<Rightarrow>
          if \<not> cn_open c then None
          else map_option (\<lambda>(c', out). s\<lparr> sy_conn := Some c', sy_out := sy_out s @ out \<rparr>) (f c))"

text \<open>One step; \<open>None\<close> when the action is not enabled. A failed emission or staging changes nothing.\<close>

fun sys_step :: "'cid event_lib \<Rightarrow> sys \<Rightarrow> action \<Rightarrow> sys option" where
  "sys_step L s (Emit em new) =
     (if sy_pending s \<noteq> None then None
      else case emit L em new (sy_fh s) of
        Inl _ \<Rightarrow> Some s
      | Inr (_, fh) \<Rightarrow>
          Some (s\<lparr> sy_fh := fh, sy_hist := sy_hist s @ drop (length (fh_sent (sy_fh s))) (fh_sent fh) \<rparr>))"
| "sys_step L s (StageAndCommit em em_sync new sync) =
     (if sy_pending s \<noteq> None then None
      else case stage L em em_sync new sync (fh_last_seq (sy_fh s)) (fh_log (sy_fh s)) of
        Inl _ \<Rightarrow> Some s
      | Inr (p, log) \<Rightarrow>
          Some (s\<lparr> sy_fh := (sy_fh s)\<lparr> fh_log := log \<rparr>, sy_pending := Some p, sy_hist := sy_hist s @ pending_events p \<rparr>))"
| "sys_step L s Finish =
     (case sy_pending s of None \<Rightarrow> None | Some p \<Rightarrow> Some (s\<lparr> sy_fh := finish p (sy_fh s), sy_pending := None \<rparr>))"
| "sys_step L s Cancelled =
     (case sy_pending s of None \<Rightarrow> None | Some p \<Rightarrow> Some (s\<lparr> sy_pending := None \<rparr>))"
| "sys_step L s GcReadMax = Some (s\<lparr> sy_gc := GcHasMax (max_seq (fh_log (sy_fh s))) \<rparr>)"
| "sys_step L s (GcNote now_minus cfg) =
     (case sy_gc s of
        GcHasMax m \<Rightarrow>
          (case gc_plan now_minus cfg m (fh_log (sy_fh s)) of
             Inl _ \<Rightarrow> Some (s\<lparr> sy_gc := GcIdle \<rparr>)
           | Inr w \<Rightarrow> Some (s\<lparr> sy_gc := GcNoted w, sy_fh := note_pruned w (sy_fh s) \<rparr>))
      | _ \<Rightarrow> None)"
| "sys_step L s GcPrune =
     (case sy_gc s of
        GcNoted w \<Rightarrow> Some (s\<lparr> sy_gc := GcIdle, sy_fh := fst (gc_delete w (sy_fh s)), sy_pruned := max (sy_pruned s) w \<rparr>)
      | _ \<Rightarrow> None)"
| "sys_step L s (Connect cursor now) =
     (if sy_pending s \<noteq> None then None
      else case open_conn cursor now (sy_fh s) of
        (c, out) \<Rightarrow>
          Some (s\<lparr> sy_conn := Some c, sy_page := None, sy_out := out,
                  sy_from := (case cursor of Some k \<Rightarrow> k | None \<Rightarrow> fh_last_seq (sy_fh s)) \<rparr>))"
| "sys_step L s ReadPage =
     (case sy_conn s of
        None \<Rightarrow> None
      | Some c0 \<Rightarrow>
          let c = start_read c0
          in case cn_reader c of
               None \<Rightarrow> None
             | Some r \<Rightarrow>
                 if cn_open c \<and> cn_reading c \<and> sy_page s = None
                 then Some (s\<lparr> sy_conn := Some c, sy_page := Some (begin_batch r (fh_log (sy_fh s))) \<rparr>)
                 else None)"
| "sys_step L s TakePage =
     (case sy_page s of
        None \<Rightarrow> None
      | Some p \<Rightarrow>
          map_option (\<lambda>s'. s'\<lparr> sy_page := None \<rparr>)
            (with_conn s (on_batch (end_batch L (fh_prune_floor (sy_fh s)) p))))"
| "sys_step L s (SendQueued ok) = with_conn s (on_queue L ok)"
| "sys_step L s (SendLive ok) = with_conn s (on_live L default_capacity ok (fh_sent (sy_fh s)))"
| "sys_step L s (Heartbeat ok now) = with_conn s (\<lambda>c. Some (on_heartbeat ok now c))"
| "sys_step L s (Incoming closed now) = with_conn s (\<lambda>c. Some (on_incoming closed now c))"
| "sys_step L s Restart =
     Some (s\<lparr> sy_fh := firehose_new (fh_log (sy_fh s)), sy_pending := None, sy_gc := GcIdle, sy_conn := None,
             sy_page := None, sy_boot := sy_pruned s, sy_from := 0, sy_out := [] \<rparr>)"

fun sys_run :: "'cid event_lib \<Rightarrow> sys \<Rightarrow> action list \<Rightarrow> sys option" where
  "sys_run L s [] = Some s"
| "sys_run L s (a # as) = (case sys_step L s a of None \<Rightarrow> None | Some s' \<Rightarrow> sys_run L s' as)"

section \<open>Emissions\<close>

definition event_of_new :: "nat \<Rightarrow> str \<Rightarrow> new_event \<Rightarrow> firehose_event" where
  "event_of_new seq time new = (case new of
     NewCommit input \<Rightarrow> FhCommit (commit_event_of seq time input)
   | NewAccount did active status \<Rightarrow> FhAccount (account_event_of did active status time seq)
   | NewIdentity did handle \<Rightarrow> FhIdentity \<lparr> ie_seq = seq, ie_time = time, ie_did = did, ie_handle = handle \<rparr>
   | NewSync input \<Rightarrow> FhSync (sync_event_of seq time input))"

lemma truncate_commit [simp]: "commit_input.truncate (commit_event_of seq time input) = input"
  by (cases input) (simp add: commit_event_of_def commit_input.defs commit_event.defs)

lemma truncate_sync [simp]: "sync_input.truncate (sync_event_of seq time input) = input"
  by (cases input) (simp add: sync_event_of_def sync_input.defs sync_event.defs)

lemma event_of_fields [simp]:
  "cm_seq (commit_event_of seq time input) = seq" "cm_time (commit_event_of seq time input) = time"
  "sn_seq (sync_event_of seq time sync) = seq" "sn_time (sync_event_of seq time sync) = time"
  "sn_blocks (sync_event_of seq time sync) = sn_blocks sync"
  by (simp_all add: commit_event_of_def commit_input.defs commit_event.defs sync_event_of_def sync_input.defs
      sync_event.defs)

text \<open>The row of an event, as stored or as read back.\<close>

definition logged :: "'cid event_lib \<Rightarrow> firehose_event \<Rightarrow> 'a event_row_scheme \<Rightarrow> bool" where
  "logged L e r \<longleftrightarrow> er_seq r = int (event_seq e) \<and> er_type r = frame_label e \<and>
     el_put L (event_value e) = Inr (er_event r) \<and> loggable L e"

lemma ok_unit_iff: "is_ok r \<longleftrightarrow> r = Inr ()" for r :: "'e + unit"
  by (auto simp: is_ok_iff)

lemma insert_event_i64: "insert_event fault seq did ty blob time log = Inr log' \<Longrightarrow> int seq \<le> i64_max"
  by (auto simp: insert_event_def seq_i64_def split: if_splits)

lemma insert_at_frontier_i64: "insert_at_frontier fault last_seq did ty blob time log = Inr (seq, log') \<Longrightarrow> int seq \<le> i64_max"
  by (auto simp: insert_at_frontier_def Let_def dest!: insert_event_i64 split: sum.splits seq_db_error.splits option.splits)

lemma emit_Inr:
  assumes "emit L em new fh = Inr (seq, fh')"
  shows "\<exists>e did blob log. insert_at_frontier (em_fault em) (fh_last_seq fh) did (frame_label e) blob (em_time em) (fh_log fh) = Inr (seq, log) \<and>
    fh' = fh\<lparr> fh_log := log, fh_last_seq := seq, fh_sent := fh_sent fh @ [e] \<rparr> \<and> event_seq e = seq \<and>
    el_put L (event_value e) = Inr blob \<and> loggable L e"
  using assms
  by (intro exI [of _ "event_of_new seq (em_time em) new"])
    (cases new; auto simp: emit_def emit_commit_def emit_account_def emit_identity_def emit_sync_def
      encode_payload_def log_and_broadcast_def broadcast_def event_of_new_def event_seq_def frame_label_def
      event_value_def loggable_def ok_unit_iff account_event_of_def dest: insert_at_frontier_i64)

section \<open>The log is dense\<close>

text \<open>
  The log holds the events made durable, in order and numbered from 1, less a pruned prefix that never
  reaches the newest one.
\<close>

definition log_holds :: "'cid event_lib \<Rightarrow> nat \<Rightarrow> firehose_event list \<Rightarrow> repo_seq \<Rightarrow> bool" where
  "log_holds L pruned hist log \<longleftrightarrow>
     (\<exists>rows. list_all2 (logged L) hist rows \<and> log = drop pruned rows) \<and>
     map event_seq hist = [1..<length hist + 1] \<and> (pruned = 0 \<or> pruned < length hist) \<and> int (length hist) \<le> i64_max"

lemma log_holds_seq:
  assumes "map event_seq hist = [1..<length hist + 1]" "i < length hist"
  shows "event_seq (hist ! i) = i + 1"
proof -
  have "map event_seq hist ! i = [1..<length hist + 1] ! i" by (simp only: assms(1))
  then show ?thesis using assms(2) by (simp del: upt_Suc)
qed

lemma log_holds_row:
  assumes "log_holds L pruned hist log" "i < length log"
  shows "logged L (hist ! (pruned + i)) (log ! i)" "er_seq (log ! i) = int (pruned + i + 1)"
proof -
  from assms(1) obtain rows where r: "list_all2 (logged L) hist rows" "log = drop pruned rows"
    and h: "map event_seq hist = [1..<length hist + 1]" by (auto simp: log_holds_def)
  have len: "length rows = length hist" using list_all2_lengthD [OF r(1)] by simp
  show l: "logged L (hist ! (pruned + i)) (log ! i)"
    using list_all2_nthD [OF r(1), of "pruned + i"] assms(2) r(2) len by simp
  show "er_seq (log ! i) = int (pruned + i + 1)"
    using l log_holds_seq [OF h, of "pruned + i"] assms(2) r(2) len by (simp add: logged_def)
qed

lemma log_holds_length:
  assumes "log_holds L pruned hist log"
  shows "length log = length hist - pruned"
  using assms by (auto simp: log_holds_def dest!: list_all2_lengthD)

lemma log_holds_seqs:
  assumes "log_holds L pruned hist log"
  shows "map er_seq log = map (\<lambda>n. int n) [pruned + 1..<length hist + 1]"
proof -
  have "pruned \<le> length hist" using assms by (auto simp: log_holds_def)
  then show ?thesis
    using log_holds_row(2) [OF assms] log_holds_length [OF assms]
    by (intro nth_equalityI) (simp_all del: upt_Suc add: ac_simps)
qed

lemma log_holds_set: "log_holds L pruned hist log \<Longrightarrow> er_seq ` set log = int ` {pruned + 1..length hist}"
proof -
  assume "log_holds L pruned hist log"
  from log_holds_seqs [OF this] have "set (map er_seq log) = set (map int [pruned + 1..<length hist + 1])" by simp
  then show ?thesis by (simp add: atLeastLessThanSuc_atLeastAtMost del: upt_Suc)
qed

lemma log_holds_member:
  assumes "log_holds L pruned hist log" "r \<in> set log"
  shows "int pruned < er_seq r \<and> er_seq r \<le> int (length hist)"
proof -
  have "er_seq r \<in> int ` {pruned + 1..length hist}" using log_holds_set [OF assms(1)] assms(2) by blast
  then show ?thesis by auto
qed

lemma foldr_max_bound:
  fixes f :: "'a \<Rightarrow> int"
  shows "foldr (\<lambda>r. max (f r)) xs 0 = Max (insert 0 (f ` set xs))"
proof (induction xs)
  case (Cons x xs)
  have "insert 0 (f ` set (x # xs)) = insert (f x) (insert 0 (f ` set xs))" by auto
  then show ?case using Cons.IH by (simp add: Max_insert)
qed simp

lemma max_seq_log:
  assumes "log_holds L pruned hist log"
  shows "max_seq log = length hist"
proof -
  have "pruned = 0 \<or> pruned < length hist" using assms by (simp add: log_holds_def)
  then have "int (length hist) \<in> insert 0 (int ` {pruned + 1..length hist})"
    by (cases "hist = []") (auto intro!: imageI simp: neq_Nil_conv simp del: image_int_atLeastAtMost)
  then have "Max (insert 0 (int ` {pruned + 1..length hist})) = int (length hist)"
    by (intro Max_eqI) auto
  then show ?thesis by (simp add: max_seq_def foldr_max_bound log_holds_set [OF assms])
qed

lemma insort_last: "\<forall>r\<in>set log. f r < f x \<Longrightarrow> insort_key f x log = log @ [x]" for f :: "'a \<Rightarrow> int"
  by (induction log) auto

lemma log_holds_insert:
  assumes "log_holds L pruned hist log" "event_seq e = length hist + 1" "loggable L e" "el_put L (event_value e) = Inr blob"
    "insert_event fault (length hist + 1) did (frame_label e) blob time log = Inr log'"
  shows "log_holds L pruned (hist @ [e]) log'"
proof -
  let ?r = "\<lparr> er_seq = int (length hist + 1), er_type = frame_label e, er_event = blob, sr_did = did, sr_at = time \<rparr>"
  from assms(1) obtain rows where r: "list_all2 (logged L) hist rows" "log = drop pruned rows"
    by (auto simp: log_holds_def)
  have "\<forall>q\<in>set log. er_seq q < er_seq ?r" using log_holds_member [OF assms(1)] by fastforce
  then have "insort_key er_seq ?r log = log @ [?r]" by (rule insort_last)
  then have log': "log' = log @ [?r]" and i: "int (length hist + 1) \<le> i64_max"
    using assms(5) by (auto simp: insert_event_def seq_i64_def split: if_splits option.splits)
  have "list_all2 (logged L) (hist @ [e]) (rows @ [?r])"
    using r(1) assms(2-4) by (simp add: logged_def list_all2_appendI)
  moreover have "pruned \<le> length rows" using assms(1) list_all2_lengthD [OF r(1)] by (auto simp: log_holds_def)
  ultimately show ?thesis
    using assms(1,2) i log' r(2) unfolding log_holds_def by (intro conjI exI [of _ "rows @ [?r]"]) auto
qed

lemma insert_event_new:
  assumes "log_holds L pruned hist log"
  shows "insert_event fault (length hist + 1) did ty blob time log \<noteq> Inl SeqUnique"
  using log_holds_set [OF assms] by (auto simp: insert_event_def seq_i64_def split: option.split)

lemma log_holds_frontier:
  assumes "log_holds L pruned hist log" "insert_at_frontier fault (length hist) did ty blob time log = Inr (seq, log')"
  shows "seq = length hist + 1 \<and> insert_event (fault 0) (length hist + 1) did ty blob time log = Inr log'"
  using assms(2) insert_event_new [OF assms(1), of "fault 0" did ty blob time]
  by (auto simp: insert_at_frontier_def Let_def split: sum.splits seq_db_error.splits)

lemma log_holds_prune:
  assumes "log_holds L pruned hist log" "w < length hist"
  shows "log_holds L (max pruned w) hist (filter (\<lambda>r. \<not> er_seq r \<le> int w) log)"
proof -
  have f: "filter (\<lambda>r. \<not> er_seq r \<le> int w) log = drop (w - pruned) log"
  proof (cases "w - pruned \<le> length log")
    case True
    have "filter (\<lambda>r. \<not> er_seq r \<le> int w) (take (w - pruned) log) = []"
      using log_holds_row(2) [OF assms(1)] by (auto simp: filter_empty_conv in_set_conv_nth)
    moreover have "filter (\<lambda>r. \<not> er_seq r \<le> int w) (drop (w - pruned) log) = drop (w - pruned) log"
      using log_holds_row(2) [OF assms(1)] by (auto simp: filter_id_conv in_set_conv_nth)
    ultimately show ?thesis
      by (metis append_Nil append_take_drop_id filter_append)
  next
    case False
    then show ?thesis using log_holds_length [OF assms(1)] assms(2) by simp
  qed
  from assms(1) obtain rows where r: "list_all2 (logged L) hist rows" "log = drop pruned rows"
    by (auto simp: log_holds_def)
  have "filter (\<lambda>r. \<not> er_seq r \<le> int w) log = drop (max pruned w) rows"
    using f unfolding r(2) by (simp add: max_def)
  then show ?thesis using assms r(1) by (auto simp: log_holds_def)
qed

section \<open>Emissions extend the log\<close>

lemma emit_holds:
  assumes "log_holds L pruned hist (fh_log fh)" "fh_last_seq fh = length hist" "emit L em new fh = Inr (seq, fh')"
  shows "\<exists>e log. fh' = fh\<lparr> fh_log := log, fh_last_seq := length hist + 1, fh_sent := fh_sent fh @ [e] \<rparr> \<and>
    log_holds L pruned (hist @ [e]) log"
proof -
  from emit_Inr [OF assms(3)] obtain e did blob log where
    i: "insert_at_frontier (em_fault em) (length hist) did (frame_label e) blob (em_time em) (fh_log fh) = Inr (seq, log)"
    and e: "fh' = fh\<lparr> fh_log := log, fh_last_seq := seq, fh_sent := fh_sent fh @ [e] \<rparr>" "event_seq e = seq"
      "el_put L (event_value e) = Inr blob" "loggable L e"
    by (auto simp: assms(2))
  note f = log_holds_frontier [OF assms(1) i]
  have "log_holds L pruned (hist @ [e]) log" using log_holds_insert [OF assms(1)] e f by auto
  then show ?thesis using e f by auto
qed

lemma stage_commit_Inr:
  assumes "stage_commit L em last_seq input tx = Inr (p, tx')"
  shows "\<exists>seq blob. p = PendingCommit seq (em_time em) input \<and> is_ok (validate_commit_cids L input) \<and>
    el_put L (stored_commit_value input (em_time em)) = Inr blob \<and>
    insert_at_frontier (em_fault em) last_seq (cm_repo input) ''commit'' blob (em_time em) tx = Inr (seq, tx')"
  using assms by (auto simp: stage_commit_def encode_payload_def ok_unit_iff)

lemma stage_account_Inr:
  assumes "stage_account L em last_seq did active status tx = Inr (p, tx')"
  shows "\<exists>seq blob. p = PendingAccount seq (em_time em) did active status \<and>
    el_put L (stored_account_value did (em_time em) active status) = Inr blob \<and>
    insert_at_frontier (em_fault em) last_seq did ''account'' blob (em_time em) tx = Inr (seq, tx')"
  using assms by (auto simp: stage_account_def encode_payload_def)

lemma stage_primary_holds:
  assumes "log_holds L pruned hist tx"
    "(case new of StagedCommit input \<Rightarrow> stage_commit L em (length hist) input tx
      | StagedAccount did active status \<Rightarrow> stage_account L em (length hist) did active status tx) = Inr (p, tx')"
  shows "\<exists>e. pending_events p = [e] \<and> event_seq e = length hist + 1 \<and> log_holds L pruned (hist @ [e]) tx'"
proof (cases new)
  case (StagedCommit input)
  then have "stage_commit L em (length hist) input tx = Inr (p, tx')" using assms(2) by simp
  from stage_commit_Inr [OF this] obtain seq blob where
    p: "p = PendingCommit seq (em_time em) input" and v: "is_ok (validate_commit_cids L input)"
    and b: "el_put L (stored_commit_value input (em_time em)) = Inr blob"
    and i: "insert_at_frontier (em_fault em) (length hist) (cm_repo input) ''commit'' blob (em_time em) tx = Inr (seq, tx')"
    by blast
  note f = log_holds_frontier [OF assms(1) i]
  let ?e = "FhCommit (commit_event_of seq (em_time em) input)"
  have "log_holds L pruned (hist @ [?e]) tx'"
    using f v b insert_at_frontier_i64 [OF i] by (intro log_holds_insert [OF assms(1), of ?e blob "em_fault em 0" "cm_repo input" "em_time em"])
      (simp_all add: event_seq_def loggable_def event_value_def frame_label_def)
  then show ?thesis using p f by (simp add: event_seq_def)
next
  case (StagedAccount did active status)
  then have "stage_account L em (length hist) did active status tx = Inr (p, tx')" using assms(2) by simp
  from stage_account_Inr [OF this] obtain seq blob where
    p: "p = PendingAccount seq (em_time em) did active status"
    and b: "el_put L (stored_account_value did (em_time em) active status) = Inr blob"
    and i: "insert_at_frontier (em_fault em) (length hist) did ''account'' blob (em_time em) tx = Inr (seq, tx')"
    by blast
  note f = log_holds_frontier [OF assms(1) i]
  let ?e = "FhAccount (account_event_of did active status (em_time em) seq)"
  have "log_holds L pruned (hist @ [?e]) tx'"
    using f b insert_at_frontier_i64 [OF i] by (intro log_holds_insert [OF assms(1), of ?e blob "em_fault em 0" did "em_time em"])
      (simp_all add: event_seq_def loggable_def event_value_def frame_label_def account_event_of_def)
  then show ?thesis using p f by (simp add: event_seq_def account_event_of_def)
qed

lemma stage_sync_holds:
  assumes "log_holds L pruned (hist @ [e]) tx" "pending_events p = [e]" "event_seq e = length hist + 1"
    "stage_sync L em p input tx = Inr (p', tx')"
  shows "\<exists>e'. pending_events p' = [e, e'] \<and> event_seq e' = length hist + 2 \<and> log_holds L pruned (hist @ [e, e']) tx'"
proof -
  let ?e' = "FhSync (sync_event_of (length hist + 2) (em_time em) input)"
  from assms(2-4) have p': "pending_events p' = [e, ?e']" and s: "stage_sync_row L em input (length hist + 2) tx = Inr tx'"
    by (cases p; auto simp: event_seq_def account_event_of_def)+
  from s obtain blob where b: "is_ok (validate_sync_blocks (sn_blocks input))"
      "el_put L (stored_sync_value input (em_time em)) = Inr blob"
      "insert_event (em_fault em 0) (length hist + 2) (sn_did input) ''sync'' blob (em_time em) tx = Inr tx'"
    by (auto simp: stage_sync_row_def encode_payload_def ok_unit_iff)
  have "log_holds L pruned ((hist @ [e]) @ [?e']) tx'"
    using b insert_event_i64 [OF b(3)] by (intro log_holds_insert [OF assms(1), of ?e' blob "em_fault em 0" "sn_did input" "em_time em"])
      (simp_all add: event_seq_def loggable_def event_value_def frame_label_def)
  then show ?thesis using p' by (simp add: event_seq_def)
qed

lemma stage_holds:
  assumes "log_holds L pruned hist tx" "stage L em em_sync new sync (length hist) tx = Inr (p, tx')"
  shows "log_holds L pruned (hist @ pending_events p) tx'"
proof -
  let ?primary = "case new of StagedCommit input \<Rightarrow> stage_commit L em (length hist) input tx
      | StagedAccount did active status \<Rightarrow> stage_account L em (length hist) did active status tx"
  from assms(2) obtain p1 tx1 where p1: "?primary = Inr (p1, tx1)"
    and r: "(case sync of None \<Rightarrow> Inr (p1, tx1) | Some input \<Rightarrow> stage_sync L em_sync p1 input tx1) = Inr (p, tx')"
    unfolding stage_def by auto
  from stage_primary_holds [OF assms(1) p1] obtain e
    where e: "pending_events p1 = [e]" "event_seq e = length hist + 1" "log_holds L pruned (hist @ [e]) tx1" by blast
  show ?thesis
  proof (cases sync)
    case None
    then show ?thesis using r e by simp
  next
    case (Some input)
    then have "stage_sync L em_sync p1 input tx1 = Inr (p, tx')" using r by simp
    from stage_sync_holds [OF e(3,1,2) this] show ?thesis by auto
  qed
qed

lemma finish_eq: "finish p fh = fh\<lparr> fh_last_seq := event_seq (last (pending_events p)), fh_sent := fh_sent fh @ pending_events p \<rparr>"
  by (cases p) (simp_all add: broadcast_def event_seq_def account_event_of_def)

lemma pending_events_ne [simp]: "pending_events p \<noteq> []"
  by (cases p) simp_all

section \<open>The invariant of the log\<close>

text \<open>The number of events that were durable when the process started.\<close>

definition base :: "firehose \<Rightarrow> nat" where
  "base fh = fh_last_seq fh - length (fh_sent fh)"

definition log_inv :: "'cid event_lib \<Rightarrow> sys \<Rightarrow> bool" where
  "log_inv L s \<longleftrightarrow>
     (let fh = sy_fh s; hist = sy_hist s in
      log_holds L (sy_pruned s) hist (fh_log fh) \<and>
      drop (fh_last_seq fh) hist = (case sy_pending s of None \<Rightarrow> [] | Some p \<Rightarrow> pending_events p) \<and>
      fh_last_seq fh \<le> length hist \<and> length (fh_sent fh) \<le> fh_last_seq fh \<and>
      fh_sent fh = drop (base fh) (take (fh_last_seq fh) hist) \<and>
      (sy_boot s < base fh \<or> sy_boot s = 0) \<and>
      sy_boot s \<le> sy_pruned s \<and> sy_pruned s \<le> max (sy_boot s) (fh_prune_floor fh) \<and>
      (case sy_gc s of GcIdle \<Rightarrow> True | GcHasMax m \<Rightarrow> m \<le> length hist
       | GcNoted w \<Rightarrow> 0 < w \<and> w < length hist \<and> w \<le> fh_prune_floor fh))"

lemma gc_plan_bound:
  assumes "gc_plan now_minus cfg m log = Inr w"
  shows "0 < w \<and> w < m"
proof -
  have "m \<noteq> 0" "gc_watermark now_minus cfg m log = Inr w"
    using assms by (auto simp: gc_plan_def split: if_splits)
  then obtain v where "w = min v (m - 1)" "w \<noteq> 0"
    by (auto simp: gc_watermark_def Let_def split: if_splits)
  then show ?thesis using \<open>m \<noteq> 0\<close> by auto
qed

lemma log_inv_conn [simp]:
  "log_inv L (s\<lparr> sy_conn := c, sy_out := out \<rparr>) = log_inv L s" "log_inv L (s\<lparr> sy_page := pg \<rparr>) = log_inv L s"
  "log_inv L (s\<lparr> sy_conn := c \<rparr>) = log_inv L s"
  "log_inv L (s\<lparr> sy_conn := c, sy_page := pg, sy_out := out, sy_from := k \<rparr>) = log_inv L s"
  by (simp_all add: log_inv_def)

lemma log_inv_idle:
  "log_inv L s \<Longrightarrow> sy_pending s = None \<Longrightarrow> fh_last_seq (sy_fh s) = length (sy_hist s)"
  by (auto simp: log_inv_def Let_def)

lemma log_inv_emit:
  assumes "log_inv L s" "sys_step L s (Emit em new) = Some s'"
  shows "log_inv L s'"
proof (cases "emit L em new (sy_fh s)")
  case (Inl e)
  then show ?thesis using assms by (auto split: if_splits)
next
  case (Inr q)
  obtain seq fh' where q: "q = (seq, fh')" by (cases q)
  have idle: "sy_pending s = None" using assms(2) by (auto split: if_splits)
  note last = log_inv_idle [OF assms(1) idle]
  have "log_holds L (sy_pruned s) (sy_hist s) (fh_log (sy_fh s))" using assms(1) by (simp add: log_inv_def Let_def)
  from emit_holds [OF this last Inr [unfolded q]] obtain e log where
    e: "fh' = (sy_fh s)\<lparr> fh_log := log, fh_last_seq := length (sy_hist s) + 1, fh_sent := fh_sent (sy_fh s) @ [e] \<rparr>"
       "log_holds L (sy_pruned s) (sy_hist s @ [e]) log" by blast
  have s': "s' = s\<lparr> sy_fh := fh', sy_hist := sy_hist s @ [e] \<rparr>"
    using assms(2) Inr q idle e(1) by simp
  have b: "base fh' = base (sy_fh s)" using e(1) last assms(1) by (simp add: base_def log_inv_def Let_def)
  show ?thesis
    using assms(1) e idle last b unfolding s' by (auto simp: log_inv_def Let_def base_def split: gc_phase.splits)
qed

lemma log_inv_stage:
  assumes "log_inv L s" "sys_step L s (StageAndCommit em em_sync new sync) = Some s'"
  shows "log_inv L s'"
proof (cases "stage L em em_sync new sync (fh_last_seq (sy_fh s)) (fh_log (sy_fh s))")
  case (Inl e)
  then show ?thesis using assms by (auto split: if_splits)
next
  case (Inr q)
  obtain p log where q: "q = (p, log)" by (cases q)
  have idle: "sy_pending s = None" using assms(2) by (auto split: if_splits)
  note last = log_inv_idle [OF assms(1) idle]
  have "log_holds L (sy_pruned s) (sy_hist s) (fh_log (sy_fh s))" using assms(1) by (simp add: log_inv_def Let_def)
  from stage_holds [OF this Inr [unfolded q last]]
  have h: "log_holds L (sy_pruned s) (sy_hist s @ pending_events p) log" .
  have s': "s' = s\<lparr> sy_fh := (sy_fh s)\<lparr> fh_log := log \<rparr>, sy_pending := Some p, sy_hist := sy_hist s @ pending_events p \<rparr>"
    using assms(2) Inr q idle by simp
  show ?thesis
    using assms(1) h idle last unfolding s'
    by (auto simp: log_inv_def Let_def base_def split: gc_phase.splits)
qed

lemma log_inv_finish:
  assumes "log_inv L s" "sys_step L s Finish = Some s'"
  shows "log_inv L s'"
proof -
  from assms(2) obtain p where p: "sy_pending s = Some p"
    and s': "s' = s\<lparr> sy_fh := finish p (sy_fh s), sy_pending := None \<rparr>" by (auto split: option.splits)
  let ?fh = "sy_fh s" and ?hist = "sy_hist s"
  have inv: "log_holds L (sy_pruned s) ?hist (fh_log ?fh)" "drop (fh_last_seq ?fh) ?hist = pending_events p"
    "fh_sent ?fh = drop (base ?fh) (take (fh_last_seq ?fh) ?hist)" "length (fh_sent ?fh) \<le> fh_last_seq ?fh"
    "fh_last_seq ?fh \<le> length ?hist"
    using assms(1) p by (simp_all add: log_inv_def Let_def)
  have ne: "?hist \<noteq> []" using inv(2) pending_events_ne [of p] by (metis drop_Nil)
  have "last (pending_events p) = last ?hist"
    unfolding inv(2) [symmetric] by (rule last_drop) (use inv(2) pending_events_ne [of p] in \<open>simp add: linorder_not_le [symmetric] del: pending_events_ne; metis drop_all linorder_not_le\<close>)
  then have seq: "event_seq (last (pending_events p)) = length ?hist"
    using log_holds_seq [of ?hist "length ?hist - 1"] inv(1) ne by (simp add: last_conv_nth log_holds_def del: upt_Suc)
  have len: "length (pending_events p) = length ?hist - fh_last_seq ?fh" using inv(2) by (metis length_drop)
  have b: "base (finish p ?fh) = base ?fh"
    using inv(4,5) len by (simp add: base_def finish_eq seq)
  have "drop (base ?fh) ?hist = drop (base ?fh) (take (fh_last_seq ?fh) ?hist) @ drop (fh_last_seq ?fh) ?hist"
    using inv(4,5) by (subst append_take_drop_id [of "fh_last_seq ?fh" ?hist, symmetric], subst drop_append) (simp add: base_def)
  then have sent: "fh_sent (finish p ?fh) = drop (base ?fh) (take (fh_last_seq (finish p ?fh)) ?hist)"
    using inv(2,3) by (simp add: finish_eq seq)
  show ?thesis
    using assms(1) sent b seq len inv(4,5) unfolding s'
    by (auto simp: log_inv_def Let_def finish_eq split: gc_phase.splits)
qed

lemma log_inv_gc:
  assumes "log_inv L s" "sys_step L s a = Some s'" "a = GcReadMax \<or> a = GcNote now_minus cfg \<or> a = GcPrune"
  shows "log_inv L s'"
  using assms(3)
proof (elim disjE)
  assume a: "a = GcReadMax"
  have "max_seq (fh_log (sy_fh s)) = length (sy_hist s)"
    using assms(1) by (auto simp: log_inv_def Let_def intro: max_seq_log)
  then show ?thesis using assms(1,2) by (auto simp: a log_inv_def Let_def)
next
  assume a: "a = GcNote now_minus cfg"
  obtain m where m: "sy_gc s = GcHasMax m" using assms(2) by (auto simp: a split: gc_phase.splits)
  then have "m \<le> length (sy_hist s)" using assms(1) by (auto simp: log_inv_def Let_def)
  then show ?thesis
    using assms(1,2) m gc_plan_bound [of now_minus cfg m "fh_log (sy_fh s)"]
    by (fastforce simp: a log_inv_def Let_def note_pruned_def base_def split: sum.splits)
next
  assume a: "a = GcPrune"
  then obtain w where w: "sy_gc s = GcNoted w"
    and s': "s' = s\<lparr> sy_gc := GcIdle, sy_fh := fst (gc_delete w (sy_fh s)), sy_pruned := max (sy_pruned s) w \<rparr>"
    using assms(2) by (auto split: gc_phase.splits)
  have bnd: "w < length (sy_hist s)" "w \<le> fh_prune_floor (sy_fh s)" and h: "log_holds L (sy_pruned s) (sy_hist s) (fh_log (sy_fh s))"
    using assms(1) w by (auto simp: log_inv_def Let_def)
  then have "int w \<le> i64_max" by (auto simp: log_holds_def)
  then have d: "fst (gc_delete w (sy_fh s)) = (sy_fh s)\<lparr> fh_log := filter (\<lambda>r. \<not> er_seq r \<le> int w) (fh_log (sy_fh s)) \<rparr>"
    by (simp add: gc_delete_def prune_below_def seq_i64_def)
  show ?thesis
    using assms(1) bnd log_holds_prune [OF h bnd(1)] w unfolding s' d
    by (auto simp: log_inv_def Let_def base_def split: gc_phase.splits)
qed

lemma log_inv_restart:
  assumes "log_inv L s" "sys_step L s Restart = Some s'"
  shows "log_inv L s'"
proof -
  have h: "log_holds L (sy_pruned s) (sy_hist s) (fh_log (sy_fh s))" using assms(1) by (simp add: log_inv_def Let_def)
  then have "sy_pruned s = 0 \<or> sy_pruned s < length (sy_hist s)" by (simp add: log_holds_def)
  then show ?thesis
    using assms h max_seq_log [OF h] by (auto simp: log_inv_def Let_def firehose_new_def base_def)
qed

lemma log_inv_init: "log_inv L sys_init"
  by (simp add: log_inv_def sys_init_def firehose_new_def max_seq_def log_holds_def base_def i64_max_def)

lemma log_inv_step:
  assumes "log_inv L s" "sys_step L s a = Some s'" "a \<noteq> Cancelled"
  shows "log_inv L s'"
proof (cases a)
  case (Emit em new)
  then show ?thesis using log_inv_emit assms by blast
next
  case (StageAndCommit em em' new sync)
  then show ?thesis using log_inv_stage assms by blast
next
  case Finish
  then show ?thesis using log_inv_finish assms by blast
next
  case Restart
  then show ?thesis using log_inv_restart assms by blast
next
  case (GcNote now_minus cfg)
  then show ?thesis using log_inv_gc [OF assms(1,2)] by blast
qed (use assms log_inv_gc [OF assms(1,2)] in \<open>auto simp: with_conn_def Let_def split: option.splits if_splits prod.splits\<close>)

end
