(* ===== verification/Firehose_Delivery.thy ===== *)
theory Firehose_Delivery
  imports Firehose_System
begin

text \<open>
  What a subscriber is sent: the invariant of the socket loop over every interleaving of emissions,
  sweeps, page reads and restarts, and its consequences.
\<close>

section \<open>What was sent\<close>

lemma without_values_facts [simp]:
  "event_seq (without_values e) = event_seq e" "without_values (without_values e) = without_values e"
  by (cases e; simp add: event_seq_def without_values_def comp_def)+

fun delivered :: "wire_output list \<Rightarrow> firehose_event list" where
  "delivered [] = []"
| "delivered (OutEvent e # os) = e # delivered os"
| "delivered (OutError k m # os) = delivered os"
| "delivered (OutPing # os) = delivered os"

lemma delivered_append [simp]: "delivered (xs @ ys) = delivered xs @ delivered ys"
  by (induction xs rule: delivered.induct) simp_all

text \<open>
  The events \<open>es\<close> are those of the history above \<open>from\<close> up to \<open>reached\<close>, in order and without their
  record values, and only pruned ones are missing.
\<close>

definition covers :: "nat \<Rightarrow> firehose_event list \<Rightarrow> nat \<Rightarrow> nat \<Rightarrow> firehose_event list \<Rightarrow> bool" where
  "covers pruned hist from_seq reached es \<longleftrightarrow>
     sorted_wrt (<) (map event_seq es) \<and>
     (\<forall>e\<in>set es. from_seq < event_seq e \<and> event_seq e \<le> reached \<and>
        without_values e = without_values (hist ! (event_seq e - 1))) \<and>
     (\<forall>q. from_seq < q \<and> q \<le> reached \<longrightarrow> q \<in> event_seq ` set es \<or> q \<le> pruned)"

lemma covers_Nil: "(\<forall>q. from_seq < q \<and> q \<le> reached \<longrightarrow> q \<le> pruned) \<Longrightarrow> covers pruned hist from_seq reached []"
  by (simp add: covers_def)

lemma covers_append:
  assumes "covers pruned hist a b es" "covers pruned hist b c es'" "a \<le> b" "b \<le> c"
  shows "covers pruned hist a c (es @ es')"
proof -
  have b: "\<And>e. e \<in> set es \<Longrightarrow> event_seq e \<le> b" "\<And>e. e \<in> set es' \<Longrightarrow> b < event_seq e"
    using assms(1,2) by (simp_all add: covers_def)
  have sorted: "sorted_wrt (<) (map event_seq (es @ es'))"
    using assms(1,2) le_less_trans [OF b(1) b(2)] by (simp add: covers_def sorted_wrt_append)
  have full: "q \<in> event_seq ` set (es @ es') \<or> q \<le> pruned" if "a < q \<and> q \<le> c" for q
  proof (cases "q \<le> b")
    case True
    then have "q \<in> event_seq ` set es \<or> q \<le> pruned" using assms(1) that by (simp add: covers_def)
    then show ?thesis by auto
  next
    case False
    then have "q \<in> event_seq ` set es' \<or> q \<le> pruned" using assms(2) that by (simp add: covers_def)
    then show ?thesis by auto
  qed
  have each: "a < event_seq e \<and> event_seq e \<le> c \<and> without_values e = without_values (hist ! (event_seq e - 1))"
    if "e \<in> set (es @ es')" for e
  proof (cases "e \<in> set es")
    case True
    then show ?thesis using assms(1,4) by (auto simp: covers_def)
  next
    case False
    then show ?thesis using assms(2,3) that by (auto simp: covers_def)
  qed
  show ?thesis using sorted full each by (simp add: covers_def)
qed

lemma covers_mono:
  assumes "covers pruned hist a b es" "pruned \<le> pruned'" "b \<le> length hist"
  shows "covers pruned' (hist @ xs) a b es"
  unfolding covers_def
proof (intro conjI ballI allI impI)
  fix e assume e: "e \<in> set es"
  then have q: "a < event_seq e" "event_seq e \<le> b" "without_values e = without_values (hist ! (event_seq e - 1))"
    using assms(1) by (auto simp: covers_def)
  then show "a < event_seq e" "event_seq e \<le> b" by simp_all
  show "without_values e = without_values ((hist @ xs) ! (event_seq e - 1))"
    using q assms(3) by (simp add: nth_append) linarith
next
  fix q assume "a < q \<and> q \<le> b"
  then show "q \<in> event_seq ` set es \<or> q \<le> pruned'" using assms(1,2) unfolding covers_def by fastforce
qed (use assms(1) in \<open>simp add: covers_def\<close>)

text \<open>A stretch of the history itself.\<close>

lemma covers_stretch:
  assumes "length es = n" "a \<le> k" "k \<le> max a pruned"
    "\<And>i. i < n \<Longrightarrow> event_seq (es ! i) = k + i + 1 \<and> without_values (es ! i) = without_values (hist ! (k + i))"
  shows "covers pruned hist a (k + n) es"
proof -
  have "sorted_wrt (<) (map event_seq es)"
    using assms(1,4) by (simp add: sorted_wrt_iff_nth_less)
  moreover have "a < event_seq e \<and> event_seq e \<le> k + n \<and> without_values e = without_values (hist ! (event_seq e - 1))"
    if "e \<in> set es" for e
    using that assms(1,2,4) by (auto simp: in_set_conv_nth)
  moreover have "q \<in> event_seq ` set es \<or> q \<le> pruned" if q: "a < q \<and> q \<le> k + n" for q
  proof (cases "q \<le> k")
    case True
    then show ?thesis using q assms(3) by auto
  next
    case False
    then obtain i where "q = k + i + 1" "i < n" using q by (metis add.assoc add_less_cancel_left less_eq_Suc_le not_less add_Suc_right Suc_eq_plus1 less_iff_Suc_add)
    then show ?thesis using assms(1,4) by (metis image_eqI nth_mem)
  qed
  ultimately show ?thesis by (simp add: covers_def)
qed

section \<open>Pages\<close>

lemma logged_truncate [simp]: "logged L e (event_row.truncate r) = logged L e r"
  by (simp add: logged_def event_row.defs)

text \<open>A page of consecutive rows is delivered whole, when its first row is not a gap that fails.\<close>

lemma take_rows_consecutive:
  assumes "event_codec L" "list_all2 (logged L) es rows" "\<And>i. i < length es \<Longrightarrow> event_seq (es ! i) = k + i + 1"
    "es \<noteq> []" "rd_after r = k \<or> rd_after r < prune_floor \<or> \<not> (rd_anchored r \<or> rd_cursor_present r)"
  shows "take_rows L prune_floor r rows =
    (r\<lparr> rd_anchored := True, rd_after := k + length es \<rparr>, Inr (map without_values es))"
  using assms(2-5)
proof (induction es arbitrary: r rows k)
  case (Cons e es)
  from Cons.prems(1) obtain row rows' where rows: "rows = row # rows'" "logged L e row" "list_all2 (logged L) es rows'"
    by (auto simp: list_all2_Cons1)
  have seq: "er_seq row = int (k + 1)" "event_seq e = k + 1"
    using Cons.prems(2) [of 0] rows(2) by (simp_all add: logged_def)
  have dec: "decode_stored_event L (k + 1) (er_type row) (er_event row) = Inr (without_values e)"
    using decode_event_value [OF assms(1)] rows(2) seq by (metis logged_def)
  let ?r = "r\<lparr> rd_anchored := True, rd_after := k + 1 \<rparr>"
  have head: "take_rows L prune_floor r rows =
      (case take_rows L prune_floor ?r rows' of (r'', result) \<Rightarrow> (r'', res_bind result (\<lambda>events. Inr (without_values e # events))))"
    using Cons.prems(4) dec unfolding rows(1) take_rows.simps(2) seq(1) Let_def nat_int by auto
  show ?case
  proof (cases "es = []")
    case True
    then show ?thesis using head rows(3) by simp
  next
    case False
    have "take_rows L prune_floor ?r rows' =
        (?r\<lparr> rd_anchored := True, rd_after := (k + 1) + length es \<rparr>, Inr (map without_values es))"
      using Cons.prems(2) [of "Suc i" for i] False rows(3) by (intro Cons.IH) auto
    then show ?thesis using head by simp
  qed
qed simp

text \<open>The stretch of the history a page is about.\<close>

definition stretch :: "firehose_event list \<Rightarrow> nat \<Rightarrow> nat \<Rightarrow> firehose_event list" where
  "stretch hist k upper = take replay_batch (drop k (take upper hist))"

lemma stretch_facts:
  assumes "map event_seq hist = [1..<length hist + 1]" "upper \<le> length hist"
  shows "length (stretch hist k upper) = min replay_batch (upper - k)"
    "i < length (stretch hist k upper) \<Longrightarrow> event_seq (stretch hist k upper ! i) = k + i + 1 \<and> stretch hist k upper ! i = hist ! (k + i)"
  using assms log_holds_seq [OF assms(1)] by (auto simp: stretch_def)

text \<open>The rows of a page: what the log holds of that stretch.\<close>

lemma filter_numbered:
  fixes rows :: repo_seq
  assumes "\<And>i. i < length rows \<Longrightarrow> er_seq (rows ! i) = int (i + 1)"
  shows "filter (\<lambda>r. int a < er_seq r \<and> er_seq r \<le> int upper) rows = drop a (take upper rows)"
  using assms
proof (induction rows rule: rev_induct)
  case (snoc x xs)
  have x: "er_seq x = int (length xs + 1)" using snoc.prems [of "length xs"] by simp
  have xs: "filter (\<lambda>r. int a < er_seq r \<and> er_seq r \<le> int upper) xs = drop a (take upper xs)"
  proof (rule snoc.IH)
    fix i assume "i < length xs"
    then show "er_seq (xs ! i) = int (i + 1)" using snoc.prems [of i] by (simp add: nth_append)
  qed
  show ?case
  proof (cases "a \<le> length xs \<and> length xs + 1 \<le> upper")
    case True
    then obtain m where "upper = length xs + 1 + m" by (metis le_Suc_ex)
    then show ?thesis using True x xs by simp
  next
    case False
    then show ?thesis using x xs by (cases "length xs + 1 \<le> upper") auto
  qed
qed simp

lemma filter_range_log:
  assumes "log_holds L pruned hist log" "upper \<le> length hist"
  shows "list_all2 (logged L) (stretch hist (max a pruned) upper)
    (take replay_batch (filter (\<lambda>r. int a < er_seq r \<and> er_seq r \<le> int upper) log))"
proof -
  from assms(1) obtain rows where r: "list_all2 (logged L) hist rows" "log = drop pruned rows"
    by (auto simp: log_holds_def)
  have len: "length rows = length hist" using list_all2_lengthD [OF r(1)] by simp
  have seq: "er_seq (rows ! i) = int (i + 1)" if "i < length rows" for i
    using list_all2_nthD2 [OF r(1) that] log_holds_seq [of hist i] assms(1) that len
    by (simp add: logged_def log_holds_def)
  have s: "\<And>r. r \<in> set (take pruned rows) \<Longrightarrow> er_seq r \<le> int pruned"
    using seq by (auto simp: in_set_conv_nth)
  have "filter (\<lambda>r. int a < er_seq r \<and> er_seq r \<le> int upper) log = drop (max a pruned) (take upper rows)"
  proof -
    have "filter (\<lambda>r. int a < er_seq r \<and> er_seq r \<le> int upper) log =
        filter (\<lambda>r. int (max a pruned) < er_seq r \<and> er_seq r \<le> int upper) log"
      using log_holds_member [OF assms(1)] by (intro filter_cong) (auto simp: of_nat_max)
    also have "\<dots> = filter (\<lambda>r. int (max a pruned) < er_seq r \<and> er_seq r \<le> int upper) (take pruned rows @ log)"
      using s by (force simp: filter_empty_conv of_nat_max)
    also have "\<dots> = drop (max a pruned) (take upper rows)"
      using filter_numbered [OF seq] r(2) by simp
    finally show ?thesis .
  qed
  then show ?thesis
    using r(1) by (simp add: stretch_def list_all2_takeI list_all2_dropI)
qed

section \<open>The invariant of the reader\<close>

text \<open>
  What holds of a reader between page reads: \<open>pruned\<close>, \<open>boot\<close> and \<open>prune_floor\<close> are how far the log is
  pruned, was pruned when the process started, and is announced to be pruned; \<open>hi\<close> is the frontier.
\<close>

definition reader_inv :: "nat \<Rightarrow> nat \<Rightarrow> nat \<Rightarrow> nat \<Rightarrow> replay_reader \<Rightarrow> bool" where
  "reader_inv pruned boot from_seq hi r \<longleftrightarrow>
     rd_cursor r = from_seq \<and> from_seq \<le> rd_after r \<and> rd_after r \<le> rd_upper r \<and> rd_upper r \<le> hi \<and>
     (boot < rd_upper r \<or> rd_upper r = 0) \<and> (rd_anchored r \<longrightarrow> boot < rd_after r) \<and>
     (rd_first_page r \<longrightarrow> rd_after r = rd_cursor r \<and> \<not> rd_anchored r) \<and>
     (\<not> rd_first_page r \<longrightarrow> rd_anchored r \<or> rd_done r) \<and>
     (if rd_done r then \<forall>q. rd_after r < q \<and> q \<le> rd_upper r \<longrightarrow> q \<le> pruned else rd_after r < rd_upper r)"

text \<open>A page in flight: \<open>p0\<close> is how far the log was pruned when the query ran.\<close>

definition page_inv ::
  "'cid event_lib \<Rightarrow> firehose_event list \<Rightarrow> nat \<Rightarrow> nat \<Rightarrow> nat \<Rightarrow> replay_reader \<Rightarrow> page_read \<Rightarrow> bool" where
  "page_inv L hist pruned boot prune_floor r p \<longleftrightarrow>
     (case p of
        NothingLeft r' \<Rightarrow> r' = r \<and> rd_done r
      | PageFailed r' e \<Rightarrow> False
      | PageRows r' rows \<Rightarrow>
          \<not> rd_done r \<and> r' = r\<lparr> rd_first_page := False, rd_cursor_present := rd_cursor_present r' \<rparr> \<and>
          (\<exists>p0. boot \<le> p0 \<and> p0 \<le> pruned \<and> p0 \<le> max boot prune_floor \<and>
             list_all2 (logged L) (stretch hist (max (rd_after r) p0) (rd_upper r)) rows \<and>
             (rd_anchored r \<or> (rd_cursor_present r' \<longrightarrow> p0 < rd_after r))))"

lemma reader_inv_new:
  assumes "cursor \<le> upper" "boot < upper \<or> boot = 0" "upper \<le> hi"
  shows "reader_inv pruned boot cursor hi (replay_reader_new cursor upper)"
  using assms by (auto simp: reader_inv_def replay_reader_new_def)

lemma reader_inv_mono:
  "reader_inv pruned boot from_seq hi r \<Longrightarrow> pruned \<le> pruned' \<Longrightarrow> hi \<le> hi' \<Longrightarrow> reader_inv pruned' boot from_seq hi' r"
  by (fastforce simp: reader_inv_def)

lemma stretch_mono: "upper \<le> length hist \<Longrightarrow> stretch (hist @ xs) k upper = stretch hist k upper"
  by (simp add: stretch_def)

lemma page_inv_mono:
  assumes "page_inv L hist pruned boot prune_floor r p" "pruned \<le> pruned'" "prune_floor \<le> prune_floor'" "rd_upper r \<le> length hist"
  shows "page_inv L (hist @ xs) pruned' boot prune_floor' r p"
proof (cases p)
  case (PageRows r' rows)
  then obtain p0 where "\<not> rd_done r" "r' = r\<lparr> rd_first_page := False, rd_cursor_present := rd_cursor_present r' \<rparr>"
    "boot \<le> p0" "p0 \<le> pruned" "p0 \<le> max boot prune_floor" "list_all2 (logged L) (stretch hist (max (rd_after r) p0) (rd_upper r)) rows"
    "rd_anchored r \<or> (rd_cursor_present r' \<longrightarrow> p0 < rd_after r)"
    using assms(1) by (auto simp: page_inv_def)
  then show ?thesis
    using assms(2-4) PageRows stretch_mono [OF assms(4)] unfolding page_inv_def
    by (simp add: le_max_iff_disj) (meson le_trans)
qed (use assms in \<open>simp_all add: page_inv_def\<close>)

lemma begin_batch_inv:
  assumes "log_holds L pruned hist log" "pruned \<le> max boot prune_floor" "reader_inv pruned boot from_seq hi r"
    "hi \<le> length hist" "boot \<le> pruned"
  shows "page_inv L hist pruned boot prune_floor r (begin_batch r log)"
proof (cases "rd_done r")
  case True
  then show ?thesis by (simp add: begin_batch_def page_inv_def)
next
  case False
  have r: "rd_cursor r = from_seq" "from_seq \<le> rd_after r" "rd_after r < rd_upper r" "rd_upper r \<le> length hist"
    "rd_first_page r \<longrightarrow> rd_after r = rd_cursor r \<and> \<not> rd_anchored r" "\<not> rd_first_page r \<longrightarrow> rd_anchored r"
    using assms(3,4) False by (auto simp: reader_inv_def)
  have i64: "int (rd_cursor r) \<le> i64_max" "int (rd_after r) \<le> i64_max" "int (rd_upper r) \<le> i64_max"
    using r assms(1) by (auto simp: log_holds_def)
  note rows = filter_range_log [OF assms(1) r(4), of "rd_after r"]
  let ?rows = "take replay_batch (filter (\<lambda>x. int (rd_after r) < er_seq x \<and> er_seq x \<le> int (rd_upper r)) log)"
  show ?thesis
  proof (cases "rd_first_page r")
    case True
    let ?present = "?rows \<noteq> [] \<and> (\<exists>x\<in>set log. er_seq x \<le> int (rd_after r))"
    have "begin_batch r log = PageRows (r\<lparr> rd_first_page := False, rd_cursor_present := ?present \<rparr>) (map event_row.truncate ?rows)"
      using False True r(5) i64
      by (simp add: begin_batch_def read_page_def first_events_in_range_with_cursor_presence_def seq_i64_def Let_def)
    moreover have "?present \<Longrightarrow> pruned < rd_after r" using log_holds_member [OF assms(1)] by fastforce
    ultimately show ?thesis
      using False rows assms(2,5) by (auto simp: page_inv_def list_all2_map2)
  next
    case nf: False
    then have "begin_batch r log = PageRows r (map event_row.truncate ?rows)"
      using False i64 by (simp add: begin_batch_def read_page_def events_in_range_def seq_i64_def)
    then show ?thesis
      using False nf rows assms(2,5) r(6) by (auto simp: page_inv_def list_all2_map2 intro!: exI [of _ pruned])
  qed
qed

text \<open>The outcome of a page: it never fails, it delivers the next stretch, and the invariant holds again.\<close>

lemma end_batch_inv:
  assumes "event_codec L" "page_inv L hist pruned boot prune_floor r p" "reader_inv pruned boot from_seq hi r"
    "hi \<le> length hist" "map event_seq hist = [1..<length hist + 1]" "pruned \<le> max boot prune_floor"
  shows "\<exists>r' es. end_batch L prune_floor p = (r', Inr es) \<and> reader_inv pruned boot from_seq hi r' \<and>
    rd_upper r' = rd_upper r \<and> rd_after r \<le> rd_after r' \<and> covers pruned hist (rd_after r) (rd_after r') es \<and>
    (es = [] \<longrightarrow> rd_done r') \<and> (es \<noteq> [] \<longrightarrow> rd_after r < rd_after r')"
proof (cases p)
  case (NothingLeft r')
  then show ?thesis using assms(2,3) covers_Nil by (auto simp: page_inv_def end_batch_def)
next
  case (PageFailed r' e)
  then show ?thesis using assms(2) by (simp add: page_inv_def)
next
  case (PageRows r1 rows)
  then obtain p0 where r1: "\<not> rd_done r" "r1 = r\<lparr> rd_first_page := False, rd_cursor_present := rd_cursor_present r1 \<rparr>"
    and p0: "p0 \<le> pruned" "p0 \<le> max boot prune_floor" "boot \<le> p0"
    and rows: "list_all2 (logged L) (stretch hist (max (rd_after r) p0) (rd_upper r)) rows"
    and start: "rd_anchored r \<or> (rd_cursor_present r1 \<longrightarrow> p0 < rd_after r)"
    using assms(2) by (auto simp: page_inv_def)
  obtain present where r1': "r1 = r\<lparr> rd_first_page := False, rd_cursor_present := present \<rparr>"
    and start': "rd_anchored r \<or> (present \<longrightarrow> p0 < rd_after r)" using r1(2) start by auto
  define k where "k = max (rd_after r) p0"
  define n where "n = min replay_batch (rd_upper r - k)"
  have ri: "rd_after r < rd_upper r" "rd_upper r \<le> length hist" "boot < rd_upper r" "rd_anchored r \<longrightarrow> boot < rd_after r"
    "from_seq \<le> rd_after r" "rd_cursor r = from_seq" "rd_upper r \<le> hi"
    using assms(3,4) r1(1) by (auto simp: reader_inv_def)
  let ?es = "stretch hist k (rd_upper r)"
  have len: "length ?es = n" "length rows = n"
    using stretch_facts(1) [OF assms(5) ri(2)] list_all2_lengthD [OF rows] by (simp_all add: n_def k_def)
  have seqs: "event_seq (hist ! (k + i)) = k + i + 1 \<and> ?es ! i = hist ! (k + i)" if "i < n" for i
    using stretch_facts(2) [OF assms(5) ri(2), of i k] that len by auto
  have eb: "end_batch L prune_floor p = take_page L prune_floor r1 rows" by (simp add: PageRows end_batch_def)
  show ?thesis
  proof (cases "n = 0")
    case True
    then have "rd_upper r \<le> p0" using ri(1) by (auto simp: n_def k_def replay_batch_def max_def split: if_splits)
    then have f: "rd_after r < prune_floor" "rd_upper r \<le> pruned" using ri(1,3) p0 by auto
    have "end_batch L prune_floor p = (r1\<lparr> rd_done := True \<rparr>, Inr [])"
      using True len(2) f(1) unfolding eb take_page_def r1' by simp
    then show ?thesis
      using f assms(3) ri covers_Nil unfolding r1' by (auto simp: reader_inv_def)
  next
    case False
    have "rd_after r1 = k \<or> rd_after r1 < prune_floor \<or> \<not> (rd_anchored r1 \<or> rd_cursor_present r1)"
      using start' ri(4) p0(2) unfolding r1' k_def by auto
    from take_rows_consecutive [OF assms(1) rows [folded k_def] _ _ this] seqs False
    have "take_rows L prune_floor r1 rows =
        (r1\<lparr> rd_anchored := True, rd_after := k + n \<rparr>, Inr (map without_values ?es))"
      unfolding len(1) using len(1) by fastforce
    moreover have "rd_upper r \<le> k + n \<or> n = replay_batch" by (auto simp: n_def)
    ultimately have eq: "end_batch L prune_floor p =
        (r1\<lparr> rd_anchored := True, rd_after := k + n, rd_done := rd_upper r \<le> k + n \<rparr>, Inr (map without_values ?es))"
      using False len(2) r1(1) unfolding eb take_page_def r1' by auto
    have kn: "k + n \<le> rd_upper r" "rd_after r < k + n" "boot < k + n" "k \<le> max (rd_after r) pruned"
      using False p0 by (auto simp: n_def k_def)
    have "covers pruned hist (rd_after r) (k + n) (map without_values ?es)"
      using seqs len kn(4) by (intro covers_stretch) (auto simp: k_def)
    then show ?thesis
      using kn assms(3) ri False len eq unfolding r1' by (auto simp: reader_inv_def)
  qed
qed

section \<open>The invariant of the socket\<close>

text \<open>A prefix of a covering list.\<close>

definition gap_free :: "nat \<Rightarrow> firehose_event list \<Rightarrow> nat \<Rightarrow> firehose_event list \<Rightarrow> bool" where
  "gap_free pruned hist from_seq es \<longleftrightarrow>
     (\<exists>reached rest. reached \<le> length hist \<and> covers pruned hist from_seq reached (es @ rest))"

definition open_inv :: "'cid event_lib \<Rightarrow> sys \<Rightarrow> conn \<Rightarrow> bool" where
  "open_inv L s c \<longleftrightarrow>
     (let fh = sy_fh s; es = delivered (sy_out s) in
      cn_rx c \<le> length (fh_sent fh) \<and>
      (if cn_replay_done c then
         sy_page s = None \<and> \<not> cn_reading c \<and> cn_queue c = [] \<and> sy_from s \<le> base fh + cn_rx c \<and>
         covers (sy_pruned s) (sy_hist s) (sy_from s) (base fh + cn_rx c) es
       else
         (\<exists>r. cn_reader c = Some r \<and> reader_inv (sy_pruned s) (sy_boot s) (sy_from s) (fh_last_seq fh) r \<and>
            base fh + cn_rx c = rd_upper r \<and>
            covers (sy_pruned s) (sy_hist s) (sy_from s) (rd_after r) (es @ cn_queue c) \<and>
            (cn_reading c \<longrightarrow> cn_queue c = []) \<and>
            (case sy_page s of None \<Rightarrow> True | Some p \<Rightarrow>
               cn_reading c \<and> page_inv L (sy_hist s) (sy_pruned s) (sy_boot s) (fh_prune_floor fh) r p))))"

definition conn_inv :: "'cid event_lib \<Rightarrow> sys \<Rightarrow> bool" where
  "conn_inv L s \<longleftrightarrow>
     (\<forall>k m. OutError k m \<in> set (sy_out s) \<longrightarrow> k \<noteq> ''InternalError'') \<and>
     (case sy_conn s of
        None \<Rightarrow> sy_out s = []
      | Some c \<Rightarrow> if cn_open c then open_inv L s c
                  else gap_free (sy_pruned s) (sy_hist s) (sy_from s) (delivered (sy_out s)))"

lemma open_inv_gap_free:
  assumes "open_inv L s c" "log_inv L s"
  shows "gap_free (sy_pruned s) (sy_hist s) (sy_from s) (delivered (sy_out s))"
proof (cases "cn_replay_done c")
  case True
  then have "covers (sy_pruned s) (sy_hist s) (sy_from s) (base (sy_fh s) + cn_rx c) (delivered (sy_out s) @ [])"
    "base (sy_fh s) + cn_rx c \<le> length (sy_hist s)"
    using assms by (auto simp: open_inv_def log_inv_def base_def Let_def)
  then show ?thesis unfolding gap_free_def by blast
next
  case False
  then obtain r where "reader_inv (sy_pruned s) (sy_boot s) (sy_from s) (fh_last_seq (sy_fh s)) r"
    "covers (sy_pruned s) (sy_hist s) (sy_from s) (rd_after r) (delivered (sy_out s) @ cn_queue c)"
    using assms by (auto simp: open_inv_def Let_def)
  moreover have "fh_last_seq (sy_fh s) \<le> length (sy_hist s)" using assms(2) by (simp add: log_inv_def Let_def)
  ultimately show ?thesis unfolding gap_free_def reader_inv_def by (meson le_trans)
qed

lemma gap_free_Nil [simp]: "gap_free pruned hist from_seq []"
  unfolding gap_free_def by (intro exI [of _ 0] exI [of _ "[]"]) (simp add: covers_Nil)

lemma gap_free_prefix: "gap_free pruned hist from_seq (es @ es') \<Longrightarrow> gap_free pruned hist from_seq es"
  by (auto simp: gap_free_def)

lemma gap_free_mono:
  assumes "gap_free pruned hist from_seq es" "pruned \<le> pruned'"
  shows "gap_free pruned' (hist @ xs) from_seq es"
proof -
  obtain reached rest where "reached \<le> length hist" "covers pruned hist from_seq reached (es @ rest)"
    using assms(1) by (auto simp: gap_free_def)
  then have "reached \<le> length (hist @ xs)" "covers pruned' (hist @ xs) from_seq reached (es @ rest)"
    using covers_mono [OF _ assms(2)] by auto
  then show ?thesis unfolding gap_free_def by blast
qed

text \<open>Steps of other tasks: the history grows, more is pruned, the frontier advances, the channel grows.\<close>

lemma conn_inv_mono:
  assumes "conn_inv L s" "log_inv L s"
    "sy_conn s' = sy_conn s" "sy_page s' = sy_page s" "sy_out s' = sy_out s" "sy_from s' = sy_from s" "sy_boot s' = sy_boot s"
    "sy_hist s' = sy_hist s @ xs" "sy_pruned s \<le> sy_pruned s'" "fh_prune_floor (sy_fh s) \<le> fh_prune_floor (sy_fh s')"
    "fh_last_seq (sy_fh s) \<le> fh_last_seq (sy_fh s')" "base (sy_fh s') = base (sy_fh s)"
    "length (fh_sent (sy_fh s)) \<le> length (fh_sent (sy_fh s'))"
  shows "conn_inv L s'"
proof (cases "sy_conn s")
  case None
  then show ?thesis using assms by (simp add: conn_inv_def)
next
  case (Some c)
  have hi: "fh_last_seq (sy_fh s) \<le> length (sy_hist s)" "length (fh_sent (sy_fh s)) \<le> fh_last_seq (sy_fh s)"
    using assms(2) by (simp_all add: log_inv_def Let_def)
  show ?thesis
  proof (cases "cn_open c")
    case False
    then show ?thesis using assms Some gap_free_mono [of "sy_pruned s"] by (simp add: conn_inv_def)
  next
    case True
    then have o: "open_inv L s c" using assms(1) Some by (simp add: conn_inv_def)
    have "open_inv L s' c"
    proof (cases "cn_replay_done c")
      case True
      then have "base (sy_fh s) + cn_rx c \<le> length (sy_hist s)"
        using o hi by (auto simp: open_inv_def Let_def base_def)
      then show ?thesis
        using True o assms covers_mono [of "sy_pruned s" "sy_hist s" "sy_from s" "base (sy_fh s) + cn_rx c" _ "sy_pruned s'" xs]
        by (auto simp: open_inv_def Let_def)
    next
      case False
      then obtain r where r: "cn_reader c = Some r" "reader_inv (sy_pruned s) (sy_boot s) (sy_from s) (fh_last_seq (sy_fh s)) r"
        "base (sy_fh s) + cn_rx c = rd_upper r"
        "covers (sy_pruned s) (sy_hist s) (sy_from s) (rd_after r) (delivered (sy_out s) @ cn_queue c)"
        "cn_reading c \<longrightarrow> cn_queue c = []"
        "\<And>p. sy_page s = Some p \<Longrightarrow> cn_reading c \<and> page_inv L (sy_hist s) (sy_pruned s) (sy_boot s) (fh_prune_floor (sy_fh s)) r p"
        using o by (auto simp: open_inv_def Let_def split: option.splits)
      have up: "rd_upper r \<le> length (sy_hist s)" "rd_after r \<le> length (sy_hist s)" using r(2) hi by (auto simp: reader_inv_def)
      show ?thesis
        using False r o assms(3-13) reader_inv_mono [OF r(2) assms(9,11)] covers_mono [OF r(4) assms(9) up(2)]
          page_inv_mono [OF conjunct2 [OF r(6)] assms(9,10) up(1)]
        by (auto simp: open_inv_def Let_def split: option.splits)
    qed
    then show ?thesis using assms Some True by (simp add: conn_inv_def)
  qed
qed

text \<open>Closing the socket, with at most an error other than a failed replay.\<close>

lemma conn_inv_close:
  assumes "conn_inv L s" "log_inv L s" "sy_conn s = Some c" "cn_open c" "\<not> cn_open c'" "delivered out = []"
    "\<forall>k m. OutError k m \<in> set out \<longrightarrow> k \<noteq> ''InternalError''"
  shows "conn_inv L (s\<lparr> sy_conn := Some c', sy_out := sy_out s @ out, sy_page := pg \<rparr>)"
proof -
  have "open_inv L s c" using assms(1,3,4) by (simp add: conn_inv_def)
  from open_inv_gap_free [OF this assms(2)] show ?thesis
    using assms by (auto simp: conn_inv_def)
qed

lemma send_event_cases:
  assumes "send_event L ok event c = (c', out)"
  shows "(c' = c \<and> out = [OutEvent event]) \<or> (c' = close_conn c \<and> out = [])"
  using assms by (auto simp: send_event_def split: sum.splits option.splits if_splits)

lemma close_conn_closed [simp]: "\<not> cn_open (close_conn c)"
  by (simp add: close_conn_def)

lemma sys_same_page [simp]: "s\<lparr> sy_conn := c, sy_out := out, sy_page := sy_page s \<rparr> = s\<lparr> sy_conn := c, sy_out := out \<rparr>"
  by (cases s) simp

lemma with_connD:
  assumes "with_conn s f = Some s'"
  shows "\<exists>c c' out. sy_conn s = Some c \<and> cn_open c \<and> f c = Some (c', out) \<and>
    s' = s\<lparr> sy_conn := Some c', sy_out := sy_out s @ out \<rparr>"
  using assms by (auto simp: with_conn_def split: option.splits if_splits)

lemma conn_inv_queue:
  assumes "conn_inv L s" "log_inv L s" "sys_step L s (SendQueued ok) = Some s'"
  shows "conn_inv L s'"
proof -
  from assms(3) have "with_conn s (on_queue L ok) = Some s'" by simp
  from with_connD [OF this] obtain c c' out where c: "sy_conn s = Some c" "cn_open c" "on_queue L ok c = Some (c', out)"
    "s' = s\<lparr> sy_conn := Some c', sy_out := sy_out s @ out \<rparr>" by blast
  then obtain e q where q: "\<not> cn_replay_done c" "cn_queue c = e # q" "send_event L ok e (c\<lparr> cn_queue := q \<rparr>) = (c', out)"
    by (auto simp: on_queue_def split: if_splits list.splits)
  have o: "open_inv L s c" using assms(1) c by (simp add: conn_inv_def)
  from send_event_cases [OF q(3)] show ?thesis
  proof
    assume "c' = c\<lparr> cn_queue := q \<rparr> \<and> out = [OutEvent e]"
    then show ?thesis
      using o q c assms(1) by (auto simp: conn_inv_def open_inv_def Let_def split: option.splits)
  next
    assume "c' = close_conn (c\<lparr> cn_queue := q \<rparr>) \<and> out = []"
    then show ?thesis using conn_inv_close [OF assms(1,2) c(1,2), of c' out "sy_page s"] c(4) by simp
  qed
qed

lemma conn_inv_live:
  assumes "conn_inv L s" "log_inv L s" "sys_step L s (SendLive ok) = Some s'"
  shows "conn_inv L s'"
proof -
  from assms(3) have "with_conn s (on_live L default_capacity ok (fh_sent (sy_fh s))) = Some s'" by simp
  from with_connD [OF this] obtain c c' out where c: "sy_conn s = Some c" "cn_open c"
    "on_live L default_capacity ok (fh_sent (sy_fh s)) c = Some (c', out)"
    "s' = s\<lparr> sy_conn := Some c', sy_out := sy_out s @ out \<rparr>" by blast
  have o: "open_inv L s c" using assms(1) c by (simp add: conn_inv_def)
  have live: "cn_replay_done c" using c(3) by (simp add: on_live_def split: if_splits)
  let ?b = "base (sy_fh s) + cn_rx c"
  from c(3) live consider
      (lag) "c' = close_conn c" "out = [OutError ''ConsumerTooSlow'' ''consumer fell too far behind the firehose; reconnect with your last cursor'']"
    | (event) "cn_rx c < length (fh_sent (sy_fh s))" "send_event L ok (fh_sent (sy_fh s) ! cn_rx c) (c\<lparr> cn_rx := cn_rx c + 1 \<rparr>) = (c', out)"
    by (auto simp: on_live_def recv_def split: if_splits)
  then show ?thesis
  proof cases
    case lag
    then show ?thesis using conn_inv_close [OF assms(1,2) c(1,2), of c' out "sy_page s"] c(4) by simp
  next
    case event
    let ?e = "fh_sent (sy_fh s) ! cn_rx c"
    have l: "fh_sent (sy_fh s) = drop (base (sy_fh s)) (take (fh_last_seq (sy_fh s)) (sy_hist s))"
      "fh_last_seq (sy_fh s) \<le> length (sy_hist s)" "map event_seq (sy_hist s) = [1..<length (sy_hist s) + 1]"
      "length (fh_sent (sy_fh s)) \<le> fh_last_seq (sy_fh s)"
      using assms(2) by (simp_all add: log_inv_def Let_def log_holds_def)
    have "?b < fh_last_seq (sy_fh s)" using event(1) l(4) by (simp add: base_def)
    then have e: "?e = sy_hist s ! ?b" using l(1,2) by (metis add_leD1 drop_eq_nths length_take less_imp_le min.absorb2 nth_drop nth_take)
    have seq: "event_seq ?e = ?b + 1"
      using e log_holds_seq [OF l(3)] \<open>?b < fh_last_seq (sy_fh s)\<close> l(2) by simp
    have one: "covers (sy_pruned s) (sy_hist s) ?b (?b + 1) [?e]"
      by (rule covers_stretch) (use e seq in auto)
    have "covers (sy_pruned s) (sy_hist s) (sy_from s) ?b (delivered (sy_out s))" "sy_from s \<le> ?b"
      using o live by (simp_all add: open_inv_def Let_def)
    from covers_append [OF this(1) one this(2)]
    have next_covers: "covers (sy_pruned s) (sy_hist s) (sy_from s) (?b + 1) (delivered (sy_out s) @ [?e])" by simp
    from send_event_cases [OF event(2)] show ?thesis
    proof
      assume "c' = c\<lparr> cn_rx := cn_rx c + 1 \<rparr> \<and> out = [OutEvent ?e]"
      then show ?thesis
        using o live c assms(1) event(1) next_covers
        by (auto simp: conn_inv_def open_inv_def Let_def)
    next
      assume "c' = close_conn (c\<lparr> cn_rx := cn_rx c + 1 \<rparr>) \<and> out = []"
      then show ?thesis using conn_inv_close [OF assms(1,2) c(1,2), of c' out "sy_page s"] c(4) by simp
    qed
  qed
qed

lemma conn_inv_batch:
  assumes "event_codec L" "conn_inv L s" "log_inv L s" "sys_step L s TakePage = Some s'"
  shows "conn_inv L s'"
proof -
  from assms(4) obtain p s1 where p: "sy_page s = Some p"
    and s1: "with_conn s (on_batch (end_batch L (fh_prune_floor (sy_fh s)) p)) = Some s1" "s' = s1\<lparr> sy_page := None \<rparr>"
    by (auto split: option.splits)
  from with_connD [OF s1(1)] obtain c c' out where c: "sy_conn s = Some c" "cn_open c"
    "on_batch (end_batch L (fh_prune_floor (sy_fh s)) p) c = Some (c', out)"
    "s1 = s\<lparr> sy_conn := Some c', sy_out := sy_out s @ out \<rparr>" by blast
  have o: "open_inv L s c" using assms(2) c by (simp add: conn_inv_def)
  then have nd: "\<not> cn_replay_done c" using p by (auto simp: open_inv_def Let_def)
  then obtain r where r: "cn_reader c = Some r" "reader_inv (sy_pruned s) (sy_boot s) (sy_from s) (fh_last_seq (sy_fh s)) r"
    "base (sy_fh s) + cn_rx c = rd_upper r" "cn_reading c" "cn_queue c = []"
    "covers (sy_pruned s) (sy_hist s) (sy_from s) (rd_after r) (delivered (sy_out s))"
    "page_inv L (sy_hist s) (sy_pruned s) (sy_boot s) (fh_prune_floor (sy_fh s)) r p" "cn_rx c \<le> length (fh_sent (sy_fh s))"
    using o p by (auto simp: open_inv_def Let_def)
  have l: "fh_last_seq (sy_fh s) \<le> length (sy_hist s)" "map event_seq (sy_hist s) = [1..<length (sy_hist s) + 1]"
    "sy_pruned s \<le> max (sy_boot s) (fh_prune_floor (sy_fh s))"
    using assms(3) by (simp_all add: log_inv_def Let_def log_holds_def)
  from end_batch_inv [OF assms(1) r(7,2) l] obtain r' es where b:
    "end_batch L (fh_prune_floor (sy_fh s)) p = (r', Inr es)"
    "reader_inv (sy_pruned s) (sy_boot s) (sy_from s) (fh_last_seq (sy_fh s)) r'" "rd_upper r' = rd_upper r"
    "rd_after r \<le> rd_after r'" "covers (sy_pruned s) (sy_hist s) (rd_after r) (rd_after r') es" "es = [] \<longrightarrow> rd_done r'"
    by blast
  have from_le: "sy_from s \<le> rd_after r" using r(2) by (simp add: reader_inv_def)
  note cov = covers_append [OF r(6) b(5) from_le b(4)]
  show ?thesis
  proof (cases es)
    case Nil
    then have out: "c' = c\<lparr> cn_reading := False, cn_replay_done := True, cn_reader := None \<rparr>" "out = []"
      using c(3) b(1) r(4) by (auto simp: on_batch_def)
    have u: "rd_after r' \<le> rd_upper r" "\<forall>q. rd_after r' < q \<and> q \<le> rd_upper r \<longrightarrow> q \<le> sy_pruned s"
      using b(2,3,6) Nil by (auto simp: reader_inv_def)
    have "covers (sy_pruned s) (sy_hist s) (rd_after r') (rd_upper r) []" using covers_Nil u(2) by blast
    from covers_append [OF cov this _ u(1)] from_le b(4) Nil
    have "covers (sy_pruned s) (sy_hist s) (sy_from s) (rd_upper r) (delivered (sy_out s))" by simp
    moreover have "sy_from s \<le> rd_upper r" using from_le b(4) u(1) by simp
    ultimately show ?thesis
      using out c s1(2) assms(2) r(3,5,8) by (simp add: conn_inv_def open_inv_def Let_def)
  next
    case (Cons e es')
    then have out: "c' = c\<lparr> cn_reading := False, cn_reader := Some r', cn_queue := cn_queue c @ es \<rparr>" "out = []"
      using c(3) b(1) r(4) by (auto simp: on_batch_def)
    show ?thesis
      using out c s1(2) assms(2) r(3,5,8) b(2,3) nd cov by (simp add: conn_inv_def open_inv_def Let_def)
  qed
qed

lemma conn_inv_read:
  assumes "conn_inv L s" "log_inv L s" "sys_step L s ReadPage = Some s'"
  shows "conn_inv L s'"
proof -
  from assms(3) obtain c0 r where c: "sy_conn s = Some c0" "cn_reader (start_read c0) = Some r" "cn_open (start_read c0)"
    "cn_reading (start_read c0)" "sy_page s = None"
    "s' = s\<lparr> sy_conn := Some (start_read c0), sy_page := Some (begin_batch r (fh_log (sy_fh s))) \<rparr>"
    by (auto simp: Let_def split: option.splits if_splits)
  have c0: "cn_open c0" "cn_reader c0 = Some r" using c(2,3) by (auto simp: start_read_def split: if_splits)
  have o: "open_inv L s c0" using assms(1) c(1) c0 by (simp add: conn_inv_def)
  have nd: "\<not> cn_replay_done c0" using o c(4) by (auto simp: start_read_def open_inv_def Let_def split: if_splits)
  have r: "reader_inv (sy_pruned s) (sy_boot s) (sy_from s) (fh_last_seq (sy_fh s)) r"
    "base (sy_fh s) + cn_rx c0 = rd_upper r" "cn_reading c0 \<longrightarrow> cn_queue c0 = []"
    "covers (sy_pruned s) (sy_hist s) (sy_from s) (rd_after r) (delivered (sy_out s) @ cn_queue c0)"
    "cn_rx c0 \<le> length (fh_sent (sy_fh s))"
    using o nd c0(2) by (auto simp: open_inv_def Let_def)
  have q: "cn_queue c0 = []" using c(4) r(3) by (auto simp: start_read_def split: if_splits)
  have l: "log_holds L (sy_pruned s) (sy_hist s) (fh_log (sy_fh s))" "sy_pruned s \<le> max (sy_boot s) (fh_prune_floor (sy_fh s))"
    "fh_last_seq (sy_fh s) \<le> length (sy_hist s)" "sy_boot s \<le> sy_pruned s"
    using assms(2) by (simp_all add: log_inv_def Let_def)
  note pg = begin_batch_inv [OF l(1,2) r(1) l(3,4)]
  have sr: "start_read c0 = c0\<lparr> cn_reading := True \<rparr>" using c(4) nd q by (cases "cn_reading c0") (simp_all add: start_read_def)
  show ?thesis
    using c(6) c0 nd r q pg assms(1) c(1) unfolding sr by (simp add: conn_inv_def open_inv_def Let_def)
qed

lemma conn_inv_connect:
  assumes "log_inv L s" "sys_step L s (Connect cursor now) = Some s'"
  shows "conn_inv L s'"
proof -
  let ?fh = "sy_fh s"
  have idle: "sy_pending s = None" using assms(2) by (auto split: if_splits)
  have l: "base ?fh + length (fh_sent ?fh) = fh_last_seq ?fh" "sy_boot s < base ?fh \<or> sy_boot s = 0"
    using assms(1) by (auto simp: log_inv_def Let_def base_def)
  then have boot: "sy_boot s < fh_last_seq ?fh \<or> sy_boot s = 0" by auto
  show ?thesis
  proof (cases cursor)
    case None
    then show ?thesis
      using assms(2) idle l(1) covers_Nil by (auto simp: open_conn_def subscribe_from_def Let_def conn_inv_def open_inv_def)
  next
    case (Some k)
    show ?thesis
    proof (cases "fh_last_seq ?fh < k")
      case True
      then show ?thesis
        using assms(2) idle Some by (auto simp: open_conn_def subscribe_from_def Let_def conn_inv_def)
    next
      case False
      then have "reader_inv (sy_pruned s) (sy_boot s) k (fh_last_seq ?fh) (replay_reader_new k (fh_last_seq ?fh))"
        using boot by (intro reader_inv_new) auto
      then show ?thesis
        using assms(2) idle Some False l(1) covers_Nil
        by (auto simp: open_conn_def subscribe_from_def Let_def conn_inv_def open_inv_def replay_reader_new_def)
    qed
  qed
qed

lemma conn_inv_other:
  assumes "conn_inv L s" "log_inv L s" "with_conn s (\<lambda>c. Some (f c)) = Some s'"
    "\<And>c c' out. f c = (c', out) \<Longrightarrow> delivered out = [] \<and> (\<forall>k m. OutError k m \<notin> set out) \<and>
       (\<not> cn_open c' \<or> c' = c \<or> (\<exists>t. c' = c\<lparr> cn_last_seen := t \<rparr>))"
  shows "conn_inv L s'"
proof -
  from with_connD [OF assms(3)] obtain c c' out where c: "sy_conn s = Some c" "cn_open c" "f c = (c', out)"
    "s' = s\<lparr> sy_conn := Some c', sy_out := sy_out s @ out \<rparr>" by auto
  note f = assms(4) [OF c(3)]
  show ?thesis
  proof (cases "cn_open c'")
    case False
    then show ?thesis using conn_inv_close [OF assms(1,2) c(1,2), of c' out "sy_page s"] f c(4) by simp
  next
    case True
    moreover have "c = c\<lparr> cn_last_seen := cn_last_seen c \<rparr>" by simp
    ultimately obtain t where t: "c' = c\<lparr> cn_last_seen := t \<rparr>" using f by metis
    have "open_inv L s c" using assms(1) c by (simp add: conn_inv_def)
    then have "open_inv L s' c'" using f unfolding c(4) t open_inv_def Let_def by (simp cong: option.case_cong)
    then show ?thesis using assms(1) c f True by (auto simp: conn_inv_def)
  qed
qed

lemma conn_inv_log_step:
  assumes "conn_inv L s" "log_inv L s" "sys_step L s a = Some s'" "log_inv L s'"
    "(\<exists>em new. a = Emit em new) \<or> (\<exists>em em' new sync. a = StageAndCommit em em' new sync) \<or> a = Finish \<or>
     a = GcReadMax \<or> (\<exists>now cfg. a = GcNote now cfg) \<or> a = GcPrune"
  shows "conn_inv L s'"
proof -
  have l: "log_holds L (sy_pruned s) (sy_hist s) (fh_log (sy_fh s))" "fh_last_seq (sy_fh s) \<le> length (sy_hist s)"
    "length (fh_sent (sy_fh s)) \<le> fh_last_seq (sy_fh s)"
    using assms(2) by (simp_all add: log_inv_def Let_def)
  from assms(5) show ?thesis
  proof (elim disjE exE)
    fix em new assume a: "a = Emit em new"
    then have idle: "sy_pending s = None" using assms(3) by (auto split: if_splits)
    note last = log_inv_idle [OF assms(2) idle]
    show ?thesis
    proof (cases "emit L em new (sy_fh s)")
      case (Inl e)
      then show ?thesis using assms(1,3) a idle by simp
    next
      case (Inr q)
      obtain seq fh' where q: "q = (seq, fh')" by (cases q)
      from emit_holds [OF l(1) last Inr [unfolded q]] obtain e log where
        "fh' = (sy_fh s)\<lparr> fh_log := log, fh_last_seq := length (sy_hist s) + 1, fh_sent := fh_sent (sy_fh s) @ [e] \<rparr>" by blast
      then show ?thesis
        using assms(3) a idle Inr q last l(3)
        by (intro conn_inv_mono [OF assms(1,2), of s' "[e]"]) (auto simp: base_def)
    qed
  next
    fix em em' new sync assume a: "a = StageAndCommit em em' new sync"
    then have idle: "sy_pending s = None" using assms(3) by (auto split: if_splits)
    show ?thesis
    proof (cases "stage L em em' new sync (fh_last_seq (sy_fh s)) (fh_log (sy_fh s))")
      case (Inl e)
      then show ?thesis using assms(1,3) a idle by simp
    next
      case (Inr q)
      then show ?thesis
        using assms(3) a idle
        by (cases q) (auto simp: base_def intro!: conn_inv_mono [OF assms(1,2), of _ "pending_events (fst q)"])
    qed
  next
    assume a: "a = Finish"
    then obtain p where p: "sy_pending s = Some p" "s' = s\<lparr> sy_fh := finish p (sy_fh s), sy_pending := None \<rparr>"
      using assms(3) by (auto split: option.splits)
    have f: "fh_last_seq (finish p (sy_fh s)) = length (sy_hist s)"
      using assms(4) p(2) log_inv_idle [OF assms(4)] by simp
    have len: "length (pending_events p) = length (sy_hist s) - fh_last_seq (sy_fh s)"
      using assms(2) p(1) by (simp add: log_inv_def Let_def) (metis length_drop)
    show ?thesis
      using p f len l
      by (intro conn_inv_mono [OF assms(1,2), of s' "[]"]) (auto simp: base_def finish_eq)
  next
    assume "a = GcReadMax"
    then show ?thesis
      using assms(3) by (intro conn_inv_mono [OF assms(1,2), of s' "[]"]) auto
  next
    fix now cfg assume "a = GcNote now cfg"
    then show ?thesis
      using assms(3) by (intro conn_inv_mono [OF assms(1,2), of s' "[]"])
        (auto simp: note_pruned_def base_def split: gc_phase.splits sum.splits)
  next
    assume "a = GcPrune"
    then show ?thesis
      using assms(3) by (intro conn_inv_mono [OF assms(1,2), of s' "[]"])
        (auto simp: gc_delete_def base_def split: gc_phase.splits sum.splits prod.splits)
  qed
qed

lemma conn_inv_step:
  assumes "event_codec L" "conn_inv L s" "log_inv L s" "sys_step L s a = Some s'" "a \<noteq> Cancelled"
  shows "conn_inv L s'"
proof (cases a)
  case (Connect cursor now)
  then show ?thesis using conn_inv_connect assms by blast
next
  case ReadPage
  then show ?thesis using conn_inv_read assms by blast
next
  case TakePage
  then show ?thesis using conn_inv_batch assms by blast
next
  case (SendQueued ok)
  then show ?thesis using conn_inv_queue assms by blast
next
  case (SendLive ok)
  then show ?thesis using conn_inv_live assms by blast
next
  case (Heartbeat ok now)
  then have "with_conn s (\<lambda>c. Some (on_heartbeat ok now c)) = Some s'" using assms(4) by simp
  then show ?thesis by (rule conn_inv_other [OF assms(2,3)]) (auto simp: on_heartbeat_def split: if_splits)
next
  case (Incoming closed now)
  then have "with_conn s (\<lambda>c. Some (on_incoming closed now c)) = Some s'" using assms(4) by simp
  then show ?thesis by (rule conn_inv_other [OF assms(2,3)]) (auto simp: on_incoming_def split: if_splits)
next
  case Restart
  then show ?thesis using assms(4) by (auto simp: conn_inv_def)
qed (use assms conn_inv_log_step [OF assms(2,3,4) log_inv_step [OF assms(3-5)]] in auto)

lemma run_inv:
  assumes "event_codec L" "log_inv L s" "conn_inv L s" "sys_run L s acts = Some s'" "Cancelled \<notin> set acts"
  shows "log_inv L s' \<and> conn_inv L s'"
  using assms(2-)
proof (induction acts arbitrary: s)
  case (Cons a as)
  then obtain s1 where s1: "sys_step L s a = Some s1" "sys_run L s1 as = Some s'" by (auto split: option.splits)
  then show ?case
    using Cons.IH log_inv_step [OF Cons.prems(1) s1(1)] conn_inv_step [OF assms(1) Cons.prems(2,1) s1(1)] Cons.prems(4) by auto
qed simp

lemma conn_inv_init: "conn_inv L sys_init"
  by (simp add: conn_inv_def sys_init_def)

end
