(* ===== verification/Firehose_Codec.thy ===== *)
theory Firehose_Codec
  imports Firehose_Correct
begin

text \<open>
  A concrete codec for the values of the data model, on which the theorems about the firehose are
  instantiated: lengths and integers in unary, a tag before every value. It satisfies what the theorems
  assume of DAG-CBOR; CIDs are their text.
\<close>

type_synonym code = "8 word list"

definition put_nat :: "nat \<Rightarrow> code" where "put_nat n = replicate n 1 @ [0]"

fun get_nat :: "code \<Rightarrow> (nat \<times> code) option" where
  "get_nat [] = None"
| "get_nat (b # bs) = (if b = 0 then Some (0, bs) else map_option (\<lambda>(n, r). (Suc n, r)) (get_nat bs))"

lemma get_put_nat [simp]: "get_nat (put_nat n @ r) = Some (n, r)"
  by (induction n) (simp_all add: put_nat_def)

lemma length_put_nat [simp]: "length (put_nat n) = Suc n"
  by (simp add: put_nat_def)

definition put_int :: "int \<Rightarrow> code" where
  "put_int i = (if i < 0 then 1 else 0) # put_nat (nat (abs i))"

fun get_int :: "code \<Rightarrow> (int \<times> code) option" where
  "get_int [] = None"
| "get_int (b # bs) = map_option (\<lambda>(n, r). (if b = 0 then int n else - int n, r)) (get_nat bs)"

lemma get_put_int [simp]: "get_int (put_int i @ r) = Some (i, r)"
  by (simp add: put_int_def)

definition put_str :: "str \<Rightarrow> code" where
  "put_str s = put_nat (length s) @ map (\<lambda>c. word_of_nat (of_char c)) s"

definition get_str :: "code \<Rightarrow> (str \<times> code) option" where
  "get_str bs = map_option (\<lambda>(n, r). (map (\<lambda>b. char_of (unat b)) (take n r), drop n r)) (get_nat bs)"

lemma char_of_byte [simp]: "char_of (unat (word_of_nat (of_char c) :: 8 word)) = c"
  using byte_less_256 [of c] by (simp add: unat_of_nat)

lemma get_put_str [simp]: "get_str (put_str s @ r) = Some (s, r)"
  by (simp add: get_str_def put_str_def comp_def)

fun put_value :: "str ipld \<Rightarrow> code" where
  "put_value INull = [0]"
| "put_value (IBool b) = [1, if b then 1 else 0]"
| "put_value (IInteger i) = 2 # put_int i"
| "put_value (IFloat f) = [3]"
| "put_value (IString s) = 4 # put_str s"
| "put_value (IBytes b) = 5 # put_nat (length b) @ b"
| "put_value (IList xs) = 6 # put_nat (length xs) @ concat (map put_value xs)"
| "put_value (IMap m) = 7 # put_nat (length m) @ concat (map (\<lambda>(k, v). put_str k @ put_value v) m)"
| "put_value (ILink c) = 8 # put_str c"

fun get_many :: "(code \<Rightarrow> ('a \<times> code) option) \<Rightarrow> nat \<Rightarrow> code \<Rightarrow> ('a list \<times> code) option" where
  "get_many get 0 bs = Some ([], bs)"
| "get_many get (Suc n) bs =
     Option.bind (get bs) (\<lambda>(x, r). map_option (\<lambda>(xs, r'). (x # xs, r')) (get_many get n r))"

definition get_entry :: "(code \<Rightarrow> ('a \<times> code) option) \<Rightarrow> code \<Rightarrow> ((str \<times> 'a) \<times> code) option" where
  "get_entry get bs = Option.bind (get_str bs) (\<lambda>(k, r). map_option (\<lambda>(v, r'). ((k, v), r')) (get r))"

text \<open>Fuel bounds the nesting; the length of the input is enough.\<close>

fun get_value :: "nat \<Rightarrow> code \<Rightarrow> (str ipld \<times> code) option" where
  "get_value 0 bs = None"
| "get_value (Suc f) [] = None"
| "get_value (Suc f) (t # bs) =
     (if t = 0 then Some (INull, bs)
      else if t = 1 then (case bs of [] \<Rightarrow> None | b # r \<Rightarrow> Some (IBool (b = 1), r))
      else if t = 2 then map_option (\<lambda>(i, r). (IInteger i, r)) (get_int bs)
      else if t = 4 then map_option (\<lambda>(s, r). (IString s, r)) (get_str bs)
      else if t = 5 then map_option (\<lambda>(n, r). (IBytes (take n r), drop n r)) (get_nat bs)
      else if t = 6 then
        Option.bind (get_nat bs) (\<lambda>(n, r). map_option (\<lambda>(xs, r'). (IList xs, r')) (get_many (get_value f) n r))
      else if t = 7 then
        Option.bind (get_nat bs) (\<lambda>(n, r). map_option (\<lambda>(m, r'). (IMap m, r')) (get_many (get_entry (get_value f)) n r))
      else if t = 8 then map_option (\<lambda>(s, r). (ILink s, r)) (get_str bs)
      else None)"

lemma get_many_put:
  "(\<And>x r. x \<in> set xs \<Longrightarrow> get (put x @ r) = Some (x, r)) \<Longrightarrow>
   get_many get (length xs) (concat (map put xs) @ r) = Some (xs, r)"
  by (induction xs) simp_all

lemma length_part: "x \<in> set xs \<Longrightarrow> length (f x) \<le> length (concat (map f xs))"
  by (induction xs) auto

lemma get_put_value: "encodable v \<Longrightarrow> length (put_value v) \<le> f \<Longrightarrow> get_value (Suc f) (put_value v @ r) = Some (v, r)"
proof (induction v arbitrary: f r rule: put_value.induct)
  case (7 xs)
  then obtain f' where f: "f = Suc f'" by (cases f) auto
  have "get_value f (put_value x @ r) = Some (x, r)" if x: "x \<in> set xs" for x r
    using 7 x length_part [OF x, of put_value] f by simp
  then show ?case by (simp add: get_many_put)
next
  case (8 m)
  then obtain f' where f: "f = Suc f'" by (cases f) auto
  let ?put = "\<lambda>(k, v). put_str k @ put_value v"
  have "get_entry (get_value f) (?put x @ r) = Some (x, r)" if x: "x \<in> set m" for x r
  proof -
    obtain k v where kv: "x = (k, v)" by (cases x)
    have "length (put_value v) \<le> f'" using 8(3) length_part [OF x, of ?put] f kv by simp
    moreover have "encodable v" using 8(2) x kv by auto
    ultimately show ?thesis using 8(1) [OF x kv [symmetric]] kv f by (simp add: get_entry_def)
  qed
  then show ?case using get_many_put [of m "get_entry (get_value f)" ?put r] by simp
qed simp_all

definition demo_lib :: "str event_lib" where
  "demo_lib = \<lparr> el_put = (\<lambda>v. Inr (put_value v)),
     el_get = (\<lambda>b. case get_value (Suc (length b)) b of Some (v, []) \<Rightarrow> Inr (sort_maps v) | _ \<Rightarrow> Inl ''not a value''),
     el_cid = (\<lambda>s. if s = [] then Inl ''empty'' else Inr s), el_debug = (\<lambda>s. s), el_serde = (\<lambda>k. ''field '' @ k) \<rparr>"

lemma event_codec_demo: "event_codec demo_lib"
  unfolding event_codec_def
proof (intro allI impI)
  fix v :: "str ipld" assume "encodable v"
  from get_put_value [OF this order_refl, of "[]"]
  show "\<exists>b. el_put demo_lib v = Inr b \<and> el_get demo_lib b = Inr (sort_maps v)"
    by (simp add: demo_lib_def)
qed

end
