(* ===== verification/Firehose_Service.thy ===== *)
theory Firehose_Service
  imports Firehose_Delivery Firehose_Codec
begin

text \<open>The properties of the firehose: its log, its subscribers, its retention and its cancellations.\<close>

section \<open>Events and their rows\<close>

lemma insort_member: "x \<in> set (insort_key f x xs)"
  by (induction xs) auto

lemma insert_event_member:
  assumes "insert_event fault seq did ty blob time log = Inr log'"
  shows "\<exists>r\<in>set log'. er_seq r = int seq \<and> er_type r = ty \<and> er_event r = blob"
  using assms insort_member by (fastforce simp: insert_event_def seq_i64_def split: if_splits option.splits)

lemma insert_at_frontier_member:
  assumes "insert_at_frontier fault last_seq did ty blob time log = Inr (seq, log')"
  shows "\<exists>r\<in>set log'. er_seq r = int seq \<and> er_type r = ty \<and> er_event r = blob"
  using assms insert_event_member by (fastforce simp: insert_at_frontier_def Let_def split: sum.splits seq_db_error.splits option.splits)

text \<open>
  C35: A replayed event is the broadcast one. Whatever event is emitted, its row decodes to the event
  that was broadcast, less the record values that are not on the wire; and since the checks before the
  insertion make the frame encodable, the live and the replayed frame exist and are the same bytes.
\<close>

theorem replayed_frame_is_live_frame:
  assumes "event_codec L" "emit L em new fh = Inr (seq, fh')"
  shows "\<exists>e row bytes. fh_sent fh' = fh_sent fh @ [e] \<and> event_seq e = seq \<and> fh_last_seq fh' = seq \<and>
    row \<in> set (fh_log fh') \<and> er_seq row = int seq \<and>
    decode_stored_event L seq (er_type row) (er_event row) = Inr (without_values e) \<and>
    encode_event L e = Inr (Some bytes) \<and> encode_event L (without_values e) = Inr (Some bytes)"
proof -
  from emit_Inr [OF assms(2)] obtain e did blob log where
    i: "insert_at_frontier (em_fault em) (fh_last_seq fh) did (frame_label e) blob (em_time em) (fh_log fh) = Inr (seq, log)"
    and e: "fh' = fh\<lparr> fh_log := log, fh_last_seq := seq, fh_sent := fh_sent fh @ [e] \<rparr>" "event_seq e = seq"
      "el_put L (event_value e) = Inr blob" "loggable L e" by blast
  from insert_at_frontier_member [OF i] obtain r where
    r: "r \<in> set log" "er_seq r = int seq" "er_type r = frame_label e" "er_event r = blob" by blast
  have "decode_stored_event L seq (er_type r) (er_event r) = Inr (without_values e)"
    using decode_event_value [OF assms(1) e(3)] e(2) r(3,4) by simp
  moreover obtain bytes where "encode_event L e = Inr (Some bytes)" using loggable_encodes [OF assms(1) e(4)] by blast
  ultimately show ?thesis using e r by auto
qed

theorem replayed_frame_is_live_frame_witness:
  "\<exists>seq fh' e row. emit demo_lib \<lparr> em_time = ''t'', em_fault = (\<lambda>_. None) \<rparr> (NewAccount ''did:plc:a'' False (Some ''deactivated''))
     (firehose_new []) = Inr (seq, fh') \<and> row \<in> set (fh_log fh') \<and>
     decode_stored_event demo_lib seq (er_type row) (er_event row) = Inr (without_values e)"
proof -
  have "\<exists>fh'. emit demo_lib \<lparr> em_time = ''t'', em_fault = (\<lambda>_. None) \<rparr> (NewAccount ''did:plc:a'' False (Some ''deactivated''))
     (firehose_new []) = Inr (1, fh')"
    by (simp add: emit_def emit_account_def encode_payload_def demo_lib_def log_and_broadcast_def insert_at_frontier_def
        insert_event_def seq_i64_def firehose_new_def max_seq_def i64_max_def)
  then obtain fh' where "emit demo_lib \<lparr> em_time = ''t'', em_fault = (\<lambda>_. None) \<rparr> (NewAccount ''did:plc:a'' False (Some ''deactivated''))
     (firehose_new []) = Inr (1, fh')" by blast
  from replayed_frame_is_live_frame [OF event_codec_demo this] this show ?thesis by blast
qed

section \<open>Subscribers\<close>

lemma reachable_inv:
  assumes "event_codec L" "sys_run L sys_init acts = Some s" "Cancelled \<notin> set acts"
  shows "log_inv L s" "conn_inv L s"
  using run_inv [OF assms(1) log_inv_init conn_inv_init assms(2,3)] by simp_all

lemma conn_inv_gap_free:
  assumes "log_inv L s" "conn_inv L s"
  shows "gap_free (sy_pruned s) (sy_hist s) (sy_from s) (delivered (sy_out s))"
  using assms open_inv_gap_free [of L s] by (auto simp: conn_inv_def split: option.splits if_splits)

text \<open>
  C2: No gap and no duplicate. In every run in which no staged emission is cancelled between its commit
  and its \<open>finish\<close>, with emissions, sweeps, page reads and restarts interleaved in any way, a subscriber
  is sent events above its cursor in strictly increasing order, each the event made durable under that
  number; an event below the last one sent is missing only if the sweep had pruned it; and replay never
  fails for want of rows.
\<close>

theorem subscriber_misses_only_pruned:
  assumes "event_codec L" "sys_run L sys_init acts = Some s" "Cancelled \<notin> set acts"
  shows "let es = delivered (sy_out s) in
    sorted_wrt (<) (map event_seq es) \<and>
    (\<forall>e\<in>set es. sy_from s < event_seq e \<and> without_values e = without_values (sy_hist s ! (event_seq e - 1))) \<and>
    (\<forall>e\<in>set es. \<forall>q. sy_from s < q \<and> q < event_seq e \<longrightarrow> q \<in> event_seq ` set es \<or> q \<le> sy_pruned s) \<and>
    (\<forall>m. OutError ''InternalError'' m \<notin> set (sy_out s))"
proof -
  note inv = reachable_inv [OF assms]
  from conn_inv_gap_free [OF inv] obtain reached rest where
    c: "covers (sy_pruned s) (sy_hist s) (sy_from s) reached (delivered (sy_out s) @ rest)"
    by (auto simp: gap_free_def)
  have sorted: "sorted_wrt (<) (map event_seq (delivered (sy_out s)))"
    "\<And>e e'. e \<in> set (delivered (sy_out s)) \<Longrightarrow> e' \<in> set rest \<Longrightarrow> event_seq e < event_seq e'"
    using c by (auto simp: covers_def sorted_wrt_append)
  have "q \<in> event_seq ` set (delivered (sy_out s)) \<or> q \<le> sy_pruned s"
    if "e \<in> set (delivered (sy_out s))" "sy_from s < q" "q < event_seq e" for e q
  proof -
    have "event_seq e \<le> reached" using c that(1) by (simp add: covers_def)
    then have "q \<le> reached" using that(3) by simp
    then have "q \<in> event_seq ` set (delivered (sy_out s) @ rest) \<or> q \<le> sy_pruned s"
      using c that(2) by (simp add: covers_def)
    then show ?thesis using sorted(2) [OF that(1)] that(3) by fastforce
  qed
  then show ?thesis
    using c sorted(1) inv(2) by (auto simp: Let_def covers_def conn_inv_def)
qed

text \<open>Runs on the library's simple codec, for the witnesses.\<close>

abbreviation demo_emission :: emission where "demo_emission \<equiv> \<lparr> em_time = ''t'', em_fault = (\<lambda>_. None) \<rparr>"
abbreviation demo_event :: action where "demo_event \<equiv> Emit demo_emission (NewAccount ''a'' True None)"
abbreviation keep_one :: firehose_config where "keep_one \<equiv> \<lparr> log_retention_secs = 0, log_retention_count = 1 \<rparr>"

abbreviation demo_stage :: "sync_input option \<Rightarrow> action" where
  "demo_stage sync \<equiv> StageAndCommit demo_emission demo_emission (StagedAccount ''a'' False None) sync"

abbreviation demo_socket_run :: "action list" where
  "demo_socket_run \<equiv> [demo_event, demo_event, Connect (Some 0) 0, ReadPage, TakePage, SendQueued True]"

lemma demo_socket:
  "case sys_run demo_lib sys_init demo_socket_run of
     None \<Rightarrow> False
   | Some s \<Rightarrow> length (delivered (sy_out s)) = 1 \<and>
       (case sy_conn s of None \<Rightarrow> False | Some c \<Rightarrow> cn_open c \<and> length (fh_sent (sy_fh s)) - cn_rx c \<le> default_capacity)"
  by code_simp

theorem subscriber_misses_only_pruned_witness:
  "\<exists>s. sys_run demo_lib sys_init demo_socket_run = Some s \<and> delivered (sy_out s) \<noteq> [] \<and>
     (\<forall>e\<in>set (delivered (sy_out s)). sy_from s < event_seq e)"
proof -
  obtain s where s: "sys_run demo_lib sys_init demo_socket_run = Some s" "length (delivered (sy_out s)) = 1"
    using demo_socket by (auto split: option.splits simp del: sys_run.simps)
  then have "delivered (sy_out s) \<noteq> []" by auto
  moreover have "\<forall>e\<in>set (delivered (sy_out s)). sy_from s < event_seq e"
    using subscriber_misses_only_pruned [OF event_codec_demo s(1)] by (simp add: Let_def)
  ultimately show ?thesis using s(1) by blast
qed

text \<open>How much is left to send: rows to read, events queued, a page to take, and live events.\<close>

definition backlog :: "sys \<Rightarrow> conn \<Rightarrow> nat" where
  "backlog s c = (length (fh_sent (sy_fh s)) - cn_rx c) +
     (if cn_replay_done c then 0
      else (case cn_reader c of None \<Rightarrow> 0 | Some r \<Rightarrow> 3 * (rd_upper r - rd_after r)) + length (cn_queue c) +
           (case sy_page s of None \<Rightarrow> 2 | Some _ \<Rightarrow> 1))"

lemma hist_loggable:
  assumes "log_inv L s" "e \<in> set (sy_hist s)"
  shows "loggable L e"
proof -
  have "\<exists>rows :: stored_row list. list_all2 (logged L) (sy_hist s) rows" using assms(1) unfolding log_inv_def Let_def log_holds_def by blast
  then show ?thesis using assms(2) by (auto simp: list_all2_conv_all_nth logged_def in_set_conv_nth)
qed

lemma queued_encodes:
  assumes "event_codec L" "log_inv L s" "covers pruned (sy_hist s) k reached es" "e \<in> set es" "reached \<le> length (sy_hist s)"
  shows "\<exists>bytes. encode_event L e = Inr (Some bytes)"
proof -
  let ?i = "event_seq e - 1"
  have e: "?i < length (sy_hist s)" "without_values e = without_values (sy_hist s ! ?i)"
    using assms(3-5) by (fastforce simp: covers_def)+
  have "loggable L (sy_hist s ! ?i)" using hist_loggable [OF assms(2)] e(1) by simp
  from loggable_encodes [OF assms(1) this] show ?thesis using e(2) by (metis encode_without_values)
qed

lemma send_event_ok:
  "encode_event L e = Inr (Some bytes) \<Longrightarrow> send_event L True e c = (c, [OutEvent e])"
  by (simp add: send_event_def)

lemma covers_length:
  assumes "covers pruned hist a b es"
  shows "length es \<le> b - a"
proof -
  have "distinct (map event_seq es)" using assms by (simp add: covers_def strict_sorted_iff)
  moreover have "event_seq ` set es \<subseteq> {a + 1..b}" using assms by (force simp: covers_def)
  ultimately have "length es \<le> card {a + 1..b}"
    by (metis card_mono distinct_card finite_atLeastAtMost length_map list.set_map)
  then show ?thesis by simp
qed

text \<open>One step of the socket brings it closer to having sent everything.\<close>

lemma socket_progress:
  assumes "event_codec L" "log_inv L s" "conn_inv L s" "sy_conn s = Some c" "cn_open c" "0 < backlog s c"
    "length (fh_sent (sy_fh s)) - cn_rx c \<le> default_capacity"
  shows "\<exists>a s' c'. a \<in> {ReadPage, TakePage, SendQueued True, SendLive True} \<and> sys_step L s a = Some s' \<and>
    sy_conn s' = Some c' \<and> cn_open c' \<and> backlog s' c' < backlog s c \<and> sy_fh s' = sy_fh s \<and>
    sy_from s' = sy_from s \<and> sy_pruned s' = sy_pruned s \<and>
    length (fh_sent (sy_fh s')) - cn_rx c' \<le> default_capacity"
proof -
  have o: "open_inv L s c" using assms(3-5) by (simp add: conn_inv_def)
  have l: "fh_last_seq (sy_fh s) \<le> length (sy_hist s)" "map event_seq (sy_hist s) = [1..<length (sy_hist s) + 1]"
    "sy_pruned s \<le> max (sy_boot s) (fh_prune_floor (sy_fh s))" "length (fh_sent (sy_fh s)) \<le> fh_last_seq (sy_fh s)"
    "fh_sent (sy_fh s) = drop (base (sy_fh s)) (take (fh_last_seq (sy_fh s)) (sy_hist s))"
    using assms(2) by (simp_all add: log_inv_def Let_def log_holds_def)
  show ?thesis
  proof (cases "cn_replay_done c")
    case live: True
    let ?e = "fh_sent (sy_fh s) ! cn_rx c"
    have rx: "cn_rx c < length (fh_sent (sy_fh s))" using assms(6) live by (simp add: backlog_def)
    have "?e \<in> set (sy_hist s)" using rx l(5) by (metis in_set_dropD in_set_takeD nth_mem)
    then have "loggable L ?e" by (rule hist_loggable [OF assms(2)])
    from loggable_encodes [OF assms(1) this] obtain bytes where bytes: "encode_event L ?e = Inr (Some bytes)" by blast
    let ?C = "c\<lparr> cn_rx := cn_rx c + 1 \<rparr>"
    let ?S = "s\<lparr> sy_conn := Some ?C, sy_out := sy_out s @ [OutEvent ?e] \<rparr>"
    from bytes have "sys_step L s (SendLive True) = Some ?S"
      using assms(4,5,7) live rx by (simp add: with_conn_def on_live_def recv_def send_event_ok)
    then show ?thesis
      using live rx assms(5,7) by (intro exI [of _ "SendLive True"] exI [of _ ?S] exI [of _ ?C] conjI) (auto simp: backlog_def)
  next
    case False
    then obtain r where r: "cn_reader c = Some r" "reader_inv (sy_pruned s) (sy_boot s) (sy_from s) (fh_last_seq (sy_fh s)) r"
      "base (sy_fh s) + cn_rx c = rd_upper r" "covers (sy_pruned s) (sy_hist s) (sy_from s) (rd_after r) (delivered (sy_out s) @ cn_queue c)"
      "cn_reading c \<longrightarrow> cn_queue c = []" "\<And>p. sy_page s = Some p \<Longrightarrow> cn_reading c"
      "\<And>p. sy_page s = Some p \<Longrightarrow> page_inv L (sy_hist s) (sy_pruned s) (sy_boot s) (fh_prune_floor (sy_fh s)) r p"
      using o by (auto simp: open_inv_def Let_def split: option.splits)
    have up: "rd_after r \<le> length (sy_hist s)" using r(2) l(1) by (simp add: reader_inv_def)
    show ?thesis
    proof (cases "cn_queue c")
      case (Cons e q)
      then have "e \<in> set (delivered (sy_out s) @ cn_queue c)" by simp
      from queued_encodes [OF assms(1,2) r(4) this up] obtain bytes where bytes: "encode_event L e = Inr (Some bytes)" by blast
      let ?C = "c\<lparr> cn_queue := q \<rparr>"
      let ?S = "s\<lparr> sy_conn := Some ?C, sy_out := sy_out s @ [OutEvent e] \<rparr>"
      from bytes have "sys_step L s (SendQueued True) = Some ?S"
        using assms(4,5) False Cons by (simp add: with_conn_def on_queue_def send_event_ok)
      then show ?thesis
        using False assms(5,7) Cons r(1) by (intro exI [of _ "SendQueued True"] exI [of _ ?S] exI [of _ ?C] conjI) (auto simp: backlog_def)
    next
      case Nil
      show ?thesis
      proof (cases "sy_page s")
        case None
        let ?C = "start_read c"
        let ?S = "s\<lparr> sy_conn := Some ?C, sy_page := Some (begin_batch r (fh_log (sy_fh s))) \<rparr>"
        have "sys_step L s ReadPage = Some ?S"
          using assms(4,5) False Nil None r(1) by (auto simp: start_read_def Let_def)
        then show ?thesis
          using False assms(5,7) Nil None r(1)
          by (intro exI [of _ ReadPage] exI [of _ ?S] exI [of _ ?C] conjI) (auto simp: backlog_def start_read_def)
      next
        case (Some p)
        from end_batch_inv [OF assms(1) r(7) [OF Some] r(2) l(1-3)] obtain r' es where b:
          "end_batch L (fh_prune_floor (sy_fh s)) p = (r', Inr es)" "rd_upper r' = rd_upper r"
          "covers (sy_pruned s) (sy_hist s) (rd_after r) (rd_after r') es" "es \<noteq> [] \<longrightarrow> rd_after r < rd_after r'"
          "reader_inv (sy_pruned s) (sy_boot s) (sy_from s) (fh_last_seq (sy_fh s)) r'" by blast
        show ?thesis
        proof (cases es)
          case Nil': Nil
          let ?C = "c\<lparr> cn_reading := False, cn_replay_done := True, cn_reader := None \<rparr>"
          let ?S = "s\<lparr> sy_conn := Some ?C, sy_out := sy_out s @ [], sy_page := None \<rparr>"
          have "sys_step L s TakePage = Some ?S"
            using assms(4,5) Some b(1) Nil' r(6) by (simp add: with_conn_def on_batch_def)
          then show ?thesis
            using False assms(5,7) Some by (intro exI [of _ TakePage] exI [of _ ?S] exI [of _ ?C] conjI) (auto simp: backlog_def)
        next
          case (Cons e es')
          let ?C = "c\<lparr> cn_reading := False, cn_reader := Some r', cn_queue := cn_queue c @ es \<rparr>"
          let ?S = "s\<lparr> sy_conn := Some ?C, sy_out := sy_out s @ [], sy_page := None \<rparr>"
          have step: "sys_step L s TakePage = Some ?S"
            using assms(4,5) Some b(1) Cons r(6) by (simp add: with_conn_def on_batch_def)
          have "length es \<le> rd_after r' - rd_after r" using covers_length [OF b(3)] .
          moreover have "rd_after r < rd_after r'" "rd_after r' \<le> rd_upper r" using b(2,4,5) Cons by (auto simp: reader_inv_def)
          ultimately have "3 * (rd_upper r - rd_after r') + length es + 2 < 3 * (rd_upper r - rd_after r) + 1" 
            using Cons by (cases "length es") auto
          then show ?thesis
            using False assms(5,7) Some r(1) b(2) Nil step by (intro exI [of _ TakePage] exI [of _ ?S] exI [of _ ?C] conjI) (auto simp: backlog_def)
        qed
      qed
    qed
  qed
qed

definition socket_steps :: "action set" where
  "socket_steps = {ReadPage, TakePage, SendQueued True, SendLive True}"

lemma socket_drains_inv:
  assumes "event_codec L" "log_inv L s" "conn_inv L s" "sy_conn s = Some c" "cn_open c"
    "length (fh_sent (sy_fh s)) - cn_rx c \<le> default_capacity"
  shows "\<exists>acts s' c'. set acts \<subseteq> socket_steps \<and> length acts \<le> backlog s c \<and> sys_run L s acts = Some s' \<and>
    sy_conn s' = Some c' \<and> cn_open c' \<and> backlog s' c' = 0 \<and> sy_fh s' = sy_fh s \<and> sy_from s' = sy_from s \<and>
    sy_pruned s' = sy_pruned s \<and> log_inv L s' \<and> conn_inv L s'"
  using assms(2-)
proof (induction "backlog s c" arbitrary: s c rule: less_induct)
  case less
  show ?case
  proof (cases "backlog s c = 0")
    case True
    then show ?thesis using less.prems by (intro exI [of _ "[]"] exI [of _ s] exI [of _ c]) simp
  next
    case False
    then have "0 < backlog s c" by simp
    from socket_progress [OF assms(1) less.prems(1-4) this less.prems(5)] obtain a s1 c1 where
      a: "a \<in> socket_steps" "sys_step L s a = Some s1" "sy_conn s1 = Some c1" "cn_open c1" "backlog s1 c1 < backlog s c"
        "sy_fh s1 = sy_fh s" "sy_from s1 = sy_from s" "sy_pruned s1 = sy_pruned s"
        "length (fh_sent (sy_fh s1)) - cn_rx c1 \<le> default_capacity"
      unfolding socket_steps_def by blast
    have "a \<noteq> Cancelled" using a(1) by (auto simp: socket_steps_def)
    then have inv: "log_inv L s1" "conn_inv L s1"
      using log_inv_step [OF less.prems(1) a(2)] conn_inv_step [OF assms(1) less.prems(2,1) a(2)] by auto
    from less.hyps [OF a(5) inv a(3,4,9)] obtain acts s' c' where
      "set acts \<subseteq> socket_steps" "length acts \<le> backlog s1 c1" "sys_run L s1 acts = Some s'"
      "sy_conn s' = Some c' \<and> cn_open c' \<and> backlog s' c' = 0 \<and> sy_fh s' = sy_fh s1 \<and> sy_from s' = sy_from s1 \<and>
       sy_pruned s' = sy_pruned s1 \<and> log_inv L s' \<and> conn_inv L s'" by blast
    then show ?thesis
      using a by (intro exI [of _ "a # acts"] exI [of _ s'] exI [of _ c']) auto
  qed
qed

text \<open>
  C33: Replay ends and the subscriber catches up. From any state reached without a cancellation, an open
  socket whose receiver has not lagged needs at most \<open>backlog\<close> steps of its own, page reads and
  successful sends, to be live with everything up to the frontier sent to it, except what was pruned.
\<close>

theorem subscriber_catches_up:
  assumes "event_codec L" "sys_run L sys_init acts = Some s" "Cancelled \<notin> set acts" "sy_conn s = Some c" "cn_open c"
    "length (fh_sent (sy_fh s)) - cn_rx c \<le> default_capacity"
  shows "\<exists>acts' s' c'. set acts' \<subseteq> socket_steps \<and> length acts' \<le> backlog s c \<and> sys_run L s acts' = Some s' \<and>
    sy_conn s' = Some c' \<and> cn_open c' \<and> cn_replay_done c' \<and>
    (\<forall>q. sy_from s < q \<and> q \<le> fh_last_seq (sy_fh s) \<longrightarrow>
       q \<in> event_seq ` set (delivered (sy_out s')) \<or> q \<le> sy_pruned s)"
proof -
  from socket_drains_inv [OF assms(1) reachable_inv [OF assms(1-3)] assms(4-6)] obtain acts' s' c' where
    r: "set acts' \<subseteq> socket_steps" "length acts' \<le> backlog s c" "sys_run L s acts' = Some s'"
      "sy_conn s' = Some c'" "cn_open c'" "backlog s' c' = 0" "sy_fh s' = sy_fh s" "sy_from s' = sy_from s"
      "sy_pruned s' = sy_pruned s" "log_inv L s'" "conn_inv L s'" by blast
  have live: "cn_replay_done c'" using r(6) by (auto simp: backlog_def split: if_splits option.splits)
  have o: "open_inv L s' c'" using r(4,5,11) by (simp add: conn_inv_def)
  have "cn_rx c' = length (fh_sent (sy_fh s))"
    using o r(6,7) live by (simp add: open_inv_def Let_def backlog_def)
  moreover have "length (fh_sent (sy_fh s)) \<le> fh_last_seq (sy_fh s)" using r(7,10) by (simp add: log_inv_def Let_def)
  ultimately have "covers (sy_pruned s) (sy_hist s') (sy_from s) (fh_last_seq (sy_fh s)) (delivered (sy_out s'))"
    using o live r(7-9) by (simp add: open_inv_def Let_def base_def)
  then have all: "\<forall>q. sy_from s < q \<and> q \<le> fh_last_seq (sy_fh s) \<longrightarrow>
      q \<in> event_seq ` set (delivered (sy_out s')) \<or> q \<le> sy_pruned s" by (simp add: covers_def)
  show ?thesis
    by (rule exI [of _ acts'], rule exI [of _ s'], rule exI [of _ c'], intro conjI) (fact r(1-5) live all)+
qed

theorem subscriber_catches_up_witness:
  "\<exists>s acts s'. sys_run demo_lib sys_init demo_socket_run = Some s \<and> sys_run demo_lib s acts = Some s' \<and>
     (\<exists>c'. sy_conn s' = Some c' \<and> cn_replay_done c')"
proof -
  obtain s c where s: "sys_run demo_lib sys_init demo_socket_run = Some s" "sy_conn s = Some c" "cn_open c"
      "length (fh_sent (sy_fh s)) - cn_rx c \<le> default_capacity"
    using demo_socket by (auto split: option.splits simp del: sys_run.simps)
  have "Cancelled \<notin> set demo_socket_run" by simp
  from subscriber_catches_up [OF event_codec_demo s(1) this s(2-4)] s(1) show ?thesis by blast
qed

section \<open>Retention\<close>

lemma age_watermark:
  assumes "log_holds L pruned hist log" "gc_age_watermark now cfg (length hist) log = Inr a" "hist \<noteq> []"
  shows "a \<le> length hist \<and> (log_retention_secs cfg = 0 \<longrightarrow> a = 0) \<and>
    (0 < log_retention_secs cfg \<longrightarrow> (\<exists>c. gc_cutoff now (log_retention_secs cfg) = Some c \<and>
       (\<forall>r\<in>set log. er_seq r \<le> int a \<longrightarrow> \<not> c \<le> sr_at r) \<and>
       (a < length hist \<longrightarrow> (\<exists>r\<in>set log. er_seq r = int a + 1 \<and> c \<le> sr_at r))))"
proof (cases "log_retention_secs cfg = 0")
  case True
  then show ?thesis using assms(2) by (simp add: gc_age_watermark_def)
next
  case False
  then obtain c where c: "gc_cutoff now (log_retention_secs cfg) = Some c"
    using assms(2) by (auto simp: gc_age_watermark_def split: option.splits)
  let ?kept = "map er_seq (filter (\<lambda>r. c \<le> sr_at r) log)"
  show ?thesis
  proof (cases ?kept)
    case Nil
    then have "a = length hist" using assms(2) c False by (simp add: gc_age_watermark_def retained_boundary_seq_def)
    moreover have "\<forall>r\<in>set log. \<not> c \<le> sr_at r" using Nil by (simp add: filter_empty_conv)
    ultimately show ?thesis using c False by simp
  next
    case (Cons q qs)
    let ?m = "foldr min qs q"
    have m: "?m = Min (set ?kept)" unfolding Cons
      by (induction qs) (simp_all add: insert_commute Min_insert)
    have "?m \<in> set ?kept" unfolding m by (rule Min_in) (simp_all add: Cons del: set_map set_filter)
    then obtain r where r: "r \<in> set log" "c \<le> sr_at r" "er_seq r = ?m" by auto
    have low: "?m \<le> er_seq x" if "x \<in> set log" "c \<le> sr_at x" for x
      unfolding m using that by (intro Min_le) auto
    have bnd: "0 < ?m" "?m \<le> int (length hist)" using log_holds_member [OF assms(1) r(1)] r(3) by auto
    then have "a = nat ?m - 1"
      using assms(2) c False Cons by (simp add: gc_age_watermark_def retained_boundary_seq_def Let_def)
    then have a: "int a + 1 = ?m" using bnd by simp
    have "\<forall>x\<in>set log. er_seq x \<le> int a \<longrightarrow> \<not> c \<le> sr_at x" using low a by fastforce
    then show ?thesis using c False r a bnd by auto
  qed
qed

lemma distinct_map_int: "distinct (map er_seq log)" if "map er_seq log = map int [a..<b]" for log :: repo_seq
  unfolding that by (simp add: distinct_map)

text \<open>A pass that does not fail deletes a prefix, up to the watermark it computed.\<close>

lemma sweep_prefix:
  assumes "log_holds L pruned hist (fh_log fh)" "gc_sweep now cfg fh = (fh', stats)" "\<not> gs_failed stats" "hist \<noteq> []"
    "0 < log_retention_secs cfg \<or> 0 < log_retention_count cfg"
  shows "\<exists>a. gc_age_watermark now cfg (length hist) (fh_log fh) = Inr a \<and>
    (let w = min (if 0 < log_retention_count cfg then max a (length hist - log_retention_count cfg) else a) (length hist - 1)
     in fh_log fh' = filter (\<lambda>r. \<not> er_seq r \<le> int w) (fh_log fh) \<and> w \<le> fh_prune_floor fh')"
proof (cases "gc_age_watermark now cfg (length hist) (fh_log fh)")
  case (Inl st)
  then have "st = gc_failed_pass" by (auto simp: gc_age_watermark_def split: if_splits option.splits sum.splits)
  then show ?thesis
    using assms Inl max_seq_log [OF assms(1)]
    by (auto simp: gc_sweep_def gc_plan_def gc_watermark_def gc_failed_pass_def)
next
  case (Inr a)
  let ?v = "if 0 < log_retention_count cfg then max a (length hist - log_retention_count cfg) else a"
  define w where "w = min ?v (length hist - 1)"
  have keep: "filter (\<lambda>r. \<not> er_seq r \<le> 0) (fh_log fh) = fh_log fh"
    using log_holds_member [OF assms(1)] by (fastforce simp: filter_id_conv)
  have i64: "int w \<le> i64_max" using assms(1) by (auto simp: log_holds_def w_def)
  have plan: "gc_plan now cfg (max_seq (fh_log fh)) (fh_log fh) = (if w = 0 then Inl gc_inert else Inr w)"
    using assms(4,5) Inr max_seq_log [OF assms(1)] by (auto simp: gc_plan_def gc_watermark_def Let_def w_def)
  have "fh_log fh' = filter (\<lambda>r. \<not> er_seq r \<le> int w) (fh_log fh) \<and> w \<le> fh_prune_floor fh'"
  proof (cases "w = 0")
    case True
    then have "fh' = fh" using assms(2) plan by (simp add: gc_sweep_def)
    then show ?thesis using True keep by simp
  next
    case False
    then have "fh' = fst (gc_delete w (note_pruned w fh))" using assms(2) plan by (simp add: gc_sweep_def)
    then show ?thesis using i64 by (simp add: gc_delete_def prune_below_def seq_i64_def note_pruned_def)
  qed
  then show ?thesis using Inr by (simp add: Let_def w_def)
qed

text \<open>Where a pass cuts, and what it says about either side.\<close>

lemma sweep_cut:
  assumes "log_holds L pruned hist (fh_log fh)" "gc_sweep now cfg fh = (fh', stats)" "\<not> gs_failed stats" "hist \<noteq> []"
    "0 < log_retention_secs cfg \<or> 0 < log_retention_count cfg"
  defines "n \<equiv> length hist" and "count \<equiv> log_retention_count cfg"
  shows "\<exists>a w. gc_age_watermark now cfg n (fh_log fh) = Inr a \<and> w < n \<and>
    fh_log fh' = filter (\<lambda>r. \<not> er_seq r \<le> int w) (fh_log fh) \<and> w \<le> fh_prune_floor fh' \<and>
    (w \<le> a \<or> (0 < count \<and> w \<le> n - count)) \<and> (0 < count \<longrightarrow> n - count \<le> w \<or> w = n - 1) \<and> (a \<le> w \<or> w = n - 1)"
proof -
  from sweep_prefix [OF assms(1-5)] obtain a where age: "gc_age_watermark now cfg n (fh_log fh) = Inr a"
    and sw: "let w = min (if 0 < count then max a (n - count) else a) (n - 1)
     in fh_log fh' = filter (\<lambda>r. \<not> er_seq r \<le> int w) (fh_log fh) \<and> w \<le> fh_prune_floor fh'"
    unfolding n_def count_def by blast
  define v where "v = (if 0 < count then max a (n - count) else a)"
  define w where "w = min v (n - 1)"
  have v: "v \<le> a \<or> (0 < count \<and> v \<le> n - count)" "a \<le> v" "0 < count \<longrightarrow> n - count \<le> v"
    by (auto simp: v_def max_def)
  have "0 < n" using assms(4) by (simp add: n_def)
  then have wv: "w \<le> v" "w = v \<or> w = n - 1" "w < n" unfolding w_def by linarith+
  have "fh_log fh' = filter (\<lambda>r. \<not> er_seq r \<le> int w) (fh_log fh) \<and> w \<le> fh_prune_floor fh'"
    using sw by (simp add: Let_def w_def v_def)
  then show ?thesis using age v wv by (intro exI [of _ a] exI [of _ w]) auto
qed

lemma cut_deletes_ripe:
  assumes "log_holds L pruned hist log" "gc_age_watermark now cfg (length hist) log = Inr a" "hist \<noteq> []"
    "r \<in> set log" "er_seq r \<le> int w" "w \<le> a \<or> (0 < log_retention_count cfg \<and> w \<le> length hist - log_retention_count cfg)"
  shows "(0 < log_retention_count cfg \<and> er_seq r + int (log_retention_count cfg) \<le> int (length hist)) \<or>
    (\<exists>c. gc_cutoff now (log_retention_secs cfg) = Some c \<and> \<not> c \<le> sr_at r)"
proof -
  note ag = age_watermark [OF assms(1-3)]
  have "0 < er_seq r" using log_holds_member [OF assms(1,4)] by simp
  from assms(6) show ?thesis
  proof
    assume "w \<le> a"
    then have "er_seq r \<le> int a" "a \<noteq> 0" using assms(5) \<open>0 < er_seq r\<close> by auto
    then show ?thesis using ag assms(4) by auto
  next
    assume "0 < log_retention_count cfg \<and> w \<le> length hist - log_retention_count cfg"
    then show ?thesis using assms(5) \<open>0 < er_seq r\<close> by auto
  qed
qed

lemma cut_keeps_recent:
  assumes "log_holds L pruned hist log" "gc_age_watermark now cfg (length hist) log = Inr a" "hist \<noteq> []"
    "r \<in> set log" "int w < er_seq r" "w < length hist" "a \<le> w \<or> w = length hist - 1"
    "0 < log_retention_secs cfg" "gc_cutoff now (log_retention_secs cfg) = Some c" "\<not> c \<le> sr_at r"
  shows "er_seq r = int (length hist) \<or> (\<exists>r0\<in>set log. er_seq r0 < er_seq r \<and> c \<le> sr_at r0)"
proof (cases "w = length hist - 1")
  case True
  then show ?thesis using log_holds_member [OF assms(1,4)] assms(3,5) by (cases hist) auto
next
  case False
  then have "a < length hist" using assms(6,7) by simp
  then obtain r0 where r0: "r0 \<in> set log" "er_seq r0 = int a + 1" "c \<le> sr_at r0"
    using age_watermark [OF assms(1-3)] assms(8,9) by auto
  have "er_seq r \<noteq> er_seq r0"
  proof
    assume "er_seq r = er_seq r0"
    moreover have "inj_on er_seq (set log)"
      using log_holds_seqs [OF assms(1)] by (metis distinct_map distinct_map_int)
    ultimately show False using r0 assms(4,10) by (metis inj_onD)
  qed
  then have "er_seq r0 < er_seq r" using assms(5,7) r0(2) False by auto
  then show ?thesis using r0 by blast
qed

text \<open>
  C36: Retention. A sweep that does not fail deletes a prefix of the log and announces it in the prune
  floor. It keeps the newest event; it deletes an event only if the count policy or the age policy asks
  for it; under the count policy at most that many events stay (one, for the newest, at least); and an
  event older than the window stays only if it is the newest or lies behind one that is not older.
\<close>

theorem sweep_follows_policies:
  assumes "event_codec L" "sys_run L sys_init acts = Some s" "Cancelled \<notin> set acts" "sy_hist s \<noteq> []"
    "gc_sweep now cfg (sy_fh s) = (fh', stats)" "\<not> gs_failed stats"
    "0 < log_retention_secs cfg \<or> 0 < log_retention_count cfg"
  defines "n \<equiv> length (sy_hist s)" and "log \<equiv> fh_log (sy_fh s)" and "log' \<equiv> fh_log fh'"
  shows "(\<exists>w. log' = filter (\<lambda>r. \<not> er_seq r \<le> int w) log \<and> w \<le> fh_prune_floor fh') \<and>
    (\<exists>r\<in>set log'. er_seq r = int n) \<and>
    (\<forall>r\<in>set log - set log'. (0 < log_retention_count cfg \<and> er_seq r + int (log_retention_count cfg) \<le> int n) \<or>
       (\<exists>c. gc_cutoff now (log_retention_secs cfg) = Some c \<and> \<not> c \<le> sr_at r)) \<and>
    (0 < log_retention_count cfg \<longrightarrow> length log' \<le> log_retention_count cfg) \<and>
    (\<forall>c r. 0 < log_retention_secs cfg \<and> gc_cutoff now (log_retention_secs cfg) = Some c \<and> r \<in> set log' \<and> \<not> c \<le> sr_at r \<longrightarrow>
       er_seq r = int n \<or> (\<exists>r0\<in>set log. er_seq r0 < er_seq r \<and> c \<le> sr_at r0))"
proof -
  have h: "log_holds L (sy_pruned s) (sy_hist s) log"
    using reachable_inv(1) [OF assms(1-3)] by (simp add: log_inv_def Let_def log_def)
  from sweep_cut [OF h [unfolded log_def] assms(5,6,4,7), folded n_def log_def log'_def] obtain a w where
    age: "gc_age_watermark now cfg n log = Inr a" and w: "w < n" "w \<le> fh_prune_floor fh'"
      "log' = filter (\<lambda>r. \<not> er_seq r \<le> int w) log" "a \<le> w \<or> w = n - 1"
      "w \<le> a \<or> (0 < log_retention_count cfg \<and> w \<le> n - log_retention_count cfg)"
      "0 < log_retention_count cfg \<longrightarrow> n - log_retention_count cfg \<le> w \<or> w = n - 1"
    by (elim exE conjE) (rule that)
  have h': "log_holds L (max (sy_pruned s) w) (sy_hist s) log'"
    using log_holds_prune [OF h, of w] w(1) by (simp add: w(3) n_def)
  have "max (sy_pruned s) w < n" using h w(1) assms(4) by (auto simp: log_holds_def n_def)
  then have "int n \<in> er_seq ` set log'" unfolding log_holds_set [OF h'] n_def by (intro imageI) (simp add: Suc_le_eq)
  then have newest: "\<exists>r\<in>set log'. er_seq r = int n" by auto
  have count: "0 < log_retention_count cfg \<longrightarrow> length log' \<le> log_retention_count cfg"
    using log_holds_length [OF h'] w(1,6) by (auto simp: n_def)
  note ripe = cut_deletes_ripe [OF h age [unfolded n_def] assms(4) _ _ w(5) [unfolded n_def], folded n_def]
  note recent = cut_keeps_recent [OF h age [unfolded n_def] assms(4) _ _ w(1,4) [unfolded n_def], folded n_def]
  have "(0 < log_retention_count cfg \<and> er_seq r + int (log_retention_count cfg) \<le> int n) \<or>
       (\<exists>c. gc_cutoff now (log_retention_secs cfg) = Some c \<and> \<not> c \<le> sr_at r)" if "r \<in> set log - set log'" for r
    using that by (intro ripe) (auto simp: w(3))
  moreover have "er_seq r = int n \<or> (\<exists>r0\<in>set log. er_seq r0 < er_seq r \<and> c \<le> sr_at r0)"
    if "0 < log_retention_secs cfg" "gc_cutoff now (log_retention_secs cfg) = Some c" "r \<in> set log'" "\<not> c \<le> sr_at r" for c r
    using that by (intro recent) (auto simp: w(3))
  ultimately show ?thesis using w(2,3) newest count by blast
qed

theorem sweep_follows_policies_witness:
  "\<exists>s fh' stats. sys_run demo_lib sys_init [demo_event, demo_event, demo_event] = Some s \<and>
     gc_sweep (\<lambda>_. None) keep_one (sy_fh s) = (fh', stats) \<and> length (fh_log fh') \<le> 1"
proof -
  have run: "case sys_run demo_lib sys_init [demo_event, demo_event, demo_event] of
      None \<Rightarrow> False
    | Some s \<Rightarrow> length (sy_hist s) = 3 \<and> \<not> gs_failed (snd (gc_sweep (\<lambda>_. None) keep_one (sy_fh s)))" by code_simp
  then obtain s where s: "sys_run demo_lib sys_init [demo_event, demo_event, demo_event] = Some s" "length (sy_hist s) = 3"
      "\<not> gs_failed (snd (gc_sweep (\<lambda>_. None) keep_one (sy_fh s)))"
    by (auto split: option.splits simp del: sys_run.simps)
  obtain fh' stats where sw: "gc_sweep (\<lambda>_. None) keep_one (sy_fh s) = (fh', stats)" by fastforce
  have "length (fh_log fh') \<le> 1"
    using sweep_follows_policies [OF event_codec_demo s(1) _ _ sw] s(2,3) sw by fastforce
  then show ?thesis using s(1) sw by blast
qed

section \<open>The log\<close>

text \<open>
  C34: The durable log is a dense suffix. In every run without a cancelled emission its numbers are
  consecutive and end with the newest event, which is never pruned; every row decodes to the event made
  durable under its number; the counter equals the newest number whenever no staged emission is
  unfinished, and what the live channel was sent since the start carries consecutive numbers, in order.
\<close>

theorem log_is_dense_suffix:
  assumes "event_codec L" "sys_run L sys_init acts = Some s" "Cancelled \<notin> set acts"
  defines "n \<equiv> length (sy_hist s)" and "fh \<equiv> sy_fh s"
  shows "map er_seq (fh_log fh) = map int [sy_pruned s + 1..<n + 1] \<and> (n = 0 \<or> sy_pruned s < n) \<and>
    (\<forall>r\<in>set (fh_log fh). \<exists>e\<in>set (sy_hist s). er_seq r = int (event_seq e) \<and>
       decode_stored_event L (event_seq e) (er_type r) (er_event r) = Inr (without_values e)) \<and>
    (sy_pending s = None \<longrightarrow> fh_last_seq fh = n) \<and>
    map event_seq (fh_sent fh) = [base fh + 1..<fh_last_seq fh + 1]"
proof -
  have inv: "log_inv L s" by (rule reachable_inv(1) [OF assms(1-3)])
  then have h: "log_holds L (sy_pruned s) (sy_hist s) (fh_log fh)" by (simp add: log_inv_def Let_def fh_def)
  have "\<exists>e\<in>set (sy_hist s). er_seq r = int (event_seq e) \<and>
      decode_stored_event L (event_seq e) (er_type r) (er_event r) = Inr (without_values e)" if r: "r \<in> set (fh_log fh)" for r
  proof -
    obtain i where i: "i < length (fh_log fh)" "r = fh_log fh ! i" using r by (auto simp: in_set_conv_nth)
    let ?e = "sy_hist s ! (sy_pruned s + i)"
    have "logged L ?e r" using log_holds_row(1) [OF h i(1)] i(2) by simp
    moreover have "?e \<in> set (sy_hist s)" using i(1) log_holds_length [OF h] by simp
    ultimately show ?thesis using decode_event_value [OF assms(1), of ?e "er_event r"] by (auto simp: logged_def)
  qed
  moreover have "map event_seq (fh_sent fh) = [base fh + 1..<fh_last_seq fh + 1]"
  proof -
    have s: "fh_sent fh = drop (base fh) (take (fh_last_seq fh) (sy_hist s))" "fh_last_seq fh \<le> n" "base fh \<le> fh_last_seq fh"
      using inv by (simp_all add: log_inv_def Let_def fh_def n_def base_def)
    have "map event_seq (sy_hist s) = [1..<n + 1]" using h by (simp add: log_holds_def n_def del: upt_Suc)
    then have "map event_seq (fh_sent fh) = drop (base fh) (take (fh_last_seq fh) [1..<n + 1])"
      by (simp only: s(1) drop_map [symmetric] take_map [symmetric])
    also have "\<dots> = [base fh + 1..<fh_last_seq fh + 1]" using s by (simp add: take_upt del: upt_Suc)
    finally show ?thesis .
  qed
  moreover have "n = 0 \<or> sy_pruned s < n" using h by (auto simp: log_holds_def n_def)
  ultimately show ?thesis
    using log_holds_seqs [OF h] log_inv_idle [OF inv] by (simp add: n_def fh_def del: upt_Suc)
qed

theorem log_is_dense_suffix_witness:
  "\<exists>s. sys_run demo_lib sys_init demo_socket_run = Some s \<and>
     map er_seq (fh_log (sy_fh s)) = map int [sy_pruned s + 1..<length (sy_hist s) + 1]"
proof -
  obtain s where s: "sys_run demo_lib sys_init demo_socket_run = Some s"
    using demo_socket by (auto split: option.splits simp del: sys_run.simps)
  then show ?thesis using log_is_dense_suffix [OF event_codec_demo s] by (simp del: upt_Suc sys_run.simps)
qed

section \<open>Cancelled emissions\<close>

lemma emit_heals:
  assumes "log_holds L pruned hist (fh_log fh)" "fh_last_seq fh + 1 = length hist" "emit L em new fh = Inr (seq, fh')"
  shows "\<exists>e log. event_seq e = length hist + 1 \<and> loggable L e \<and>
    fh' = fh\<lparr> fh_log := log, fh_last_seq := length hist + 1, fh_sent := fh_sent fh @ [e] \<rparr> \<and> set (fh_log fh) \<subseteq> set log"
proof -
  from emit_Inr [OF assms(3)] obtain e did blob log where
    i: "insert_at_frontier (em_fault em) (fh_last_seq fh) did (frame_label e) blob (em_time em) (fh_log fh) = Inr (seq, log)"
    and e: "fh' = fh\<lparr> fh_log := log, fh_last_seq := seq, fh_sent := fh_sent fh @ [e] \<rparr>" "event_seq e = seq" "loggable L e"
    by blast
  have "pruned < length hist" using assms(1,2) by (auto simp: log_holds_def)
  then have "int (length hist) \<in> er_seq ` set (fh_log fh)"
    unfolding log_holds_set [OF assms(1)] by (intro imageI) simp
  then have taken: "insert_event (em_fault em 0) (length hist) did (frame_label e) blob (em_time em) (fh_log fh) = Inl SeqUnique \<or>
      (\<exists>m. insert_event (em_fault em 0) (length hist) did (frame_label e) blob (em_time em) (fh_log fh) = Inl m \<and> m \<noteq> SeqUnique)"
    by (auto simp: insert_event_def seq_i64_def split: option.split)
  have "seq = length hist + 1 \<and>
      insert_event (em_fault em 2) (length hist + 1) did (frame_label e) blob (em_time em) (fh_log fh) = Inr log"
    using i taken assms(2) max_seq_log [OF assms(1)]
    by (auto simp: insert_at_frontier_def Let_def split: sum.splits seq_db_error.splits option.splits)
  moreover from this have "set (fh_log fh) \<subseteq> set log"
    by (auto simp: insert_event_def seq_i64_def set_insort_key split: if_splits option.splits)
  ultimately show ?thesis using e by auto
qed

text \<open>
  C37: A cancelled emission is skipped. When the task of a staged emission is dropped after its
  transaction committed and before \<open>finish\<close>, its event is durable and not pruned, but a subscriber that
  attaches then, even one that asks for replay from any earlier cursor, is given the next event with
  nothing in between: the skipped number lies above its replay range and below its live stream, and its
  next cursor is beyond it.
\<close>

theorem cancelled_emission_is_skipped:
  assumes "event_codec L" "sys_run L sys_init acts = Some s" "Cancelled \<notin> set acts"
    "sy_pending s = Some p" "pending_events p = [lost]"
    "sys_run L s [Cancelled, Connect None now, Emit em new, SendLive True] = Some s'"
    "sy_hist s' \<noteq> sy_hist s"
  shows "\<exists>e. delivered (sy_out s') = [e] \<and> sy_from s' < event_seq lost \<and> event_seq lost < event_seq e \<and>
    lost \<in> set (sy_hist s) \<and> sy_pruned s' < event_seq lost \<and> (\<exists>r\<in>set (fh_log (sy_fh s')). er_seq r = int (event_seq lost)) \<and>
    (\<forall>c. c \<le> sy_from s' \<longrightarrow> subscribe_from (Some c) (sy_fh s) =
       Subscribed (Some (replay_reader_new c (sy_from s'))) (length (fh_sent (sy_fh s))))"
proof -
  have inv: "log_inv L s" by (rule reachable_inv(1) [OF assms(1-3)])
  let ?fh = "sy_fh s" and ?hist = "sy_hist s"
  have h: "log_holds L (sy_pruned s) ?hist (fh_log ?fh)" and d: "drop (fh_last_seq ?fh) ?hist = [lost]"
    and len: "fh_last_seq ?fh \<le> length ?hist" "length (fh_sent ?fh) \<le> fh_last_seq ?fh"
    using inv assms(4,5) by (simp_all add: log_inv_def Let_def)
  have n: "fh_last_seq ?fh + 1 = length ?hist" using d len(1) by (metis length_drop One_nat_def length_Cons list.size(3) le_add_diff_inverse add.commute)
  have lost: "lost = ?hist ! fh_last_seq ?fh" using nth_via_drop [OF d] by simp
  have seq: "event_seq lost = length ?hist"
    using lost log_holds_seq [of ?hist "fh_last_seq ?fh"] h n by (simp add: log_holds_def del: upt_Suc)
  let ?c = "\<lparr> cn_reader = None, cn_reading = False, cn_queue = [], cn_replay_done = True, cn_rx = length (fh_sent ?fh),
             cn_last_seen = now, cn_open = True \<rparr>"
  let ?s2 = "s\<lparr> sy_pending := None, sy_conn := Some ?c, sy_page := None, sy_out := [], sy_from := fh_last_seq ?fh \<rparr>"
  have run: "sys_run L ?s2 [Emit em new, SendLive True] = Some s'"
    using assms(4,6) by (simp add: open_conn_def subscribe_from_def Let_def)
  show ?thesis
  proof (cases "emit L em new ?fh")
    case (Inl e)
    then have "sys_step L ?s2 (SendLive True) = Some s'" using run by (simp split: option.splits)
    then show ?thesis by (simp add: with_conn_def on_live_def recv_def default_capacity_def)
  next
    case (Inr q)
    obtain sq fh' where q: "q = (sq, fh')" by (cases q)
    from emit_heals [OF h n Inr [unfolded q]] obtain e log where
      e: "event_seq e = length ?hist + 1" "loggable L e"
        "fh' = ?fh\<lparr> fh_log := log, fh_last_seq := length ?hist + 1, fh_sent := fh_sent ?fh @ [e] \<rparr>" "set (fh_log ?fh) \<subseteq> set log"
      by blast
    from loggable_encodes [OF assms(1) e(2)] obtain bytes where bytes: "encode_event L e = Inr (Some bytes)" by blast
    have s': "s' = ?s2\<lparr> sy_fh := fh', sy_hist := ?hist @ [e], sy_conn := Some (?c\<lparr> cn_rx := length (fh_sent ?fh) + 1 \<rparr>), sy_out := [OutEvent e] \<rparr>"
      using run Inr q e(3) send_event_ok [OF bytes]
      by (simp add: with_conn_def on_live_def recv_def default_capacity_def)
    have pr: "sy_pruned s < length ?hist" using h n by (auto simp: log_holds_def)
    then have "int (length ?hist) \<in> er_seq ` set (fh_log ?fh)" unfolding log_holds_set [OF h] by (intro imageI) simp
    then have row: "\<exists>r\<in>set log. er_seq r = int (length ?hist)" using e(4) by auto
    have "lost \<in> set ?hist" using lost n by simp
    then show ?thesis
      using e(1,3) seq n pr row unfolding s' by (auto simp: subscribe_from_def Let_def)
  qed
qed

theorem cancelled_emission_is_skipped_witness:
  "\<exists>s s' lost. sys_run demo_lib sys_init [demo_event, demo_stage None] = Some s \<and>
     sys_run demo_lib s [Cancelled, Connect None 0, Emit demo_emission (NewAccount ''a'' True None), SendLive True] = Some s' \<and>
     lost \<in> set (sy_hist s) \<and> (\<exists>e. delivered (sy_out s') = [e] \<and> sy_from s' < event_seq lost \<and> event_seq lost < event_seq e)"
proof -
  have "case sys_run demo_lib sys_init [demo_event, demo_stage None] of
      None \<Rightarrow> False
    | Some s \<Rightarrow> (case sy_pending s of None \<Rightarrow> False | Some p \<Rightarrow> length (pending_events p) = 1) \<and>
       (case sys_run demo_lib s [Cancelled, Connect None 0, Emit demo_emission (NewAccount ''a'' True None), SendLive True] of
          None \<Rightarrow> False | Some s' \<Rightarrow> length (sy_hist s') = length (sy_hist s) + 1)" by code_simp
  then obtain s p s' where s: "sys_run demo_lib sys_init [demo_event, demo_stage None] = Some s" "sy_pending s = Some p"
      "length (pending_events p) = 1" "length (sy_hist s') = length (sy_hist s) + 1"
      "sys_run demo_lib s [Cancelled, Connect None 0, Emit demo_emission (NewAccount ''a'' True None), SendLive True] = Some s'"
    by (auto split: option.splits simp del: sys_run.simps)
  obtain lost where "pending_events p = [lost]" using s(3) by (auto simp: length_Suc_conv)
  moreover have "sy_hist s' \<noteq> sy_hist s" using s(4) by auto
  ultimately show ?thesis using cancelled_emission_is_skipped [OF event_codec_demo s(1) _ s(2) _ s(5)] s(1,5) by fastforce
qed

lemma free_number_is_used:
  assumes "int (n + 1) \<notin> er_seq ` set tx" "insert_at_frontier f n did ty blob time tx = Inr (seq, log)"
  shows "seq = n + 1 \<and> set tx \<subseteq> set log"
proof -
  have "insert_event (f 0) (n + 1) did ty blob time tx \<noteq> Inl SeqUnique"
    using assms(1) by (auto simp: insert_event_def seq_i64_def split: option.splits)
  then have "seq = n + 1" "insert_event (f 0) (n + 1) did ty blob time tx = Inr log"
    using assms(2) by (auto simp: insert_at_frontier_def Let_def split: sum.splits seq_db_error.splits option.splits)
  then show ?thesis by (auto simp: insert_event_def seq_i64_def set_insort_key split: if_splits option.splits)
qed

lemma taken_number_is_refused:
  "int seq \<in> er_seq ` set tx \<Longrightarrow> \<not> is_ok (stage_sync_row L em input seq tx)"
  by (auto simp: stage_sync_row_def insert_event_def seq_i64_def is_ok_iff split: option.splits)

lemma pair_blocked:
  assumes "int (n + 1) \<notin> er_seq ` set tx" "int (n + 2) \<in> er_seq ` set tx"
  shows "\<not> is_ok (stage L em em_sync new (Some input) n tx)"
proof
  assume "is_ok (stage L em em_sync new (Some input) n tx)"
  then obtain q where st: "stage L em em_sync new (Some input) n tx = Inr q" by (auto simp: is_ok_iff)
  have blocked: "\<not> is_ok (stage_sync_row L em_sync input (seq + 1) log)"
    if "insert_at_frontier f n did ty blob time tx = Inr (seq, log)" for f did ty blob time seq log
    using free_number_is_used [OF assms(1) that] assms(2) by (intro taken_number_is_refused) auto
  show False
  proof (cases new)
    case (StagedCommit c)
    with st obtain p log where p: "stage_commit L em n c tx = Inr (p, log)" "is_ok (stage_sync L em_sync p input log)"
      by (auto simp: stage_def is_ok_iff)
    from stage_commit_Inr [OF p(1)] p(2) blocked show False by (fastforce simp: is_ok_iff)
  next
    case (StagedAccount did active status)
    with st obtain p log where p: "stage_account L em n did active status tx = Inr (p, log)" "is_ok (stage_sync L em_sync p input log)"
      by (auto simp: stage_def is_ok_iff)
    from stage_account_Inr [OF p(1)] p(2) blocked show False by (fastforce simp: is_ok_iff)
  qed
qed

text \<open>
  C38: Orphans, retention and staging. When a staged pair is cancelled between its commit and \<open>finish\<close>
  and a sweep then prunes all but the newest row, the counter stands below a number that is free again
  although the next one is taken: the primary of every staged pair reuses the free number without
  healing, and its \<open>#sync\<close> is refused, so that no staging of a pair succeeds in that state.
\<close>

theorem pruned_orphans_block_staging:
  assumes "event_codec L" "sys_run L sys_init acts = Some s" "Cancelled \<notin> set acts"
    "sy_pending s = Some p" "pending_events p = [a, b]"
    "gc_plan now cfg (length (sy_hist s)) (fh_log (sy_fh s)) = Inr (length (sy_hist s) - 1)"
    "sys_run L s [Cancelled, GcReadMax, GcNote now cfg, GcPrune] = Some s'"
  shows "sy_pending s' = None \<and> fh_last_seq (sy_fh s') + 1 = event_seq a \<and>
    \<not> is_ok (stage L em em_sync new (Some input) (fh_last_seq (sy_fh s')) (fh_log (sy_fh s')))"
proof -
  let ?fh = "sy_fh s" and ?hist = "sy_hist s"
  have inv: "log_inv L s" by (rule reachable_inv(1) [OF assms(1-3)])
  then have h: "log_holds L (sy_pruned s) ?hist (fh_log ?fh)" and d: "drop (fh_last_seq ?fh) ?hist = [a, b]"
    and len: "fh_last_seq ?fh \<le> length ?hist"
    using assms(4,5) by (simp_all add: log_inv_def Let_def)
  have n: "length ?hist = fh_last_seq ?fh + 2" using arg_cong [OF d, of length] len by simp
  have "a = ?hist ! fh_last_seq ?fh" using nth_via_drop [OF d] by simp
  then have seq: "event_seq a = fh_last_seq ?fh + 1"
    using log_holds_seq [of ?hist "fh_last_seq ?fh"] h n by (simp add: log_holds_def del: upt_Suc)
  let ?log = "filter (\<lambda>r. \<not> er_seq r \<le> int (fh_last_seq ?fh + 1)) (fh_log ?fh)"
  have i64: "int (length ?hist) \<le> i64_max" using h by (simp add: log_holds_def)
  have s': "sy_pending s' = None" "fh_last_seq (sy_fh s') = fh_last_seq ?fh" "fh_log (sy_fh s') = ?log"
    using assms(4,6,7) n max_seq_log [OF h] i64
    by (auto simp: gc_delete_def prune_below_def seq_i64_def note_pruned_def)
  have "sy_pruned s < length ?hist" using h n by (auto simp: log_holds_def)
  then have "int (length ?hist) \<in> er_seq ` set (fh_log ?fh)" unfolding log_holds_set [OF h] by (intro imageI) simp
  then have taken: "int (fh_last_seq ?fh + 2) \<in> er_seq ` set ?log" using n by (force simp: image_iff)
  have free: "int (fh_last_seq ?fh + 1) \<notin> er_seq ` set ?log" by auto
  from pair_blocked [OF free taken] show ?thesis using s' seq by simp
qed

theorem pruned_orphans_block_staging_witness:
  "\<exists>s s'. sys_run demo_lib sys_init [demo_event, demo_stage (Some \<lparr> sn_did = ''a'', sn_rev = ''r'', sn_blocks = [1] \<rparr>)] = Some s \<and>
     sys_run demo_lib s [Cancelled, GcReadMax, GcNote (\<lambda>_. None) keep_one, GcPrune] = Some s' \<and>
     \<not> is_ok (stage demo_lib demo_emission demo_emission (StagedAccount ''a'' True None)
         (Some \<lparr> sn_did = ''a'', sn_rev = ''r'', sn_blocks = [1] \<rparr>) (fh_last_seq (sy_fh s')) (fh_log (sy_fh s')))"
proof -
  let ?sync = "\<lparr> sn_did = ''a'', sn_rev = ''r'', sn_blocks = [1] \<rparr>"
  have "case sys_run demo_lib sys_init [demo_event, demo_stage (Some ?sync)] of
      None \<Rightarrow> False
    | Some s \<Rightarrow> (case sy_pending s of None \<Rightarrow> False | Some p \<Rightarrow> length (pending_events p) = 2) \<and>
       gc_plan (\<lambda>_. None) keep_one (length (sy_hist s)) (fh_log (sy_fh s)) = Inr (length (sy_hist s) - 1) \<and>
       sys_run demo_lib s [Cancelled, GcReadMax, GcNote (\<lambda>_. None) keep_one, GcPrune] \<noteq> None" by code_simp
  then obtain s p s' where s: "sys_run demo_lib sys_init [demo_event, demo_stage (Some ?sync)] = Some s" "sy_pending s = Some p"
      "length (pending_events p) = 2"
      "gc_plan (\<lambda>_. None) keep_one (length (sy_hist s)) (fh_log (sy_fh s)) = Inr (length (sy_hist s) - 1)"
      "sys_run demo_lib s [Cancelled, GcReadMax, GcNote (\<lambda>_. None) keep_one, GcPrune] = Some s'"
    by (auto split: option.splits simp del: sys_run.simps)
  obtain a b where "pending_events p = [a, b]" using s(3) by (auto simp: length_Suc_conv numeral_2_eq_2)
  from pruned_orphans_block_staging [OF event_codec_demo s(1) _ s(2) this s(4,5)] s(1,5) show ?thesis by fastforce
qed

end
