(* ===== verification/Lexicon_Schema.thy ===== *)
theory Lexicon_Schema
  imports Formats
begin

text \<open>
  The lexicon documents: the typed model and the strict parser of
  \<open>crates/custos-core/src/lexicon/schema.rs\<close>. The JSON text is parsed by serde, a parameter, into the
  order-preserving value the parser works on. Strings are their UTF-8 bytes; \<open>{:?}\<close> of a string, the
  number of its grapheme clusters and the text of a JSON value are parameters too.
\<close>

section \<open>Values and schemas\<close>

datatype ordered =
    ONull
  | OBool bool
  | ONumber json_number
  | OString str
  | OArray "ordered list"
  | OObject "(str \<times> ordered) list"

record 'cid lex_lib =
  lx_json :: "str \<Rightarrow> str + ordered"
  lx_debug :: "str \<Rightarrow> str"
  lx_graphemes :: "str \<Rightarrow> nat"
  lx_cid :: "str \<Rightarrow> str + 'cid"
  lx_year :: "str \<Rightarrow> int option"
  lx_show :: "json \<Rightarrow> str"
  lx_body :: "str \<Rightarrow> str + json"
  lx_url_decode :: "str \<Rightarrow> str option"

primrec type_name :: "ordered \<Rightarrow> str" where
  "type_name ONull = ''null''"
| "type_name (OBool b) = ''boolean''"
| "type_name (ONumber n) = ''number''"
| "type_name (OString s) = ''string''"
| "type_name (OArray xs) = ''array''"
| "type_name (OObject m) = ''object''"

datatype 's lex_object =
  LexObject (lo_required: "str list") (lo_nullable: "str list") (lo_properties: "(str \<times> 's) list")

record lex_string =
  ls_format :: "string_format option"
  ls_min_length :: "nat option"
  ls_max_length :: "nat option"
  ls_max_graphemes :: "nat option"
  ls_enum_values :: "str list"
  ls_has_default :: bool

record lex_integer =
  li_minimum :: "int option"
  li_maximum :: "int option"
  li_enum_values :: "int list"
  li_has_default :: bool

datatype lex_schema =
    LObject "lex_schema lex_object"
  | LString lex_string
  | LBoolean "bool option" bool
  | LInteger lex_integer
  | LUnknown
  | LBlob
  | LBytes
  | LToken
  | LArray lex_schema "nat option" "nat option"
  | LRef str
  | LUnion "str list" bool

definition has_default :: "lex_schema \<Rightarrow> bool" where
  "has_default s = (case s of
     LInteger i \<Rightarrow> li_has_default i | LString t \<Rightarrow> ls_has_default t | LBoolean c d \<Rightarrow> d | _ \<Rightarrow> False)"

record lex_body =
  lb_encoding :: str
  lb_schema :: "lex_schema option"

record lex_procedure =
  lp_input :: "lex_body option"
  lp_output :: "lex_body option"
  lp_parameters :: "lex_schema lex_object option"

record lex_query =
  lq_parameters :: "lex_schema lex_object option"
  lq_output :: "lex_body option"

record lex_record =
  lr_key :: str
  lr_record :: lex_schema

datatype lex_def = LexProcedure lex_procedure | LexQuery lex_query | LexRecord lex_record | LexSchema lex_schema

record lexicon_doc =
  ld_id :: str
  ld_defs :: "(str \<times> lex_def) list"

definition string_format_parse :: "str \<Rightarrow> string_format option" where
  "string_format_parse s = map_of
     [(''at-identifier'', FAtIdentifier), (''at-uri'', FAtUri), (''cid'', FCid), (''datetime'', FDatetime),
      (''did'', FDid), (''handle'', FHandle), (''language'', FLanguage), (''nsid'', FNsid),
      (''record-key'', FRecordKey), (''space-ref'', FSpaceRef), (''tid'', FTid), (''uri'', FUri)] s"

section \<open>Nodes\<close>

record lex_node =
  nd_entries :: "(str \<times> ordered) list"
  nd_context :: str

definition node_from :: "ordered \<Rightarrow> str \<Rightarrow> str + lex_node" where
  "node_from v context = (case v of
     OObject entries \<Rightarrow> Inr \<lparr> nd_entries = entries, nd_context = context \<rparr>
   | other \<Rightarrow> Inl (context @ '': expected an object, got '' @ type_name other))"

definition quoted :: "str \<Rightarrow> str" where "quoted s = CHR 0x22 # s @ [CHR 0x22]"

fun unsupported_key :: "str list \<Rightarrow> (str \<times> ordered) list \<Rightarrow> str option" where
  "unsupported_key allowed [] = None"
| "unsupported_key allowed ((key, _) # es) = (if key \<in> set allowed then unsupported_key allowed es else Some key)"

definition check_keys :: "'cid lex_lib \<Rightarrow> str list \<Rightarrow> lex_node \<Rightarrow> str + unit" where
  "check_keys L allowed nd = (case unsupported_key allowed (nd_entries nd) of
     None \<Rightarrow> Inr ()
   | Some key \<Rightarrow> Inl (nd_context nd @ '': unsupported key '' @ lx_debug L key @
       '' (the validator does not implement it; extend crates/custos-core/src/lexicon before vendoring this document)''))"

definition node_get :: "lex_node \<Rightarrow> str \<Rightarrow> ordered option" where
  "node_get nd key = map_of (nd_entries nd) key"

definition node_string :: "lex_node \<Rightarrow> str \<Rightarrow> str + str option" where
  "node_string nd key = (case node_get nd key of
     None \<Rightarrow> Inr None
   | Some (OString s) \<Rightarrow> Inr (Some s)
   | Some other \<Rightarrow> Inl (nd_context nd @ '': '' @ key @ '' must be a string, got '' @ type_name other))"

definition required_string :: "'cid lex_lib \<Rightarrow> lex_node \<Rightarrow> str \<Rightarrow> str + str" where
  "required_string L nd key =
     res_bind (node_string nd key) (\<lambda>s. ok_or s (nd_context nd @ '': missing required key '' @ lx_debug L key))"

definition string_entry :: "lex_node \<Rightarrow> str \<Rightarrow> ordered \<Rightarrow> str + str" where
  "string_entry nd key item = (case item of
     OString s \<Rightarrow> Inr s
   | other \<Rightarrow> Inl (nd_context nd @ '': '' @ key @ '' entries must be strings, got '' @ type_name other))"

definition string_array :: "lex_node \<Rightarrow> str \<Rightarrow> str + str list" where
  "string_array nd key = (case node_get nd key of
     None \<Rightarrow> Inr []
   | Some (OArray items) \<Rightarrow> collect_results (string_entry nd key) items
   | Some _ \<Rightarrow> Inl (nd_context nd @ '': '' @ key @ '' must be an array''))"

definition u64_opt :: "lex_node \<Rightarrow> str \<Rightarrow> str + nat option" where
  "u64_opt nd key = (case node_get nd key of
     None \<Rightarrow> Inr None
   | Some (ONumber n) \<Rightarrow>
       ok_or (map_option (\<lambda>u. Some (nat u)) (as_u64 n)) (nd_context nd @ '': '' @ key @ '' must be a non-negative integer'')
   | Some _ \<Rightarrow> Inl (nd_context nd @ '': '' @ key @ '' must be a number''))"

definition i64_opt :: "lex_node \<Rightarrow> str \<Rightarrow> str + int option" where
  "i64_opt nd key = (case node_get nd key of
     None \<Rightarrow> Inr None
   | Some (ONumber n) \<Rightarrow> ok_or (map_option Some (as_i64 n)) (nd_context nd @ '': '' @ key @ '' must be an integer'')
   | Some _ \<Rightarrow> Inl (nd_context nd @ '': '' @ key @ '' must be a number''))"

definition integer_entry :: "lex_node \<Rightarrow> str \<Rightarrow> ordered \<Rightarrow> str + int" where
  "integer_entry nd key item = (case item of
     ONumber n \<Rightarrow> ok_or (as_i64 n) (nd_context nd @ '': '' @ key @ '' entries must be integers'')
   | other \<Rightarrow> Inl (nd_context nd @ '': '' @ key @ '' entries must be integers, got '' @ type_name other))"

definition i64_array :: "lex_node \<Rightarrow> str \<Rightarrow> str + int list" where
  "i64_array nd key = (case node_get nd key of
     None \<Rightarrow> Inr []
   | Some (OArray items) \<Rightarrow> collect_results (integer_entry nd key) items
   | Some _ \<Rightarrow> Inl (nd_context nd @ '': '' @ key @ '' must be an array''))"

definition node_bool :: "lex_node \<Rightarrow> str \<Rightarrow> str \<Rightarrow> str + bool option" where
  "node_bool nd key msg = (case node_get nd key of
     None \<Rightarrow> Inr None | Some (OBool b) \<Rightarrow> Inr (Some b) | Some _ \<Rightarrow> Inl msg)"

section \<open>The parser\<close>

text \<open>The arms of \<open>parse_schema\<close> without sub-schemas.\<close>

definition parse_string :: "'cid lex_lib \<Rightarrow> lex_node \<Rightarrow> str + lex_schema" where
  "parse_string L nd =
     res_bind (check_keys L [''type'', ''description'', ''format'', ''minLength'', ''maxLength'', ''maxGraphemes'',
                            ''knownValues'', ''enum'', ''default''] nd) (\<lambda>_.
     res_bind (res_bind (node_string nd ''format'') (\<lambda>f. case f of
         None \<Rightarrow> Inr None
       | Some name \<Rightarrow> ok_or (map_option Some (string_format_parse name))
           (nd_context nd @ '': unsupported string format '' @ lx_debug L name @
            '' (extend crates/custos-core/src/lexicon/formats.rs before vendoring this document)''))) (\<lambda>format.
     res_bind (u64_opt nd ''minLength'') (\<lambda>min_length.
     res_bind (u64_opt nd ''maxLength'') (\<lambda>max_length.
     res_bind (u64_opt nd ''maxGraphemes'') (\<lambda>max_graphemes.
     res_bind (string_array nd ''enum'') (\<lambda>enum_values.
     Inr (LString \<lparr> ls_format = format, ls_min_length = min_length, ls_max_length = max_length,
       ls_max_graphemes = max_graphemes, ls_enum_values = enum_values,
       ls_has_default = (node_get nd ''default'' \<noteq> None) \<rparr>)))))))"

definition parse_boolean :: "'cid lex_lib \<Rightarrow> lex_node \<Rightarrow> str + lex_schema" where
  "parse_boolean L nd =
     res_bind (check_keys L [''type'', ''description'', ''const'', ''default''] nd) (\<lambda>_.
     res_bind (node_bool nd ''const'' (nd_context nd @ '': const must be a boolean'')) (\<lambda>const_value.
     Inr (LBoolean const_value (node_get nd ''default'' \<noteq> None))))"

definition parse_integer :: "'cid lex_lib \<Rightarrow> lex_node \<Rightarrow> str + lex_schema" where
  "parse_integer L nd =
     res_bind (check_keys L [''type'', ''description'', ''minimum'', ''maximum'', ''enum'', ''default''] nd) (\<lambda>_.
     res_bind (case node_get nd ''default'' of
         None \<Rightarrow> Inr False
       | Some (ONumber n) \<Rightarrow>
           if as_i64 n \<noteq> None \<or> as_u64 n \<noteq> None then Inr True else Inl (nd_context nd @ '': default must be an integer'')
       | Some _ \<Rightarrow> Inl (nd_context nd @ '': default must be an integer'')) (\<lambda>has_default.
     res_bind (i64_opt nd ''minimum'') (\<lambda>minimum.
     res_bind (i64_opt nd ''maximum'') (\<lambda>maximum.
     res_bind (i64_array nd ''enum'') (\<lambda>enum_values.
     Inr (LInteger \<lparr> li_minimum = minimum, li_maximum = maximum, li_enum_values = enum_values,
       li_has_default = has_default \<rparr>))))))"

definition parse_plain :: "'cid lex_lib \<Rightarrow> str list \<Rightarrow> lex_schema \<Rightarrow> lex_node \<Rightarrow> str + lex_schema" where
  "parse_plain L allowed schema nd = res_bind (check_keys L allowed nd) (\<lambda>_. Inr schema)"

definition parse_ref :: "'cid lex_lib \<Rightarrow> lex_node \<Rightarrow> str + lex_schema" where
  "parse_ref L nd =
     res_bind (check_keys L [''type'', ''description'', ''ref''] nd) (\<lambda>_.
     res_bind (required_string L nd ''ref'') (\<lambda>target. Inr (LRef target)))"

definition parse_union :: "'cid lex_lib \<Rightarrow> lex_node \<Rightarrow> str + lex_schema" where
  "parse_union L nd =
     res_bind (check_keys L [''type'', ''description'', ''refs'', ''closed''] nd) (\<lambda>_.
     res_bind (string_array nd ''refs'') (\<lambda>refs.
     if refs = [] then Inl (nd_context nd @ '': union must list at least one ref'')
     else res_bind (node_bool nd ''closed'' (nd_context nd @ '': closed must be a boolean'')) (\<lambda>closed.
       Inr (LUnion refs (closed = Some True)))))"

text \<open>The entries of \<open>properties\<close>, each handed to its parser with its own context.\<close>

definition properties_of :: "str \<Rightarrow> lex_node \<Rightarrow> str + (str \<times> ordered) list" where
  "properties_of context nd = (case node_get nd ''properties'' of
     None \<Rightarrow> Inr []
   | Some (OObject entries) \<Rightarrow> Inr entries
   | Some _ \<Rightarrow> Inl (context @ '': `properties` must be an object''))"

lemma map_of_size: "map_of m k = Some v \<Longrightarrow> size v < size_list (size_prod (\<lambda>_. 0) size) m"
  by (induction m) (auto split: if_splits)

lemma size_entry: "(k, v) \<in> set m \<Longrightarrow> size v < size_list (size_prod (\<lambda>_. 0) size) m"
  by (induction m) auto

lemma node_from_Inr: "node_from v context = Inr nd \<longleftrightarrow> v = OObject (nd_entries nd) \<and> nd_context nd = context"
  by (cases v; cases nd) (auto simp: node_from_def)

lemma node_get_size: "node_from v context = Inr nd \<Longrightarrow> node_get nd k = Some w \<Longrightarrow> size w < size v"
  by (auto simp: node_from_Inr node_get_def dest: map_of_size)

lemma properties_size:
  assumes "properties_of context nd = Inr es" "(k, w) \<in> set es"
  shows "size w < size (OObject (nd_entries nd))"
proof -
  have "node_get nd ''properties'' = Some (OObject es)"
    using assms by (auto simp: properties_of_def split: option.splits ordered.splits)
  then have "size (OObject es) < size (OObject (nd_entries nd))" by (auto simp: node_get_def dest: map_of_size)
  then show ?thesis using size_entry [OF assms(2)] by simp
qed

function (sequential)
  parse_schema :: "'cid lex_lib \<Rightarrow> str \<Rightarrow> ordered \<Rightarrow> str + lex_schema" and
  parse_object :: "'cid lex_lib \<Rightarrow> str \<Rightarrow> lex_node \<Rightarrow> str + lex_schema lex_object" where
  "parse_schema L context value =
     (case node_from value context of
        Inl e \<Rightarrow> Inl e
      | Inr nd \<Rightarrow>
          res_bind (required_string L nd ''type'') (\<lambda>ty.
            if ty = ''object'' then res_bind (parse_object L context nd) (\<lambda>obj. Inr (LObject obj))
            else if ty = ''string'' then parse_string L nd
            else if ty = ''boolean'' then parse_boolean L nd
            else if ty = ''integer'' then parse_integer L nd
            else if ty = ''unknown'' then parse_plain L [''type'', ''description''] LUnknown nd
            else if ty = ''blob'' then parse_plain L [''type'', ''description'', ''accept'', ''maxSize''] LBlob nd
            else if ty = ''bytes'' then parse_plain L [''type'', ''description'', ''minLength'', ''maxLength''] LBytes nd
            else if ty = ''token'' then parse_plain L [''type'', ''description''] LToken nd
            else if ty = ''array'' then
              res_bind (check_keys L [''type'', ''description'', ''items'', ''minLength'', ''maxLength''] nd) (\<lambda>_.
              case node_get nd ''items'' of
                None \<Rightarrow> Inl (context @ '': array is missing `items`'')
              | Some items \<Rightarrow>
                  res_bind (parse_schema L (context @ '' items'') items) (\<lambda>item_schema.
                  res_bind (u64_opt nd ''minLength'') (\<lambda>min_length.
                  res_bind (u64_opt nd ''maxLength'') (\<lambda>max_length.
                  Inr (LArray item_schema min_length max_length)))))
            else if ty = ''ref'' then parse_ref L nd
            else if ty = ''union'' then parse_union L nd
            else Inl (context @ '': unsupported schema type '' @ lx_debug L ty @
              '' (extend crates/custos-core/src/lexicon before vendoring this document)'')))"
| "parse_object L context nd =
     res_bind (check_keys L [''type'', ''description'', ''required'', ''nullable'', ''properties''] nd) (\<lambda>_.
     res_bind (string_array nd ''required'') (\<lambda>required.
     res_bind (string_array nd ''nullable'') (\<lambda>nullable.
     case properties_of context nd of
       Inl e \<Rightarrow> Inl e
     | Inr entries \<Rightarrow>
         res_bind (collect_results (\<lambda>(name, prop_value).
             res_bind (parse_schema L (context @ ''/'' @ name) prop_value) (\<lambda>s. Inr (name, s))) entries)
           (\<lambda>properties. Inr (LexObject required nullable properties)))))"
  by pat_completeness auto

termination
  by (relation "measure (\<lambda>x. case x of Inl (_, _, v) \<Rightarrow> 2 * size v | Inr (_, _, nd) \<Rightarrow> 2 * size (OObject (nd_entries nd)) - 1)")
    (auto simp: node_from_Inr node_get_def dest: map_of_size properties_size)

declare parse_schema.simps [simp del] parse_object.simps [simp del]

definition parse_xrpc_body :: "'cid lex_lib \<Rightarrow> lex_node \<Rightarrow> str \<Rightarrow> str \<Rightarrow> str + lex_body option" where
  "parse_xrpc_body L def key context = (case node_get def key of
     None \<Rightarrow> Inr None
   | Some body_value \<Rightarrow>
       res_bind (node_from body_value (context @ '' '' @ key)) (\<lambda>body.
       res_bind (check_keys L [''encoding'', ''schema'', ''description''] body) (\<lambda>_.
       res_bind (required_string L body ''encoding'') (\<lambda>encoding.
       res_bind (case node_get body ''schema'' of
           None \<Rightarrow> Inr None
         | Some schema_value \<Rightarrow> res_bind (parse_schema L (context @ '' '' @ key @ '' schema'') schema_value) (\<lambda>s. Inr (Some s)))
         (\<lambda>schema. Inr (Some \<lparr> lb_encoding = encoding, lb_schema = schema \<rparr>))))))"

definition is_primitive :: "lex_schema \<Rightarrow> bool" where
  "is_primitive s = (case s of LString _ \<Rightarrow> True | LInteger _ \<Rightarrow> True | LBoolean _ _ \<Rightarrow> True | _ \<Rightarrow> False)"

definition parse_param_property :: "'cid lex_lib \<Rightarrow> ordered \<Rightarrow> str \<Rightarrow> str + lex_schema" where
  "parse_param_property L value context =
     res_bind (node_from value context) (\<lambda>nd.
     res_bind (required_string L nd ''type'') (\<lambda>declared_type.
     if declared_type = ''string'' \<or> declared_type = ''integer'' \<or> declared_type = ''boolean''
     then parse_schema L context value
     else if declared_type = ''array'' then
       res_bind (parse_schema L context value) (\<lambda>schema.
       case schema of
         LArray items _ _ \<Rightarrow>
           if is_primitive items then Inr schema
           else Inl (context @ '': array items in a params object must be string, integer, or '' @
             ''boolean (the validator does not support other param array item types)'')
       | _ \<Rightarrow> Inr schema)
     else Inl (context @ '': unsupported params property type '' @ lx_debug L declared_type @
       '' (the validator only implements string/integer/boolean/array-of-primitive query parameters)'')))"

definition parse_params :: "'cid lex_lib \<Rightarrow> ordered \<Rightarrow> str \<Rightarrow> str + lex_schema lex_object" where
  "parse_params L value context =
     res_bind (node_from value context) (\<lambda>nd.
     res_bind (required_string L nd ''type'') (\<lambda>ty.
     if ty \<noteq> ''params''
     then Inl (context @ '': parameters `type` must be '' @ quoted ''params'' @ '', got '' @ lx_debug L ty)
     else
       res_bind (check_keys L [''type'', ''description'', ''required'', ''properties''] nd) (\<lambda>_.
       res_bind (string_array nd ''required'') (\<lambda>required.
       res_bind (properties_of context nd) (\<lambda>entries.
       res_bind (collect_results (\<lambda>(name, prop_value).
           res_bind (parse_param_property L prop_value (context @ ''/'' @ name)) (\<lambda>s. Inr (name, s))) entries)
         (\<lambda>properties. Inr (LexObject required [] properties)))))))"

definition params_of :: "'cid lex_lib \<Rightarrow> lex_node \<Rightarrow> str \<Rightarrow> str + lex_schema lex_object option" where
  "params_of L nd context = (case node_get nd ''parameters'' of
     None \<Rightarrow> Inr None
   | Some v \<Rightarrow> res_bind (parse_params L v (context @ '' parameters'')) (\<lambda>p. Inr (Some p)))"

definition parse_def :: "'cid lex_lib \<Rightarrow> ordered \<Rightarrow> str \<Rightarrow> str + lex_def" where
  "parse_def L value context =
     res_bind (node_from value context) (\<lambda>nd.
     res_bind (required_string L nd ''type'') (\<lambda>ty.
     if ty = ''procedure'' then
       res_bind (check_keys L [''type'', ''description'', ''parameters'', ''input'', ''output'', ''errors''] nd) (\<lambda>_.
       res_bind (parse_xrpc_body L nd ''input'' context) (\<lambda>inp.
       res_bind (parse_xrpc_body L nd ''output'' context) (\<lambda>outp.
       res_bind (params_of L nd context) (\<lambda>parameters.
       Inr (LexProcedure \<lparr> lp_input = inp, lp_output = outp, lp_parameters = parameters \<rparr>)))))
     else if ty = ''query'' then
       res_bind (check_keys L [''type'', ''description'', ''parameters'', ''output'', ''errors''] nd) (\<lambda>_.
       res_bind (params_of L nd context) (\<lambda>parameters.
       res_bind (parse_xrpc_body L nd ''output'' context) (\<lambda>outp.
       Inr (LexQuery \<lparr> lq_parameters = parameters, lq_output = outp \<rparr>))))
     else if ty = ''record'' then
       res_bind (check_keys L [''type'', ''description'', ''key'', ''record''] nd) (\<lambda>_.
       res_bind (required_string L nd ''key'') (\<lambda>key.
       res_bind (ok_or (node_get nd ''record'') (context @ '': record def is missing `record`'')) (\<lambda>record_value.
       res_bind (parse_schema L (context @ '' record'') record_value) (\<lambda>record_schema.
       case record_schema of
         LObject _ \<Rightarrow> Inr (LexRecord \<lparr> lr_key = key, lr_record = record_schema \<rparr>)
       | _ \<Rightarrow> Inl (context @ '': a record'' @ CHR 0x27 # ''s `record` must be an object'')))))
     else res_bind (parse_schema L context value) (\<lambda>s. Inr (LexSchema s))))"

definition parse_defs :: "'cid lex_lib \<Rightarrow> str \<Rightarrow> ordered \<Rightarrow> str + (str \<times> lex_def) list" where
  "parse_defs L ident defs_value = (case defs_value of
     OObject def_entries \<Rightarrow>
       collect_results (\<lambda>(name, def_value). res_bind (parse_def L def_value (ident @ ''#'' @ name)) (\<lambda>d. Inr (name, d))) def_entries
   | _ \<Rightarrow> Inl (ident @ '': `defs` must be an object''))"

definition parse_doc :: "'cid lex_lib \<Rightarrow> str \<Rightarrow> str + lexicon_doc" where
  "parse_doc L src =
     res_bind (map_err (\<lambda>e. ''lexicon document is not valid JSON: '' @ e) (lx_json L src)) (\<lambda>root.
     res_bind (node_from root ''document'') (\<lambda>doc.
     res_bind (check_keys L [''lexicon'', ''id'', ''description'', ''defs''] doc) (\<lambda>_.
     res_bind (case node_get doc ''lexicon'' of
         Some (ONumber n) \<Rightarrow> if as_u64 n = Some 1 then Inr () else Inl ''document: `lexicon` must be the number 1''
       | _ \<Rightarrow> Inl ''document: `lexicon` must be the number 1'') (\<lambda>_.
     res_bind (required_string L doc ''id'') (\<lambda>ident.
     res_bind (ok_or (node_get doc ''defs'') (ident @ '': missing `defs`'')) (\<lambda>defs_value.
     res_bind (parse_defs L ident defs_value) (\<lambda>defs.
     Inr \<lparr> ld_id = ident, ld_defs = defs \<rparr>)))))))"

end
