(* ===== verification/Lexicon_Validate.thy ===== *)
theory Lexicon_Validate
  imports Lexicon_Schema "HOL-Library.AList"
begin

text \<open>
  The registry over the parsed documents (\<open>crates/custos-core/src/lexicon/mod.rs\<close>) and the schema walker
  (\<open>validate.rs\<close>). A \<open>HashMap\<close> is the list of its entries, whose order the code leaves open. Following a
  \<open>ref\<close> or a union member need not come to an end, so the walkers carry the number of references they
  may follow in a row, and \<open>None\<close> is a walk that needs more.
\<close>

section \<open>Building the registry\<close>

record registry =
  rg_inputs :: "(str \<times> lex_body) list"
  rg_records :: "(str \<times> lex_record) list"
  rg_params :: "(str \<times> lex_schema lex_object) list"
  rg_outputs :: "(str \<times> lex_schema) list"
  rg_defs :: "(str \<times> lex_schema) list"

definition registry_empty :: registry where
  "registry_empty = \<lparr> rg_inputs = [], rg_records = [], rg_params = [], rg_outputs = [], rg_defs = [] \<rparr>"

definition qualify :: "str \<Rightarrow> str \<Rightarrow> str" where
  "qualify base_id reference = (case strip_prefix ''#'' reference of
     Some fragment \<Rightarrow> ''lex:'' @ base_id @ ''#'' @ fragment
   | None \<Rightarrow> if starts_with ''lex:'' reference then reference else ''lex:'' @ reference)"

lemma property_size:
  "(k, p) \<in> set properties \<Longrightarrow> size p < size (LObject (LexObject required nullable properties))"
  by (induction properties) auto

fun qualify_refs :: "str \<Rightarrow> lex_schema \<Rightarrow> lex_schema" where
  "qualify_refs base_id (LObject (LexObject required nullable properties)) =
     LObject (LexObject required nullable (map (\<lambda>(k, p). (k, qualify_refs base_id p)) properties))"
| "qualify_refs base_id (LArray items mn mx) = LArray (qualify_refs base_id items) mn mx"
| "qualify_refs base_id (LRef target) = LRef (qualify base_id target)"
| "qualify_refs base_id (LUnion refs closed) = LUnion (map (qualify base_id) refs) closed"
| "qualify_refs base_id (LString s) = LString s"
| "qualify_refs base_id (LBoolean c d) = LBoolean c d"
| "qualify_refs base_id (LInteger i) = LInteger i"
| "qualify_refs base_id LUnknown = LUnknown"
| "qualify_refs base_id LBlob = LBlob"
| "qualify_refs base_id LBytes = LBytes"
| "qualify_refs base_id LToken = LToken"

definition register_output :: "str \<Rightarrow> lex_body option \<Rightarrow> registry \<Rightarrow> registry" where
  "register_output nsid output R = (case output of
     Some body \<Rightarrow>
       (case lb_schema body of
          Some schema \<Rightarrow> R\<lparr> rg_outputs := AList.update nsid (qualify_refs nsid schema) (rg_outputs R) \<rparr>
        | None \<Rightarrow> R)
   | None \<Rightarrow> R)"

definition register_def :: "str \<Rightarrow> str \<times> lex_def \<Rightarrow> registry \<Rightarrow> str + registry" where
  "register_def ident nd R = (case nd of (name, def) \<Rightarrow> (case def of
     LexProcedure p \<Rightarrow>
       if name \<noteq> ''main'' then Inl (ident @ ''#'' @ name @ '': only main procedure definitions are supported'')
       else
         let R1 = (case lp_input p of
             None \<Rightarrow> R
           | Some body \<Rightarrow> R\<lparr> rg_inputs := AList.update ident (body\<lparr> lb_schema := map_option (qualify_refs ident) (lb_schema body) \<rparr>) (rg_inputs R) \<rparr>);
             R2 = (case lp_parameters p of None \<Rightarrow> R1 | Some ps \<Rightarrow> R1\<lparr> rg_params := AList.update ident ps (rg_params R1) \<rparr>)
         in Inr (register_output ident (lp_output p) R2)
   | LexQuery q \<Rightarrow>
       if name \<noteq> ''main'' then Inl (ident @ ''#'' @ name @ '': only main query definitions are supported'')
       else
         let parameters = (case lq_parameters q of None \<Rightarrow> LexObject [] [] [] | Some ps \<Rightarrow> ps)
         in Inr (register_output ident (lq_output q) (R\<lparr> rg_params := AList.update ident parameters (rg_params R) \<rparr>))
   | LexRecord r \<Rightarrow>
       if name \<noteq> ''main'' then Inl (ident @ ''#'' @ name @ '': a record must be the `main` definition'')
       else Inr (R\<lparr> rg_records := AList.update ident (r\<lparr> lr_record := qualify_refs ident (lr_record r) \<rparr>) (rg_records R) \<rparr>)
   | LexSchema s \<Rightarrow>
       Inr (R\<lparr> rg_defs := AList.update (''lex:'' @ ident @ ''#'' @ name) (qualify_refs ident s) (rg_defs R) \<rparr>)))"

fun register_defs :: "str \<Rightarrow> (str \<times> lex_def) list \<Rightarrow> registry \<Rightarrow> str + registry" where
  "register_defs ident [] R = Inr R"
| "register_defs ident (d # ds) R = res_bind (register_def ident d R) (register_defs ident ds)"

fun register_sources :: "'cid lex_lib \<Rightarrow> str list \<Rightarrow> registry \<Rightarrow> str + registry" where
  "register_sources L [] R = Inr R"
| "register_sources L (src # srcs) R =
     res_bind (parse_doc L src) (\<lambda>doc. res_bind (register_defs (ld_id doc) (ld_defs doc) R) (register_sources L srcs))"

definition resolve :: "registry \<Rightarrow> str \<Rightarrow> lex_schema option" where
  "resolve R lex_uri = map_of (rg_defs R) (if CHR ''#'' \<in> set lex_uri then lex_uri else lex_uri @ ''#main'')"

text \<open>The first error of a loop; \<open>None\<close> if the loop does not come back from an element.\<close>

fun each :: "('a \<Rightarrow> ('e + unit) option) \<Rightarrow> 'a list \<Rightarrow> ('e + unit) option" where
  "each f [] = Some (Inr ())"
| "each f (x # xs) = (case f x of None \<Rightarrow> None | Some (Inl e) \<Rightarrow> Some (Inl e) | Some (Inr _) \<Rightarrow> each f xs)"

lemma each_cong [fundef_cong]:
  "xs = ys \<Longrightarrow> (\<And>x. x \<in> set ys \<Longrightarrow> f x = g x) \<Longrightarrow> each f xs = each g ys"
  by (induction xs arbitrary: ys) (auto split: option.split sum.split)

function walk :: "registry \<Rightarrow> nat \<Rightarrow> lex_schema \<Rightarrow> (str + unit) option" where
  "walk R n (LObject (LexObject required nullable properties)) = each (\<lambda>(_, p). walk R n p) properties"
| "walk R n (LArray items mn mx) = walk R n items"
| "walk R n (LRef target) = (case resolve R target of
     Some resolved \<Rightarrow> (case n of 0 \<Rightarrow> None | Suc k \<Rightarrow> walk R k resolved)
   | None \<Rightarrow> Some (Inl (''dangling lexicon ref: '' @ target)))"
| "walk R n (LUnion refs closed) = each (\<lambda>r. case resolve R r of
     Some resolved \<Rightarrow> (case n of 0 \<Rightarrow> None | Suc k \<Rightarrow> walk R k resolved)
   | None \<Rightarrow> Some (Inl (''dangling lexicon union ref: '' @ r))) refs"
| "walk R n (LString s) = Some (Inr ())"
| "walk R n (LBoolean c d) = Some (Inr ())"
| "walk R n (LInteger i) = Some (Inr ())"
| "walk R n LUnknown = Some (Inr ())"
| "walk R n LBlob = Some (Inr ())"
| "walk R n LBytes = Some (Inr ())"
| "walk R n LToken = Some (Inr ())"
  by pat_completeness auto

termination
  by (relation "measures [\<lambda>(_, n, _). n, \<lambda>(_, _, s). size s]") (auto dest: property_size)

text \<open>The schemas the build checks, in the order of its three loops.\<close>

definition roots :: "registry \<Rightarrow> lex_schema list" where
  "roots R = List.map_filter (\<lambda>(_, body). lb_schema body) (rg_inputs R) @ map (\<lambda>(_, r). lr_record r) (rg_records R) @
     map snd (rg_outputs R)"

definition check_refs :: "nat \<Rightarrow> registry \<Rightarrow> (str + unit) option" where
  "check_refs n R = each (walk R n) (roots R)"

definition registry_build :: "'cid lex_lib \<Rightarrow> nat \<Rightarrow> str list \<Rightarrow> (str + registry) option" where
  "registry_build L n sources = (case register_sources L sources registry_empty of
     Inl e \<Rightarrow> Some (Inl e)
   | Inr R \<Rightarrow> map_option (\<lambda>r. res_bind r (\<lambda>_. Inr R)) (check_refs n R))"

section \<open>The walker\<close>

datatype validation_error = Invalid str | BrokenLexicon str

definition string_limits :: "str \<Rightarrow> lex_string \<Rightarrow> str \<Rightarrow> validation_error + unit" where
  "string_limits path c s =
     (if ls_enum_values c \<noteq> [] \<and> s \<notin> set (ls_enum_values c)
      then Inl (Invalid (path @ '' must be one of ('' @ join_with ''|'' (ls_enum_values c) @ '')''))
      else case ls_max_length c of
        Some mx \<Rightarrow> if mx < length s then Inl (Invalid (path @ '' must not be longer than '' @ nat_str mx @ '' characters'')) else Inr ()
      | None \<Rightarrow> Inr ())"

definition validate_string :: "'cid lex_lib \<Rightarrow> str \<Rightarrow> lex_string \<Rightarrow> json \<Rightarrow> validation_error + unit" where
  "validate_string L path c value = (case value of
     JString s \<Rightarrow>
       res_bind (string_limits path c s) (\<lambda>_.
       res_bind (case ls_min_length c of
           Some mn \<Rightarrow> if length s < mn then Inl (Invalid (path @ '' must not be shorter than '' @ nat_str mn @ '' characters'')) else Inr ()
         | None \<Rightarrow> Inr ()) (\<lambda>_.
       res_bind (case ls_max_graphemes c of
           Some mx \<Rightarrow> if mx < lx_graphemes L s then Inl (Invalid (path @ '' must not be longer than '' @ nat_str mx @ '' graphemes'')) else Inr ()
         | None \<Rightarrow> Inr ()) (\<lambda>_.
       case ls_format c of
         Some fmt \<Rightarrow> map_err (\<lambda>msg. Invalid (path @ '' '' @ msg)) (validate_format (lx_cid L) (lx_year L) fmt s)
       | None \<Rightarrow> Inr ())))
   | _ \<Rightarrow> Inl (Invalid (path @ '' must be a string'')))"

definition bool_str :: "bool \<Rightarrow> str" where "bool_str b = (if b then ''true'' else ''false'')"

definition validate_boolean :: "str \<Rightarrow> bool option \<Rightarrow> json \<Rightarrow> validation_error + unit" where
  "validate_boolean path const_value value = (case value of
     JBool b \<Rightarrow>
       (case const_value of
          Some expected \<Rightarrow> if b \<noteq> expected then Inl (Invalid (path @ '' must be '' @ bool_str expected)) else Inr ()
        | None \<Rightarrow> Inr ())
   | _ \<Rightarrow> Inl (Invalid (path @ '' must be a boolean'')))"

text \<open>
  \<open>f as i64\<close> of an integral value saturates. A \<open>u64\<close> above \<open>i64::MAX\<close> goes through \<open>f64\<close> and saturates as
  well. \<open>None\<close> is a value that is no integer.
\<close>

definition saturate_i64 :: "int \<Rightarrow> int" where
  "saturate_i64 i = (if i < i64_min then i64_min else if i64_max < i then i64_max else i)"

definition f64_as_i64 :: "f64 \<Rightarrow> int" where
  "f64_as_i64 f = (case f of Finite m e \<Rightarrow> saturate_i64 (if 0 \<le> e then m * 2 ^ nat e else m div 2 ^ nat (- e)) | NotFinite \<Rightarrow> 0)"

definition integer_value :: "json \<Rightarrow> int option" where
  "integer_value value = (case value of
     JNumber n \<Rightarrow>
       (case n of
          JFloat f \<Rightarrow> if f64_is_integral f then Some (f64_as_i64 f) else None
        | _ \<Rightarrow> Some (case as_i64 n of Some i \<Rightarrow> i | None \<Rightarrow> i64_max))
   | _ \<Rightarrow> None)"

definition validate_integer :: "str \<Rightarrow> lex_integer \<Rightarrow> json \<Rightarrow> validation_error + unit" where
  "validate_integer path c value = (case integer_value value of
     None \<Rightarrow> Inl (Invalid (path @ '' must be an integer''))
   | Some n \<Rightarrow>
       if li_enum_values c \<noteq> [] \<and> n \<notin> set (li_enum_values c)
       then Inl (Invalid (path @ '' must be one of ('' @ join_with ''|'' (map int_str (li_enum_values c)) @ '')''))
       else
         res_bind (case li_maximum c of
             Some mx \<Rightarrow> if mx < n then Inl (Invalid (path @ '' can not be greater than '' @ int_str mx)) else Inr ()
           | None \<Rightarrow> Inr ()) (\<lambda>_.
         case li_minimum c of
           Some mn \<Rightarrow> if n < mn then Inl (Invalid (path @ '' can not be less than '' @ int_str mn)) else Inr ()
         | None \<Rightarrow> Inr ()))"

definition value_get :: "json \<Rightarrow> str \<Rightarrow> json option" where
  "value_get v k = (case v of JObject m \<Rightarrow> map_of m k | _ \<Rightarrow> None)"

definition json_str :: "json \<Rightarrow> str \<Rightarrow> str option" where
  "json_str v k = (case value_get v k of Some (JString s) \<Rightarrow> Some s | _ \<Rightarrow> None)"

definition blob_ref_ok :: "'cid lex_lib \<Rightarrow> json \<Rightarrow> bool" where
  "blob_ref_ok L value =
     (if json_str value ''$type'' = Some ''blob''
      then (case Option.bind (value_get value ''ref'') (\<lambda>r. json_str r ''$link'') of
              Some c \<Rightarrow> is_ok (lx_cid L c) | None \<Rightarrow> False) \<and> json_str value ''mimeType'' \<noteq> None
      else json_str value ''cid'' \<noteq> None \<and> json_str value ''mimeType'' \<noteq> None)"

definition validate_blob_ref :: "'cid lex_lib \<Rightarrow> str \<Rightarrow> json \<Rightarrow> validation_error + unit" where
  "validate_blob_ref L path value = (case value of
     JObject m \<Rightarrow> if blob_ref_ok L value then Inr () else Inl (Invalid (path @ '' must be a blob ref''))
   | _ \<Rightarrow> Inl (Invalid (path @ '' must be a blob ref'')))"

definition validate_bytes_value :: "str \<Rightarrow> json \<Rightarrow> validation_error + unit" where
  "validate_bytes_value path value =
     (if json_str value ''$bytes'' \<noteq> None then Inr () else Inl (Invalid (path @ '' must be a byte array'')))"

definition to_lex_uri :: "str \<Rightarrow> str" where
  "to_lex_uri ty = (if starts_with ''lex:'' ty then ty else ''lex:'' @ ty)"

definition canonical_lex_uri :: "str \<Rightarrow> str" where
  "canonical_lex_uri uri = (case strip_suffix ''#main'' uri of Some u \<Rightarrow> u | None \<Rightarrow> uri)"

definition lex_uris_equal :: "str \<Rightarrow> str \<Rightarrow> bool" where
  "lex_uris_equal a b \<longleftrightarrow> canonical_lex_uri a = canonical_lex_uri b"

text \<open>The length checks of an array.\<close>

definition array_limits :: "str \<Rightarrow> nat option \<Rightarrow> nat option \<Rightarrow> json list \<Rightarrow> validation_error + unit" where
  "array_limits path min_length max_length elements =
     res_bind (case max_length of
         Some mx \<Rightarrow> if mx < length elements then Inl (Invalid (path @ '' must not have more than '' @ nat_str mx @ '' elements'')) else Inr ()
       | None \<Rightarrow> Inr ()) (\<lambda>_.
     case min_length of
       Some mn \<Rightarrow> if length elements < mn then Inl (Invalid (path @ '' must not have fewer than '' @ nat_str mn @ '' elements'')) else Inr ()
     | None \<Rightarrow> Inr ())"

text \<open>Which member of a union a value selects.\<close>

datatype union_choice = NoType | NoMember | Member str

definition choose_member :: "str list \<Rightarrow> json \<Rightarrow> union_choice" where
  "choose_member refs value = (case json_str value ''$type'' of
     None \<Rightarrow> NoType
   | Some ty \<Rightarrow>
       (case List.find (\<lambda>r. lex_uris_equal r (to_lex_uri ty)) refs of
          None \<Rightarrow> NoMember | Some r \<Rightarrow> Member r))"

function validate ::
  "'cid lex_lib \<Rightarrow> registry \<Rightarrow> nat \<Rightarrow> str \<Rightarrow> lex_schema \<Rightarrow> json \<Rightarrow> (validation_error + unit) option" where
  "validate L R n path (LObject (LexObject required nullable properties)) value = (case value of
     JObject m \<Rightarrow>
       each (\<lambda>(key, p). case map_of m key of
           None \<Rightarrow>
             Some (if \<not> has_default p \<and> key \<in> set required
                   then Inl (Invalid (path @ '' must have the property '' @ quoted key)) else Inr ())
         | Some v \<Rightarrow>
             if v = JNull \<and> key \<in> set nullable then Some (Inr ())
             else validate L R n (path @ ''/'' @ key) p v) properties
   | _ \<Rightarrow> Some (Inl (Invalid (path @ '' must be an object''))))"
| "validate L R n path (LArray items mn mx) value = (case value of
     JArray elements \<Rightarrow>
       (case array_limits path mn mx elements of
          Inl e \<Rightarrow> Some (Inl e)
        | Inr _ \<Rightarrow> each (\<lambda>(i, x). validate L R n (path @ ''/'' @ nat_str i) items x) (enumerate 0 elements))
   | _ \<Rightarrow> Some (Inl (Invalid (path @ '' must be an array''))))"
| "validate L R n path (LRef target) value = (case resolve R target of
     None \<Rightarrow> Some (Inl (BrokenLexicon (''lexicon ref '' @ lx_debug L target @ '' is not vendored'')))
   | Some resolved \<Rightarrow> (case n of 0 \<Rightarrow> None | Suc k \<Rightarrow> validate L R k path resolved value))"
| "validate L R n path (LUnion refs closed) value = (case choose_member refs value of
     NoType \<Rightarrow> Some (Inl (Invalid (path @ '' must be an object which includes the '' @ quoted ''$type'' @ '' property'')))
   | NoMember \<Rightarrow>
       Some (if closed then Inl (Invalid (path @ '' $type must be one of '' @ join_with '', '' refs)) else Inr ())
   | Member r \<Rightarrow>
       (case resolve R r of
          None \<Rightarrow> Some (Inl (BrokenLexicon (''lexicon union ref '' @ lx_debug L r @ '' is not vendored'')))
        | Some resolved \<Rightarrow> (case n of 0 \<Rightarrow> None | Suc k \<Rightarrow> validate L R k path resolved value)))"
| "validate L R n path (LString c) value = Some (validate_string L path c value)"
| "validate L R n path (LBoolean c d) value = Some (validate_boolean path c value)"
| "validate L R n path (LInteger c) value = Some (validate_integer path c value)"
| "validate L R n path LUnknown value = (case value of
     JObject m \<Rightarrow> Some (Inr ()) | _ \<Rightarrow> Some (Inl (Invalid (path @ '' must be an object''))))"
| "validate L R n path LBlob value = Some (validate_blob_ref L path value)"
| "validate L R n path LBytes value = Some (validate_bytes_value path value)"
| "validate L R n path LToken value = Some (Inr ())"
  by pat_completeness auto

termination
  by (relation "measures [\<lambda>(_, _, n, _, _, _). n, \<lambda>(_, _, _, _, s, _). size s]") (auto dest: property_size)

section \<open>The entry points\<close>

definition validate_input :: "'cid lex_lib \<Rightarrow> registry \<Rightarrow> nat \<Rightarrow> str \<Rightarrow> json \<Rightarrow> (validation_error + unit) option" where
  "validate_input L R n nsid body = (case map_of (rg_inputs R) nsid of
     None \<Rightarrow> Some (Inl (BrokenLexicon (''no lexicon input is vendored for '' @ nsid)))
   | Some input \<Rightarrow> (case lb_schema input of Some schema \<Rightarrow> validate L R n ''Input'' schema body | None \<Rightarrow> Some (Inr ())))"

definition validate_params :: "'cid lex_lib \<Rightarrow> registry \<Rightarrow> nat \<Rightarrow> str \<Rightarrow> json \<Rightarrow> (validation_error + unit) option" where
  "validate_params L R n nsid value = (case map_of (rg_params R) nsid of
     None \<Rightarrow> Some (Inl (BrokenLexicon (''no lexicon params are vendored for '' @ nsid)))
   | Some params \<Rightarrow> validate L R n ''Params'' (LObject params) value)"

definition validate_output :: "'cid lex_lib \<Rightarrow> registry \<Rightarrow> nat \<Rightarrow> str \<Rightarrow> json \<Rightarrow> (validation_error + unit) option" where
  "validate_output L R n nsid body = (case map_of (rg_outputs R) nsid of
     None \<Rightarrow> Some (Inl (BrokenLexicon (''no lexicon output is vendored for '' @ nsid)))
   | Some schema \<Rightarrow> validate L R n ''Output'' schema body)"

datatype record_validation = Valid | Unknown

definition record_validation_str :: "record_validation \<Rightarrow> str" where
  "record_validation_str v = (case v of Valid \<Rightarrow> ''valid'' | Unknown \<Rightarrow> ''unknown'')"

definition validate_record_key :: "str \<Rightarrow> str \<Rightarrow> str + unit" where
  "validate_record_key key rkey = (case strip_prefix ''literal:'' key of
     Some expected \<Rightarrow>
       if rkey = expected then Inr ()
       else Inl (''record key must be the literal '' @ quoted expected @ '', got '' @ quoted rkey)
   | None \<Rightarrow>
       if key = ''tid'' then
         (if is_valid_tid rkey then Inr () else Inl (''record key is not a valid TID: '' @ quoted rkey))
       else if key = ''nsid'' then
         (if is_ok (validate_collection rkey) then Inr () else Inl (''record key is not a valid NSID: '' @ quoted rkey))
       else if key = ''any'' then
         (if is_valid_record_key rkey then Inr () else Inl (''record key syntax is invalid: '' @ quoted rkey))
       else Inl (''unsupported record key type: '' @ key))"

definition check_type :: "'cid lex_lib \<Rightarrow> str \<Rightarrow> json \<Rightarrow> validation_error + unit" where
  "check_type L collection rec = (case value_get rec ''$type'' of
     None \<Rightarrow> Inr ()
   | Some ty \<Rightarrow>
       if ty = JString collection then Inr ()
       else Inl (Invalid (''Invalid $type: expected '' @ collection @ '', got '' @
              (case ty of JString s \<Rightarrow> s | other \<Rightarrow> lx_show L other))))"

definition validate_record ::
  "'cid lex_lib \<Rightarrow> registry \<Rightarrow> nat \<Rightarrow> str \<Rightarrow> str \<Rightarrow> json \<Rightarrow> bool option \<Rightarrow> (validation_error + record_validation option) option" where
  "validate_record L R n collection rkey rec flag = (case check_type L collection rec of
     Inl e \<Rightarrow> Some (Inl e)
   | Inr _ \<Rightarrow>
       if flag = Some False then Some (Inr None)
       else (case map_of (rg_records R) collection of
          None \<Rightarrow>
            Some (if flag = Some True then Inl (Invalid (''Unknown lexicon type: '' @ collection)) else Inr (Some Unknown))
        | Some def \<Rightarrow>
            (case validate_record_key (lr_key def) rkey of
               Inl reason \<Rightarrow> Some (Inl (Invalid (''Invalid record key for '' @ collection @ '': '' @ reason)))
             | Inr _ \<Rightarrow>
                 map_option (\<lambda>r. case r of
                     Inr _ \<Rightarrow> Inr (Some Valid)
                   | Inl (Invalid message) \<Rightarrow> Inl (Invalid (''Invalid '' @ collection @ '' record: '' @ message))
                   | Inl other \<Rightarrow> Inl other) (validate L R n ''Record'' (lr_record def) rec))))"

end
