(* ===== verification/Lexicon_Params.thy ===== *)
theory Lexicon_Params
  imports Lexicon_Validate Api_Error Scope_Syntax
begin

text \<open>
  The requests of a procedure against its lexicon: the query string
  (\<open>crates/custos-core/src/lexicon/params.rs\<close>) and the body (\<open>extractor.rs\<close>). URL decoding of a component and
  the JSON parser are third-party. A header is its value when it is present and text.
\<close>

section \<open>Query parameters\<close>

type_synonym raw_params = "(str \<times> str list) list"

definition invalid_encoding :: "'d api_error" where
  "invalid_encoding = api_error_new InvalidRequest ''invalid query encoding''"

definition push_value :: "str \<Rightarrow> str \<Rightarrow> raw_params \<Rightarrow> raw_params" where
  "push_value key value raw = AList.update key ((case map_of raw key of None \<Rightarrow> [] | Some vs \<Rightarrow> vs) @ [value]) raw"

fun parse_pairs :: "'cid lex_lib \<Rightarrow> str list \<Rightarrow> raw_params \<Rightarrow> 'd api_error + raw_params" where
  "parse_pairs L [] raw = Inr raw"
| "parse_pairs L (pair # pairs) raw =
     (case (case split_once CHR ''='' pair of Some kv \<Rightarrow> kv | None \<Rightarrow> (pair, [])) of
        (raw_key, raw_value) \<Rightarrow>
          res_bind (ok_or (lx_url_decode L raw_key) invalid_encoding) (\<lambda>key.
          res_bind (ok_or (lx_url_decode L raw_value) invalid_encoding) (\<lambda>value.
          parse_pairs L pairs (push_value key value raw))))"

definition parse_raw_query :: "'cid lex_lib \<Rightarrow> str \<Rightarrow> 'd api_error + raw_params" where
  "parse_raw_query L query = parse_pairs L (filter (\<lambda>p. p \<noteq> []) (split_on CHR ''&'' query)) []"

function trim_start :: "str \<Rightarrow> str" where
  "trim_start s = (if ws_len s = 0 then s else trim_start (drop (ws_len s) s))"
  by pat_completeness auto

termination
proof (relation "measure length")
  fix s :: str assume "ws_len s \<noteq> 0"
  moreover from this have "s \<noteq> []" by (auto simp: ws_len_def)
  ultimately show "(drop (ws_len s) s, s) \<in> measure length" by (cases s) simp_all
qed simp

declare trim_start.simps [simp del]

definition digits_value :: "str \<Rightarrow> int" where
  "digits_value ds = foldl (\<lambda>v d. 10 * v + (int (byte d) - 48)) 0 ds"

text \<open>A sign and digits as an \<open>i64\<close>; an overflowing parse is 0.\<close>

definition parse_int_lenient :: "str \<Rightarrow> int" where
  "parse_int_lenient raw =
     (let trimmed = trim_start raw;
          signed = (case trimmed of c # _ \<Rightarrow> c = CHR ''+'' \<or> c = CHR ''-'' | [] \<Rightarrow> False);
          ds = takeWhile is_digit (if signed then tl trimmed else trimmed);
          v = (if signed \<and> hd trimmed = CHR ''-'' then - digits_value ds else digits_value ds)
      in if ds = [] then 0 else if i64_min \<le> v \<and> v \<le> i64_max then v else 0)"

text \<open>
  The last arm of the code is \<open>unreachable!\<close>: the parser admits only primitive parameters and arrays of
  them.
\<close>

definition coerce_scalar :: "lex_schema \<Rightarrow> str \<Rightarrow> json option" where
  "coerce_scalar schema raw =
     (if raw = [] then None
      else case schema of
        LString _ \<Rightarrow> Some (JString raw)
      | LInteger _ \<Rightarrow> Some (JNumber (number_from_int (parse_int_lenient raw)))
      | LBoolean _ _ \<Rightarrow> Some (JBool (raw = ''true''))
      | _ \<Rightarrow> None)"

definition coerce_property :: "lex_schema \<Rightarrow> str list option \<Rightarrow> json option" where
  "coerce_property schema raw = Option.bind raw (\<lambda>vs. case schema of
     LArray items _ _ \<Rightarrow>
       (let present = (case vs of [] \<Rightarrow> False | [v] \<Rightarrow> v \<noteq> [] | _ \<Rightarrow> True)
        in if \<not> present then None
           else Some (JArray (List.map_filter (coerce_scalar items) (filter (\<lambda>v. v \<noteq> []) vs))))
   | _ \<Rightarrow> (case vs of [] \<Rightarrow> None | v # _ \<Rightarrow> coerce_scalar schema v))"

text \<open>The coerced object, a \<open>serde_json\<close> map in key order.\<close>

definition coerce_params :: "(str \<times> lex_schema) list \<Rightarrow> raw_params \<Rightarrow> (str \<times> json) list" where
  "coerce_params properties raw =
     fold (\<lambda>(name, schema) m. case coerce_property schema (map_of raw name) of
         Some v \<Rightarrow> insort_key fst (name, v) (filter (\<lambda>(k, _). k \<noteq> name) m)
       | None \<Rightarrow> m) properties []"

definition lexicon_error :: "validation_error \<Rightarrow> 'd api_error" where
  "lexicon_error e = (case e of
     Invalid message \<Rightarrow> api_error_new InvalidRequest message
   | BrokenLexicon _ \<Rightarrow> api_error_new InternalError ''server lexicon configuration error'')"

definition validate_params_map ::
  "'cid lex_lib \<Rightarrow> registry \<Rightarrow> nat \<Rightarrow> str \<Rightarrow> raw_params \<Rightarrow> ('d api_error + json) option" where
  "validate_params_map L R n nsid raw = (case map_of (rg_params R) nsid of
     None \<Rightarrow> Some (Inl (api_error_new InternalError ''server lexicon configuration error''))
   | Some params \<Rightarrow>
       let value = JObject (coerce_params (lo_properties params) raw)
       in map_option (\<lambda>r. res_bind (map_err lexicon_error r) (\<lambda>_. Inr value)) (validate_params L R n nsid value))"

definition validate_procedure_params ::
  "'cid lex_lib \<Rightarrow> registry \<Rightarrow> nat \<Rightarrow> str \<Rightarrow> str \<Rightarrow> ('d api_error + json) option" where
  "validate_procedure_params L R n nsid query = (case parse_raw_query L query of
     Inl e \<Rightarrow> Some (Inl e) | Inr raw \<Rightarrow> validate_params_map L R n nsid raw)"

section \<open>Request bodies\<close>

definition body_expected_message :: str where
  "body_expected_message = ''A request body is expected but none was provided''"
definition encoding_required_message :: str where
  "encoding_required_message = ''Request encoding (Content-Type) required but not provided''"

text \<open>\<open>str::trim\<close> drops white space at both ends; the end is searched from the back, character by character.\<close>

definition trim_end :: "str \<Rightarrow> str" where
  "trim_end s = (case filter (\<lambda>i. trim_start (drop i s) = []) [0..<length s + 1] of i # _ \<Rightarrow> take i s | [] \<Rightarrow> s)"

definition normalize_mime :: "str \<Rightarrow> str" where
  "normalize_mime content_type = ascii_lowercase (trim_end (trim_start (hd (split_on CHR '';'' content_type))))"

definition check_encoding :: "str \<Rightarrow> str option \<Rightarrow> 'd api_error + unit" where
  "check_encoding expected content_type = (case content_type of
     None \<Rightarrow> Inl (api_error_new InvalidRequest encoding_required_message)
   | Some mime \<Rightarrow>
       if mime \<noteq> expected then Inl (api_error_new InvalidRequest (''Wrong request encoding (Content-Type): '' @ mime))
       else Inr ())"

definition validate_body_value ::
  "'cid lex_lib \<Rightarrow> registry \<Rightarrow> nat \<Rightarrow> str \<Rightarrow> json \<Rightarrow> ('d api_error + json) option" where
  "validate_body_value L R n nsid value =
     map_option (\<lambda>r. res_bind (map_err lexicon_error r) (\<lambda>_. Inr value)) (validate_input L R n nsid value)"

definition validate_procedure_body ::
  "'cid lex_lib \<Rightarrow> registry \<Rightarrow> nat \<Rightarrow> str \<Rightarrow> str option \<Rightarrow> str option \<Rightarrow> str \<Rightarrow> ('d api_error + json) option" where
  "validate_procedure_body L R n nsid type_header length_header body = (case map_of (rg_inputs R) nsid of
     None \<Rightarrow> Some (Inl (api_error_new InternalError ''server lexicon configuration error''))
   | Some input \<Rightarrow>
       let content_type = Option.bind (map_option normalize_mime type_header) (\<lambda>mime. if mime = [] then None else Some mime)
       in if body = [] \<and> content_type = None then
            Some (Inl (api_error_new InvalidRequest
              (if length_header = Some ''0'' then encoding_required_message else body_expected_message)))
          else (case check_encoding (lb_encoding input) content_type of
             Inl e \<Rightarrow> Some (Inl e)
           | Inr _ \<Rightarrow>
               if body = [] then validate_body_value L R n nsid (JObject [])
               else (case lx_body L body of
                   Inl e \<Rightarrow> Some (Inl (api_error_new InvalidRequest (''invalid request body: '' @ e)))
                 | Inr value \<Rightarrow> validate_body_value L R n nsid value)))"

definition record_validation_error :: "validation_error \<Rightarrow> 'd api_error" where
  "record_validation_error e = (case e of
     Invalid message \<Rightarrow> api_error_new InvalidRequest message
   | BrokenLexicon _ \<Rightarrow> api_error_internal_as ''server lexicon configuration error'')"

end
