(* ===== verification/Lexicon_Correct.thy ===== *)
theory Lexicon_Correct
  imports Lexicon_Params
begin

text \<open>
  What the walker decides, when the build of the registry comes to an end, and what the coercion of
  query parameters gives back.
\<close>

section \<open>Loops and verdicts\<close>

lemma each_ok_iff: "each f xs = Some (Inr ()) \<longleftrightarrow> (\<forall>x\<in>set xs. f x = Some (Inr ()))"
  by (induction xs) (auto split: option.splits sum.splits)

lemma each_Inl: "each f xs = Some (Inl e) \<Longrightarrow> \<exists>x\<in>set xs. f x = Some (Inl e)"
  by (induction xs) (auto split: option.splits sum.splits)

lemma each_mono:
  "each f xs = Some r \<Longrightarrow> (\<And>x r. x \<in> set xs \<Longrightarrow> f x = Some r \<Longrightarrow> g x = Some r) \<Longrightarrow> each g xs = Some r"
  by (induction xs) (auto split: option.splits sum.splits)

text \<open>
  A verdict: the walk comes back, accepts exactly when the property holds, and every error it reports is of
  the kind \<open>B\<close>. For the validator an error blames the value at the path or below it.
\<close>

definition verdict :: "('e \<Rightarrow> bool) \<Rightarrow> ('e + unit) option \<Rightarrow> bool \<Rightarrow> bool" where
  "verdict B r P \<longleftrightarrow> (\<exists>q. r = Some q \<and> (q = Inr () \<longleftrightarrow> P) \<and> (\<forall>e. q = Inl e \<longrightarrow> B e))"

lemma verdict_Some [simp]: "verdict B (Some (Inr ())) P \<longleftrightarrow> P" "verdict B (Some (Inl e)) P \<longleftrightarrow> \<not> P \<and> B e"
  by (auto simp: verdict_def)

lemma verdict_mono: "verdict B r P \<Longrightarrow> (\<And>e. B e \<Longrightarrow> C e) \<Longrightarrow> verdict C r P"
  by (auto simp: verdict_def)

lemma verdict_each:
  "(\<And>x. x \<in> set xs \<Longrightarrow> verdict B (f x) (P x)) \<Longrightarrow> verdict B (each f xs) (\<forall>x\<in>set xs. P x)"
proof (induction xs)
  case (Cons x xs)
  from Cons.prems [of x] obtain q where q: "f x = Some q" "q = Inr () \<longleftrightarrow> P x" "\<forall>e. q = Inl e \<longrightarrow> B e"
    by (auto simp: verdict_def)
  have "verdict B (each f xs) (\<forall>x\<in>set xs. P x)" using Cons by simp
  then show ?case using q by (cases q) (auto simp: verdict_def)
qed simp

definition decided :: "(validation_error + unit) option \<Rightarrow> bool \<Rightarrow> str \<Rightarrow> bool" where
  "decided r P path \<longleftrightarrow> verdict (\<lambda>e. \<exists>m. e = Invalid (path @ m)) r P"

lemma decided_Some [simp]: "decided (Some (Inr ())) P path \<longleftrightarrow> P" "decided (Some (Inl e)) P path \<longleftrightarrow> \<not> P \<and> (\<exists>m. e = Invalid (path @ m))"
  by (simp_all add: decided_def)

lemma decided_below: "decided r P (path @ x) \<Longrightarrow> decided r P path"
  unfolding decided_def by (erule verdict_mono) auto

lemma decided_each:
  "(\<And>x. x \<in> set xs \<Longrightarrow> decided (f x) (P x) path) \<Longrightarrow> decided (each f xs) (\<forall>x\<in>set xs. P x) path"
  unfolding decided_def by (rule verdict_each)

section \<open>Conformance\<close>

definition string_conforms :: "'cid lex_lib \<Rightarrow> lex_string \<Rightarrow> str \<Rightarrow> bool" where
  "string_conforms L c s \<longleftrightarrow>
     (ls_enum_values c = [] \<or> s \<in> set (ls_enum_values c)) \<and>
     (\<forall>mx. ls_max_length c = Some mx \<longrightarrow> length s \<le> mx) \<and> (\<forall>mn. ls_min_length c = Some mn \<longrightarrow> mn \<le> length s) \<and>
     (\<forall>mx. ls_max_graphemes c = Some mx \<longrightarrow> lx_graphemes L s \<le> mx) \<and>
     (\<forall>fmt. ls_format c = Some fmt \<longrightarrow> format_ok (lx_cid L) (lx_year L) fmt s)"

definition integer_conforms :: "lex_integer \<Rightarrow> int \<Rightarrow> bool" where
  "integer_conforms c n \<longleftrightarrow>
     (li_enum_values c = [] \<or> n \<in> set (li_enum_values c)) \<and>
     (\<forall>mx. li_maximum c = Some mx \<longrightarrow> n \<le> mx) \<and> (\<forall>mn. li_minimum c = Some mn \<longrightarrow> mn \<le> n)"

definition array_conforms :: "nat option \<Rightarrow> nat option \<Rightarrow> json list \<Rightarrow> bool" where
  "array_conforms mn mx xs \<longleftrightarrow> (\<forall>k. mx = Some k \<longrightarrow> length xs \<le> k) \<and> (\<forall>k. mn = Some k \<longrightarrow> k \<le> length xs)"

inductive conforms :: "'cid lex_lib \<Rightarrow> registry \<Rightarrow> lex_schema \<Rightarrow> json \<Rightarrow> bool" for L R where
  c_object: "(\<And>k p. (k, p) \<in> set properties \<Longrightarrow> map_of m k = None \<Longrightarrow> has_default p \<or> k \<notin> set required) \<Longrightarrow>
    (\<And>k p v. (k, p) \<in> set properties \<Longrightarrow> map_of m k = Some v \<Longrightarrow> \<not> (v = JNull \<and> k \<in> set nullable) \<Longrightarrow> conforms L R p v) \<Longrightarrow>
    conforms L R (LObject (LexObject required nullable properties)) (JObject m)"
| c_array: "array_conforms mn mx xs \<Longrightarrow> (\<And>x. x \<in> set xs \<Longrightarrow> conforms L R items x) \<Longrightarrow>
    conforms L R (LArray items mn mx) (JArray xs)"
| c_ref: "resolve R target = Some s \<Longrightarrow> conforms L R s v \<Longrightarrow> conforms L R (LRef target) v"
| c_member: "choose_member refs v = Member r \<Longrightarrow> resolve R r = Some s \<Longrightarrow> conforms L R s v \<Longrightarrow> conforms L R (LUnion refs closed) v"
| c_open: "choose_member refs v = NoMember \<Longrightarrow> conforms L R (LUnion refs False) v"
| c_string: "string_conforms L c s \<Longrightarrow> conforms L R (LString c) (JString s)"
| c_boolean: "const = None \<or> const = Some b \<Longrightarrow> conforms L R (LBoolean const d) (JBool b)"
| c_integer: "integer_value v = Some n \<Longrightarrow> integer_conforms c n \<Longrightarrow> conforms L R (LInteger c) v"
| c_unknown: "conforms L R LUnknown (JObject m)"
| c_blob: "blob_ref_ok L (JObject m) \<Longrightarrow> conforms L R LBlob (JObject m)"
| c_bytes: "json_str v ''$bytes'' \<noteq> None \<Longrightarrow> conforms L R LBytes v"
| c_token: "conforms L R LToken v"

inductive_simps conforms_simps:
  "conforms L R (LObject obj) v" "conforms L R (LArray items mn mx) v" "conforms L R (LRef target) v"
  "conforms L R (LUnion refs closed) v" "conforms L R (LString c) v" "conforms L R (LBoolean const d) v"
  "conforms L R (LInteger c) v" "conforms L R LUnknown v" "conforms L R LBlob v" "conforms L R LBytes v"
  "conforms L R LToken v"

lemma is_ok_decided:
  "(is_ok r \<longleftrightarrow> P) \<Longrightarrow> (\<And>e. r = Inl e \<Longrightarrow> \<exists>m. e = Invalid (path @ m)) \<Longrightarrow> decided (Some r) P path"
  by (cases r) auto

lemma string_decided: "decided (Some (validate_string L path c v)) (conforms L R (LString c) v) path"
  by (cases v; rule is_ok_decided)
    (auto simp: validate_string_def string_limits_def conforms_simps string_conforms_def validate_format_def
      is_ok_iff not_le split: if_splits option.splits sum.splits)

lemma boolean_decided: "decided (Some (validate_boolean path c v)) (conforms L R (LBoolean c d) v) path"
  by (cases v; rule is_ok_decided)
    (auto simp: validate_boolean_def conforms_simps is_ok_iff split: if_splits option.splits)

lemma integer_decided: "decided (Some (validate_integer path c v)) (conforms L R (LInteger c) v) path"
  by (rule is_ok_decided)
    (auto simp: validate_integer_def conforms_simps integer_conforms_def is_ok_iff not_le split: if_splits option.splits)

lemma blob_decided: "decided (Some (validate_blob_ref L path v)) (conforms L R LBlob v) path"
  by (cases v; rule is_ok_decided) (auto simp: validate_blob_ref_def conforms_simps is_ok_iff split: if_splits)

lemma bytes_decided: "decided (Some (validate_bytes_value path v)) (conforms L R LBytes v) path"
  by (rule is_ok_decided) (auto simp: validate_bytes_value_def conforms_simps is_ok_iff split: if_splits)

lemma array_limits_cases:
  "(array_limits path mn mx xs = Inr () \<and> array_conforms mn mx xs) \<or>
   (\<exists>m. array_limits path mn mx xs = Inl (Invalid (path @ m)) \<and> \<not> array_conforms mn mx xs)"
  by (auto simp: array_limits_def array_conforms_def split: option.splits)

lemma object_conforms:
  "conforms L R (LObject (LexObject required nullable properties)) (JObject m) \<longleftrightarrow>
   (\<forall>(k, p)\<in>set properties. case map_of m k of
      None \<Rightarrow> has_default p \<or> k \<notin> set required
    | Some v \<Rightarrow> v = JNull \<and> k \<in> set nullable \<or> conforms L R p v)"
  by (fastforce simp: conforms_simps split: option.splits)

section \<open>The build\<close>

text \<open>The references of a schema, and the definitions it leads to in one step.\<close>

fun refs_in :: "lex_schema \<Rightarrow> str list" where
  "refs_in (LObject (LexObject required nullable properties)) = concat (map (\<lambda>(_, p). refs_in p) properties)"
| "refs_in (LArray items mn mx) = refs_in items"
| "refs_in (LRef target) = [target]"
| "refs_in (LUnion refs closed) = refs"
| "refs_in _ = []"

definition mentions :: "registry \<Rightarrow> (lex_schema \<times> lex_schema) set" where
  "mentions R = {(s, t). \<exists>r\<in>set (refs_in s). resolve R r = Some t}"

definition resolved :: "registry \<Rightarrow> lex_schema \<Rightarrow> bool" where
  "resolved R s \<longleftrightarrow> (\<forall>r\<in>set (refs_in s). resolve R r \<noteq> None)"

definition follows_refs :: "registry \<Rightarrow> nat \<Rightarrow> str \<Rightarrow> bool" where
  "follows_refs R n r \<longleftrightarrow> (\<exists>t k. resolve R r = Some t \<and> n = Suc k \<and> walk R k t = Some (Inr ()))"

lemma follow_ref:
  "(case resolve R r of Some t \<Rightarrow> (case n of 0 \<Rightarrow> None | Suc k \<Rightarrow> walk R k t) | None \<Rightarrow> Some (Inl e)) = Some (Inr ()) \<longleftrightarrow>
   follows_refs R n r"
  by (auto simp: follows_refs_def split: option.splits nat.splits)

lemma walk_follows: "walk R n s = Some (Inr ()) \<longleftrightarrow> (\<forall>r\<in>set (refs_in s). follows_refs R n r)"
proof (induction s rule: refs_in.induct)
  case (1 required nullable properties)
  have "walk R n (LObject (LexObject required nullable properties)) = Some (Inr ()) \<longleftrightarrow>
      (\<forall>kp\<in>set properties. walk R n (snd kp) = Some (Inr ()))"
    by (simp add: each_ok_iff case_prod_beta)
  also have "\<dots> \<longleftrightarrow> (\<forall>kp\<in>set properties. \<forall>r\<in>set (refs_in (snd kp)). follows_refs R n r)"
    using 1 by (metis prod.collapse)
  finally show ?case by (simp add: case_prod_beta)
next
  case (3 target)
  show ?case by (simp add: follow_ref)
next
  case (4 refs closed)
  show ?case by (simp add: each_ok_iff follow_ref)
qed simp_all

lemma walk_iff:
  "walk R n s = Some (Inr ()) \<longleftrightarrow> resolved R s \<and> (\<forall>t. (s, t) \<in> mentions R \<longrightarrow> (\<exists>k. n = Suc k \<and> walk R k t = Some (Inr ())))"
  unfolding walk_follows [of R n s] by (auto simp: follows_refs_def resolved_def mentions_def) fastforce+

lemma walk_mono: "walk R n s = Some (Inr ()) \<Longrightarrow> n \<le> m \<Longrightarrow> walk R m s = Some (Inr ())"
proof (induction n arbitrary: m s)
  case 0
  then show ?case using walk_iff [of R 0 s] walk_iff [of R m s] by blast
next
  case (Suc n)
  show ?case
    unfolding walk_iff [of R m s]
  proof (intro conjI allI impI)
    show "resolved R s" using Suc.prems(1) walk_iff by blast
    fix t assume "(s, t) \<in> mentions R"
    then have "walk R n t = Some (Inr ())" using Suc.prems(1) walk_iff by blast
    then have "walk R (m - 1) t = Some (Inr ())" using Suc.IH [of t "m - 1"] Suc.prems(2) by simp
    then show "\<exists>k. m = Suc k \<and> walk R k t = Some (Inr ())" using Suc.prems(2) by (intro exI [of _ "m - 1"]) simp
  qed
qed

text \<open>The walk of a schema comes back without an error exactly when all it leads to resolves and no definition leads to itself.\<close>

definition sound_refs :: "registry \<Rightarrow> lex_schema \<Rightarrow> bool" where
  "sound_refs R s \<longleftrightarrow> (\<forall>t. (s, t) \<in> (mentions R)\<^sup>* \<longrightarrow> resolved R t \<and> (t, t) \<notin> (mentions R)\<^sup>+)"

lemma walk_leads: "(s, t) \<in> (mentions R)\<^sup>+ \<Longrightarrow> walk R n s = Some (Inr ()) \<Longrightarrow> \<exists>k<n. walk R k t = Some (Inr ())"
proof (induction rule: trancl_induct)
  case (base t)
  then show ?case using walk_iff [of R n s] by blast
next
  case (step t u)
  then obtain k where "k < n" "walk R k t = Some (Inr ())" by blast
  with step(2) show ?case using walk_iff [of R k t] by (metis less_trans lessI)
qed

lemma walk_sound: "walk R n s = Some (Inr ()) \<Longrightarrow> sound_refs R s"
  unfolding sound_refs_def
proof (intro allI impI conjI)
  fix t assume w: "walk R n s = Some (Inr ())" and st: "(s, t) \<in> (mentions R)\<^sup>*"
  have "\<exists>k. walk R k t = Some (Inr ())"
    using st w walk_leads [of s t R n] by (auto simp: rtrancl_eq_or_trancl)
  then obtain k where k: "walk R k t = Some (Inr ())" by blast
  then show "resolved R t" using walk_iff by blast
  show "(t, t) \<notin> (mentions R)\<^sup>+"
  proof
    assume tt: "(t, t) \<in> (mentions R)\<^sup>+"
    have "\<not> walk R k t = Some (Inr ())" for k
      using walk_leads [OF tt] by (induction k rule: less_induct) blast
    then show False using k by blast
  qed
qed

lemma finite_mentions: "finite ((mentions R)\<^sup>* `` {s})"
proof -
  have "(mentions R)\<^sup>* `` {s} \<subseteq> insert s (ran (map_of (rg_defs R)))"
  proof
    fix t assume "t \<in> (mentions R)\<^sup>* `` {s}"
    then have "(s, t) \<in> (mentions R)\<^sup>*" by simp
    then show "t \<in> insert s (ran (map_of (rg_defs R)))"
      by (cases rule: rtrancl.cases) (auto simp: mentions_def resolve_def ran_def split: if_splits)
  qed
  moreover have "ran (map_of (rg_defs R)) \<subseteq> snd ` set (rg_defs R)"
    by (auto simp: ran_def dest!: map_of_SomeD intro: rev_image_eqI)
  then have "finite (ran (map_of (rg_defs R)))" by (rule finite_subset) simp
  ultimately show ?thesis by (auto intro: finite_subset)
qed

lemma sound_walk:
  assumes "sound_refs R s"
  shows "\<exists>n. walk R n s = Some (Inr ())"
proof -
  let ?A = "(mentions R)\<^sup>* `` {s}"
  let ?M = "mentions R \<inter> ?A \<times> ?A"
  have "finite ?M" using finite_mentions [of R s] by (intro finite_subset [of ?M "?A \<times> ?A"]) auto
  moreover have "acyclic ?M"
  proof (rule acyclicI, intro allI notI)
    fix t assume tt: "(t, t) \<in> ?M\<^sup>+"
    then have "t \<in> ?A" by (auto elim: tranclE)
    moreover have "(t, t) \<in> (mentions R)\<^sup>+" using tt by (rule trancl_mono) auto
    ultimately show False using assms by (auto simp: sound_refs_def)
  qed
  ultimately have wf: "wf (?M\<inverse>)" by (rule finite_acyclic_wf_converse)
  have "\<exists>n. walk R n t = Some (Inr ())" if "t \<in> ?A" for t
    using that
  proof (induction t rule: wf_induct_rule [OF wf])
    case (1 t)
    let ?S = "mentions R `` {t}"
    have sub: "?S \<subseteq> ?A" using 1(2) by (auto intro: rtrancl_into_rtrancl)
    then have fin: "finite ?S" using finite_mentions by (rule finite_subset)
    have "\<exists>n. walk R n u = Some (Inr ())" if "u \<in> ?S" for u
      using 1 that sub by (intro 1(1)) auto
    then obtain f where f: "\<And>u. u \<in> ?S \<Longrightarrow> walk R (f u) u = Some (Inr ())" by metis
    have "walk R (Max (insert 0 (f ` ?S))) u = Some (Inr ())" if "u \<in> ?S" for u
      using walk_mono [OF f [OF that]] fin that by (simp add: Max_ge)
    moreover have "resolved R t" using assms 1(2) by (auto simp: sound_refs_def)
    ultimately have "walk R (Suc (Max (insert 0 (f ` ?S)))) t = Some (Inr ())"
      unfolding walk_iff [of R _ t] by auto
    then show ?case by blast
  qed
  then show ?thesis by blast
qed

section \<open>The walker decides conformance\<close>

lemma set_eq_snd_enumerate: "set xs = snd ` set (enumerate 0 xs)"
  by (metis list.set_map map_snd_enumerate)

lemma validate_decides:
  "walk R n s = Some (Inr ()) \<Longrightarrow> decided (validate L R n path s v) (conforms L R s v) path"
proof (induction L R n path s v rule: validate.induct)
  case (1 L R n path required nullable properties v0)
  show ?case
  proof (cases v0)
    case (JObject m)
    have "decided (case map_of m k of
           None \<Rightarrow> Some (if \<not> has_default p \<and> k \<in> set required
                   then Inl (Invalid (path @ '' must have the property '' @ quoted k)) else Inr ())
         | Some v \<Rightarrow> if v = JNull \<and> k \<in> set nullable then Some (Inr ()) else validate L R n (path @ ''/'' @ k) p v)
       (case map_of m k of
          None \<Rightarrow> has_default p \<or> k \<notin> set required
        | Some v \<Rightarrow> v = JNull \<and> k \<in> set nullable \<or> conforms L R p v) path"
      if kp: "(k, p) \<in> set properties" for k p
    proof (cases "map_of m k")
      case (Some w)
      have "walk R n p = Some (Inr ())" using 1(2) kp by (auto simp: each_ok_iff)
      have "decided (validate L R n (path @ ''/'' @ k) p w) (conforms L R p w) path"
        if "\<not> (w = JNull \<and> k \<in> set nullable)"
        using decided_below [OF 1(1) [OF JObject kp refl Some that]] \<open>walk R n p = Some (Inr ())\<close> by blast
      then show ?thesis using Some by (cases "w = JNull \<and> k \<in> set nullable") auto
    qed auto
    then have "decided (validate L R n path (LObject (LexObject required nullable properties)) v0)
        (\<forall>x\<in>set properties. case x of (k, p) \<Rightarrow> case map_of m k of
          None \<Rightarrow> has_default p \<or> k \<notin> set required
        | Some v \<Rightarrow> v = JNull \<and> k \<in> set nullable \<or> conforms L R p v) path"
      unfolding JObject validate.simps json.case by (intro decided_each) auto
    then show ?thesis by (simp only: JObject object_conforms)
  qed (simp_all add: conforms_simps)
next
  case (2 L R n path items mn mx v0)
  show ?case
  proof (cases v0)
    case (JArray xs)
    show ?thesis
    proof (cases "array_conforms mn mx xs")
      case True
      then have lim: "array_limits path mn mx xs = Inr ()" using array_limits_cases by blast
      have "decided (validate L R n (path @ ''/'' @ nat_str i) items x) (conforms L R items x) path"
        if "(i, x) \<in> set (enumerate 0 xs)" for i x
        using decided_below [OF 2(1) [OF JArray lim that refl]] 2(2) by simp
      then have "decided (validate L R n path (LArray items mn mx) v0)
          (\<forall>ix\<in>set (enumerate 0 xs). case ix of (i, x) \<Rightarrow> conforms L R items x) path"
        unfolding JArray validate.simps json.case lim sum.case by (intro decided_each) auto
      moreover have "(\<forall>ix\<in>set (enumerate 0 xs). case ix of (i, x) \<Rightarrow> conforms L R items x) \<longleftrightarrow> (\<forall>x\<in>set xs. conforms L R items x)"
        by (simp add: set_eq_snd_enumerate [of xs] case_prod_beta)
      moreover have "conforms L R (LArray items mn mx) v0 \<longleftrightarrow> (\<forall>x\<in>set xs. conforms L R items x)"
        using JArray True by (auto simp: conforms_simps)
      ultimately show ?thesis by (simp only:)
    next
      case False
      then obtain m where "array_limits path mn mx xs = Inl (Invalid (path @ m))" using array_limits_cases by blast
      then show ?thesis using JArray False by (auto simp: conforms_simps)
    qed
  qed (simp_all add: conforms_simps)
next
  case (3 L R n path target v0)
  then obtain t k where "resolve R target = Some t" "n = Suc k" "walk R k t = Some (Inr ())"
    by (auto split: option.splits nat.splits)
  then show ?case using 3(1) by (simp add: conforms_simps)
next
  case (4 L R n path refs closed v0)
  show ?case
  proof (cases "choose_member refs v0")
    case (Member r)
    then have "r \<in> set refs"
      by (auto simp: choose_member_def find_Some_iff split: option.splits)
    then obtain t k where "resolve R r = Some t" "n = Suc k" "walk R k t = Some (Inr ())"
      using 4(2) unfolding walk_follows [of R n "LUnion refs closed"] by (auto simp: follows_refs_def)
    then show ?thesis using 4(1) Member by (simp add: conforms_simps)
  qed (auto simp: conforms_simps)
next
  case (8 L R n path v0)
  then show ?case by (cases v0) (simp_all add: conforms_simps)
qed (simp_all add: string_decided boolean_decided integer_decided blob_decided bytes_decided conforms_simps(11))

text \<open>What the round trip of a query uses of URL encoding.\<close>

definition url_coding :: "'cid lex_lib \<Rightarrow> (str \<Rightarrow> str) \<Rightarrow> bool" where
  "url_coding L enc \<longleftrightarrow> (\<forall>s. lx_url_decode L (enc s) = Some s \<and> CHR ''&'' \<notin> set (enc s) \<and> CHR ''='' \<notin> set (enc s))"

end
