(* ===== verification/Lexicon_Demo.thy ===== *)
theory Lexicon_Demo
  imports Lexicon_Correct
begin

text \<open>
  Concrete documents. Three documents: a procedure with an input and a parameter, a record, and a procedure whose input is
  recursive. URL encoding escapes three characters.
\<close>

definition json_object_type :: "(str \<times> ordered) list \<Rightarrow> ordered" where
  "json_object_type properties =
     OObject [(''type'', OString ''object''), (''required'', OArray [OString ''name'']), (''properties'', OObject properties)]"

definition procedure_doc :: "str \<Rightarrow> (str \<times> ordered) list \<Rightarrow> (str \<times> ordered) list \<Rightarrow> ordered" where
  "procedure_doc ident main defs = OObject [(''lexicon'', ONumber (PosInt 1)), (''id'', OString ident),
     (''defs'', OObject ((''main'', OObject ((''type'', OString ''procedure'') # main)) # defs))]"

definition body_of :: "ordered \<Rightarrow> ordered" where
  "body_of schema = OObject [(''encoding'', OString ''application/json''), (''schema'', schema)]"

definition ref_to :: "str \<Rightarrow> ordered" where
  "ref_to target = OObject [(''type'', OString ''ref''), (''ref'', OString target)]"

definition limited_text :: ordered where
  "limited_text = OObject [(''type'', OString ''string''), (''maxLength'', ONumber (PosInt 3))]"

definition demo_document :: "str \<Rightarrow> str + ordered" where
  "demo_document src =
     (if src = ''p'' then Inr (procedure_doc ''a.b.c''
        [(''input'', body_of (json_object_type [(''name'', limited_text), (''next'', ref_to ''#node'')])),
         (''parameters'', OObject [(''type'', OString ''params''),
            (''properties'', OObject [(''limit'', OObject [(''type'', OString ''integer''), (''minimum'', ONumber (PosInt 1))])])])]
        [(''node'', json_object_type [(''name'', limited_text)])])
      else if src = ''r'' then Inr (OObject [(''lexicon'', ONumber (PosInt 1)), (''id'', OString ''a.b.r''),
        (''defs'', OObject [(''main'', OObject [(''type'', OString ''record''), (''key'', OString ''literal:self''),
           (''record'', json_object_type [(''name'', limited_text)])])])])
      else if src = ''c'' then Inr (procedure_doc ''a.b.c'' [(''input'', body_of (ref_to ''#node''))]
        [(''node'', OObject [(''type'', OString ''object''), (''properties'', OObject [(''next'', ref_to ''#node'')])])])
      else Inl ''no document'')"

definition demo_url_enc :: "str \<Rightarrow> str" where
  "demo_url_enc s = concat (map (\<lambda>c. if c = CHR ''&'' then ''xa'' else if c = CHR ''='' then ''xe'' else if c = CHR ''x'' then ''xx'' else [c]) s)"

fun demo_url_dec :: "str \<Rightarrow> str option" where
  "demo_url_dec [] = Some []"
| "demo_url_dec (c # s) =
     (if c \<noteq> CHR ''x'' then map_option ((#) c) (demo_url_dec s)
      else case s of
        [] \<Rightarrow> None
      | d # r \<Rightarrow>
          if d = CHR ''a'' then map_option ((#) CHR ''&'') (demo_url_dec r)
          else if d = CHR ''e'' then map_option ((#) CHR ''='') (demo_url_dec r)
          else map_option ((#) d) (demo_url_dec r))"

definition demo_lex :: "str lex_lib" where
  "demo_lex = \<lparr> lx_json = demo_document, lx_debug = quoted, lx_graphemes = length, lx_cid = (\<lambda>s. if s = [] then Inl ''empty'' else Inr s),
     lx_year = (\<lambda>_. None), lx_show = (\<lambda>_. ''value''), lx_body = (\<lambda>_. Inl ''no body''), lx_url_decode = demo_url_dec \<rparr>"

lemma demo_coding: "url_coding demo_lex demo_url_enc"
proof -
  have "demo_url_dec (demo_url_enc s) = Some s \<and> CHR ''&'' \<notin> set (demo_url_enc s) \<and> CHR ''='' \<notin> set (demo_url_enc s)" for s
    by (induction s) (auto simp: demo_url_enc_def)
  then show ?thesis by (simp add: url_coding_def demo_lex_def)
qed

definition demo_object :: "lex_schema option \<Rightarrow> lex_schema" where
  "demo_object next_schema = LObject (LexObject [''name''] []
     ((''name'', LString \<lparr> ls_format = None, ls_min_length = None, ls_max_length = Some 3, ls_max_graphemes = None,
         ls_enum_values = [], ls_has_default = False \<rparr>) # (case next_schema of None \<Rightarrow> [] | Some s \<Rightarrow> [(''next'', s)])))"

definition demo_registry :: registry where
  "demo_registry = \<lparr>
     rg_inputs = [(''a.b.c'', \<lparr> lb_encoding = ''application/json'', lb_schema = Some (demo_object (Some (LRef ''lex:a.b.c#node''))) \<rparr>)],
     rg_records = [(''a.b.r'', \<lparr> lr_key = ''literal:self'', lr_record = demo_object None \<rparr>)],
     rg_params = [(''a.b.c'', LexObject [] [] [(''limit'', LInteger \<lparr> li_minimum = Some 1, li_maximum = None, li_enum_values = [], li_has_default = False \<rparr>)])],
     rg_outputs = [], rg_defs = [(''lex:a.b.c#node'', demo_object None)] \<rparr>"

lemma demo_builds: "registry_build demo_lex 1 [''p'', ''r''] = Some (Inr demo_registry)"
  by code_simp

definition cyclic_registry :: registry where
  "cyclic_registry = \<lparr>
     rg_inputs = [(''a.b.c'', \<lparr> lb_encoding = ''application/json'', lb_schema = Some (LRef ''lex:a.b.c#node'') \<rparr>)],
     rg_records = [], rg_params = [], rg_outputs = [],
     rg_defs = [(''lex:a.b.c#node'', LObject (LexObject [] [] [(''next'', LRef ''lex:a.b.c#node'')]))] \<rparr>"

lemma cyclic_registers: "register_sources demo_lex [''c''] registry_empty = Inr cyclic_registry"
  by code_simp

end
