(* ===== verification/Lexicon_Service.thy ===== *)
theory Lexicon_Service
  imports Lexicon_Demo Data_Model_Correct
begin

text \<open>The properties of the lexicon registry: its build, the verdicts of its four roots, and query parameters.\<close>

section \<open>Parameters are primitive\<close>

definition param_schema :: "lex_schema \<Rightarrow> bool" where
  "param_schema s \<longleftrightarrow> is_primitive s \<or> (\<exists>items mn mx. s = LArray items mn mx \<and> is_primitive items)"

lemma typed_node:
  assumes "node_from v ctx = Inr nd" "required_string L nd ''type'' = Inr ty"
  shows "parse_schema L ctx v = Inr s \<Longrightarrow> ty = ''string'' \<or> ty = ''integer'' \<or> ty = ''boolean'' \<Longrightarrow> is_primitive s"
    and "parse_schema L ctx v = Inr s \<Longrightarrow> ty = ''array'' \<Longrightarrow> \<exists>items mn mx. s = LArray items mn mx"
  using assms
  by (auto simp: parse_schema.simps [of L ctx v] parse_string_def parse_integer_def parse_boolean_def is_primitive_def
      split: option.splits)

lemma node_typed: "parse_param_property L v ctx = Inr s \<Longrightarrow> \<exists>nd ty. node_from v ctx = Inr nd \<and> required_string L nd ''type'' = Inr ty"
  by (auto simp: parse_param_property_def)

lemma param_property_schema:
  assumes "parse_param_property L v ctx = Inr s"
  shows "param_schema s"
proof -
  from node_typed [OF assms] obtain nd ty where nd: "node_from v ctx = Inr nd" "required_string L nd ''type'' = Inr ty" by blast
  note typed = typed_node [OF nd]
  consider "ty = ''string'' \<or> ty = ''integer'' \<or> ty = ''boolean''" | "ty = ''array''"
    using assms nd by (auto simp: parse_param_property_def split: if_splits)
  then show ?thesis
  proof cases
    case 1
    then have "parse_schema L ctx v = Inr s" using assms nd by (simp add: parse_param_property_def)
    then show ?thesis using typed(1) 1 by (simp add: param_schema_def)
  next
    case 2
    then have p: "res_bind (parse_schema L ctx v) (\<lambda>schema. case schema of
         LArray items _ _ \<Rightarrow>
           if is_primitive items then Inr schema
           else Inl (ctx @ '': array items in a params object must be string, integer, or '' @
             ''boolean (the validator does not support other param array item types)'')
       | _ \<Rightarrow> Inr schema) = Inr s"
      using assms nd by (simp add: parse_param_property_def)
    then obtain s' where s': "parse_schema L ctx v = Inr s'" by auto
    from typed(2) [OF this 2] obtain items mn mx where "s' = LArray items mn mx" by blast
    then show ?thesis using p s' by (auto simp: param_schema_def split: if_splits)
  qed
qed

lemma collect_entry:
  assumes "collect_results (\<lambda>(name, v). res_bind (f name v) (\<lambda>s. Inr (name, s))) es = Inr out" "(k, s) \<in> set out"
  shows "\<exists>v. (k, v) \<in> set es \<and> f k v = Inr s"
  using assms by (induction es arbitrary: out) (fastforce split: sum.splits)+

definition all_params :: "lex_schema lex_object \<Rightarrow> bool" where
  "all_params obj \<longleftrightarrow> (\<forall>(k, s)\<in>set (lo_properties obj). param_schema s)"

lemma parse_params_schema:
  assumes "parse_params L v ctx = Inr obj"
  shows "all_params obj"
proof -
  from assms obtain required es props where obj: "obj = LexObject required [] props"
    and c: "collect_results (\<lambda>(name, pv). res_bind (parse_param_property L pv (ctx @ ''/'' @ name)) (\<lambda>s. Inr (name, s))) es = Inr props"
    by (auto simp: parse_params_def split: if_splits)
  show ?thesis
    by (auto simp: obj all_params_def dest!: collect_entry [OF c] intro: param_property_schema)
qed

definition params_ok :: "registry \<Rightarrow> bool" where
  "params_ok R \<longleftrightarrow> (\<forall>nsid obj. map_of (rg_params R) nsid = Some obj \<longrightarrow> all_params obj)"

definition def_params_ok :: "lex_def \<Rightarrow> bool" where
  "def_params_ok d \<longleftrightarrow> (case d of
     LexProcedure p \<Rightarrow> (\<forall>obj. lp_parameters p = Some obj \<longrightarrow> all_params obj)
   | LexQuery q \<Rightarrow> (\<forall>obj. lq_parameters q = Some obj \<longrightarrow> all_params obj)
   | _ \<Rightarrow> True)"

lemma params_of_schema: "params_of L nd ctx = Inr (Some obj) \<Longrightarrow> all_params obj"
  by (auto simp: params_of_def split: option.splits) (use parse_params_schema in blast)

lemma parse_def_params:
  assumes "parse_def L v ctx = Inr d"
  shows "def_params_ok d"
proof (cases d)
  case (LexProcedure p)
  then obtain nd where "params_of L nd ctx = Inr (lp_parameters p)"
    using assms by (auto simp: parse_def_def split: if_splits lex_schema.splits) (metis lex_schema.exhaust)
  then show ?thesis using LexProcedure params_of_schema [of L nd ctx] by (auto simp: def_params_ok_def)
next
  case (LexQuery q)
  then obtain nd where "params_of L nd ctx = Inr (lq_parameters q)"
    using assms by (auto simp: parse_def_def split: if_splits lex_schema.splits) (metis lex_schema.exhaust)
  then show ?thesis using LexQuery params_of_schema [of L nd ctx] by (auto simp: def_params_ok_def)
qed (simp_all add: def_params_ok_def)

lemma parse_doc_params:
  assumes "parse_doc L src = Inr doc" "(k, d) \<in> set (ld_defs doc)"
  shows "def_params_ok d"
proof -
  from assms(1) obtain ident v where "parse_defs L ident v = Inr (ld_defs doc)"
    by (auto simp: parse_doc_def)
  then obtain es where
    "collect_results (\<lambda>(name, v). res_bind (parse_def L v (ident @ ''#'' @ name)) (\<lambda>d. Inr (name, d))) es = Inr (ld_defs doc)"
    by (auto simp: parse_defs_def split: ordered.splits)
  from collect_entry [OF this assms(2)] show ?thesis using parse_def_params by blast
qed

lemma register_output_params [simp]: "rg_params (register_output nsid out R) = rg_params R"
  by (simp add: register_output_def split: option.split)

lemma register_def_params:
  "register_def ident (k, d) R = Inr R' \<Longrightarrow> params_ok R \<Longrightarrow> def_params_ok d \<Longrightarrow> params_ok R'"
  by (cases d) (auto simp: register_def_def params_ok_def def_params_ok_def all_params_def [of "LexObject [] [] []"] update_conv Let_def split: if_splits option.splits)

lemma register_defs_params:
  "register_defs ident ds R = Inr R' \<Longrightarrow> params_ok R \<Longrightarrow> (\<And>k d. (k, d) \<in> set ds \<Longrightarrow> def_params_ok d) \<Longrightarrow> params_ok R'"
proof (induction ds arbitrary: R)
  case (Cons e ds)
  obtain k d where e: "e = (k, d)" by (cases e)
  from Cons.prems(1) e obtain R1 where "register_def ident (k, d) R = Inr R1" "register_defs ident ds R1 = Inr R'" by auto
  then show ?case using Cons.IH register_def_params Cons.prems(2,3) e by (metis list.set_intros)
qed simp

lemma register_sources_params: "register_sources L srcs R = Inr R' \<Longrightarrow> params_ok R \<Longrightarrow> params_ok R'"
proof (induction srcs arbitrary: R)
  case (Cons src srcs)
  then obtain doc R1 where d: "parse_doc L src = Inr doc" "register_defs (ld_id doc) (ld_defs doc) R = Inr R1"
    "register_sources L srcs R1 = Inr R'" by auto
  from register_defs_params [OF d(2) Cons.prems(2)] parse_doc_params [OF d(1)] have "params_ok R1" by blast
  then show ?case using Cons.IH d(3) by blast
qed simp

lemma build_params:
  assumes "registry_build L n srcs = Some (Inr R)"
  shows "params_ok R" "check_refs n R = Some (Inr ())" "register_sources L srcs registry_empty = Inr R"
proof -
  from assms show src: "register_sources L srcs registry_empty = Inr R"
    by (auto simp: registry_build_def split: sum.splits)
  from assms show "check_refs n R = Some (Inr ())"
    by (auto simp: registry_build_def split: sum.splits)
  have "params_ok registry_empty" by (simp add: params_ok_def registry_empty_def)
  then show "params_ok R" using register_sources_params [OF src] by blast
qed

section \<open>Verdicts\<close>

lemma root_walks:
  assumes "check_refs n R = Some (Inr ())" "s \<in> set (roots R)" "n \<le> m"
  shows "walk R m s = Some (Inr ())"
  using assms walk_mono [of R n s m] by (simp add: check_refs_def each_ok_iff)

lemma member_roots:
  "map_of (rg_inputs R) nsid = Some body \<Longrightarrow> lb_schema body = Some s \<Longrightarrow> s \<in> set (roots R)"
  "map_of (rg_records R) nsid = Some r \<Longrightarrow> lr_record r \<in> set (roots R)"
  "map_of (rg_outputs R) nsid = Some s \<Longrightarrow> s \<in> set (roots R)"
  by (force simp: roots_def List.map_filter_def image_iff dest!: map_of_SomeD)+

lemma primitive_refs: "is_primitive s \<Longrightarrow> refs_in s = []"
  by (cases s) (simp_all add: is_primitive_def)

lemma param_refs: "param_schema s \<Longrightarrow> refs_in s = []"
  by (auto simp: param_schema_def primitive_refs)

lemma params_walk:
  assumes "params_ok R" "map_of (rg_params R) nsid = Some obj"
  shows "walk R m (LObject obj) = Some (Inr ())"
proof -
  obtain required nullable properties where obj: "obj = LexObject required nullable properties" by (cases obj)
  have "\<forall>(k, s)\<in>set properties. refs_in s = []"
    using assms obj param_refs unfolding params_ok_def all_params_def by fastforce
  then show ?thesis unfolding walk_follows obj by fastforce
qed

text \<open>
  C6: A built registry decides conformance. Every walk over an input, an output or a parameter object
  comes back, accepts exactly the values that conform to the schema, and otherwise reports an error of
  the value, with a message that starts with the place of the offence, never a broken lexicon.
\<close>

theorem verdicts_decide_conformance:
  assumes "registry_build L n srcs = Some (Inr R)" "n \<le> m"
  shows "(\<forall>nsid input s v. map_of (rg_inputs R) nsid = Some input \<and> lb_schema input = Some s \<longrightarrow>
      decided (validate_input L R m nsid v) (conforms L R s v) ''Input'') \<and>
    (\<forall>nsid s v. map_of (rg_outputs R) nsid = Some s \<longrightarrow> decided (validate_output L R m nsid v) (conforms L R s v) ''Output'') \<and>
    (\<forall>nsid ps v. map_of (rg_params R) nsid = Some ps \<longrightarrow>
      decided (validate_params L R m nsid v) (conforms L R (LObject ps) v) ''Params'')"
proof -
  note b = build_params [OF assms(1)]
  note w = root_walks [OF b(2) _ assms(2)]
  show ?thesis
  proof (intro conjI allI impI)
    fix nsid input s v assume "map_of (rg_inputs R) nsid = Some input \<and> lb_schema input = Some s"
    then show "decided (validate_input L R m nsid v) (conforms L R s v) ''Input''"
      using validate_decides [OF w [OF member_roots(1)], of nsid input s] by (auto simp: validate_input_def)
  next
    fix nsid s v assume "map_of (rg_outputs R) nsid = Some s"
    then show "decided (validate_output L R m nsid v) (conforms L R s v) ''Output''"
      using validate_decides [OF w [OF member_roots(3)]] by (simp add: validate_output_def)
  next
    fix nsid ps v assume "map_of (rg_params R) nsid = Some ps"
    then show "decided (validate_params L R m nsid v) (conforms L R (LObject ps) v) ''Params''"
      using validate_decides [OF params_walk [OF b(1)]] by (simp add: validate_params_def del: validate.simps)
  qed
qed

theorem verdicts_decide_conformance_witness:
  "decided (validate_input demo_lex demo_registry 1 ''a.b.c'' (JObject [(''name'', JString ''abcd'')]))
     (conforms demo_lex demo_registry (demo_object (Some (LRef ''lex:a.b.c#node''))) (JObject [(''name'', JString ''abcd'')])) ''Input'' \<and>
   validate_input demo_lex demo_registry 1 ''a.b.c'' (JObject [(''name'', JString ''abcd'')]) =
     Some (Inl (Invalid ''Input/name must not be longer than 3 characters''))"
proof
  have "map_of (rg_inputs demo_registry) ''a.b.c'' =
      Some \<lparr> lb_encoding = ''application/json'', lb_schema = Some (demo_object (Some (LRef ''lex:a.b.c#node''))) \<rparr>"
    by (simp add: demo_registry_def)
  then show "decided (validate_input demo_lex demo_registry 1 ''a.b.c'' (JObject [(''name'', JString ''abcd'')]))
     (conforms demo_lex demo_registry (demo_object (Some (LRef ''lex:a.b.c#node''))) (JObject [(''name'', JString ''abcd'')])) ''Input''"
    using verdicts_decide_conformance [OF demo_builds order_refl] by fastforce
qed code_simp

text \<open>
  C7: The decision table of a repository write. The outcome of the record check is: skipped, with the
  check turned off; unknown, for an unknown collection when validity was not demanded; valid, when the
  record key and the record conform to the collection's lexicon. A \<open>$type\<close> other than the collection is
  refused in every case, and every refusal blames the request.
\<close>

theorem record_write_decision:
  assumes "registry_build L n srcs = Some (Inr R)" "n \<le> m"
  shows "\<exists>q. validate_record L R m collection rkey rec flag = Some q \<and>
    (\<forall>status. q = Inr status \<longleftrightarrow>
       value_get rec ''$type'' \<in> {None, Some (JString collection)} \<and>
       (case status of
          None \<Rightarrow> flag = Some False
        | Some Unknown \<Rightarrow> flag = None \<and> map_of (rg_records R) collection = None
        | Some Valid \<Rightarrow> flag \<noteq> Some False \<and> (\<exists>def. map_of (rg_records R) collection = Some def \<and>
            is_ok (validate_record_key (lr_key def) rkey) \<and> conforms L R (lr_record def) rec))) \<and>
    (\<forall>e. q = Inl e \<longrightarrow> (\<exists>msg. e = Invalid msg))"
proof (cases "value_get rec ''$type'' \<in> {None, Some (JString collection)} \<and> flag \<noteq> Some False")
  case False
  then show ?thesis
    by (auto simp: validate_record_def check_type_def split: option.splits record_validation.splits)
next
  case typed: True
  then have t: "check_type L collection rec = Inr ()" by (auto simp: check_type_def)
  show ?thesis
  proof (cases "map_of (rg_records R) collection")
    case None
    then show ?thesis using t typed
      by (cases flag) (auto simp: validate_record_def split: option.splits record_validation.splits)
  next
    case (Some def)
    have w: "walk R m (lr_record def) = Some (Inr ())"
      using root_walks [OF build_params(2) [OF assms(1)] member_roots(2) [OF Some] assms(2)] .
    from validate_decides [OF w, of L "''Record''" rec] obtain q where
      q: "validate L R m ''Record'' (lr_record def) rec = Some q" "q = Inr () \<longleftrightarrow> conforms L R (lr_record def) rec"
        "\<And>e. q = Inl e \<Longrightarrow> \<exists>msg. e = Invalid (''Record'' @ msg)"
      by (auto simp: decided_def verdict_def)
    show ?thesis
    proof (cases "validate_record_key (lr_key def) rkey")
      case (Inl reason)
      then show ?thesis using Some t typed
        by (auto simp: validate_record_def split: option.splits record_validation.splits)
    next
      case (Inr u)
      show ?thesis
      proof (cases q)
        case (Inl e)
        then obtain msg where "e = Invalid (''Record'' @ msg)" using q(3) by blast
        then show ?thesis using Some t typed Inr q(1,2) Inl
          by (auto simp: validate_record_def split: option.splits record_validation.splits)
      next
        case (Inr u')
        then show ?thesis using Some t typed \<open>validate_record_key (lr_key def) rkey = Inr u\<close> q(1,2)
          by (auto simp: validate_record_def split: option.splits record_validation.splits)
      qed
    qed
  qed
qed

theorem record_write_decision_witness:
  "\<exists>q. validate_record demo_lex demo_registry 1 ''a.b.r'' ''self'' (JObject [(''name'', JString ''abc'')]) None = Some q \<and>
     q = Inr (Some Valid) \<and> conforms demo_lex demo_registry (demo_object None) (JObject [(''name'', JString ''abc'')])"
proof -
  have v: "validate_record demo_lex demo_registry 1 ''a.b.r'' ''self'' (JObject [(''name'', JString ''abc'')]) None = Some (Inr (Some Valid))"
    by code_simp
  have r: "map_of (rg_records demo_registry) ''a.b.r'' = Some \<lparr> lr_key = ''literal:self'', lr_record = demo_object None \<rparr>"
    by (simp add: demo_registry_def)
  note t = record_write_decision [OF demo_builds order_refl, of "''a.b.r''" "''self''" "JObject [(''name'', JString ''abc'')]" None,
    unfolded v]
  have "\<exists>def. map_of (rg_records demo_registry) ''a.b.r'' = Some def \<and>
      conforms demo_lex demo_registry (lr_record def) (JObject [(''name'', JString ''abc'')])"
    using t
    apply (elim exE conjE)
    apply (drule spec [of _ "Some Valid"])
    apply (simp only: option.inject simp_thms option.case record_validation.case)
    apply blast
    done
  then show ?thesis using v r by simp
qed

section \<open>Which registries build\<close>

lemma walk_error:
  "walk R n s = Some (Inl e) \<Longrightarrow>
   \<exists>r\<in>set (refs_in s). resolve R r = None \<or> (\<exists>t k. resolve R r = Some t \<and> n = Suc k \<and> walk R k t = Some (Inl e))"
proof (induction s rule: refs_in.induct)
  case (1 required nullable properties)
  then show ?case by (fastforce dest!: each_Inl)
next
  case (4 refs closed)
  from each_Inl [OF 4 [simplified]] show ?case by (fastforce split: option.splits nat.splits)
qed (auto split: option.splits nat.splits)

lemma resolved_walk_no_error:
  "(\<And>t. (s, t) \<in> (mentions R)\<^sup>* \<Longrightarrow> resolved R t) \<Longrightarrow> walk R n s \<noteq> Some (Inl e)"
proof (induction n arbitrary: s)
  case 0
  then show ?case using walk_error [of R 0 s e] by (fastforce simp: resolved_def)
next
  case (Suc n)
  show ?case
  proof
    assume "walk R (Suc n) s = Some (Inl e)"
    from walk_error [OF this] obtain r t where r: "r \<in> set (refs_in s)" "resolve R r = Some t" "walk R n t = Some (Inl e)"
      using Suc.prems [of s] by (auto simp: resolved_def)
    have "(s, t) \<in> mentions R" using r by (auto simp: mentions_def)
    then have "walk R n t \<noteq> Some (Inl e)" using Suc.prems by (intro Suc.IH) (meson converse_rtrancl_into_rtrancl)
    then show False using r(3) by blast
  qed
qed

text \<open>
  C20: Which registries build. The reference check of a set of documents comes back with a registry
  exactly when every reference it meets resolves and no definition leads back to itself; and when all
  references resolve but some definition a root reaches is recursive, which the lexicon language allows,
  the build does not come back at all.
\<close>

theorem build_returns_iff_acyclic:
  assumes "register_sources L srcs registry_empty = Inr R"
  shows "((\<exists>n. registry_build L n srcs = Some (Inr R)) \<longleftrightarrow> (\<forall>s\<in>set (roots R). sound_refs R s)) \<and>
    ((\<forall>s\<in>set (roots R). \<forall>t. (s, t) \<in> (mentions R)\<^sup>* \<longrightarrow> resolved R t) \<and>
     (\<exists>s\<in>set (roots R). \<exists>t. (s, t) \<in> (mentions R)\<^sup>* \<and> (t, t) \<in> (mentions R)\<^sup>+) \<longrightarrow>
     (\<forall>n. registry_build L n srcs = None))"
proof (intro conjI iffI impI allI)
  have build: "registry_build L n srcs = Some (Inr R) \<longleftrightarrow> check_refs n R = Some (Inr ())" for n
    using assms by (auto simp: registry_build_def)
  {
    assume "\<exists>n. registry_build L n srcs = Some (Inr R)"
    then obtain n where "check_refs n R = Some (Inr ())" using build by blast
    then show "\<forall>s\<in>set (roots R). sound_refs R s"
      by (auto simp: check_refs_def each_ok_iff intro: walk_sound)
  next
    assume "\<forall>s\<in>set (roots R). sound_refs R s"
    then have "\<forall>s\<in>set (roots R). \<exists>n. walk R n s = Some (Inr ())" using sound_walk by blast
    then obtain f where f: "\<And>s. s \<in> set (roots R) \<Longrightarrow> walk R (f s) s = Some (Inr ())" by metis
    have "walk R (Max (insert 0 (f ` set (roots R)))) s = Some (Inr ())" if "s \<in> set (roots R)" for s
      using walk_mono [OF f [OF that]] that by simp
    then have "check_refs (Max (insert 0 (f ` set (roots R)))) R = Some (Inr ())"
      by (simp add: check_refs_def each_ok_iff)
    then show "\<exists>n. registry_build L n srcs = Some (Inr R)" using build by blast
  next
    fix n
    assume c: "(\<forall>s\<in>set (roots R). \<forall>t. (s, t) \<in> (mentions R)\<^sup>* \<longrightarrow> resolved R t) \<and>
       (\<exists>s\<in>set (roots R). \<exists>t. (s, t) \<in> (mentions R)\<^sup>* \<and> (t, t) \<in> (mentions R)\<^sup>+)"
    have "check_refs n R \<noteq> Some (Inr ())"
      using c walk_sound by (fastforce simp: check_refs_def each_ok_iff sound_refs_def)
    moreover have "check_refs n R \<noteq> Some (Inl e)" for e
      using c resolved_walk_no_error each_Inl [of "walk R n" "roots R" e] by (auto simp: check_refs_def)
    ultimately have "check_refs n R = None"
      by (cases "check_refs n R") (metis, metis old.sum.exhaust old.unit.exhaust)
    then show "registry_build L n srcs = None" using assms by (simp add: registry_build_def)
  }
qed

theorem build_returns_iff_acyclic_witness: "\<forall>n. registry_build demo_lex n [''c''] = None"
proof -
  let ?t = "LObject (LexObject [] [] [(''next'', LRef ''lex:a.b.c#node'')])" and ?s = "LRef ''lex:a.b.c#node''"
  let ?M = "mentions cyclic_registry"
  have res: "resolve cyclic_registry ''lex:a.b.c#node'' = Some ?t" by (simp add: resolve_def cyclic_registry_def)
  then have m: "(?s, ?t) \<in> ?M" "(?t, ?t) \<in> ?M" by (simp_all add: mentions_def)
  have "t \<in> {?s, ?t}" if "(?s, t) \<in> ?M\<^sup>*" for t
    using that by (induction rule: rtrancl_induct) (auto simp: mentions_def res)
  then have "resolved cyclic_registry t" if "(?s, t) \<in> ?M\<^sup>*" for t
    using that res by (fastforce simp: resolved_def)
  moreover have "roots cyclic_registry = [?s]"
    by (simp add: roots_def cyclic_registry_def List.map_filter_def)
  moreover have "(?s, ?t) \<in> ?M\<^sup>*" "(?t, ?t) \<in> ?M\<^sup>+" using m by auto
  ultimately show ?thesis using build_returns_iff_acyclic [OF cyclic_registers] by auto
qed

section \<open>Query parameters\<close>




lemma digit_no_space: "is_digit c \<Longrightarrow> ws_len (c # s) = 0"
  by (rule ws_len_printable) (auto simp: is_digit_def in_bytes_def ascii_simps)

lemma trim_start_id: "ws_len s = 0 \<Longrightarrow> trim_start s = s"
  by (simp add: trim_start.simps [of s])

lemma takeWhile_all: "list_all P xs \<Longrightarrow> takeWhile P xs = xs"
  by (simp add: list_all_iff takeWhile_eq_all_conv)

lemma signs_no_digits: "\<not> is_digit CHR ''-''" "\<not> is_digit CHR ''+''" "ws_len (CHR ''-'' # s) = 0"
  by (auto simp: is_digit_def in_bytes_def ascii_simps intro: ws_len_printable)

lemma parse_digits:
  assumes "list_all is_digit ds" "ds \<noteq> []"
  shows "parse_int_lenient ds = (if digits_value ds \<le> i64_max \<and> i64_min \<le> digits_value ds then digits_value ds else 0)"
proof -
  obtain d r where ds: "ds = d # r" using assms(2) by (cases ds) auto
  then have "is_digit d" using assms(1) by simp
  then have "trim_start ds = ds" "d \<noteq> CHR ''+''" "d \<noteq> CHR ''-''"
    using trim_start_id [of ds] digit_no_space [of d r] ds signs_no_digits by auto
  then show ?thesis
    using takeWhile_all [OF assms(1)] ds by (auto simp: parse_int_lenient_def Let_def)
qed






lemma number_as_i64: "i64_min \<le> i \<Longrightarrow> i \<le> i64_max \<Longrightarrow> as_i64 (number_from_int i) = Some i"
  using number_from_int_reads [of i]
  by (auto simp: number_from_int_def as_i64_def as_u64_def i64_min_def i64_max_def u64_max_int_def split: if_splits option.splits)






section \<open>The query string of typed parameters\<close>












text \<open>
  C39: An overflowing integer parameter is zero. A run of digits above \<open>i64::MAX\<close> is coerced to 0, so a
  bound that admits 0 lets it pass, however small its maximum.
\<close>

theorem overflowing_integer_is_zero:
  assumes "list_all is_digit ds" "i64_max < digits_value ds"
    "li_enum_values c = []" "\<forall>mn. li_minimum c = Some mn \<longrightarrow> mn \<le> 0" "\<forall>mx. li_maximum c = Some mx \<longrightarrow> 0 \<le> mx"
  shows "\<exists>v. coerce_property (LInteger c) (Some [ds]) = Some v \<and> integer_value v = Some 0 \<and>
    validate_integer path c v = Inr ()"
proof -
  have ds: "ds \<noteq> []" using assms(2) by (auto simp: digits_value_def i64_max_def)
  have "as_i64 (number_from_int 0) = Some 0" by (rule number_as_i64) (simp_all add: i64_min_def i64_max_def)
  then have "integer_value (JNumber (number_from_int 0)) = Some 0"
    by (simp add: integer_value_def number_from_int_def)
  moreover have "coerce_property (LInteger c) (Some [ds]) = Some (JNumber (number_from_int 0))"
    using parse_digits [OF assms(1) ds] assms(2) ds by (simp add: coerce_property_def coerce_scalar_def)
  ultimately show ?thesis
    using assms(3-5) by (auto simp: validate_integer_def split: option.split)
qed

theorem overflowing_integer_is_zero_witness:
  "\<exists>v. coerce_property (LInteger \<lparr> li_minimum = None, li_maximum = Some 100, li_enum_values = [], li_has_default = False \<rparr>)
     (Some [''9223372036854775808'']) = Some v \<and> integer_value v = Some 0"
proof -
  have "list_all is_digit ''9223372036854775808''" "i64_max < digits_value ''9223372036854775808''" by code_simp+
  from overflowing_integer_is_zero [OF this,
      of "\<lparr> li_minimum = None, li_maximum = Some 100, li_enum_values = [], li_has_default = False \<rparr>"]
  show ?thesis by auto
qed

end
