(* ===== verification/Lexicon_Document.thy ===== *)
theory Lexicon_Document
  imports Lexicon_Validate
begin

text \<open>
  The checks over arbitrary, untrusted lexicon documents of \<open>crates/repo-engine/src/lexicon.rs\<close>: whether a
  document is well-formed, and whether a record conforms to a record definition of a document. Both work on
  the JSON value of the document. The CID parser, chrono, base64 and the grapheme count are parameters.
\<close>

record 'cid document_lib =
  dl_cid :: "str \<Rightarrow> str + 'cid"
  dl_year :: "str \<Rightarrow> int option"
  dl_graphemes :: "str \<Rightarrow> nat"
  dl_base64 :: "str \<Rightarrow> str + 8 word list"
  dl_base64_no_pad :: "str \<Rightarrow> str + 8 word list"

type_synonym json_map = "(str \<times> json) list"

section \<open>Errors\<close>

record lexicon_schema_error =
  se_location :: str
  se_reason :: str

record lexicon_record_error =
  re_path :: str
  re_reason :: str

definition schema_error_text :: "lexicon_schema_error \<Rightarrow> str" where
  "schema_error_text e = ''lexicon '' @ se_location e @ '': '' @ se_reason e"

definition record_error_text :: "lexicon_record_error \<Rightarrow> str" where
  "record_error_text e = ''record at `'' @ re_path e @ ''`: '' @ re_reason e"

definition schema_error :: "str \<Rightarrow> str \<Rightarrow> lexicon_schema_error" where
  "schema_error location reason = \<lparr> se_location = location, se_reason = reason \<rparr>"

definition field_error :: "str \<Rightarrow> str \<Rightarrow> lexicon_record_error" where
  "field_error path reason = \<lparr> re_path = path, re_reason = reason \<rparr>"

definition backquoted :: "str \<Rightarrow> str" where "backquoted s = ''`'' @ s @ ''`''"

section \<open>The document\<close>

definition primary_types :: "str list" where
  "primary_types = [''record'', ''query'', ''procedure'', ''subscription'', ''permission-set'']"

definition field_types :: "str list" where
  "field_types = [''null'', ''boolean'', ''integer'', ''string'', ''bytes'', ''cid-link'', ''blob'', ''array'', ''object'', ''token'']"

definition validate_def :: "str \<Rightarrow> json \<Rightarrow> lexicon_schema_error + unit" where
  "validate_def name def = (case def of
     JObject obj \<Rightarrow>
       (case map_of obj ''type'' of
          Some (JString ty) \<Rightarrow>
            let is_primary = ty \<in> set primary_types;
                is_field = ty \<in> set field_types
            in if \<not> is_primary \<and> \<not> is_field then Inl (schema_error name (backquoted ty @ '' is not a valid definition type''))
               else if is_primary \<and> name \<noteq> ''main'' then
                 Inl (schema_error name (''primary type '' @ backquoted ty @ '' may only be defined under `main`''))
               else if ty = ''record'' then
                 (case map_of obj ''record'' of
                    Some (JObject rec) \<Rightarrow>
                      if map_of rec ''type'' = Some (JString ''object'') then Inr ()
                      else Inl (schema_error name (''record `record` must have `type: '' @ quoted ''object'' @ ''`''))
                  | Some _ \<Rightarrow> Inl (schema_error name ''record `record` must be an object'')
                  | None \<Rightarrow> Inl (schema_error name ''record definition is missing `record`''))
               else Inr ()
        | Some _ \<Rightarrow> Inl (schema_error name ''`type` must be a string'')
        | None \<Rightarrow> Inl (schema_error name ''definition is missing `type`''))
   | _ \<Rightarrow> Inl (schema_error name ''definition must be an object''))"

fun validate_defs :: "json_map \<Rightarrow> lexicon_schema_error + unit" where
  "validate_defs [] = Inr ()"
| "validate_defs ((name, def) # defs) = res_bind (validate_def name def) (\<lambda>_. validate_defs defs)"

definition check_version :: "json_map \<Rightarrow> lexicon_schema_error + unit" where
  "check_version obj = (case map_of obj ''lexicon'' of
     None \<Rightarrow> Inl (schema_error ''document'' ''missing `lexicon` version field'')
   | Some v \<Rightarrow> if (case v of JNumber n \<Rightarrow> as_u64 n = Some 1 | _ \<Rightarrow> False) then Inr ()
             else Inl (schema_error ''document'' ''`lexicon` must be the integer 1''))"

definition check_id :: "json_map \<Rightarrow> lexicon_schema_error + unit" where
  "check_id obj = (case map_of obj ''id'' of
     Some (JString doc_id) \<Rightarrow>
       if is_ok (validate_collection doc_id) then Inr ()
       else Inl (schema_error ''document'' (''`id` is not a valid NSID: '' @ doc_id))
   | Some _ \<Rightarrow> Inl (schema_error ''document'' ''`id` must be a string'')
   | None \<Rightarrow> Inl (schema_error ''document'' ''missing `id` field''))"

definition validate_document :: "json \<Rightarrow> lexicon_schema_error + unit" where
  "validate_document doc = (case doc of
     JObject obj \<Rightarrow>
       res_bind (check_version obj) (\<lambda>_.
       res_bind (check_id obj) (\<lambda>_.
       case map_of obj ''defs'' of
         Some (JObject defs) \<Rightarrow> validate_defs defs
       | Some _ \<Rightarrow> Inl (schema_error ''document'' ''`defs` must be an object'')
       | None \<Rightarrow> Inl (schema_error ''document'' ''missing `defs` field'')))
   | _ \<Rightarrow> Inl (schema_error ''document'' ''must be an object''))"

section \<open>Keys, formats and references\<close>

definition doc_record_key :: "str \<Rightarrow> bool" where
  "doc_record_key v \<longleftrightarrow> v \<noteq> [] \<and> length v \<le> 512 \<and> v \<noteq> ''.'' \<and> v \<noteq> ''..'' \<and>
     list_all (\<lambda>b. is_alnum b \<or> b \<in> {CHR ''.'', CHR ''_'', CHR ''~'', CHR '':'', CHR ''-''}) v"

definition doc_tid :: "str \<Rightarrow> bool" where
  "doc_tid v \<longleftrightarrow> length v = 13 \<and> (case v of b # _ \<Rightarrow> b \<in> set ''234567abcdefghij'' | [] \<Rightarrow> False) \<and>
     list_all (\<lambda>b. b \<in> set ''234567abcdefghijklmnopqrstuvwxyz'') v"

definition doc_key_ok :: "str \<Rightarrow> str \<Rightarrow> lexicon_record_error + unit" where
  "doc_key_ok kind rkey =
     (if (case strip_prefix ''literal:'' kind of
            Some literal \<Rightarrow> rkey = literal
          | None \<Rightarrow>
              if kind = ''tid'' then doc_tid rkey
              else if kind = ''nsid'' then is_ok (validate_collection rkey)
              else if kind = ''any'' then doc_record_key rkey
              else False)
      then Inr () else Inl (field_error ''record key'' (''does not satisfy '' @ backquoted kind)))"

definition doc_language :: "str \<Rightarrow> bool" where
  "doc_language v = (case split_on CHR ''-'' v of
     [] \<Rightarrow> False
   | first # parts \<Rightarrow>
       (first \<noteq> [] \<and> length first \<le> 8 \<and> list_all is_alpha first) \<and>
       list_all (\<lambda>part. part \<noteq> [] \<and> length part \<le> 8 \<and> list_all is_alnum part) parts)"

definition doc_uri :: "str \<Rightarrow> bool" where
  "doc_uri v = (case split_once CHR '':'' v of
     None \<Rightarrow> False
   | Some (scheme, rest) \<Rightarrow>
       rest \<noteq> [] \<and> leading_alpha scheme \<and>
       list_all (\<lambda>b. is_alnum b \<or> b = CHR ''+'' \<or> b = CHR ''.'' \<or> b = CHR ''-'') scheme \<and> \<not> any_whitespace v)"

definition doc_format_ok :: "'cid document_lib \<Rightarrow> str \<Rightarrow> str \<Rightarrow> bool" where
  "doc_format_ok D fmt v =
     (if fmt = ''did'' then is_ok (at_uri_validate_did v)
      else if fmt = ''handle'' then is_ok (at_uri_validate_handle v)
      else if fmt = ''at-identifier'' then
        (if starts_with ''did:'' v then is_ok (at_uri_validate_did v) else is_ok (at_uri_validate_handle v))
      else if fmt = ''at-uri'' then is_ok (at_uri_parse v)
      else if fmt = ''nsid'' then is_ok (validate_collection v)
      else if fmt = ''cid'' then is_ok (dl_cid D v)
      else if fmt = ''datetime'' then is_valid_datetime (dl_year D) v
      else if fmt = ''language'' then doc_language v
      else if fmt = ''uri'' then doc_uri v
      else if fmt = ''tid'' then doc_tid v
      else if fmt = ''record-key'' then doc_record_key v
      else False)"

definition canonical_ref :: "str \<Rightarrow> str \<Rightarrow> str" where
  "canonical_ref doc_id reference = (case strip_prefix ''#'' reference of
     Some fragment \<Rightarrow> doc_id @ ''#'' @ fragment
   | None \<Rightarrow> if CHR ''#'' \<in> set reference then reference else reference @ ''#main'')"

definition resolve_ref :: "json_map \<Rightarrow> str \<Rightarrow> str \<Rightarrow> str \<Rightarrow> lexicon_record_error + json" where
  "resolve_ref doc doc_id reference path =
     (let canonical = canonical_ref doc_id reference;
          (target_id, fragment) = (case split_once CHR ''#'' canonical of Some p \<Rightarrow> p | None \<Rightarrow> (canonical, ''main''))
      in if target_id \<noteq> doc_id then Inl (field_error path (''unresolved external ref '' @ backquoted reference))
         else ok_or (case map_of doc ''defs'' of Some (JObject defs) \<Rightarrow> map_of defs fragment | _ \<Rightarrow> None)
                (field_error path (''unresolved ref '' @ backquoted reference)))"

section \<open>Scalar fields\<close>

text \<open>\<open>map.get(key).and_then(Value::as_\<dots>)\<close>.\<close>

definition get_str :: "json_map \<Rightarrow> str \<Rightarrow> str option" where
  "get_str m k = (case map_of m k of Some (JString s) \<Rightarrow> Some s | _ \<Rightarrow> None)"

definition get_bool :: "json_map \<Rightarrow> str \<Rightarrow> bool option" where
  "get_bool m k = (case map_of m k of Some (JBool b) \<Rightarrow> Some b | _ \<Rightarrow> None)"

definition get_i64 :: "json_map \<Rightarrow> str \<Rightarrow> int option" where
  "get_i64 m k = (case map_of m k of Some (JNumber n) \<Rightarrow> as_i64 n | _ \<Rightarrow> None)"

definition get_u64 :: "json_map \<Rightarrow> str \<Rightarrow> int option" where
  "get_u64 m k = (case map_of m k of Some (JNumber n) \<Rightarrow> as_u64 n | _ \<Rightarrow> None)"

definition get_array :: "json_map \<Rightarrow> str \<Rightarrow> json list option" where
  "get_array m k = (case map_of m k of Some (JArray vs) \<Rightarrow> Some vs | _ \<Rightarrow> None)"

definition get_object :: "json_map \<Rightarrow> str \<Rightarrow> json_map option" where
  "get_object m k = (case map_of m k of Some (JObject o') \<Rightarrow> Some o' | _ \<Rightarrow> None)"

text \<open>\<open>option.is_some_and(p)\<close>.\<close>

definition some_and :: "('a \<Rightarrow> bool) \<Rightarrow> 'a option \<Rightarrow> bool" where
  "some_and p x \<longleftrightarrow> (case x of Some v \<Rightarrow> p v | None \<Rightarrow> False)"

definition object :: "json \<Rightarrow> str \<Rightarrow> lexicon_record_error + json_map" where
  "object v path = (case v of JObject m \<Rightarrow> Inr m | _ \<Rightarrow> Inl (field_error path ''must be an object''))"

definition property_path :: "str \<Rightarrow> str \<Rightarrow> str" where
  "property_path path key = path @ ''/'' @ key"

definition doc_integer :: "json_map \<Rightarrow> str \<Rightarrow> json \<Rightarrow> lexicon_record_error + unit" where
  "doc_integer node path v = (case integer_value v of
     None \<Rightarrow> Inl (field_error path ''must be an integer'')
   | Some i \<Rightarrow>
       if some_and (\<lambda>expected. i \<noteq> expected) (get_i64 node ''const'') then Inl (field_error path ''does not match `const`'')
       else if some_and (\<lambda>vs. \<not> list_ex (\<lambda>item. case item of JNumber n \<Rightarrow> as_i64 n = Some i | _ \<Rightarrow> False) vs) (get_array node ''enum'')
       then Inl (field_error path ''is not in `enum`'')
       else if some_and (\<lambda>minimum. i < minimum) (get_i64 node ''minimum'') then Inl (field_error path ''is below `minimum`'')
       else if some_and (\<lambda>maximum. maximum < i) (get_i64 node ''maximum'') then Inl (field_error path ''is above `maximum`'')
       else Inr ())"

definition check_bounds :: "json_map \<Rightarrow> str \<Rightarrow> nat \<Rightarrow> str \<Rightarrow> str \<Rightarrow> str \<Rightarrow> lexicon_record_error + unit" where
  "check_bounds node path actual mn mx label =
     (if some_and (\<lambda>bound. int actual < bound) (get_u64 node mn)
      then Inl (field_error path (label @ '' is below '' @ backquoted mn))
      else if some_and (\<lambda>bound. bound < int actual) (get_u64 node mx)
      then Inl (field_error path (label @ '' is above '' @ backquoted mx))
      else Inr ())"

definition check_length :: "json_map \<Rightarrow> str \<Rightarrow> nat \<Rightarrow> lexicon_record_error + unit" where
  "check_length node path len = check_bounds node path len ''minLength'' ''maxLength'' ''length''"

definition doc_string :: "'cid document_lib \<Rightarrow> json_map \<Rightarrow> str \<Rightarrow> json \<Rightarrow> lexicon_record_error + unit" where
  "doc_string D node path v = (case v of
     JString s \<Rightarrow>
       if some_and (\<lambda>expected. s \<noteq> expected) (get_str node ''const'') then Inl (field_error path ''does not match `const`'')
       else if some_and (\<lambda>vs. \<not> list_ex (\<lambda>item. item = JString s) vs) (get_array node ''enum'')
       then Inl (field_error path ''is not in `enum`'')
       else
         res_bind (check_length node path (length s)) (\<lambda>_.
         res_bind (check_bounds node path (dl_graphemes D s) ''minGraphemes'' ''maxGraphemes'' ''graphemes'') (\<lambda>_.
         case get_str node ''format'' of
           Some fmt \<Rightarrow>
             if doc_format_ok D fmt s then Inr () else Inl (field_error path ''does not satisfy its string format'')
         | None \<Rightarrow> Inr ()))
   | _ \<Rightarrow> Inl (field_error path ''must be a string''))"

definition doc_bytes :: "'cid document_lib \<Rightarrow> json_map \<Rightarrow> str \<Rightarrow> json \<Rightarrow> lexicon_record_error + unit" where
  "doc_bytes D node path v = (case json_str v ''$bytes'' of
     None \<Rightarrow> Inl (field_error path ''must be a byte array'')
   | Some encoded \<Rightarrow>
       if map_of node ''minLength'' = None \<and> map_of node ''maxLength'' = None then Inr ()
       else
         (case (case dl_base64 D encoded of Inr bs \<Rightarrow> Inr bs | Inl _ \<Rightarrow> dl_base64_no_pad D encoded) of
            Inl _ \<Rightarrow> Inl (field_error path ''contains invalid base64'')
          | Inr bs \<Rightarrow> check_length node path (length bs)))"

definition doc_cid_link :: "'cid document_lib \<Rightarrow> str \<Rightarrow> json \<Rightarrow> lexicon_record_error + unit" where
  "doc_cid_link D path v = res_bind (object v path) (\<lambda>m.
     if length m \<noteq> 1 \<or> (case get_str m ''$link'' of Some cid \<Rightarrow> \<not> is_ok (dl_cid D cid) | None \<Rightarrow> True)
     then Inl (field_error path ''must be a CID link'') else Inr ())"

definition mime_accepted :: "str \<Rightarrow> str \<Rightarrow> bool" where
  "mime_accepted mime pattern \<longleftrightarrow> pattern = ''*/*'' \<or> pattern = mime \<or>
     some_and (\<lambda>prefix. starts_with prefix mime) (strip_suffix ''*'' pattern)"

definition strings_of :: "json list \<Rightarrow> str list" where
  "strings_of vs = List.map_filter (\<lambda>v. case v of JString s \<Rightarrow> Some s | _ \<Rightarrow> None) vs"

definition doc_blob :: "'cid document_lib \<Rightarrow> json_map \<Rightarrow> str \<Rightarrow> json \<Rightarrow> lexicon_record_error + unit" where
  "doc_blob D node path v = res_bind (object v path) (\<lambda>m.
     if get_str m ''$type'' \<noteq> Some ''blob'' then Inl (field_error path ''must be a blob'')
     else (case get_str m ''mimeType'' of
       None \<Rightarrow> Inl (field_error path ''blob is missing `mimeType`'')
     | Some mime \<Rightarrow>
         (case get_u64 m ''size'' of
            None \<Rightarrow> Inl (field_error path ''blob is missing integer `size`'')
          | Some sz \<Rightarrow>
              res_bind (doc_cid_link D (property_path path ''ref'') (case map_of m ''ref'' of Some r \<Rightarrow> r | None \<Rightarrow> JNull)) (\<lambda>_.
              if some_and (\<lambda>mx. mx < sz) (get_u64 node ''maxSize'') then Inl (field_error path ''blob exceeds `maxSize`'')
              else (case get_array node ''accept'' of
                Some accept \<Rightarrow>
                  if list_ex (mime_accepted mime) (strings_of accept) then Inr ()
                  else Inl (field_error path ''blob MIME type is not accepted'')
              | None \<Rightarrow> Inr ())))))"

definition doc_unknown :: "str \<Rightarrow> json \<Rightarrow> lexicon_record_error + unit" where
  "doc_unknown path v = res_bind (object v path) (\<lambda>m.
     if map_of m ''$bytes'' \<noteq> None \<or> get_str m ''$type'' = Some ''blob''
     then Inl (field_error path ''unknown values must be ordinary objects'') else Inr ())"

definition doc_boolean :: "json_map \<Rightarrow> str \<Rightarrow> json \<Rightarrow> lexicon_record_error + unit" where
  "doc_boolean node path v = (case v of
     JBool actual \<Rightarrow>
       if some_and (\<lambda>expected. actual \<noteq> expected) (get_bool node ''const'') then Inl (field_error path ''does not match `const`'')
       else Inr ()
   | _ \<Rightarrow> Inl (field_error path ''must be a boolean''))"

definition doc_token :: "str \<Rightarrow> json_map \<Rightarrow> str \<Rightarrow> json \<Rightarrow> lexicon_record_error + unit" where
  "doc_token doc_id node path v =
     (if v = JString (canonical_ref doc_id (case get_str node ''ref'' of Some r \<Rightarrow> r | None \<Rightarrow> [])) then Inr ()
      else Inl (field_error path ''must be a token identifier''))"

section \<open>Schemas\<close>

text \<open>
  Which definition a union value selects, and the required properties an object lacks.
\<close>

definition union_member :: "str \<Rightarrow> json list \<Rightarrow> str \<Rightarrow> str option" where
  "union_member doc_id refs ty_name = List.find (\<lambda>reference. canonical_ref doc_id reference = ty_name) (strings_of refs)"

definition missing_required :: "json_map \<Rightarrow> json_map \<Rightarrow> str option" where
  "missing_required node m = (case get_array node ''required'' of
     Some required \<Rightarrow> List.find (\<lambda>key. map_of m key = None) (strings_of required)
   | None \<Rightarrow> None)"

definition is_nullable :: "json_map \<Rightarrow> str \<Rightarrow> bool" where
  "is_nullable node key \<longleftrightarrow> some_and (\<lambda>keys. list_ex (\<lambda>item. item = JString key) keys) (get_array node ''nullable'')"

lemma object_entry_size: "map_of m k = Some v \<Longrightarrow> size v < size (JObject m)"
proof -
  assume "map_of m k = Some v"
  then have "(k, v) \<in> set m" by (rule map_of_SomeD)
  then show ?thesis by (induction m) auto
qed

lemma array_element_size: "(i, x) \<in> set (enumerate k xs) \<Longrightarrow> size x < size (JArray xs)"
  by (induction xs arbitrary: k) (auto simp: less_Suc_eq trans_less_add2)

text \<open>
  \<open>validate_schema\<close> with its object, array, ref and union cases. The fuel counts the references followed;
  \<open>None\<close> says that it does not suffice.
\<close>

function check_schema ::
  "'cid document_lib \<Rightarrow> json_map \<Rightarrow> str \<Rightarrow> nat \<Rightarrow> json \<Rightarrow> str \<Rightarrow> json \<Rightarrow> (lexicon_record_error + unit) option" where
  "check_schema D doc doc_id n schema path v = (case object schema path of
     Inl e \<Rightarrow> Some (Inl e)
   | Inr node \<Rightarrow>
       (case get_str node ''type'' of
          None \<Rightarrow> Some (Inl (field_error path ''schema is missing string `type`''))
        | Some ty \<Rightarrow>
            if ty = ''null'' \<and> v = JNull then Some (Inr ())
            else if ty = ''boolean'' then Some (doc_boolean node path v)
            else if ty = ''integer'' then Some (doc_integer node path v)
            else if ty = ''string'' then Some (doc_string D node path v)
            else if ty = ''bytes'' then Some (doc_bytes D node path v)
            else if ty = ''cid-link'' then Some (doc_cid_link D path v)
            else if ty = ''blob'' then Some (doc_blob D node path v)
            else if ty = ''array'' then
              (case v of
                 JArray items \<Rightarrow>
                   (case check_length node path (length items) of
                      Inl e \<Rightarrow> Some (Inl e)
                    | Inr _ \<Rightarrow>
                        (case map_of node ''items'' of
                           None \<Rightarrow> Some (Inl (field_error path ''array schema is missing `items`''))
                         | Some item_schema \<Rightarrow>
                             each (\<lambda>(i, item). check_schema D doc doc_id n item_schema (property_path path (nat_str i)) item)
                               (enumerate 0 items)))
               | _ \<Rightarrow> Some (Inl (field_error path ''must be an array'')))
            else if ty = ''object'' then
              (case v of
                 JObject m \<Rightarrow>
                   (case missing_required node m of
                      Some key \<Rightarrow> Some (Inl (field_error path (''missing required property '' @ backquoted key)))
                    | None \<Rightarrow>
                        (case get_object node ''properties'' of
                           None \<Rightarrow> Some (Inr ())
                         | Some properties \<Rightarrow>
                             each (\<lambda>(key, s). case map_of m key of
                                 None \<Rightarrow> Some (Inr ())
                               | Some property \<Rightarrow>
                                   if property = JNull \<and> is_nullable node key then Some (Inr ())
                                   else check_schema D doc doc_id n s (property_path path key) property) properties))
               | _ \<Rightarrow> Some (Inl (field_error path ''must be an object'')))
            else if ty = ''unknown'' then Some (doc_unknown path v)
            else if ty = ''ref'' then
              (case get_str node ''ref'' of
                 None \<Rightarrow> Some (Inl (field_error path ''ref schema is missing `ref`''))
               | Some reference \<Rightarrow>
                   (case resolve_ref doc doc_id reference path of
                      Inl e \<Rightarrow> Some (Inl e)
                    | Inr resolved \<Rightarrow> (case n of 0 \<Rightarrow> None | Suc k \<Rightarrow> check_schema D doc doc_id k resolved path v)))
            else if ty = ''union'' then
              (case json_str v ''$type'' of
                 None \<Rightarrow> Some (Inl (field_error path ''union value must be an object with `$type`''))
               | Some ty_name \<Rightarrow>
                   (case get_array node ''refs'' of
                      None \<Rightarrow> Some (Inl (field_error path ''union schema is missing `refs`''))
                    | Some refs \<Rightarrow>
                        (case union_member doc_id refs ty_name of
                           Some reference \<Rightarrow>
                             (case resolve_ref doc doc_id reference path of
                                Inl e \<Rightarrow> Some (Inl e)
                              | Inr resolved \<Rightarrow> (case n of 0 \<Rightarrow> None | Suc k \<Rightarrow> check_schema D doc doc_id k resolved path v))
                         | None \<Rightarrow>
                             if get_bool node ''closed'' = Some True
                             then Some (Inl (field_error path ''`$type` is outside the closed union''))
                             else Some (Inr ()))))
            else if ty = ''token'' then Some (doc_token doc_id node path v)
            else Some (Inl (field_error path (''unsupported schema type '' @ backquoted ty)))))"
  by pat_completeness auto

termination
  by (relation "measures [\<lambda>(_, _, _, n, _, _, _). n, \<lambda>(_, _, _, _, _, _, v). size v]")
    (auto dest: object_entry_size array_element_size)

declare check_schema.simps [simp del]

section \<open>Records\<close>

definition expected_record_type :: "str \<Rightarrow> str \<Rightarrow> str" where
  "expected_record_type doc_id def_name = (if def_name = ''main'' then doc_id else doc_id @ ''#'' @ def_name)"

definition record_definition :: "json \<Rightarrow> str \<Rightarrow> lexicon_record_error + json_map \<times> str \<times> json_map" where
  "record_definition doc def_name =
     res_bind (object doc ''lexicon'') (\<lambda>doc_obj.
     res_bind (ok_or (get_str doc_obj ''id'') (field_error ''lexicon'' ''missing string `id`'')) (\<lambda>doc_id.
     res_bind (ok_or (get_object doc_obj ''defs'') (field_error ''lexicon'' ''missing object `defs`'')) (\<lambda>defs.
     res_bind (ok_or (map_of defs def_name) (field_error ''lexicon'' (''unknown definition '' @ backquoted def_name))) (\<lambda>def.
     res_bind (object def ''lexicon definition'') (\<lambda>def_obj.
     if get_str def_obj ''type'' \<noteq> Some ''record'' then Inl (field_error ''lexicon definition'' ''must have type `record`'')
     else Inr (doc_obj, doc_id, def_obj))))))"

definition check_record ::
  "'cid document_lib \<Rightarrow> nat \<Rightarrow> json \<Rightarrow> str \<Rightarrow> str \<Rightarrow> json \<Rightarrow> (lexicon_record_error + unit) option" where
  "check_record D n doc def_name rkey rec = (case record_definition doc def_name of
     Inl e \<Rightarrow> Some (Inl e)
   | Inr (doc_obj, doc_id, def_obj) \<Rightarrow>
       (case doc_key_ok (case get_str def_obj ''key'' of Some k \<Rightarrow> k | None \<Rightarrow> ''any'') rkey of
          Inl e \<Rightarrow> Some (Inl e)
        | Inr _ \<Rightarrow>
            if some_and (\<lambda>actual. actual \<noteq> JString (expected_record_type doc_id def_name)) (value_get rec ''$type'')
            then Some (Inl (field_error ''$type'' (''must be '' @ backquoted (expected_record_type doc_id def_name))))
            else (case map_of def_obj ''record'' of
              None \<Rightarrow> Some (Inl (field_error ''lexicon definition'' ''missing `record` schema''))
            | Some schema \<Rightarrow> check_schema D doc_obj doc_id n schema ''record'' rec)))"

end
