(* ===== verification/Lexicon_Document_Correct.thy ===== *)
theory Lexicon_Document_Correct
  imports Lexicon_Document Lexicon_Correct
begin

text \<open>
  What the record check of an untrusted document decides: the declarative conformance of a value to a JSON
  schema, its verdicts on documents that passed the document check, and the cases the check gets wrong.
\<close>

section \<open>Conformance\<close>

definition within :: "json_map \<Rightarrow> str \<Rightarrow> str \<Rightarrow> nat \<Rightarrow> bool" where
  "within node mn mx k \<longleftrightarrow> (\<forall>b. get_u64 node mn = Some b \<longrightarrow> b \<le> int k) \<and> (\<forall>b. get_u64 node mx = Some b \<longrightarrow> int k \<le> b)"

definition is_cid_link :: "'cid document_lib \<Rightarrow> json \<Rightarrow> bool" where
  "is_cid_link D v \<longleftrightarrow> (\<exists>c. v = JObject [(''$link'', JString c)] \<and> is_ok (dl_cid D c))"

inductive scalar_fits :: "'cid document_lib \<Rightarrow> str \<Rightarrow> str \<Rightarrow> json_map \<Rightarrow> json \<Rightarrow> bool" for D doc_id where
  f_null: "scalar_fits D doc_id ''null'' node JNull"
| f_boolean: "(\<forall>e. get_bool node ''const'' = Some e \<longrightarrow> b = e) \<Longrightarrow> scalar_fits D doc_id ''boolean'' node (JBool b)"
| f_integer: "integer_value v = Some i \<Longrightarrow> (\<forall>e. get_i64 node ''const'' = Some e \<longrightarrow> i = e) \<Longrightarrow>
    (\<forall>vs. get_array node ''enum'' = Some vs \<longrightarrow> (\<exists>n. JNumber n \<in> set vs \<and> as_i64 n = Some i)) \<Longrightarrow>
    (\<forall>b. get_i64 node ''minimum'' = Some b \<longrightarrow> b \<le> i) \<Longrightarrow> (\<forall>b. get_i64 node ''maximum'' = Some b \<longrightarrow> i \<le> b) \<Longrightarrow>
    scalar_fits D doc_id ''integer'' node v"
| f_string: "(\<forall>e. get_str node ''const'' = Some e \<longrightarrow> s = e) \<Longrightarrow>
    (\<forall>vs. get_array node ''enum'' = Some vs \<longrightarrow> JString s \<in> set vs) \<Longrightarrow>
    within node ''minLength'' ''maxLength'' (length s) \<Longrightarrow> within node ''minGraphemes'' ''maxGraphemes'' (dl_graphemes D s) \<Longrightarrow>
    (\<forall>fmt. get_str node ''format'' = Some fmt \<longrightarrow> doc_format_ok D fmt s) \<Longrightarrow>
    scalar_fits D doc_id ''string'' node (JString s)"
| f_bytes: "json_str v ''$bytes'' = Some encoded \<Longrightarrow>
    (map_of node ''minLength'' \<noteq> None \<or> map_of node ''maxLength'' \<noteq> None \<longrightarrow>
     (\<exists>bs. (dl_base64 D encoded = Inr bs \<or> \<not> is_ok (dl_base64 D encoded) \<and> dl_base64_no_pad D encoded = Inr bs) \<and>
           within node ''minLength'' ''maxLength'' (length bs))) \<Longrightarrow>
    scalar_fits D doc_id ''bytes'' node v"
| f_link: "is_cid_link D v \<Longrightarrow> scalar_fits D doc_id ''cid-link'' node v"
| f_blob: "get_str m ''$type'' = Some ''blob'' \<Longrightarrow> get_str m ''mimeType'' = Some mime \<Longrightarrow> get_u64 m ''size'' = Some sz \<Longrightarrow>
    map_of m ''ref'' = Some r \<Longrightarrow> is_cid_link D r \<Longrightarrow> (\<forall>b. get_u64 node ''maxSize'' = Some b \<longrightarrow> sz \<le> b) \<Longrightarrow>
    (\<forall>ps. get_array node ''accept'' = Some ps \<longrightarrow> (\<exists>p. JString p \<in> set ps \<and> mime_accepted mime p)) \<Longrightarrow>
    scalar_fits D doc_id ''blob'' node (JObject m)"
| f_unknown: "map_of m ''$bytes'' = None \<Longrightarrow> get_str m ''$type'' \<noteq> Some ''blob'' \<Longrightarrow> scalar_fits D doc_id ''unknown'' node (JObject m)"
| f_token: "scalar_fits D doc_id ''token'' node
    (JString (canonical_ref doc_id (case get_str node ''ref'' of Some r \<Rightarrow> r | None \<Rightarrow> [])))"

inductive doc_conforms :: "'cid document_lib \<Rightarrow> json_map \<Rightarrow> str \<Rightarrow> json \<Rightarrow> json \<Rightarrow> bool" for D doc doc_id where
  d_scalar: "get_str node ''type'' = Some ty \<Longrightarrow> scalar_fits D doc_id ty node v \<Longrightarrow> doc_conforms D doc doc_id (JObject node) v"
| d_array: "get_str node ''type'' = Some ''array'' \<Longrightarrow> within node ''minLength'' ''maxLength'' (length xs) \<Longrightarrow>
    map_of node ''items'' = Some s \<Longrightarrow> (\<And>x. x \<in> set xs \<Longrightarrow> doc_conforms D doc doc_id s x) \<Longrightarrow>
    doc_conforms D doc doc_id (JObject node) (JArray xs)"
| d_object: "get_str node ''type'' = Some ''object'' \<Longrightarrow> missing_required node m = None \<Longrightarrow>
    (\<And>ps k s x. get_object node ''properties'' = Some ps \<Longrightarrow> (k, s) \<in> set ps \<Longrightarrow> map_of m k = Some x \<Longrightarrow>
      \<not> (x = JNull \<and> is_nullable node k) \<Longrightarrow> doc_conforms D doc doc_id s x) \<Longrightarrow>
    doc_conforms D doc doc_id (JObject node) (JObject m)"
| d_ref: "get_str node ''type'' = Some ''ref'' \<Longrightarrow> get_str node ''ref'' = Some r \<Longrightarrow> resolve_ref doc doc_id r [] = Inr s \<Longrightarrow>
    doc_conforms D doc doc_id s v \<Longrightarrow> doc_conforms D doc doc_id (JObject node) v"
| d_member: "get_str node ''type'' = Some ''union'' \<Longrightarrow> json_str v ''$type'' = Some ty \<Longrightarrow> get_array node ''refs'' = Some refs \<Longrightarrow>
    union_member doc_id refs ty = Some r \<Longrightarrow> resolve_ref doc doc_id r [] = Inr s \<Longrightarrow>
    doc_conforms D doc doc_id s v \<Longrightarrow> doc_conforms D doc doc_id (JObject node) v"
| d_open: "get_str node ''type'' = Some ''union'' \<Longrightarrow> json_str v ''$type'' = Some ty \<Longrightarrow> get_array node ''refs'' = Some refs \<Longrightarrow>
    union_member doc_id refs ty = None \<Longrightarrow> get_bool node ''closed'' \<noteq> Some True \<Longrightarrow> doc_conforms D doc doc_id (JObject node) v"

inductive_simps doc_conforms_simps: "doc_conforms D doc doc_id s v"
inductive_cases doc_conforms_array: "doc_conforms D doc doc_id s (JArray xs)"
inductive_simps scalar_fits_simps:
  "scalar_fits D doc_id ''null'' node v" "scalar_fits D doc_id ''boolean'' node v" "scalar_fits D doc_id ''integer'' node v"
  "scalar_fits D doc_id ''string'' node v" "scalar_fits D doc_id ''bytes'' node v" "scalar_fits D doc_id ''cid-link'' node v"
  "scalar_fits D doc_id ''blob'' node v" "scalar_fits D doc_id ''unknown'' node v" "scalar_fits D doc_id ''token'' node v"
inductive_simps scalar_fits_type: "scalar_fits D doc_id ty node v"

section \<open>Scalar fields\<close>

abbreviation below :: "str \<Rightarrow> lexicon_record_error \<Rightarrow> bool" where
  "below path \<equiv> \<lambda>e. \<exists>m. re_path e = path @ m"

lemma below_field_error [simp]: "re_path (field_error path msg) = path" by (simp add: field_error_def)

lemma some_and_iff: "some_and p x \<longleftrightarrow> (\<exists>y. x = Some y \<and> p y)"
  by (auto simp: some_and_def split: option.split)

lemma bounds_cases:
  "check_bounds node path k mn mx label = Inr () \<and> within node mn mx k \<or>
   (\<exists>msg. check_bounds node path k mn mx label = Inl (field_error path msg)) \<and> \<not> within node mn mx k"
  by (auto simp: check_bounds_def within_def some_and_iff)

lemma bounds_ok [simp]: "check_bounds node path k mn mx label = Inr u \<longleftrightarrow> within node mn mx k"
  using bounds_cases [of node path k mn mx label] by auto

lemma bounds_below: "check_bounds node path k mn mx label = Inl e \<Longrightarrow> re_path e = path \<and> \<not> within node mn mx k"
  using bounds_cases [of node path k mn mx label] by auto

lemma verdict_res:
  "(is_ok r \<longleftrightarrow> P) \<Longrightarrow> (\<And>e. r = Inl e \<Longrightarrow> B e) \<Longrightarrow> verdict B (Some r) P"
  by (cases r) auto

lemma one_link: "length m = 1 \<and> get_str m ''$link'' = Some c \<longleftrightarrow> m = [(''$link'', JString c)]"
proof (cases m)
  case (Cons kv rest)
  then show ?thesis by (cases kv; cases "snd kv") (auto simp: get_str_def)
qed (simp add: get_str_def)

lemma cid_link_verdict: "verdict (below path) (Some (doc_cid_link D path v)) (is_cid_link D v)"
proof (cases v)
  case (JObject m)
  have "is_cid_link D v \<longleftrightarrow> length m = 1 \<and> (\<exists>c. get_str m ''$link'' = Some c \<and> is_ok (dl_cid D c))"
    unfolding is_cid_link_def JObject using one_link [of m] by auto
  then show ?thesis
    by (cases "get_str m ''$link''") (auto simp: doc_cid_link_def object_def JObject)
qed (simp_all add: doc_cid_link_def object_def is_cid_link_def)

lemma boolean_verdict: "verdict (below path) (Some (doc_boolean node path v)) (scalar_fits D doc_id ''boolean'' node v)"
  by (cases v) (auto simp: doc_boolean_def scalar_fits_simps some_and_iff)

lemma enum_item: "(case item of JNumber n \<Rightarrow> as_i64 n = Some i | _ \<Rightarrow> False) \<longleftrightarrow> (\<exists>n. item = JNumber n \<and> as_i64 n = Some i)"
  by (cases item) auto

lemma integer_verdict: "verdict (below path) (Some (doc_integer node path v)) (scalar_fits D doc_id ''integer'' node v)"
proof (cases "integer_value v")
  case (Some i)
  show ?thesis
    unfolding doc_integer_def Some option.case scalar_fits_simps enum_item some_and_iff list_ex_iff
    using Some by (auto simp: not_less)
qed (simp add: doc_integer_def scalar_fits_simps)

lemma string_verdict: "verdict (below path) (Some (doc_string D node path v)) (scalar_fits D doc_id ''string'' node v)"
proof (cases v)
  case (JString s)
  show ?thesis
    unfolding doc_string_def JString json.case scalar_fits_simps some_and_iff list_ex_iff check_length_def
    by (auto simp: res_bind_def split: sum.split option.split dest: bounds_below)
qed (simp_all add: doc_string_def scalar_fits_simps)

lemma bytes_verdict: "verdict (below path) (Some (doc_bytes D node path v)) (scalar_fits D doc_id ''bytes'' node v)"
  by (rule verdict_res)
    (auto simp: doc_bytes_def scalar_fits_simps check_length_def is_ok_iff split: option.splits sum.splits if_splits
      dest: bounds_below)

lemma unknown_verdict: "verdict (below path) (Some (doc_unknown path v)) (scalar_fits D doc_id ''unknown'' node v)"
  by (cases v) (auto simp: doc_unknown_def object_def scalar_fits_simps)

lemma token_verdict: "verdict (below path) (Some (doc_token doc_id node path v)) (scalar_fits D doc_id ''token'' node v)"
  by (simp add: doc_token_def scalar_fits_simps)

lemma strings_of_iff: "s \<in> set (strings_of vs) \<longleftrightarrow> JString s \<in> set vs"
  by (induction vs) (auto simp: strings_of_def List.map_filter_def split: json.splits)

lemma blob_verdict: "verdict (below path) (Some (doc_blob D node path v)) (scalar_fits D doc_id ''blob'' node v)"
proof (cases v)
  case (JObject m)
  let ?r = "case map_of m ''ref'' of Some r \<Rightarrow> r | None \<Rightarrow> JNull"
  have link: "verdict (below path) (Some (doc_cid_link D (property_path path ''ref'') ?r)) (is_cid_link D ?r)"
    using cid_link_verdict by (rule verdict_mono) (auto simp: property_path_def)
  have null: "\<not> is_cid_link D JNull" by (simp add: is_cid_link_def)
  show ?thesis
  proof (cases "doc_cid_link D (property_path path ''ref'') ?r")
    case (Inl e)
    with link have "\<not> is_cid_link D ?r" "below path e" by auto
    then show ?thesis using JObject Inl null
      by (auto simp: doc_blob_def object_def scalar_fits_simps split: option.splits)
  next
    case (Inr u)
    with link have "is_cid_link D ?r" by auto
    then show ?thesis using JObject Inr null
      by (auto simp: doc_blob_def object_def scalar_fits_simps some_and_iff list_ex_iff strings_of_iff not_less split: option.splits)
  qed
qed (simp_all add: doc_blob_def object_def scalar_fits_simps)

section \<open>Schemas\<close>

text \<open>The check of a schema by its type.\<close>

lemma check_scalar:
  assumes "get_str node ''type'' = Some ty"
  shows "ty = ''null'' \<Longrightarrow> check_schema D doc doc_id n (JObject node) path JNull = Some (Inr ())"
    "ty = ''null'' \<Longrightarrow> v \<noteq> JNull \<Longrightarrow>
      check_schema D doc doc_id n (JObject node) path v = Some (Inl (field_error path (''unsupported schema type '' @ backquoted ''null'')))"
    "ty = ''boolean'' \<Longrightarrow> check_schema D doc doc_id n (JObject node) path v = Some (doc_boolean node path v)"
    "ty = ''integer'' \<Longrightarrow> check_schema D doc doc_id n (JObject node) path v = Some (doc_integer node path v)"
    "ty = ''string'' \<Longrightarrow> check_schema D doc doc_id n (JObject node) path v = Some (doc_string D node path v)"
    "ty = ''bytes'' \<Longrightarrow> check_schema D doc doc_id n (JObject node) path v = Some (doc_bytes D node path v)"
    "ty = ''cid-link'' \<Longrightarrow> check_schema D doc doc_id n (JObject node) path v = Some (doc_cid_link D path v)"
    "ty = ''blob'' \<Longrightarrow> check_schema D doc doc_id n (JObject node) path v = Some (doc_blob D node path v)"
    "ty = ''unknown'' \<Longrightarrow> check_schema D doc doc_id n (JObject node) path v = Some (doc_unknown path v)"
    "ty = ''token'' \<Longrightarrow> check_schema D doc doc_id n (JObject node) path v = Some (doc_token doc_id node path v)"
  using assms by (subst check_schema.simps, simp add: object_def)+

lemma check_other:
  assumes "get_str node ''type'' = Some ty"
    "ty \<notin> {''null'', ''boolean'', ''integer'', ''string'', ''bytes'', ''cid-link'', ''blob'', ''unknown'', ''token'',
      ''array'', ''object'', ''ref'', ''union''}"
  shows "check_schema D doc doc_id n (JObject node) path v = Some (Inl (field_error path (''unsupported schema type '' @ backquoted ty)))"
  using assms by (subst check_schema.simps, simp add: object_def)

lemma check_array:
  assumes "get_str node ''type'' = Some ''array''"
  shows "check_schema D doc doc_id n (JObject node) path v =
    (case v of
       JArray items \<Rightarrow>
         (case check_length node path (length items) of
            Inl e \<Rightarrow> Some (Inl e)
          | Inr _ \<Rightarrow>
              (case map_of node ''items'' of
                 None \<Rightarrow> Some (Inl (field_error path ''array schema is missing `items`''))
               | Some s \<Rightarrow>
                   each (\<lambda>(i, item). check_schema D doc doc_id n s (property_path path (nat_str i)) item) (enumerate 0 items)))
     | _ \<Rightarrow> Some (Inl (field_error path ''must be an array'')))"
  by (subst check_schema.simps, simp add: object_def assms)

lemma check_object:
  assumes "get_str node ''type'' = Some ''object''"
  shows "check_schema D doc doc_id n (JObject node) path v =
    (case v of
       JObject m \<Rightarrow>
         (case missing_required node m of
            Some key \<Rightarrow> Some (Inl (field_error path (''missing required property '' @ backquoted key)))
          | None \<Rightarrow>
              (case get_object node ''properties'' of
                 None \<Rightarrow> Some (Inr ())
               | Some properties \<Rightarrow>
                   each (\<lambda>(key, s). case map_of m key of
                       None \<Rightarrow> Some (Inr ())
                     | Some property \<Rightarrow>
                         if property = JNull \<and> is_nullable node key then Some (Inr ())
                         else check_schema D doc doc_id n s (property_path path key) property) properties))
     | _ \<Rightarrow> Some (Inl (field_error path ''must be an object'')))"
  by (subst check_schema.simps, simp add: object_def assms)

definition follow :: "'cid document_lib \<Rightarrow> json_map \<Rightarrow> str \<Rightarrow> nat \<Rightarrow> str \<Rightarrow> str \<Rightarrow> json \<Rightarrow> (lexicon_record_error + unit) option" where
  "follow D doc doc_id n r path v = (case resolve_ref doc doc_id r path of
     Inl e \<Rightarrow> Some (Inl e)
   | Inr s \<Rightarrow> (case n of 0 \<Rightarrow> None | Suc k \<Rightarrow> check_schema D doc doc_id k s path v))"

lemma check_ref:
  assumes "get_str node ''type'' = Some ''ref''"
  shows "check_schema D doc doc_id n (JObject node) path v =
    (case get_str node ''ref'' of
       None \<Rightarrow> Some (Inl (field_error path ''ref schema is missing `ref`''))
     | Some r \<Rightarrow> follow D doc doc_id n r path v)"
  unfolding follow_def by (subst check_schema.simps, simp add: object_def assms cong: option.case_cong if_cong)

lemma check_union:
  assumes "get_str node ''type'' = Some ''union''"
  shows "check_schema D doc doc_id n (JObject node) path v =
    (case json_str v ''$type'' of
       None \<Rightarrow> Some (Inl (field_error path ''union value must be an object with `$type`''))
     | Some ty \<Rightarrow>
         (case get_array node ''refs'' of
            None \<Rightarrow> Some (Inl (field_error path ''union schema is missing `refs`''))
          | Some refs \<Rightarrow>
              (case union_member doc_id refs ty of
                 Some r \<Rightarrow> follow D doc doc_id n r path v
               | None \<Rightarrow>
                   if get_bool node ''closed'' = Some True then Some (Inl (field_error path ''`$type` is outside the closed union''))
                   else Some (Inr ()))))"
  unfolding follow_def by (subst check_schema.simps, simp add: object_def assms cong: option.case_cong if_cong)

definition composite_types :: "str set" where
  "composite_types = {''array'', ''object'', ''ref'', ''union''}"

lemma scalar_verdict:
  assumes "get_str node ''type'' = Some ty" "ty \<notin> composite_types"
  shows "verdict (below path) (check_schema D doc doc_id n (JObject node) path v) (scalar_fits D doc_id ty node v)"
proof -
  note ch = check_scalar [OF assms(1)]
  let ?scalars = "{''null'', ''boolean'', ''integer'', ''string'', ''bytes'', ''cid-link'', ''blob'', ''unknown'', ''token''}"
  show ?thesis
  proof (cases "ty \<in> ?scalars")
    case True
    then show ?thesis
    proof (elim insertE emptyE)
      assume 1: "ty = ''null''"
      show ?thesis unfolding 1 by (cases "v = JNull") (simp_all add: scalar_fits_simps ch(1,2) [OF 1])
    next
      assume 2: "ty = ''boolean''" show ?thesis unfolding ch(3) [OF 2] unfolding 2 by (rule boolean_verdict)
    next
      assume 3: "ty = ''integer''" show ?thesis unfolding ch(4) [OF 3] unfolding 3 by (rule integer_verdict)
    next
      assume 4: "ty = ''string''" show ?thesis unfolding ch(5) [OF 4] unfolding 4 by (rule string_verdict)
    next
      assume 5: "ty = ''bytes''" show ?thesis unfolding ch(6) [OF 5] unfolding 5 by (rule bytes_verdict)
    next
      assume 6: "ty = ''cid-link''" show ?thesis unfolding ch(7) [OF 6] unfolding 6 scalar_fits_simps by (rule cid_link_verdict)
    next
      assume 7: "ty = ''blob''" show ?thesis unfolding ch(8) [OF 7] unfolding 7 by (rule blob_verdict)
    next
      assume 8: "ty = ''unknown''" show ?thesis unfolding ch(9) [OF 8] unfolding 8 by (rule unknown_verdict)
    next
      assume 9: "ty = ''token''" show ?thesis unfolding ch(10) [OF 9] unfolding 9 by (rule token_verdict)
    qed
  next
    case False
    have "\<not> scalar_fits D doc_id ty node v"
    proof
      assume "scalar_fits D doc_id ty node v"
      then show False using False by cases simp_all
    qed
    moreover have "ty \<notin> {''null'', ''boolean'', ''integer'', ''string'', ''bytes'', ''cid-link'', ''blob'', ''unknown'', ''token'',
      ''array'', ''object'', ''ref'', ''union''}" using False assms(2) by (simp only: composite_types_def insert_iff empty_iff simp_thms)
    ultimately show ?thesis by (simp add: check_other [OF assms(1)])
  qed
qed

lemma conforms_scalar:
  assumes "get_str node ''type'' = Some ty" "ty \<notin> composite_types"
  shows "doc_conforms D doc doc_id (JObject node) v \<longleftrightarrow> scalar_fits D doc_id ty node v"
proof
  assume "doc_conforms D doc doc_id (JObject node) v"
  then show "scalar_fits D doc_id ty node v" using assms by cases (simp_all add: composite_types_def)
qed (rule d_scalar [OF assms(1)])

lemma scalar_not_composite: "ty \<in> composite_types \<Longrightarrow> \<not> scalar_fits D doc_id ty node v"
  unfolding composite_types_def by (blast elim: scalar_fits.cases)

lemma conforms_array:
  assumes "get_str node ''type'' = Some ''array''"
  shows "doc_conforms D doc doc_id (JObject node) v \<longleftrightarrow>
      (\<exists>xs s. v = JArray xs \<and> within node ''minLength'' ''maxLength'' (length xs) \<and> map_of node ''items'' = Some s \<and>
        (\<forall>x\<in>set xs. doc_conforms D doc doc_id s x))"
  using assms scalar_not_composite [of "''array''" D doc_id node v]
  by (auto simp: doc_conforms_simps [of D doc doc_id "JObject node"] composite_types_def)

lemma conforms_object:
  assumes "get_str node ''type'' = Some ''object''"
  shows "doc_conforms D doc doc_id (JObject node) v \<longleftrightarrow>
      (\<exists>m. v = JObject m \<and> missing_required node m = None \<and>
        (\<forall>ps. get_object node ''properties'' = Some ps \<longrightarrow>
           (\<forall>ks\<in>set ps. case map_of m (fst ks) of None \<Rightarrow> True
              | Some x \<Rightarrow> x = JNull \<and> is_nullable node (fst ks) \<or> doc_conforms D doc doc_id (snd ks) x)))"
  using assms scalar_not_composite [of "''object''" D doc_id node v]
  by (fastforce simp: doc_conforms_simps [of D doc doc_id "JObject node"] composite_types_def split: option.splits)

lemma array_verdict:
  assumes "get_str node ''type'' = Some ''array''"
    and IH: "\<And>s x p. size x < size v \<Longrightarrow> verdict (below p) (check_schema D doc doc_id n s p x) (doc_conforms D doc doc_id s x)"
  shows "verdict (below path) (check_schema D doc doc_id n (JObject node) path v) (doc_conforms D doc doc_id (JObject node) v)"
  unfolding check_array [OF assms(1)] conforms_array [OF assms(1)]
proof (cases v)
  case (JArray xs)
  let ?each = "\<lambda>s. each (\<lambda>(i, x). check_schema D doc doc_id n s (property_path path (nat_str i)) x) (enumerate 0 xs)"
  have every: "verdict (below path) (?each s) (\<forall>x\<in>set xs. doc_conforms D doc doc_id s x)" for s
  proof -
    have "verdict (below path) (case ix of (i, x) \<Rightarrow> check_schema D doc doc_id n s (property_path path (nat_str i)) x)
        (doc_conforms D doc doc_id s (snd ix))" if "ix \<in> set (enumerate 0 xs)" for ix
    proof (cases ix)
      case (Pair i x)
      then have "size x < size v" using array_element_size that JArray by blast
      from IH [OF this, of "property_path path (nat_str i)" s]
      have "verdict (below path) (check_schema D doc doc_id n s (property_path path (nat_str i)) x) (doc_conforms D doc doc_id s x)"
        by (rule verdict_mono) (auto simp: property_path_def)
      then show ?thesis unfolding Pair by simp
    qed
    from verdict_each [OF this] show ?thesis by (simp add: set_eq_snd_enumerate [of xs])
  qed
  show "verdict (below path) (case v of JArray items \<Rightarrow>
         (case check_length node path (length items) of Inl e \<Rightarrow> Some (Inl e)
          | Inr _ \<Rightarrow> (case map_of node ''items'' of None \<Rightarrow> Some (Inl (field_error path ''array schema is missing `items`''))
               | Some s \<Rightarrow> each (\<lambda>(i, item). check_schema D doc doc_id n s (property_path path (nat_str i)) item) (enumerate 0 items)))
     | _ \<Rightarrow> Some (Inl (field_error path ''must be an array'')))
   (\<exists>xs s. v = JArray xs \<and> within node ''minLength'' ''maxLength'' (length xs) \<and> map_of node ''items'' = Some s \<and>
        (\<forall>x\<in>set xs. doc_conforms D doc doc_id s x))"
    using bounds_cases [of node path "length xs" "''minLength''" "''maxLength''" "''length''"]
  proof (elim disjE conjE exE)
    assume "check_bounds node path (length xs) ''minLength'' ''maxLength'' ''length'' = Inr ()"
      and w: "within node ''minLength'' ''maxLength'' (length xs)"
    then have "check_length node path (length xs) = Inr ()" by (simp only: check_length_def)
    then show ?thesis using every JArray w by (cases "map_of node ''items''") simp_all
  qed (simp add: JArray check_length_def)
qed simp_all

lemma object_verdict:
  assumes "get_str node ''type'' = Some ''object''"
    and IH: "\<And>s x p. size x < size v \<Longrightarrow> verdict (below p) (check_schema D doc doc_id n s p x) (doc_conforms D doc doc_id s x)"
  shows "verdict (below path) (check_schema D doc doc_id n (JObject node) path v) (doc_conforms D doc doc_id (JObject node) v)"
proof (cases v)
  case (JObject m)
  let ?step = "\<lambda>(key, s). case map_of m key of None \<Rightarrow> Some (Inr ())
     | Some property \<Rightarrow> if property = JNull \<and> is_nullable node key then Some (Inr ())
         else check_schema D doc doc_id n s (property_path path key) property"
  let ?P = "\<lambda>ks. case map_of m (fst ks) of None \<Rightarrow> True
     | Some x \<Rightarrow> x = JNull \<and> is_nullable node (fst ks) \<or> doc_conforms D doc doc_id (snd ks) x"
  have "verdict (below path) (?step ks) (?P ks)" for ks
  proof (cases ks)
    case (Pair key s)
    show ?thesis
    proof (cases "map_of m key")
      case (Some x)
      then have "size x < size v" using object_entry_size JObject by blast
      from IH [OF this, of "property_path path key" s]
      have "verdict (below path) (check_schema D doc doc_id n s (property_path path key) x) (doc_conforms D doc doc_id s x)"
        by (rule verdict_mono) (auto simp: property_path_def)
      then show ?thesis using Pair Some by auto
    qed (simp add: Pair)
  qed
  from verdict_each [OF this]
  have "verdict (below path) (each ?step ps) (\<forall>ks\<in>set ps. ?P ks)" for ps .
  then show ?thesis
    unfolding check_object [OF assms(1)] conforms_object [OF assms(1)] using JObject
    by (cases "missing_required node m"; cases "get_object node ''properties''") simp_all
qed (simp_all add: check_object [OF assms(1)] conforms_object [OF assms(1)])

section \<open>Checked documents\<close>

text \<open>A document that passed the check: every definition has a type of its own, never a reference.\<close>

definition no_alias :: "json \<Rightarrow> bool" where
  "no_alias s \<longleftrightarrow> (\<exists>node ty. s = JObject node \<and> get_str node ''type'' = Some ty \<and> ty \<notin> {''ref'', ''union''})"

definition aliases_nowhere :: "json_map \<Rightarrow> bool" where
  "aliases_nowhere doc \<longleftrightarrow> (\<forall>defs k s. map_of doc ''defs'' = Some (JObject defs) \<longrightarrow> map_of defs k = Some s \<longrightarrow> no_alias s)"

lemma checked_def: "validate_def name s = Inr u \<Longrightarrow> no_alias s"
  by (auto simp: validate_def_def no_alias_def get_str_def Let_def primary_types_def field_types_def split: json.splits option.splits if_splits)

lemma checked_defs: "validate_defs defs = Inr u \<Longrightarrow> map_of defs k = Some s \<Longrightarrow> no_alias s"
  by (induction defs rule: validate_defs.induct) (auto simp: res_bind_Inr_iff dest: checked_def split: if_splits)

lemma checked_document:
  "validate_document doc = Inr u \<Longrightarrow> \<exists>obj. doc = JObject obj \<and> aliases_nowhere obj"
  by (auto simp: validate_document_def aliases_nowhere_def res_bind_Inr_iff dest: checked_defs split: json.splits option.splits)

lemma resolve_ref_path:
  "resolve_ref doc doc_id r path = Inr s \<longleftrightarrow> resolve_ref doc doc_id r [] = Inr s"
  "resolve_ref doc doc_id r path = Inl e \<Longrightarrow> re_path e = path \<and> \<not> is_ok (resolve_ref doc doc_id r [])"
  by (auto simp: resolve_ref_def Let_def ok_or_def split: option.splits prod.splits if_splits)

lemma resolved_no_alias: "aliases_nowhere doc \<Longrightarrow> resolve_ref doc doc_id r path = Inr s \<Longrightarrow> no_alias s"
  by (auto simp: resolve_ref_def Let_def ok_or_def aliases_nowhere_def split: option.splits prod.splits if_splits json.splits)

lemma no_alias_verdict:
  assumes "no_alias s"
    and IH: "\<And>s x p. size x < size v \<Longrightarrow> verdict (below p) (check_schema D doc doc_id n s p x) (doc_conforms D doc doc_id s x)"
  shows "verdict (below path) (check_schema D doc doc_id n s path v) (doc_conforms D doc doc_id s v)"
proof -
  obtain node ty where s: "s = JObject node" "get_str node ''type'' = Some ty" "ty \<noteq> ''ref''" "ty \<noteq> ''union''"
    using assms(1) by (auto simp: no_alias_def)
  consider "ty = ''array''" | "ty = ''object''" | "ty \<notin> composite_types"
    using s(3,4) by (auto simp only: composite_types_def insert_iff empty_iff)
  then show ?thesis
  proof cases
    case 1
    then show ?thesis unfolding s(1) using s(2) IH by (intro array_verdict) auto
  next
    case 2
    then show ?thesis unfolding s(1) using s(2) IH by (intro object_verdict) auto
  next
    case 3
    show ?thesis unfolding s(1) conforms_scalar [OF s(2) 3] by (rule scalar_verdict [OF s(2) 3])
  qed
qed

lemma follow_verdict:
  assumes "aliases_nowhere doc" "n = Suc k"
    and IH: "\<And>s x p. size x < size v \<Longrightarrow> verdict (below p) (check_schema D doc doc_id k s p x) (doc_conforms D doc doc_id s x)"
  shows "verdict (below path) (follow D doc doc_id n r path v)
    (\<exists>s. resolve_ref doc doc_id r [] = Inr s \<and> doc_conforms D doc doc_id s v)"
proof (cases "resolve_ref doc doc_id r path")
  case (Inl e)
  then show ?thesis using resolve_ref_path(2) [OF Inl] by (auto simp: follow_def)
next
  case (Inr s)
  then have "resolve_ref doc doc_id r [] = Inr s" by (simp only: resolve_ref_path(1) [of doc doc_id r path])
  moreover have "verdict (below path) (check_schema D doc doc_id k s path v) (doc_conforms D doc doc_id s v)"
    using resolved_no_alias [OF assms(1) Inr] IH by (rule no_alias_verdict)
  ultimately show ?thesis using Inr assms(2) by (simp add: follow_def)
qed

lemma conforms_ref:
  assumes "get_str node ''type'' = Some ''ref''"
  shows "doc_conforms D doc doc_id (JObject node) v \<longleftrightarrow>
    (\<exists>r s. get_str node ''ref'' = Some r \<and> resolve_ref doc doc_id r [] = Inr s \<and> doc_conforms D doc doc_id s v)"
  using assms scalar_not_composite [of "''ref''" D doc_id node v]
  by (auto simp: doc_conforms_simps [of D doc doc_id "JObject node"] composite_types_def)

lemma conforms_union:
  assumes "get_str node ''type'' = Some ''union''"
  shows "doc_conforms D doc doc_id (JObject node) v \<longleftrightarrow>
    (\<exists>ty refs. json_str v ''$type'' = Some ty \<and> get_array node ''refs'' = Some refs \<and>
      (case union_member doc_id refs ty of
         Some r \<Rightarrow> \<exists>s. resolve_ref doc doc_id r [] = Inr s \<and> doc_conforms D doc doc_id s v
       | None \<Rightarrow> get_bool node ''closed'' \<noteq> Some True))"
  using assms scalar_not_composite [of "''union''" D doc_id node v]
  by (cases "json_str v ''$type''"; cases "get_array node ''refs''")
    (auto simp: doc_conforms_simps [of D doc doc_id "JObject node"] composite_types_def split: option.split)

lemma no_schema_verdict:
  assumes "\<And>node. s \<noteq> JObject node"
  shows "verdict (below path) (check_schema D doc doc_id n s path v) (doc_conforms D doc doc_id s v)"
proof -
  have "\<not> doc_conforms D doc doc_id s v"
  proof
    assume "doc_conforms D doc doc_id s v"
    then show False using assms by cases auto
  qed
  moreover have "object s path = Inl (field_error path ''must be an object'')"
    using assms by (auto simp: object_def split: json.split)
  ultimately show ?thesis by (subst check_schema.simps) simp
qed

lemma check_verdict:
  assumes "aliases_nowhere doc"
  shows "size v < n \<Longrightarrow> verdict (below path) (check_schema D doc doc_id n s path v) (doc_conforms D doc doc_id s v)"
proof (induction n arbitrary: v s path)
  case (Suc n)
  note outer = Suc.IH
  show ?case using Suc.prems
  proof (induction "size v" arbitrary: v s path rule: less_induct)
    case less
    have IH: "size x < size v \<Longrightarrow> verdict (below p) (check_schema D doc doc_id n s p x) (doc_conforms D doc doc_id s x)" for s x p
      using outer less.prems by simp
    have IH': "size x < size v \<Longrightarrow> verdict (below p) (check_schema D doc doc_id (Suc n) s p x) (doc_conforms D doc doc_id s x)" for s x p
      using less by simp
    show ?case
    proof (cases "no_alias s")
      case True
      then show ?thesis using IH' by (rule no_alias_verdict)
    next
      case False
      show ?thesis
      proof (cases s)
        case (JObject node)
        note follow = follow_verdict [OF assms refl IH]
        consider "get_str node ''type'' = None" | "get_str node ''type'' = Some ''ref''" | "get_str node ''type'' = Some ''union''"
          using False JObject by (cases "get_str node ''type''") (auto simp: no_alias_def)
        then show ?thesis
        proof cases
          case 1
          then show ?thesis unfolding JObject
            by (subst check_schema.simps, simp add: object_def doc_conforms_simps [of D doc doc_id "JObject node"])
        next
          case 2
          then show ?thesis unfolding JObject check_ref [OF 2] conforms_ref [OF 2] using follow
            by (cases "get_str node ''ref''") simp_all
        next
          case 3
          then show ?thesis unfolding JObject check_union [OF 3] conforms_union [OF 3] using follow
            by (auto split: option.split)
        qed
      qed (rule no_schema_verdict, simp)+
    qed
  qed
qed simp

end
