(* ===== verification/Lexicon_Document_Service.thy ===== *)
theory Lexicon_Document_Service
  imports Lexicon_Document_Correct Formats_Correct
begin

text \<open>
  The properties of the checks over untrusted lexicon documents.
\<close>

section \<open>The record check\<close>

definition demo_documents :: "str document_lib" where
  "demo_documents = \<lparr> dl_cid = (\<lambda>s. if s = [] then Inl ''empty'' else Inr s), dl_year = (\<lambda>_. Some 2024), dl_graphemes = length,
     dl_base64 = (\<lambda>_. Inl ''none''), dl_base64_no_pad = (\<lambda>_. Inr []) \<rparr>"

definition typed_node :: "str \<Rightarrow> json_map \<Rightarrow> json" where
  "typed_node ty m = JObject (m @ [(''type'', JString ty)])"

definition record_document :: "json_map \<Rightarrow> json \<Rightarrow> json" where
  "record_document defs schema = JObject
     [(''defs'', JObject (defs @ [(''main'', typed_node ''record'' [(''key'', JString ''literal:self''), (''record'', schema)])])),
      (''id'', JString ''com.example.note''), (''lexicon'', JNumber (PosInt 1))]"

definition list_document :: json where
  "list_document = record_document
     [(''item'', typed_node ''object'' [(''properties'', JObject [(''next'', typed_node ''ref'' [(''ref'', JString ''#item'')]),
        (''text'', typed_node ''string'' [(''maxLength'', JNumber (PosInt 3))])]), (''required'', JArray [JString ''text''])])]
     (typed_node ''object'' [(''properties'', JObject [(''head'', typed_node ''ref'' [(''ref'', JString ''#item'')])])])"

definition list_record :: json where
  "list_record = JObject [(''head'', JObject [(''next'', JObject [(''text'', JString ''abcd'')]), (''text'', JString ''abc'')])]"

text \<open>
  C22: The verdict on an untrusted record. After the document check, and with fuel above the size of the
  record, the record check comes back; it accepts exactly when the definition is a record definition, the
  record key and \<open>$type\<close> fit it and the record conforms to its schema. Recursive definitions are allowed,
  since a checked document has no definition that is itself a reference.
\<close>

theorem untrusted_record_verdict:
  assumes "validate_document doc = Inr ()" "size rec < n"
  shows "verdict (\<lambda>_. True) (check_record D n doc def_name rkey rec)
    (\<exists>obj doc_id def schema. record_definition doc def_name = Inr (obj, doc_id, def) \<and>
       doc_key_ok (case get_str def ''key'' of Some k \<Rightarrow> k | None \<Rightarrow> ''any'') rkey = Inr () \<and>
       value_get rec ''$type'' \<in> {None, Some (JString (expected_record_type doc_id def_name))} \<and>
       map_of def ''record'' = Some schema \<and> doc_conforms D obj doc_id schema rec)"
proof (cases "record_definition doc def_name")
  case (Inl e)
  then show ?thesis by (simp add: check_record_def)
next
  case (Inr r)
  obtain obj doc_id def where r: "r = (obj, doc_id, def)" by (cases r)
  from checked_document [OF assms(1)] obtain o' where o: "doc = JObject o'" "aliases_nowhere o'" by blast
  then have "aliases_nowhere obj"
    using Inr r by (auto simp: record_definition_def object_def res_bind_Inr_iff split: if_splits)
  note v = verdict_mono [OF check_verdict [OF this assms(2)] TrueI]
  show ?thesis
  proof (cases "doc_key_ok (case get_str def ''key'' of Some k \<Rightarrow> k | None \<Rightarrow> ''any'') rkey")
    case (Inr u)
    then show ?thesis using \<open>record_definition doc def_name = Inr r\<close> r
      by (cases "value_get rec ''$type''"; cases "map_of def ''record''") (auto simp: check_record_def some_and_def v)
  qed (use Inr r in \<open>simp add: check_record_def\<close>)
qed

theorem untrusted_record_verdict_witness:
  "verdict (\<lambda>_. True) (check_record demo_documents 30 list_document ''main'' ''self'' list_record)
    (\<exists>obj doc_id def schema. record_definition list_document ''main'' = Inr (obj, doc_id, def) \<and>
       doc_key_ok (case get_str def ''key'' of Some k \<Rightarrow> k | None \<Rightarrow> ''any'') ''self'' = Inr () \<and>
       value_get list_record ''$type'' \<in> {None, Some (JString (expected_record_type doc_id ''main''))} \<and>
       map_of def ''record'' = Some schema \<and> doc_conforms demo_documents obj doc_id schema list_record) \<and>
   check_record demo_documents 30 list_document ''main'' ''self'' list_record =
     Some (Inl (field_error ''record/head/next/text'' ''length is above `maxLength`''))"
proof
  have "validate_document list_document = Inr ()" by code_simp
  moreover have "size list_record < 30" by (simp add: list_record_def)
  ultimately show "verdict (\<lambda>_. True) (check_record demo_documents 30 list_document ''main'' ''self'' list_record)
    (\<exists>obj doc_id def schema. record_definition list_document ''main'' = Inr (obj, doc_id, def) \<and>
       doc_key_ok (case get_str def ''key'' of Some k \<Rightarrow> k | None \<Rightarrow> ''any'') ''self'' = Inr () \<and>
       value_get list_record ''$type'' \<in> {None, Some (JString (expected_record_type doc_id ''main''))} \<and>
       map_of def ''record'' = Some schema \<and> doc_conforms demo_documents obj doc_id schema list_record)"
    by (rule untrusted_record_verdict)
qed code_simp

text \<open>The document check is needed: a definition that refers to itself keeps the record check from returning.\<close>

definition loop_document :: json where
  "loop_document = record_document [(''loop'', typed_node ''ref'' [(''ref'', JString ''#loop'')])] (typed_node ''ref'' [(''ref'', JString ''#loop'')])"

lemma unchecked_document_loops: "check_record D n loop_document ''main'' ''self'' rec = None \<or> value_get rec ''$type'' \<noteq> None"
proof (cases "value_get rec ''$type''")
  case None
  let ?loop = "JObject [(''ref'', JString ''#loop''), (''type'', JString ''ref'')]"
  obtain obj def where d: "record_definition loop_document ''main'' = Inr (obj, ''com.example.note'', def)"
      "get_str def ''key'' = Some ''literal:self''" "map_of def ''record'' = Some ?loop"
      "resolve_ref obj ''com.example.note'' ''#loop'' path = Inr ?loop" for path
    by (simp add: loop_document_def record_document_def typed_node_def record_definition_def object_def get_str_def get_object_def
      ok_or_def resolve_ref_def canonical_ref_def)
  have "check_schema D obj ''com.example.note'' n ?loop path rec = None" for n path
    by (induction n) (subst check_schema.simps, simp add: object_def get_str_def d(4))+
  then show ?thesis using d None by (simp add: check_record_def doc_key_ok_def some_and_def)
qed simp

section \<open>What the check gets wrong\<close>

lemma canonical_ref_hash: "CHR ''#'' \<in> set (canonical_ref doc_id r)"
  by (simp add: canonical_ref_def split: option.split)

text \<open>
  C40: Values of a main definition are never matched. A union member is compared with a fragment, a value
  names the main definition of a lexicon by the bare NSID: the check of such a value never looks at the
  member. An open union accepts it whatever it holds, a closed one refuses it whatever it holds; the
  validator of the server takes both spellings for the same definition.
\<close>

theorem main_members_unchecked:
  assumes "get_str node ''type'' = Some ''union''" "get_array node ''refs'' = Some refs"
    "json_str v ''$type'' = Some nsid" "CHR ''#'' \<notin> set nsid"
  shows "check_schema D doc doc_id n (JObject node) path v =
      Some (if get_bool node ''closed'' = Some True then Inl (field_error path ''`$type` is outside the closed union'') else Inr ()) \<and>
    (\<not> starts_with ''lex:'' nsid \<longrightarrow> choose_member [''lex:'' @ nsid @ ''#main''] v = Member (''lex:'' @ nsid @ ''#main''))"
proof
  have "union_member doc_id refs nsid = None"
    unfolding union_member_def find_None_iff using canonical_ref_hash assms(4) by metis
  then show "check_schema D doc doc_id n (JObject node) path v =
      Some (if get_bool node ''closed'' = Some True then Inl (field_error path ''`$type` is outside the closed union'') else Inr ())"
    by (simp add: check_union [OF assms(1)] assms(2,3))
  have "strip_suffix ''#main'' ((''lex:'' @ nsid) @ ''#main'') = Some (''lex:'' @ nsid)"
    unfolding strip_suffix_Some by simp
  moreover have "strip_suffix ''#main'' (''lex:'' @ nsid) \<noteq> Some r" for r
  proof
    assume "strip_suffix ''#main'' (''lex:'' @ nsid) = Some r"
    then have "set (''lex:'' @ nsid) = set (r @ ''#main'')" unfolding strip_suffix_Some by simp
    then show False using assms(4) by auto
  qed
  then have "strip_suffix ''#main'' (''lex:'' @ nsid) = None" by blast
  ultimately have "canonical_lex_uri (''lex:'' @ nsid @ ''#main'') = canonical_lex_uri (''lex:'' @ nsid)"
    unfolding canonical_lex_uri_def append_assoc by simp
  then show "\<not> starts_with ''lex:'' nsid \<longrightarrow> choose_member [''lex:'' @ nsid @ ''#main''] v = Member (''lex:'' @ nsid @ ''#main'')"
    by (simp add: choose_member_def assms(3) lex_uris_equal_def to_lex_uri_def)
qed

text \<open>
  A token field accepts no token: its schema has no \<open>ref\<close>, so the only string that passes is \<open>#main\<close>.
\<close>

theorem token_fields_accept_no_token:
  assumes "get_str node ''type'' = Some ''token''" "map_of node ''ref'' = None"
  shows "check_schema D doc doc_id n (JObject node) path v =
    Some (if v = JString ''#main'' then Inr () else Inl (field_error path ''must be a token identifier''))"
  using assms by (simp add: check_scalar(10) doc_token_def get_str_def canonical_ref_def)

theorem main_members_unchecked_witness:
  "check_schema demo_documents [] ''com.example.note'' 0
     (JObject [(''refs'', JArray [JString ''com.example.note'']), (''type'', JString ''union'')]) ''record''
     (JObject [(''$type'', JString ''com.example.note''), (''text'', JNull)]) = Some (Inr ())"
  using main_members_unchecked [of "[(''refs'', JArray [JString ''com.example.note'']), (''type'', JString ''union'')]"
      "[JString ''com.example.note'']" "JObject [(''$type'', JString ''com.example.note''), (''text'', JNull)]" "''com.example.note''"
      demo_documents "[]" "''com.example.note''" 0 "''record''"]
  by (simp add: get_str_def get_array_def get_bool_def json_str_def value_get_def)

theorem token_fields_accept_no_token_witness:
  "check_schema demo_documents [] ''com.example.note'' 0 (JObject [(''type'', JString ''token'')]) ''record'' (JString ''com.example.note#tok'') =
     Some (Inl (field_error ''record'' ''must be a token identifier''))"
  using token_fields_accept_no_token [of "[(''type'', JString ''token'')]" demo_documents "[]" "''com.example.note''" 0 "''record''"
      "JString ''com.example.note#tok''"]
  by (simp add: get_str_def)

section \<open>Two validators of string formats\<close>

lemma doc_tid_same: "doc_tid v \<longleftrightarrow> is_valid_tid v"
  by (cases v) (auto simp: doc_tid_def is_valid_tid_def tid_first_chars_def base32_sortable_def)

lemma doc_record_key_same: "doc_record_key v \<longleftrightarrow> is_valid_record_key v"
  by (auto simp: doc_record_key_def is_valid_record_key_def)

lemma alpha_is_alnum: "is_alpha b \<Longrightarrow> is_alnum b" by (simp add: is_alnum_def)

lemma doc_language_same: "doc_language v \<longleftrightarrow> is_valid_language v"
  by (cases v) (auto simp: doc_language_def is_valid_language_def subtag_ok_def list_all_iff alpha_is_alnum split: list.splits)

lemma find_char_split: "find_char d v = map_option (\<lambda>(a, b). length a) (split_once d v)"
  by (induction v) (auto simp: option.map_comp comp_def case_prod_beta)

lemma doc_uri_same: "doc_uri v \<longleftrightarrow> is_valid_uri v"
proof (cases "split_once CHR '':'' v")
  case (Some ab)
  obtain a b where ab: "ab = (a, b)" by (cases ab)
  with Some have v: "v = a @ CHR '':'' # b" by (simp add: split_once_Some)
  have "find_char CHR '':'' v = Some (length a)" using Some ab by (simp add: find_char_split)
  then show ?thesis using Some ab v
    by (cases a) (auto simp: doc_uri_def is_valid_uri_def leading_alpha_def alpha_is_alnum)
qed (simp add: doc_uri_def is_valid_uri_def find_char_split)

lemma handles_ok: "is_ok (at_uri_validate_handle v) \<longleftrightarrow> is_valid_handle v"
  by (simp add: is_ok_iff is_valid_handle_def handle_validators_same)

lemma dids_ok: "is_valid_did v \<Longrightarrow> is_ok (at_uri_validate_did v)"
  by (simp add: is_ok_iff is_valid_did_at_uri)

lemma space_is_no_at_uri: "is_ok (at_uri_parse v) \<Longrightarrow> \<not> is_space_at_uri v"
  by (auto simp: is_space_at_uri_def split_space_uri_def at_uri_parse_def is_ok_iff split: option.splits if_splits list.splits)

text \<open>
  The two validators of string formats compared. The check of untrusted documents and the server's
  validator of its own lexicons agree on every format but four. The former takes every DID of the latter
  and some more (with percent signs that encode nothing), refuses AT-URIs of permissioned spaces and knows
  no space references.
\<close>

theorem format_validators_compared:
  assumes "string_format_parse fmt = Some f"
  shows "(f \<notin> {FDid, FAtIdentifier, FAtUri, FSpaceRef} \<longrightarrow> (doc_format_ok D fmt v \<longleftrightarrow> format_ok (dl_cid D) (dl_year D) f v)) \<and>
    (f \<in> {FDid, FAtIdentifier} \<longrightarrow> format_ok (dl_cid D) (dl_year D) f v \<longrightarrow> doc_format_ok D fmt v) \<and>
    (f = FAtUri \<longrightarrow> (doc_format_ok D fmt v \<longleftrightarrow> format_ok (dl_cid D) (dl_year D) f v \<and> \<not> is_space_at_uri v)) \<and>
    (f = FSpaceRef \<longrightarrow> \<not> doc_format_ok D fmt v)"
proof -
  note eval = doc_format_ok_def format_ok_def
  have "fmt = ''at-identifier'' \<and> f = FAtIdentifier \<or> fmt = ''at-uri'' \<and> f = FAtUri \<or> fmt = ''cid'' \<and> f = FCid \<or>
      fmt = ''datetime'' \<and> f = FDatetime \<or> fmt = ''did'' \<and> f = FDid \<or> fmt = ''handle'' \<and> f = FHandle \<or>
      fmt = ''language'' \<and> f = FLanguage \<or> fmt = ''nsid'' \<and> f = FNsid \<or> fmt = ''record-key'' \<and> f = FRecordKey \<or>
      fmt = ''space-ref'' \<and> f = FSpaceRef \<or> fmt = ''tid'' \<and> f = FTid \<or> fmt = ''uri'' \<and> f = FUri"
    using map_of_SomeD [OF assms [unfolded string_format_parse_def]]
    by (simp only: list.set insert_iff empty_iff prod.inject simp_thms)
  then show ?thesis
    by (elim disjE conjE; hypsubst)
      (use space_is_no_at_uri in \<open>auto simp: eval doc_tid_same doc_record_key_same doc_language_same doc_uri_same handles_ok dids_ok\<close>)
qed

theorem format_validators_compared_witness:
  "doc_format_ok demo_documents ''tid'' ''3jzfcijpj2z2a'' \<longleftrightarrow> format_ok (dl_cid demo_documents) (dl_year demo_documents) FTid ''3jzfcijpj2z2a''"
proof -
  have "string_format_parse ''tid'' = Some FTid" by code_simp
  from format_validators_compared [OF this] show ?thesis by simp
qed

end
