(* ===== verification/Net_Guard.thy ===== *)
theory Net_Guard
  imports Api_Error Scope_Syntax "HOL-Library.Word"
begin

unbundle bit_operations_syntax

text \<open>
  The guard on outbound requests whose target a caller names, \<open>crates/custos-core/src/identity/proxy.rs\<close>:
  which addresses may be connected to, the check of an endpoint's URL, and the resolver of the hardened
  client. Addresses are kept as in \<open>std::net\<close>, four octets or eight 16-bit segments. The URL parser and
  the system resolver are third-party; a URL is the parts its accessors return.
\<close>

section \<open>Addresses\<close>

datatype ipv4 = V4 "8 word" "8 word" "8 word" "8 word"

datatype ipv6 = V6 "16 word" "16 word" "16 word" "16 word" "16 word" "16 word" "16 word" "16 word"

datatype ip_addr = IpV4 ipv4 | IpV6 ipv6

text \<open>The predicates of \<open>std::net\<close> the guard uses.\<close>

fun v4_is_private :: "ipv4 \<Rightarrow> bool" where
  "v4_is_private (V4 a b c d) \<longleftrightarrow> a = 10 \<or> a = 172 \<and> 16 \<le> b \<and> b \<le> 31 \<or> a = 192 \<and> b = 168"

fun v4_is_loopback :: "ipv4 \<Rightarrow> bool" where "v4_is_loopback (V4 a b c d) \<longleftrightarrow> a = 127"

fun v4_is_link_local :: "ipv4 \<Rightarrow> bool" where "v4_is_link_local (V4 a b c d) \<longleftrightarrow> a = 169 \<and> b = 254"

fun v4_is_broadcast :: "ipv4 \<Rightarrow> bool" where "v4_is_broadcast (V4 a b c d) \<longleftrightarrow> a = 255 \<and> b = 255 \<and> c = 255 \<and> d = 255"

fun v4_is_documentation :: "ipv4 \<Rightarrow> bool" where
  "v4_is_documentation (V4 a b c d) \<longleftrightarrow>
     a = 192 \<and> b = 0 \<and> c = 2 \<or> a = 198 \<and> b = 51 \<and> c = 100 \<or> a = 203 \<and> b = 0 \<and> c = 113"

fun v4_is_unspecified :: "ipv4 \<Rightarrow> bool" where "v4_is_unspecified (V4 a b c d) \<longleftrightarrow> a = 0 \<and> b = 0 \<and> c = 0 \<and> d = 0"

fun v4_is_multicast :: "ipv4 \<Rightarrow> bool" where "v4_is_multicast (V4 a b c d) \<longleftrightarrow> 224 \<le> a \<and> a \<le> 239"

fun v6_is_loopback :: "ipv6 \<Rightarrow> bool" where
  "v6_is_loopback (V6 a b c d e f g h) \<longleftrightarrow> a = 0 \<and> b = 0 \<and> c = 0 \<and> d = 0 \<and> e = 0 \<and> f = 0 \<and> g = 0 \<and> h = 1"

fun v6_is_unspecified :: "ipv6 \<Rightarrow> bool" where
  "v6_is_unspecified (V6 a b c d e f g h) \<longleftrightarrow> a = 0 \<and> b = 0 \<and> c = 0 \<and> d = 0 \<and> e = 0 \<and> f = 0 \<and> g = 0 \<and> h = 0"

fun v6_is_multicast :: "ipv6 \<Rightarrow> bool" where "v6_is_multicast (V6 a b c d e f g h) \<longleftrightarrow> a AND 0xff00 = 0xff00"

definition high_octet :: "16 word \<Rightarrow> 8 word" where "high_octet s = ucast (drop_bit 8 s)"
definition low_octet :: "16 word \<Rightarrow> 8 word" where "low_octet s = ucast s"

fun to_ipv4_mapped :: "ipv6 \<Rightarrow> ipv4 option" where
  "to_ipv4_mapped (V6 a b c d e f g h) =
     (if a = 0 \<and> b = 0 \<and> c = 0 \<and> d = 0 \<and> e = 0 \<and> f = 0xffff
      then Some (V4 (high_octet g) (low_octet g) (high_octet h) (low_octet h)) else None)"

fun ip_is_loopback :: "ip_addr \<Rightarrow> bool" where
  "ip_is_loopback (IpV4 v4) = v4_is_loopback v4"
| "ip_is_loopback (IpV6 v6) = v6_is_loopback v6"

section \<open>The allowlist\<close>

fun is_shared_address_space :: "ipv4 \<Rightarrow> bool" where
  "is_shared_address_space (V4 a b c d) \<longleftrightarrow> a = 100 \<and> b AND 0xc0 = 0x40"

fun is_benchmark_address_space :: "ipv4 \<Rightarrow> bool" where
  "is_benchmark_address_space (V4 a b c d) \<longleftrightarrow> a = 198 \<and> b AND 0xfe = 18"

fun is_reserved_ipv4 :: "ipv4 \<Rightarrow> bool" where "is_reserved_ipv4 (V4 a b c d) \<longleftrightarrow> 240 \<le> a"

definition is_global_ipv4 :: "ipv4 \<Rightarrow> bool" where
  "is_global_ipv4 ip \<longleftrightarrow>
     \<not> (v4_is_private ip \<or> v4_is_loopback ip \<or> v4_is_link_local ip \<or> v4_is_broadcast ip \<or> v4_is_documentation ip \<or>
        v4_is_unspecified ip \<or> v4_is_multicast ip \<or> is_shared_address_space ip \<or> is_benchmark_address_space ip \<or>
        is_reserved_ipv4 ip)"

fun is_global_ipv6 :: "ipv6 \<Rightarrow> bool" where
  "is_global_ipv6 (V6 a b c d e f g h) =
     (let ip = V6 a b c d e f g h
      in if v6_is_loopback ip \<or> v6_is_unspecified ip \<or> v6_is_multicast ip then False
         else if a = 0x2001 \<and> b = 0x0db8 then False
         else if a = 0x2001 \<and> b = 0 then False
         else if a = 0x2002 then False
         else if a = 0x0064 \<and> b = 0xff9b \<and> (c = 1 \<or> c = 0 \<and> d = 0 \<and> e = 0 \<and> f = 0) then False
         else if list_all (\<lambda>s. s = 0) [a, b, c, d, e, f] then False
         else if a AND 0xfe00 = 0xfc00 then False
         else if a AND 0xffc0 = 0xfe80 then False
         else True)"

fun is_global_ip :: "ip_addr \<Rightarrow> bool" where
  "is_global_ip (IpV4 v4) = is_global_ipv4 v4"
| "is_global_ip (IpV6 v6) = (case to_ipv4_mapped v6 of Some v4 \<Rightarrow> is_global_ipv4 v4 | None \<Rightarrow> is_global_ipv6 v6)"

definition ip_allowed :: "ip_addr \<Rightarrow> bool \<Rightarrow> bool" where
  "ip_allowed ip allow_loopback \<longleftrightarrow> is_global_ip ip \<or> allow_loopback \<and> ip_is_loopback ip"

section \<open>Endpoints\<close>

datatype url_host = Domain str | HostV4 ipv4 | HostV6 ipv6

record parsed_url =
  ur_scheme :: str
  ur_username :: str
  ur_password :: "str option"
  ur_query :: "str option"
  ur_fragment :: "str option"
  ur_host :: "url_host option"
  ur_port :: "nat option"
  ur_host_text :: str

definition bad_target :: "'d api_error" where
  "bad_target = api_error_new ServiceUnavailable ''atproto-proxy target is not a usable public service endpoint''"

definition validate_proxy_endpoint :: "(str \<Rightarrow> parsed_url option) \<Rightarrow> str \<Rightarrow> bool \<Rightarrow> 'd api_error + unit" where
  "validate_proxy_endpoint parse_url endpoint allow_loopback = (case parse_url endpoint of
     None \<Rightarrow> Inl bad_target
   | Some url \<Rightarrow>
       if ur_scheme url \<noteq> ''http'' \<and> ur_scheme url \<noteq> ''https'' then Inl bad_target
       else if ur_username url \<noteq> [] \<or> ur_password url \<noteq> None then Inl bad_target
       else if ur_query url \<noteq> None \<or> ur_fragment url \<noteq> None then Inl bad_target
       else (case ur_host url of
          None \<Rightarrow> Inl bad_target
        | Some (HostV4 ip) \<Rightarrow> if \<not> ip_allowed (IpV4 ip) allow_loopback then Inl bad_target else Inr ()
        | Some (HostV6 ip) \<Rightarrow> if \<not> ip_allowed (IpV6 ip) allow_loopback then Inl bad_target else Inr ()
        | Some (Domain _) \<Rightarrow> Inr ()))"

text \<open>\<open>CallerUrl::join\<close>; the string itself has no other accessor.\<close>

definition trim_end_slashes :: "str \<Rightarrow> str" where
  "trim_end_slashes s = rev (dropWhile (\<lambda>c. c = CHR ''/'') (rev s))"

definition caller_url_join :: "str \<Rightarrow> str \<Rightarrow> str" where
  "caller_url_join url suffix = trim_end_slashes url @ suffix"

section \<open>The resolver of the hardened client\<close>

datatype lookup_outcome = LookupOk "ip_addr list" | LookupFailed str | LookupTimedOut

definition ssrf_resolve :: "(str \<Rightarrow> str) \<Rightarrow> bool \<Rightarrow> str \<Rightarrow> lookup_outcome \<Rightarrow> str + ip_addr list" where
  "ssrf_resolve debug allow_loopback host outcome = (case outcome of
     LookupFailed e \<Rightarrow> Inl e
   | LookupTimedOut \<Rightarrow> Inl (''DNS resolution for '' @ debug host @ '' timed out'')
   | LookupOk addrs \<Rightarrow>
       if addrs = [] then Inl (''no addresses resolved for '' @ debug host)
       else if \<not> list_all (\<lambda>ip. ip_allowed ip allow_loopback) addrs
       then Inl (''refusing to connect to '' @ debug host @ '': it resolves to a non-public address'')
       else Inr addrs)"

end
