(* ===== verification/Net_Guard_Correct.thy ===== *)
theory Net_Guard_Correct
  imports Net_Guard
begin

text \<open>
  The allowlist as a list of address blocks in prefix notation, and what it says of IPv6 addresses that
  carry an IPv4 address.
\<close>

section \<open>Blocks\<close>

text \<open>Addresses as numbers; a block of width \<open>w\<close> is all numbers that share the first \<open>n\<close> bits of its base.\<close>

fun v4_num :: "ipv4 \<Rightarrow> nat" where
  "v4_num (V4 a b c d) = ((unat a * 256 + unat b) * 256 + unat c) * 256 + unat d"

definition in_block :: "nat \<Rightarrow> nat \<Rightarrow> nat \<times> nat \<Rightarrow> bool" where
  "in_block w k blk \<longleftrightarrow> (case blk of (base, n) \<Rightarrow> k div 2 ^ (w - n) = base div 2 ^ (w - n))"

definition v4_blocks :: "(nat \<times> nat) list" where
  "v4_blocks = map (\<lambda>(a, b, c, d, n). (((a * 256 + b) * 256 + c) * 256 + d, n))
     [(0, 0, 0, 0, 32), (10, 0, 0, 0, 8), (100, 64, 0, 0, 10), (127, 0, 0, 0, 8), (169, 254, 0, 0, 16), (172, 16, 0, 0, 12),
      (192, 0, 2, 0, 24), (192, 168, 0, 0, 16), (198, 18, 0, 0, 15), (198, 51, 100, 0, 24), (203, 0, 113, 0, 24),
      (224, 0, 0, 0, 4), (240, 0, 0, 0, 4)]"

lemma high_bits:
  assumes "k + m = LENGTH('a)" "c < 2 ^ m"
  shows "(x :: 'a::len word) AND push_bit k (mask m) = push_bit k (word_of_nat c) \<longleftrightarrow> unat x div 2 ^ k = c"
proof -
  have "x AND push_bit k (mask m) = push_bit k (drop_bit k x)"
    using assms(1) by (intro bit_word_eqI) (auto simp: bit_simps)
  moreover have "push_bit k (drop_bit k x) = push_bit k (word_of_nat c) \<longleftrightarrow> drop_bit k x = word_of_nat c"
  proof
    assume eq: "push_bit k (drop_bit k x) = push_bit k (word_of_nat c)"
    show "drop_bit k x = word_of_nat c"
    proof (rule bit_word_eqI)
      fix n assume n: "n < LENGTH('a)"
      show "bit (drop_bit k x) n \<longleftrightarrow> bit (word_of_nat c :: 'a word) n"
      proof (cases "n < m")
        case True
        then show ?thesis using arg_cong [OF eq, of "\<lambda>w. bit w (k + n)"] assms(1) by (simp add: bit_simps)
      next
        case False
        have "\<not> bit c n" using assms(2) False
          by (metis bit_take_bit_iff take_bit_nat_eq_self)
        moreover have "\<not> bit x (k + n)" using False assms(1) bit_imp_le_length [of x "k + n"] by auto
        ultimately show ?thesis by (simp add: bit_simps)
      qed
    qed
  qed simp
  moreover have "drop_bit k x = word_of_nat c \<longleftrightarrow> unat x div 2 ^ k = c"
  proof -
    have "c < 2 ^ LENGTH('a)" using assms by (metis le_add2 less_le_trans one_le_numeral power_increasing)
    then have "unat (word_of_nat c :: 'a word) = c" by (simp add: unat_of_nat)
    then show ?thesis by (metis unat_drop_bit_eq drop_bit_eq_div word_unat_eq_iff)
  qed
  ultimately show ?thesis by simp
qed

lemma mask_c0: "(b :: 8 word) AND 0xc0 = 0x40 \<longleftrightarrow> unat b div 64 = 1"
  using high_bits [of 6 2 1 b] by (simp add: mask_eq_exp_minus_1 push_bit_eq_mult)

lemma mask_fe: "(b :: 8 word) AND 0xfe = 18 \<longleftrightarrow> unat b div 2 = 9"
  using high_bits [of 1 7 9 b] by (simp add: mask_eq_exp_minus_1 push_bit_eq_mult)

lemma octet: "unat (x :: 8 word) < 256" using unsigned_less [of x, where ?'a = nat] by simp

lemma octet_eq: "(x :: 8 word) = numeral n \<longleftrightarrow> unat x = unat (numeral n :: 8 word)" "x = 0 \<longleftrightarrow> unat x = 0"
  by (simp_all add: word_unat_eq_iff)

lemma v4_div:
  "v4_num (V4 a b c d) div 2 ^ 24 = unat a"
  "v4_num (V4 a b c d) div 2 ^ 28 = unat a div 16"
  "v4_num (V4 a b c d) div 2 ^ 22 = unat a * 4 + unat b div 64"
  "v4_num (V4 a b c d) div 2 ^ 20 = unat a * 16 + unat b div 16"
  "v4_num (V4 a b c d) div 2 ^ 17 = unat a * 128 + unat b div 2"
  "v4_num (V4 a b c d) div 2 ^ 16 = unat a * 256 + unat b"
  "v4_num (V4 a b c d) div 2 ^ 8 = (unat a * 256 + unat b) * 256 + unat c"
  using octet [of a] octet [of b] octet [of c] octet [of d] by simp_all

lemma digits_eq:
  assumes "x < m" "r < (m :: nat)"
  shows "a * m + x = q * m + r \<longleftrightarrow> a = q \<and> x = r"
proof
  assume eq: "a * m + x = q * m + r"
  have "a = (a * m + x) div m" "q = (q * m + r) div m" using assms by simp_all
  then have "a = q" using eq by metis
  then show "a = q \<and> x = r" using eq by simp
qed simp

lemma octet_le: "numeral n \<le> (x :: 8 word) \<longleftrightarrow> unat (numeral n :: 8 word) \<le> unat x"
  "x \<le> numeral n \<longleftrightarrow> unat x \<le> unat (numeral n :: 8 word)"
  by (simp_all add: word_le_nat_alt)

lemma div_range: "0 < m \<Longrightarrow> n div m = q \<longleftrightarrow> q * m \<le> n \<and> n < (q + 1) * (m :: nat)"
  by (metis Suc_eq_plus1 div_less_iff_less_mult less_Suc_eq_le less_eq_div_iff_mult_less_eq order_antisym_conv order_refl)

lemma octet_consts:
  "unat (10 :: 8 word) = 10" "unat (172 :: 8 word) = 172" "unat (192 :: 8 word) = 192" "unat (168 :: 8 word) = 168" "unat (127 :: 8 word) = 127" "unat (169 :: 8 word) = 169" "unat (254 :: 8 word) = 254" "unat (255 :: 8 word) = 255"
  "unat (2 :: 8 word) = 2" "unat (198 :: 8 word) = 198" "unat (51 :: 8 word) = 51" "unat (100 :: 8 word) = 100" "unat (203 :: 8 word) = 203" "unat (113 :: 8 word) = 113" "unat (16 :: 8 word) = 16" "unat (31 :: 8 word) = 31" "unat (224 :: 8 word) = 224" "unat (239 :: 8 word) = 239" "unat (240 :: 8 word) = 240"
  by simp_all

lemma v4_block_list:
  "list_ex (in_block 32 (v4_num ip)) v4_blocks \<longleftrightarrow> \<not> is_global_ipv4 ip"
proof (cases ip)
  case (V4 a b c d)
  have global: "\<not> is_global_ipv4 ip \<longleftrightarrow>
      (unat a = 0 \<and> unat b = 0 \<and> unat c = 0 \<and> unat d = 0) \<or> unat a = 10 \<or> (unat a = 100 \<and> unat b div 64 = 1) \<or>
      unat a = 127 \<or> (unat a = 169 \<and> unat b = 254) \<or> (unat a = 172 \<and> unat b div 16 = 1) \<or>
      (unat a = 192 \<and> unat b = 0 \<and> unat c = 2) \<or> (unat a = 192 \<and> unat b = 168) \<or> (unat a = 198 \<and> unat b div 2 = 9) \<or>
      (unat a = 198 \<and> unat b = 51 \<and> unat c = 100) \<or> (unat a = 203 \<and> unat b = 0 \<and> unat c = 113) \<or>
      unat a div 16 = 14 \<or> unat a div 16 = 15"
  proof -
    have mid: "16 \<le> unat b \<and> unat b \<le> 31 \<longleftrightarrow> unat b div 16 = 1" unfolding div_range [OF zero_less_numeral] by auto
    have high: "224 \<le> unat a \<and> unat a \<le> 239 \<longleftrightarrow> unat a div 16 = 14" "240 \<le> unat a \<longleftrightarrow> unat a div 16 = 15"
      unfolding div_range [OF zero_less_numeral] using octet [of a] by auto
    have broadcast: "unat a = 255 \<longrightarrow> unat a div 16 = 15" unfolding div_range [OF zero_less_numeral] by auto
    show ?thesis
      unfolding V4 is_global_ipv4_def not_not v4_is_private.simps v4_is_loopback.simps v4_is_link_local.simps v4_is_broadcast.simps
        v4_is_documentation.simps v4_is_unspecified.simps v4_is_multicast.simps is_shared_address_space.simps
        is_benchmark_address_space.simps is_reserved_ipv4.simps mask_c0 mask_fe
      unfolding octet_eq octet_le octet_consts mid high
      by (intro iffI; elim disjE; use broadcast in \<open>simp only: simp_thms\<close>)
  qed
  have listed: "list_ex (in_block 32 (v4_num ip)) v4_blocks \<longleftrightarrow>
      (unat a = 0 \<and> unat b = 0 \<and> unat c = 0 \<and> unat d = 0) \<or> unat a = 10 \<or> (unat a = 100 \<and> unat b div 64 = 1) \<or>
      unat a = 127 \<or> (unat a = 169 \<and> unat b = 254) \<or> (unat a = 172 \<and> unat b div 16 = 1) \<or>
      (unat a = 192 \<and> unat b = 0 \<and> unat c = 2) \<or> (unat a = 192 \<and> unat b = 168) \<or> (unat a = 198 \<and> unat b div 2 = 9) \<or>
      (unat a = 198 \<and> unat b = 51 \<and> unat c = 100) \<or> (unat a = 203 \<and> unat b = 0 \<and> unat c = 113) \<or>
      unat a div 16 = 14 \<or> unat a div 16 = 15"
  proof -
    note div = v4_div [of a b c d, folded V4]
    have split: "unat a * 4 + unat b div 64 = 401 \<longleftrightarrow> unat a = 100 \<and> unat b div 64 = 1"
      "unat a * 16 + unat b div 16 = 2753 \<longleftrightarrow> unat a = 172 \<and> unat b div 16 = 1"
      "unat a * 128 + unat b div 2 = 25353 \<longleftrightarrow> unat a = 198 \<and> unat b div 2 = 9"
      "unat a * 256 + unat b = 43518 \<longleftrightarrow> unat a = 169 \<and> unat b = 254"
      "unat a * 256 + unat b = 49320 \<longleftrightarrow> unat a = 192 \<and> unat b = 168"
      using digits_eq [of "unat b div 64" 4 1 "unat a" 100] digits_eq [of "unat b div 16" 16 1 "unat a" 172]
        digits_eq [of "unat b div 2" 128 9 "unat a" 198] digits_eq [of "unat b" 256 254 "unat a" 169]
        digits_eq [of "unat b" 256 168 "unat a" 192] octet [of b] by simp_all
    have split': "(unat a * 256 + unat b) * 256 + unat c = 12582914 \<longleftrightarrow> unat a = 192 \<and> unat b = 0 \<and> unat c = 2"
      "(unat a * 256 + unat b) * 256 + unat c = 12989284 \<longleftrightarrow> unat a = 198 \<and> unat b = 51 \<and> unat c = 100"
      "(unat a * 256 + unat b) * 256 + unat c = 13303921 \<longleftrightarrow> unat a = 203 \<and> unat b = 0 \<and> unat c = 113"
      using digits_eq [of "unat c" 256 2 "unat a * 256 + unat b" "192 * 256"] digits_eq [of "unat c" 256 100 "unat a * 256 + unat b" "198 * 256 + 51"]
        digits_eq [of "unat c" 256 113 "unat a * 256 + unat b" "203 * 256"] digits_eq [of "unat b" 256 0 "unat a" 192]
        digits_eq [of "unat b" 256 51 "unat a" 198] digits_eq [of "unat b" 256 0 "unat a" 203] octet [of b] octet [of c] by auto
    have zero: "v4_num ip = 0 \<longleftrightarrow> unat a = 0 \<and> unat b = 0 \<and> unat c = 0 \<and> unat d = 0" by (simp add: V4)
    have block: "in_block 32 k (base, n) \<longleftrightarrow> k div 2 ^ m = base div 2 ^ m" if "m + n = 32" for k base n m
    proof -
      have "32 - n = m" using that by simp
      then show ?thesis by (simp add: in_block_def)
    qed
    have widths: "(0::nat) + 32 = 32" "(24::nat) + 8 = 32" "(22::nat) + 10 = 32" "(16::nat) + 16 = 32" "(20::nat) + 12 = 32"
      "(8::nat) + 24 = 32" "(17::nat) + 15 = 32" "(28::nat) + 4 = 32" by simp_all
    have blocks: "v4_blocks = [(0, 32), (167772160, 8), (1681915904, 10), (2130706432, 8), (2851995648, 16), (2886729728, 12), (3221225984, 24), (3232235520, 16), (3323068416, 15), (3325256704, 24), (3405803776, 24), (3758096384, 4), (4026531840, 4)]"
      by (simp add: v4_blocks_def)
    have bases: "(167772160 :: nat) div 2 ^ 24 = 10" "(1681915904 :: nat) div 2 ^ 22 = 401"
      "(2130706432 :: nat) div 2 ^ 24 = 127" "(2851995648 :: nat) div 2 ^ 16 = 43518"
      "(2886729728 :: nat) div 2 ^ 20 = 2753" "(3221225984 :: nat) div 2 ^ 8 = 12582914"
      "(3232235520 :: nat) div 2 ^ 16 = 49320" "(3323068416 :: nat) div 2 ^ 17 = 25353"
      "(3325256704 :: nat) div 2 ^ 8 = 12989284" "(3405803776 :: nat) div 2 ^ 8 = 13303921"
      "(3758096384 :: nat) div 2 ^ 28 = 14" "(4026531840 :: nat) div 2 ^ 28 = 15" by simp_all
    have each_block: "in_block 32 (v4_num ip) (0, 32) \<longleftrightarrow> unat a = 0 \<and> unat b = 0 \<and> unat c = 0 \<and> unat d = 0"
      "in_block 32 (v4_num ip) (167772160, 8) \<longleftrightarrow> unat a = 10"
      "in_block 32 (v4_num ip) (1681915904, 10) \<longleftrightarrow> unat a = 100 \<and> unat b div 64 = 1"
      "in_block 32 (v4_num ip) (2130706432, 8) \<longleftrightarrow> unat a = 127"
      "in_block 32 (v4_num ip) (2851995648, 16) \<longleftrightarrow> unat a = 169 \<and> unat b = 254"
      "in_block 32 (v4_num ip) (2886729728, 12) \<longleftrightarrow> unat a = 172 \<and> unat b div 16 = 1"
      "in_block 32 (v4_num ip) (3221225984, 24) \<longleftrightarrow> unat a = 192 \<and> unat b = 0 \<and> unat c = 2"
      "in_block 32 (v4_num ip) (3232235520, 16) \<longleftrightarrow> unat a = 192 \<and> unat b = 168"
      "in_block 32 (v4_num ip) (3323068416, 15) \<longleftrightarrow> unat a = 198 \<and> unat b div 2 = 9"
      "in_block 32 (v4_num ip) (3325256704, 24) \<longleftrightarrow> unat a = 198 \<and> unat b = 51 \<and> unat c = 100"
      "in_block 32 (v4_num ip) (3405803776, 24) \<longleftrightarrow> unat a = 203 \<and> unat b = 0 \<and> unat c = 113"
      "in_block 32 (v4_num ip) (3758096384, 4) \<longleftrightarrow> unat a div 16 = 14"
      "in_block 32 (v4_num ip) (4026531840, 4) \<longleftrightarrow> unat a div 16 = 15"
      unfolding widths [THEN block] div bases split split' power_0 div_by_1 zero by (rule refl)+
    show ?thesis unfolding list_ex_iff blocks list.set bex_simps each_block by simp
  qed
  show ?thesis by (rule trans [OF listed global [symmetric]])
qed

text \<open>The same for IPv6; the IPv4-mapped block is judged by its IPv4 address.\<close>

fun v6_num :: "ipv6 \<Rightarrow> nat" where
  "v6_num (V6 a b c d e f g h) = foldl (\<lambda>k s. k * 2 ^ 16 + unat s) 0 [a, b, c, d, e, f, g, h]"

definition v6_block :: "nat list \<Rightarrow> nat \<Rightarrow> nat \<times> nat" where
  "v6_block segments n = (foldl (\<lambda>k s. k * 2 ^ 16 + s) 0 segments * 2 ^ (16 * (8 - length segments)), n)"

definition v6_blocks :: "(nat \<times> nat) list" where
  "v6_blocks = [v6_block [0] 96, v6_block [0x64, 0xff9b] 96, v6_block [0x64, 0xff9b, 1] 48, v6_block [0x2001] 32,
     v6_block [0x2001, 0xdb8] 32, v6_block [0x2002] 16, v6_block [0xfc00] 7, v6_block [0xfe80] 10, v6_block [0xff00] 8]"

lemma segment: "unat (x :: 16 word) < 65536" using unsigned_less [of x, where ?'a = nat] by simp

lemma segment_masks:
  "(a :: 16 word) AND 0xff00 = 0xff00 \<longleftrightarrow> unat a div 256 = 255"
  "a AND 0xfe00 = 0xfc00 \<longleftrightarrow> unat a div 512 = 126"
  "a AND 0xffc0 = 0xfe80 \<longleftrightarrow> unat a div 64 = 1018"
  using high_bits [of 8 8 255 a] high_bits [of 9 7 126 a] high_bits [of 6 10 1018 a]
  by (simp_all add: mask_eq_exp_minus_1 push_bit_eq_mult)

lemma shift_out: "x < m \<Longrightarrow> (k * m + x) div (m * q) = k div (q :: nat)"
  by (simp add: div_mult2_eq)

lemma v6_div:
  "v6_num (V6 a b c d e f g h) div 2 ^ 32 =
     ((((unat a * 65536 + unat b) * 65536 + unat c) * 65536 + unat d) * 65536 + unat e) * 65536 + unat f"
  "v6_num (V6 a b c d e f g h) div 2 ^ 80 = (unat a * 65536 + unat b) * 65536 + unat c"
  "v6_num (V6 a b c d e f g h) div 2 ^ 96 = unat a * 65536 + unat b"
  "v6_num (V6 a b c d e f g h) div 2 ^ 112 = unat a"
  using segment [of a] segment [of b] segment [of c] segment [of d] segment [of e] segment [of f] segment [of g] segment [of h]
  by simp_all

lemma v6_block_list: "list_ex (in_block 128 (v6_num ip)) v6_blocks \<longleftrightarrow> \<not> is_global_ipv6 ip"
proof (cases ip)
  case (V6 a b c d e f g h)
  note div = v6_div [of a b c d e f g h, folded V6]
  let ?R = "(unat a = 0 \<and> unat b = 0 \<and> unat c = 0 \<and> unat d = 0 \<and> unat e = 0 \<and> unat f = 0) \<or>
      (unat a = 100 \<and> unat b = 65435 \<and> unat c = 0 \<and> unat d = 0 \<and> unat e = 0 \<and> unat f = 0) \<or>
      (unat a = 100 \<and> unat b = 65435 \<and> unat c = 1) \<or>
      (unat a = 8193 \<and> unat b = 0) \<or>
      (unat a = 8193 \<and> unat b = 3512) \<or>
      (unat a = 8194) \<or>
      (unat a div 512 = 126) \<or>
      (unat a div 64 = 1018) \<or>
      (unat a div 256 = 255)"
  have global: "\<not> is_global_ipv6 ip \<longleftrightarrow> ?R"
    unfolding V6 is_global_ipv6.simps Let_def v6_is_loopback.simps v6_is_unspecified.simps v6_is_multicast.simps segment_masks
    unfolding word_unat_eq_iff
    by (simp split del: if_split) (auto split: if_splits)
  have listed: "list_ex (in_block 128 (v6_num ip)) v6_blocks \<longleftrightarrow> ?R"
  proof -
    have block: "in_block 128 k (v6_block s n) \<longleftrightarrow> k div 2 ^ m = fst (v6_block s n) div 2 ^ m" if "m + n = 128" for k s n m
    proof -
      have "128 - n = m" using that by simp
      then show ?thesis by (simp add: in_block_def v6_block_def)
    qed
    have fine: "v6_num ip div 2 ^ (112 + k) = unat a div 2 ^ k" for k
      using div(4) by (simp add: power_add div_mult2_eq)
    have b6: "((((unat a * 65536 + unat b) * 65536 + unat c) * 65536 + unat d) * 65536 + unat e) * 65536 + unat f = 122099644659926101980610560 \<longleftrightarrow> unat a = 100 \<and> unat b = 65435 \<and> unat c = 0 \<and> unat d = 0 \<and> unat e = 0 \<and> unat f = 0"
      using digits_eq [of "unat f" 65536 0 "(((unat a * 65536 + unat b) * 65536 + unat c) * 65536 + unat d) * 65536 + unat e" 1863092722472016936960] segment [of f] digits_eq [of "unat e" 65536 0 "((unat a * 65536 + unat b) * 65536 + unat c) * 65536 + unat d" 28428538856079360] segment [of e]
        digits_eq [of "unat d" 65536 0 "(unat a * 65536 + unat b) * 65536 + unat c" 433785077760] segment [of d] digits_eq [of "unat c" 65536 0 "unat a * 65536 + unat b" 6619035] segment [of c] digits_eq [of "unat b" 65536 65435 "unat a" 100] segment [of b] by simp
    have b3: "(unat a * 65536 + unat b) * 65536 + unat c = 433785077761 \<longleftrightarrow> unat a = 100 \<and> unat b = 65435 \<and> unat c = 1"
      using digits_eq [of "unat c" 65536 1 "unat a * 65536 + unat b" 6619035] segment [of c] digits_eq [of "unat b" 65536 65435 "unat a" 100] segment [of b] by simp
    have b2: "unat a * 65536 + unat b = 536936448 \<longleftrightarrow> unat a = 8193 \<and> unat b = 0" "unat a * 65536 + unat b = 536939960 \<longleftrightarrow> unat a = 8193 \<and> unat b = 3512"
      using digits_eq [of "unat b" 65536 0 "unat a" 8193] segment [of b] digits_eq [of "unat b" 65536 3512 "unat a" 8193] segment [of b] by simp_all
    have b0: "((((unat a * 65536 + unat b) * 65536 + unat c) * 65536 + unat d) * 65536 + unat e) * 65536 + unat f = 0 \<longleftrightarrow> unat a = 0 \<and> unat b = 0 \<and> unat c = 0 \<and> unat d = 0 \<and> unat e = 0 \<and> unat f = 0"
      by simp
    have each_block:
      "in_block 128 (v6_num ip) (v6_block [0] 96) \<longleftrightarrow> unat a = 0 \<and> unat b = 0 \<and> unat c = 0 \<and> unat d = 0 \<and> unat e = 0 \<and> unat f = 0"
      "in_block 128 (v6_num ip) (v6_block [0x64, 0xff9b] 96) \<longleftrightarrow>
        unat a = 100 \<and> unat b = 65435 \<and> unat c = 0 \<and> unat d = 0 \<and> unat e = 0 \<and> unat f = 0"
      "in_block 128 (v6_num ip) (v6_block [0x64, 0xff9b, 1] 48) \<longleftrightarrow> unat a = 100 \<and> unat b = 65435 \<and> unat c = 1"
      "in_block 128 (v6_num ip) (v6_block [0x2001] 32) \<longleftrightarrow> unat a = 8193 \<and> unat b = 0"
      "in_block 128 (v6_num ip) (v6_block [0x2001, 0xdb8] 32) \<longleftrightarrow> unat a = 8193 \<and> unat b = 3512"
      "in_block 128 (v6_num ip) (v6_block [0x2002] 16) \<longleftrightarrow> unat a = 8194"
      "in_block 128 (v6_num ip) (v6_block [0xfc00] 7) \<longleftrightarrow> unat a div 512 = 126"
      "in_block 128 (v6_num ip) (v6_block [0xfe80] 10) \<longleftrightarrow> unat a div 64 = 1018"
      "in_block 128 (v6_num ip) (v6_block [0xff00] 8) \<longleftrightarrow> unat a div 256 = 255"
      unfolding block [of 32 96, simplified] block [of 80 48, simplified] block [of 96 32, simplified] block [of 112 16, simplified]
        block [of 121 7, simplified] block [of 118 10, simplified] block [of 120 8, simplified]
      by (simp_all add: v6_block_def div [simplified] fine [of 9, simplified] fine [of 6, simplified] fine [of 8, simplified]
        b6 [simplified] b3 [simplified] b2 [simplified])
    show ?thesis unfolding list_ex_iff v6_blocks_def list.set bex_simps each_block by simp
  qed
  show ?thesis by (rule trans [OF listed global [symmetric]])
qed

end
