(* ===== verification/Net_Guard_Service.thy ===== *)
theory Net_Guard_Service
  imports Net_Guard_Correct
begin

text \<open>
  The properties of the outbound guard: the allowlist is a table of address blocks, addresses that carry an
  IPv4 address do not get round it, and a guarded fetch only ever reaches allowed addresses.
\<close>

section \<open>The allowlist\<close>

definition v6_mapped_block :: "nat \<times> nat" where
  "v6_mapped_block = v6_block [0, 0, 0, 0, 0, 0xffff] 96"

text \<open>An address outside every block; a mapped IPv4 address is looked up by its low 32 bits.\<close>

fun public_number :: "ip_addr \<Rightarrow> bool" where
  "public_number (IpV4 v4) \<longleftrightarrow> \<not> list_ex (in_block 32 (v4_num v4)) v4_blocks"
| "public_number (IpV6 v6) \<longleftrightarrow>
     (if in_block 128 (v6_num v6) v6_mapped_block then \<not> list_ex (in_block 32 (v6_num v6 mod 2 ^ 32)) v4_blocks
      else \<not> list_ex (in_block 128 (v6_num v6)) v6_blocks)"

lemma octets_of_segment: "unat (high_octet s) * 256 + unat (low_octet s) = unat s"
proof -
  have "unat (drop_bit 8 s) = unat s div 256" using unat_drop_bit_eq [of 8 s, unfolded drop_bit_eq_div [where ?'a = nat]] by simp
  then have "unat (high_octet s) = unat s div 256 mod 256"
    unfolding high_octet_def unsigned_ucast_eq take_bit_eq_mod by simp
  then have "unat (high_octet s) = unat s div 256" using segment [of s] by simp
  moreover have "unat (low_octet s) = unat s mod 256" by (simp add: low_octet_def unsigned_ucast_eq take_bit_eq_mod)
  ultimately show ?thesis by simp
qed

lemma mapped_block:
  "in_block 128 (v6_num (V6 a b c d e f g h)) v6_mapped_block \<longleftrightarrow> a = 0 \<and> b = 0 \<and> c = 0 \<and> d = 0 \<and> e = 0 \<and> f = 0xffff"
proof -
  have "in_block 128 (v6_num (V6 a b c d e f g h)) v6_mapped_block \<longleftrightarrow>
      ((((unat a * 65536 + unat b) * 65536 + unat c) * 65536 + unat d) * 65536 + unat e) * 65536 + unat f = 65535"
    using v6_div(1) [of a b c d e f g h] by (simp add: in_block_def v6_mapped_block_def v6_block_def)
  also have "\<dots> \<longleftrightarrow> (((unat a * 65536 + unat b) * 65536 + unat c) * 65536 + unat d) * 65536 + unat e = 0 \<and> unat f = 65535"
    using digits_eq [of "unat f" 65536 65535 "(((unat a * 65536 + unat b) * 65536 + unat c) * 65536 + unat d) * 65536 + unat e" 0]
      segment [of f] by simp
  finally show ?thesis by (simp add: word_unat_eq_iff)
qed

lemma mapped_number:
  "to_ipv4_mapped v6 = (if in_block 128 (v6_num v6) v6_mapped_block then to_ipv4_mapped v6 else None)"
  "to_ipv4_mapped v6 = Some v4 \<Longrightarrow> v4_num v4 = v6_num v6 mod 2 ^ 32"
proof -
  obtain a b c d e f g h where v6: "v6 = V6 a b c d e f g h" by (cases v6)
  show "to_ipv4_mapped v6 = (if in_block 128 (v6_num v6) v6_mapped_block then to_ipv4_mapped v6 else None)"
    unfolding v6 mapped_block by simp
  assume m: "to_ipv4_mapped v6 = Some v4"
  then have "v4 = V4 (high_octet g) (low_octet g) (high_octet h) (low_octet h)" by (simp add: v6 split: if_splits)
  then have num: "v4_num v4 = unat g * 65536 + unat h"
    using octets_of_segment [of g] octets_of_segment [of h] by (simp add: algebra_simps)
  have "v6_num v6 = (unat f * 65536 + unat g) * 65536 + unat h" using m by (simp add: v6 split: if_splits)
  then have "v6_num v6 = unat f * 2 ^ 32 + (unat g * 65536 + unat h)" by simp
  then have "v6_num v6 mod 2 ^ 32 = (unat g * 65536 + unat h) mod 2 ^ 32" by (simp only: mod_mult_self3)
  moreover have "unat g * 65536 + unat h < 2 ^ 32" using segment [of g] segment [of h] by simp
  ultimately show "v4_num v4 = v6_num v6 mod 2 ^ 32" using num by (simp only: mod_less)
qed

lemma is_global_ip_block: "is_global_ip ip \<longleftrightarrow> public_number ip"
proof (cases ip)
  case (IpV6 v6)
  show ?thesis
  proof (cases "to_ipv4_mapped v6")
    case None
    then have "\<not> in_block 128 (v6_num v6) v6_mapped_block"
      by (cases v6) (auto simp: mapped_block simp del: v6_num.simps split: if_splits)
    then show ?thesis by (simp add: IpV6 None v6_block_list)
  next
    case (Some v4)
    then have "in_block 128 (v6_num v6) v6_mapped_block" using mapped_number(1) [of v6] by (simp split: if_splits)
    then show ?thesis using Some v4_block_list [of v4, unfolded mapped_number(2) [OF Some]] by (simp add: IpV6)
  qed
qed (simp add: v4_block_list)

text \<open>
  C23: The allowlist as a table. Without the test relaxation an address may be connected to exactly when its
  number lies outside every block of the table, thirteen IPv4 and nine IPv6 blocks in prefix notation, an
  IPv4-mapped address being looked up by its IPv4 part; the masks and octet tests of the code decide this.
  The relaxation adds the loopback addresses and nothing else.
\<close>

theorem allowlist_is_block_table:
  "(ip_allowed ip False \<longleftrightarrow> public_number ip) \<and>
   (ip_allowed ip True \<longleftrightarrow> public_number ip \<or> ip = IpV6 (V6 0 0 0 0 0 0 0 1) \<or> (\<exists>b c d. ip = IpV4 (V4 127 b c d)))"
proof
  show "ip_allowed ip False \<longleftrightarrow> public_number ip" by (simp add: ip_allowed_def is_global_ip_block)
  have "ip_is_loopback ip \<longleftrightarrow> ip = IpV6 (V6 0 0 0 0 0 0 0 1) \<or> (\<exists>b c d. ip = IpV4 (V4 127 b c d))"
  proof (cases ip)
    case (IpV4 v4)
    then show ?thesis by (cases v4) auto
  next
    case (IpV6 v6)
    then show ?thesis by (cases v6) auto
  qed
  then show "ip_allowed ip True \<longleftrightarrow> public_number ip \<or> ip = IpV6 (V6 0 0 0 0 0 0 0 1) \<or> (\<exists>b c d. ip = IpV4 (V4 127 b c d))"
    by (simp add: ip_allowed_def is_global_ip_block)
qed

section \<open>Addresses that carry an IPv4 address\<close>

definition segment_of :: "8 word \<Rightarrow> 8 word \<Rightarrow> 16 word" where
  "segment_of hi lo = word_of_nat (unat hi * 256 + unat lo)"

text \<open>The transition forms of an IPv4 address; Teredo is not listed, its whole block is closed.\<close>

fun carriers :: "ipv4 \<Rightarrow> ipv6 list" where
  "carriers (V4 a b c d) =
     [V6 0 0 0 0 0 0xffff (segment_of a b) (segment_of c d),
      V6 0 0 0 0 0 0 (segment_of a b) (segment_of c d),
      V6 0x64 0xff9b 0 0 0 0 (segment_of a b) (segment_of c d),
      V6 0x64 0xff9b 1 0 0 0 (segment_of a b) (segment_of c d),
      V6 0x2002 (segment_of a b) (segment_of c d) 0 0 0 0 0]"

lemma segment_octets: "high_octet (segment_of a b) = a" "low_octet (segment_of a b) = b"
proof -
  have u: "unat (segment_of a b) = unat a * 256 + unat b"
    using octet [of a] octet [of b] unfolding segment_of_def unat_of_nat by simp
  have "unat (high_octet (segment_of a b)) * 256 + unat (low_octet (segment_of a b)) = unat a * 256 + unat b"
    using octets_of_segment [of "segment_of a b"] u by simp
  then show "high_octet (segment_of a b) = a" "low_octet (segment_of a b) = b"
    using digits_eq [of "unat (low_octet (segment_of a b))" 256 "unat b" "unat (high_octet (segment_of a b))" "unat a"]
      octet [of "low_octet (segment_of a b)"] octet [of b] by (simp_all add: word_unat_eq_iff)
qed

lemma carried_closed:
  assumes "v6 \<in> set (carriers v4)" "is_global_ip (IpV6 v6)"
  shows "is_global_ipv4 v4"
proof (cases v4)
  case (V4 a b c d)
  show ?thesis
    using assms unfolding V4 by (auto simp: segment_octets Let_def split: if_splits)
qed

section \<open>Guarded fetches\<close>

text \<open>
  The addresses a request of the hardened client may connect to: hyper connects to an IP literal directly and
  asks the resolver for a name.
\<close>

definition connect_targets :: "(str \<Rightarrow> str) \<Rightarrow> bool \<Rightarrow> (str \<Rightarrow> lookup_outcome) \<Rightarrow> parsed_url \<Rightarrow> str + ip_addr list" where
  "connect_targets debug allow_loopback answer url = (case ur_host url of
     Some (HostV4 ip) \<Rightarrow> Inr [IpV4 ip]
   | Some (HostV6 ip) \<Rightarrow> Inr [IpV6 ip]
   | Some (Domain host) \<Rightarrow> ssrf_resolve debug allow_loopback host (answer host)
   | None \<Rightarrow> Inr [])"

text \<open>
  C21: A guarded fetch stays public. When an endpoint passes the check, its URL has the scheme http or https, no
  user information, query or fragment, and every address a request to its host connects to is outside the
  table, whatever the name server answers and however its answer changes between requests; an address that
  carries an IPv4 address in one of the transition forms carries one outside the table. An answer with an
  address in the table is refused as a whole.
\<close>

theorem guarded_fetch_stays_public:
  assumes "validate_proxy_endpoint parse_url endpoint False = Inr ()"
  shows "(\<exists>url. parse_url endpoint = Some url \<and> ur_scheme url \<in> {''http'', ''https''} \<and> ur_username url = [] \<and>
     ur_password url = None \<and> ur_query url = None \<and> ur_fragment url = None \<and> ur_host url \<noteq> None \<and>
     (\<forall>debug answer targets ip. connect_targets debug False answer url = Inr targets \<longrightarrow> ip \<in> set targets \<longrightarrow>
        public_number ip \<and> (\<forall>v6 v4. ip = IpV6 v6 \<longrightarrow> v6 \<in> set (carriers v4) \<longrightarrow> public_number (IpV4 v4)))) \<and>
     (\<forall>debug host addrs. (\<exists>ip\<in>set addrs. \<not> public_number ip) \<longrightarrow> \<not> is_ok (ssrf_resolve debug False host (LookupOk addrs)))"
proof -
  from assms obtain url where url: "parse_url endpoint = Some url" "ur_scheme url \<in> {''http'', ''https''}"
      "ur_username url = []" "ur_password url = None" "ur_query url = None" "ur_fragment url = None" "ur_host url \<noteq> None"
      "\<And>ip. ur_host url = Some (HostV4 ip) \<Longrightarrow> ip_allowed (IpV4 ip) False"
      "\<And>ip. ur_host url = Some (HostV6 ip) \<Longrightarrow> ip_allowed (IpV6 ip) False"
    unfolding validate_proxy_endpoint_def by (auto split: option.splits if_splits url_host.splits)
  have public: "public_number ip" if t: "connect_targets debug False answer url = Inr targets" "ip \<in> set targets" for debug answer targets ip
  proof -
    have "ip_allowed ip False"
      using t url(7-9) by (auto simp: connect_targets_def ssrf_resolve_def list_all_iff split: option.splits url_host.splits lookup_outcome.splits if_splits)
    then show ?thesis by (simp add: ip_allowed_def is_global_ip_block)
  qed
  have carried: "public_number (IpV4 v4)" if "public_number (IpV6 v6)" "v6 \<in> set (carriers v4)" for v6 v4
    using carried_closed [of v6 v4] that is_global_ip_block [of "IpV6 v6"] is_global_ip_block [of "IpV4 v4"] by (metis is_global_ip.simps(1))
  have "\<not> is_ok (ssrf_resolve debug False host (LookupOk addrs))" if "\<exists>ip\<in>set addrs. \<not> public_number ip" for debug host addrs
    using that by (auto simp: ssrf_resolve_def list_all_iff ip_allowed_def is_global_ip_block)
  then show ?thesis using url(1-7) public carried by blast
qed

theorem guarded_fetch_stays_public_witness:
  "validate_proxy_endpoint (\<lambda>_. Some \<lparr> ur_scheme = ''https'', ur_username = [], ur_password = None, ur_query = None, ur_fragment = None,
      ur_host = Some (HostV4 (V4 93 184 216 34)), ur_port = None, ur_host_text = ''93.184.216.34'' \<rparr>) ''https://93.184.216.34'' False = Inr () \<and>
   public_number (IpV4 (V4 93 184 216 34))"
proof -
  let ?url = "\<lparr> ur_scheme = ''https'', ur_username = [], ur_password = None, ur_query = None, ur_fragment = None,
      ur_host = Some (HostV4 (V4 93 184 216 34)), ur_port = None, ur_host_text = ''93.184.216.34'' \<rparr>"
  have ok: "validate_proxy_endpoint (\<lambda>_. Some ?url) ''https://93.184.216.34'' False = Inr ()"
    by (simp add: validate_proxy_endpoint_def ip_allowed_def is_global_ipv4_def)
  from guarded_fetch_stays_public [OF ok, THEN conjunct1]
  have "ip \<in> set [IpV4 (V4 93 184 216 34)] \<Longrightarrow> public_number ip" for ip
    by (auto simp: connect_targets_def)
  then show ?thesis using ok by simp
qed

end
