(* ===== verification/Spec2Isabelle.thy ===== *)
theory Spec2Isabelle
  imports Prelude Ident Api_Error Record_Syntax Uri_Syntax Scope_Syntax Scopes Scope_Canonical
    Scope_Grants Shamir Shamir_Correct Rate_Limit Rate_Limit_Correct Rate_Limit_Budget Transfer_Db
    Transfer_Flow Transfer_Correct Transfer_System Data_Model Data_Model_Correct Data_Model_Blobs
    Formats Formats_Correct Plc_Ops Plc_Correct Plc_Monitor Plc_Monitor_Correct Firehose_Events
    Firehose_Log Firehose_Replay Firehose_Correct Firehose_System Firehose_Delivery Firehose_Codec
    Firehose_Service Lexicon_Schema Lexicon_Validate Lexicon_Params Lexicon_Correct Lexicon_Demo
    Lexicon_Service Lexicon_Document Lexicon_Document_Correct Lexicon_Document_Service Net_Guard
    Net_Guard_Correct Net_Guard_Service
begin

text \<open>
  A verification development for ezpds, an AT Protocol personal data server (Custos) and its identity
  wallet (Obsign). Paths are relative to \<open>src/\<close>.

  \<^bold>\<open>The program.\<close> The server (\<open>crates/pds\<close>, with \<open>crates/custos-core\<close> for authentication and
  identity and \<open>crates/custos-db\<close> for SQLite) answers XRPC and provisioning requests; the record
  engine (\<open>crates/repo-engine\<close>) stores records in a Merkle tree over DAG-CBOR blocks; the key library
  (\<open>crates/crypto\<close>) splits recovery secrets and signs did:plc operations. The wallet
  (\<open>crates/obsign-core\<close>) watches the public log of its identities. Changes to repositories and accounts
  are sequenced in a durable log and streamed to subscribers (\<open>crates/custos-firehose\<close>). A request
  passes the rate limiters, is authenticated and checked against the OAuth scope of its token, its body is
  validated against the lexicon of its method, and it reads or writes records, accounts or device transfers.

  \<^bold>\<open>Theories and sources.\<close>
  \<^item> \<open>Prelude\<close>: strings as lists of bytes, the methods of \<open>str\<close> the code uses, \<open>Result\<close> as a sum,
    sorted duplicate-free lists, and the interface \<open>simulation\<close> of a stateful component refining a
    specification.
  \<^item> \<open>Ident\<close> (\<open>crates/common/src/ident.rs\<close>), \<open>Api_Error\<close> (\<open>crates/common/src/error.rs\<close>).
  \<^item> \<open>Record_Syntax\<close>: NSIDs, record keys, TIDs and revisions (\<open>crates/repo-engine/src/records.rs\<close>,
    \<open>crates/custos-core/src/lexicon/formats.rs\<close>); \<open>Uri_Syntax\<close>: public AT-URIs and space references
    (\<open>crates/repo-engine/src/at_uri.rs\<close>, \<open>crates/custos-core/src/space_uri.rs\<close>).
  \<^item> \<open>Data_Model\<close>, \<open>Data_Model_Correct\<close>, \<open>Data_Model_Blobs\<close>: JSON records, their conversion to the
    stored value space and back, the acceptance check and the blob walk
    (\<open>crates/repo-engine/src/records.rs\<close>, \<open>data_model.rs\<close>).
  \<^item> \<open>Formats\<close>, \<open>Formats_Correct\<close>: datetimes (\<open>crates/repo-engine/src/datetime.rs\<close>), the lexicon string
    formats and the write-time record check (\<open>crates/custos-core/src/auth/validation.rs\<close>).
  \<^item> \<open>Scope_Syntax\<close>, \<open>Scopes\<close>, \<open>Scope_Canonical\<close>, \<open>Scope_Grants\<close>: the OAuth scope language, its
    canonical form and its enforcement (\<open>crates/custos-core/src/auth/oauth_scopes.rs\<close>).
  \<^item> \<open>Shamir\<close>, \<open>Shamir_Correct\<close>: secret sharing over GF(2^8), the share envelope and its codings
    (\<open>crates/crypto/src/shamir.rs\<close>, \<open>mnemonic.rs\<close>).
  \<^item> \<open>Rate_Limit\<close>, \<open>Rate_Limit_Correct\<close>, \<open>Rate_Limit_Budget\<close>: the login lockout, the multi-window
    limiter, the limiter set and its middleware (\<open>crates/custos-core/src/auth/rate_limit.rs\<close>,
    \<open>crates/custos-core/src/rate_limit.rs\<close>).
  \<^item> \<open>Transfer_Db\<close> (\<open>crates/custos-db/src/transfers.rs\<close> and the migrations V027, V029, V030: a table is
    the list of its rows, a statement a function on the record \<open>db\<close>, a constraint an error value),
    \<open>Transfer_Flow\<close> (the workflows of \<open>crates/pds/src/transfer.rs\<close> and the handlers
    \<open>routes/transfer_*.rs\<close>), \<open>Transfer_Correct\<close>, \<open>Transfer_System\<close> (the handlers as steps of a state
    machine, its invariant and the life of a transfer).
  \<^item> \<open>Plc_Ops\<close>, \<open>Plc_Correct\<close>: did:plc operations, built and verified (\<open>crates/crypto/src/plc.rs\<close>).
  \<^item> \<open>Plc_Monitor\<close>, \<open>Plc_Monitor_Correct\<close>: the wallet's watch over the public log of its identities,
    its sweeps and their history (\<open>crates/obsign-core/src/plc_monitor.rs\<close>, \<open>identity_store.rs\<close>).
  \<^item> \<open>Firehose_Events\<close>, \<open>Firehose_Log\<close>, \<open>Firehose_Replay\<close>: the events of the stream and their encodings, the
    durable log with its sequencer and retention sweep, cursor replay and the subscriber's socket
    (\<open>crates/custos-core/src/firehose\<close>, \<open>crates/custos-db/src/firehose_seq.rs\<close>,
    \<open>crates/custos-firehose/src\<close>); \<open>Firehose_Correct\<close>, \<open>Firehose_System\<close>, \<open>Firehose_Delivery\<close>,
    \<open>Firehose_Codec\<close>, \<open>Firehose_Service\<close>: codec lemmas, the composed step function, its invariants, a
    concrete codec, and the properties.
  \<^item> \<open>Lexicon_Schema\<close> (the schema parser), \<open>Lexicon_Validate\<close> (the registry, its reference check and the
    validator), \<open>Lexicon_Params\<close> (query strings and bodies), all of \<open>crates/custos-core/src/lexicon\<close>;
    \<open>Lexicon_Correct\<close>, \<open>Lexicon_Demo\<close>, \<open>Lexicon_Service\<close>: the declarative conformance of a value to a
    schema, a concrete library and registry, and the properties.
  \<^item> \<open>Lexicon_Document\<close>, \<open>Lexicon_Document_Correct\<close>, \<open>Lexicon_Document_Service\<close>: the checks over lexicon
    documents of third parties (\<open>crates/repo-engine/src/lexicon.rs\<close>), kept as JSON as in the code.
  \<^item> \<open>Net_Guard\<close>, \<open>Net_Guard_Correct\<close>, \<open>Net_Guard_Service\<close>: the guard on requests whose target a caller
    names (\<open>crates/custos-core/src/identity/proxy.rs\<close>), its allowlist as a table of address blocks.

  \<^bold>\<open>What the lemmas show.\<close> Each component has lemmas for every branch of its operations, an invariant
  or a grammar it implements, and its properties over those. The limiter and the lockout are
  interpretations of \<open>simulation\<close>: with pruning and sweeping they decide like a log that forgets
  nothing. The enforcement functions are interpretations of \<open>token_wise\<close>: a scope string grants what
  one of its tokens grants. The byte arithmetic is an interpretation of \<open>char2_field\<close>. The transfer
  handlers preserve the database invariant, shown by rule induction over the reachable databases.
  Built did:plc operations verify and identify themselves; the monitor leaves no foreign operation
  unreported, and its bounded history, an interpretation of \<open>simulation\<close>, shows the passes of the full log
  that the next one did not repeat.
  The firehose is one step function over emissions, staged transactions, sweep phases, page reads and
  socket branches in any order; two invariants, one of the log and one of the subscriber, give that a
  subscriber misses only pruned events and that its replay ends.
  The lexicon validator accepts exactly the values of the inductive predicate \<open>conforms\<close>; a registry is built
  exactly when its references resolve and are not recursive.
  A checked third-party document validates records like the inductive predicate \<open>doc_conforms\<close>; the address
  guard decides like a table of blocks in prefix notation.

  \<^bold>\<open>Parameters.\<close> What is not in the repository is an argument: the CID parser and printer, base64 and
  base32, the RFC 3339 parser (its UTC year), SHA-256, random bytes and codes, the clock
  (one reading per statement, in order where a theorem needs it), the Unicode case tables, and which of
  several violated unique constraints SQLite reports. Theorems that rely on one name the law they use.
  The libraries under the did:plc operations (CBOR, JSON text, base32, base64, multibase, SHA-256, the two
  curves) are the fields of the record \<open>plc_lib\<close>; the predicate \<open>lawful\<close> states what the round trips use
  of them, and a concrete instance satisfies it.
  For the firehose they are the fields of \<open>event_lib\<close>; the predicate \<open>event_codec\<close> says that DAG-CBOR
  values without floats, their integers in the range of i64 and u64, encode and decode to themselves with
  map entries in key order, and \<open>demo_lib\<close> satisfies it. Tokio's broadcast channel is the list of what was sent, with a receiver position and a lag
  beyond the capacity. Steps of tasks interleave at the code's suspension points.
  For the lexicons they are the fields of \<open>lex_lib\<close>: the JSON parser, the debug form of a string, grapheme
  count, CID and year parsers, the text of a JSON value and URL decoding.
  For third-party documents they are the fields of \<open>document_lib\<close>. Addresses are octets and 16-bit segments as
  in \<open>std::net\<close>; a parsed URL is the record of the parts the code reads.

  \<^bold>\<open>Bounds and fuel.\<close> Revisions and TIDs are 64-bit words, shares 8-bit words; durations are natural
  numbers of nanoseconds, since the code holds them in \<open>Instant\<close> and \<open>Duration\<close>. The TID and field
  multiplication loops run a fixed number of rounds (13 and 8), as in the code. Retry loops carry the
  code's own attempt limit; every other loop is structural or has a measure.
  \<open>walk\<close> and \<open>validate\<close> carry as fuel the number of references followed in a row, and \<open>None\<close> says that
  it does not suffice; after a build with fuel n every validation comes back with any fuel from n on.
  \<open>check_schema\<close> has the same fuel; the size of the record suffices once the document has been checked.

  \<^bold>\<open>Not modelled.\<close> Network and file I/O, the HTTP framework and its extractors, tracing, signatures and
  hashes (third-party), the Merkle tree (a vendored crate), the SQL statements outside the tables above,
  the iOS bridge and the user interfaces. Left out although they hold logic of their own, because most of
  it lies between calls of these parts: configuration, permission sets, identity resolution behind the
  address guard, the CAR format, request authentication, the OAuth and space endpoints, and the migration
  and recovery orchestration of \<open>crates/obsign-core\<close>.
\<close>

end
